(* ===== verification/Pg_Prelude.thy ===== *)
theory Pg_Prelude
  imports Main "HOL-Library.Word"
begin

text \<open>
  What every component of the development shares: the machine types of the C code, the
  generic facts about words, lists and options that the component proofs use, and the
  collections of rewrite rules the automation is given.
\<close>

unbundle bit_operations_syntax

section \<open>Machine types\<close>

type_synonym uint8 = "8 word"
type_synonym uint16 = "16 word"
type_synonym uint32 = "32 word"
type_synonym uint64 = "64 word"

section \<open>Words read as signed numbers\<close>

text \<open>
  The C idiom \<open>(int32) (a - b)\<close> reads the wrapped difference of two unsigned numbers in
  two's complement. Where both lie in the lower half of the range it is the true difference.
\<close>

lemma uint_less_of_unat: "unat p < n \<Longrightarrow> uint p < int n"
  by (metis of_nat_less_iff uint_nat)

lemma sint_diff_lower_half:
  fixes p q :: uint32
  assumes "unat p < 2 ^ 31" and "unat q < 2 ^ 31"
  shows "sint (p - q) = int (unat p) - int (unat q)"
proof -
  have "uint p < 2 ^ 31" and "uint q < 2 ^ 31"
    using assms [THEN uint_less_of_unat] by simp_all
  moreover have "0 \<le> uint p" and "0 \<le> uint q"
    by simp_all
  ultimately have eq: "signed_take_bit 31 (uint p - uint q) = uint p - uint q"
    by (intro signed_take_bit_int_eq_self) linarith+
  have "sint (p - q) = sint (word_of_int (uint p - uint q) :: uint32)"
    by simp
  also have "\<dots> = signed_take_bit 31 (uint p - uint q)"
    by (simp only: sint_sbintrunc') simp
  finally show ?thesis
    by (simp add: eq)
qed

lemma bit_31_iff: "bit (w :: uint32) 31 \<longleftrightarrow> 2 ^ 31 \<le> unat w"
proof -
  have "bit w 31 \<longleftrightarrow> bit (unat w) 31"
    by (simp add: bit_unsigned_iff)
  also have "\<dots> \<longleftrightarrow> odd (unat w div 2 ^ 31)"
    by (simp add: bit_iff_odd)
  also have "\<dots> \<longleftrightarrow> unat w div 2 ^ 31 = 1"
  proof -
    have "unat w < 2 * 2 ^ 31"
      using unsigned_less [of w, where ?'a = nat] by simp
    then have "unat w div 2 ^ 31 < 2"
      by (rule less_mult_imp_div_less)
    then show ?thesis
      by (auto simp: less_2_cases_iff)
  qed
  also have "\<dots> \<longleftrightarrow> 2 ^ 31 \<le> unat w"
    using unsigned_less [of w, where ?'a = nat] by (auto simp: div_nat_eqI not_less)
  finally show ?thesis .
qed

lemma less_3_word_iff: "(w :: uint32) < 3 \<longleftrightarrow> w = 0 \<or> w = 1 \<or> w = 2"
proof -
  have "unat w < 3 \<longleftrightarrow> unat w = 0 \<or> unat w = 1 \<or> unat w = 2"
    by arith
  then show ?thesis
    by (simp add: word_less_nat_alt word_eq_iff_unsigned [where ?'a = nat])
qed

lemma sint_neg_iff: "sint (w :: uint32) < 0 \<longleftrightarrow> 2 ^ 31 \<le> unat w"
  using bit_31_iff [of w] by (simp add: sint_uint bit_uint_iff)

lemma neg_1_uint32: "(- 1 :: uint32) = 0xFFFFFFFF"
  by simp

lemma neg_1_uint16: "(- 1 :: uint16) = 0xFFFF"
  by simp

section \<open>Truncation from 64 to 32 bits\<close>

lemma ucast_64_32_add: "(ucast (v + w :: uint64) :: uint32) = ucast v + ucast w"
proof -
  have "(ucast (v + w) :: uint32) = word_of_int (uint (v + w))"
    by simp
  also have "\<dots> = word_of_int (uint v + uint w)"
    by (rule word_of_int_eq_iff [THEN iffD2])
       (simp add: uint_word_ariths take_bit_eq_mod mod_mod_cancel)
  finally show ?thesis
    by simp
qed

lemma ucast_64_32_sub: "(ucast (v - w :: uint64) :: uint32) = ucast v - ucast w"
  using ucast_64_32_add [of "v - w" w] by simp

lemma ucast_scast_32: "(ucast (scast (w :: uint32) :: uint64) :: uint32) = w"
proof (rule bit_word_eqI)
  fix n :: nat
  assume "n < LENGTH(32)"
  then have "n < 31 \<or> n = 31" by auto
  then show "bit (ucast (scast w :: uint64) :: uint32) n = bit w n" by (auto simp: bit_simps)
qed

lemma sint_eq_0_iff: "sint (w :: uint32) = 0 \<longleftrightarrow> w = 0"
  by (metis signed_0 signed_word_eqI)

end
