(* ===== verification/Xid_Arith.thy ===== *)
theory Xid_Arith
  imports Pg_Prelude
begin

text \<open>
  Transaction identifiers: the special values and macros of
  \<^verbatim>\<open>src/include/access/transam.h\<close>, the wrap-around comparisons of
  \<^verbatim>\<open>src/backend/access/transam/transam.c\<close>, and 64-bit full transaction ids. An xid is
  a 32-bit number on a circle: each normal xid has half of the circle in its past and half in
  its future.
\<close>

section \<open>Identifiers and special values\<close>

type_synonym TransactionId = uint32

definition InvalidTransactionId :: TransactionId where
  "InvalidTransactionId = 0"

definition BootstrapTransactionId :: TransactionId where
  "BootstrapTransactionId = 1"

definition FrozenTransactionId :: TransactionId where
  "FrozenTransactionId = 2"

definition FirstNormalTransactionId :: TransactionId where
  "FirstNormalTransactionId = 3"

definition TransactionIdIsValid :: "TransactionId \<Rightarrow> bool" where
  "TransactionIdIsValid xid \<longleftrightarrow> xid \<noteq> InvalidTransactionId"

definition TransactionIdIsNormal :: "TransactionId \<Rightarrow> bool" where
  "TransactionIdIsNormal xid \<longleftrightarrow> xid \<ge> FirstNormalTransactionId"

lemmas xid_consts = InvalidTransactionId_def BootstrapTransactionId_def
  FrozenTransactionId_def FirstNormalTransactionId_def

section \<open>Comparisons modulo \<open>2 ^ 32\<close>\<close>

definition TransactionIdPrecedes :: "TransactionId \<Rightarrow> TransactionId \<Rightarrow> bool" where
  "TransactionIdPrecedes id1 id2 =
     (if \<not> TransactionIdIsNormal id1 \<or> \<not> TransactionIdIsNormal id2 then id1 < id2
      else let diff = sint (id1 - id2) in diff < 0)"

definition TransactionIdPrecedesOrEquals :: "TransactionId \<Rightarrow> TransactionId \<Rightarrow> bool" where
  "TransactionIdPrecedesOrEquals id1 id2 =
     (if \<not> TransactionIdIsNormal id1 \<or> \<not> TransactionIdIsNormal id2 then id1 \<le> id2
      else let diff = sint (id1 - id2) in diff \<le> 0)"

definition TransactionIdFollows :: "TransactionId \<Rightarrow> TransactionId \<Rightarrow> bool" where
  "TransactionIdFollows id1 id2 =
     (if \<not> TransactionIdIsNormal id1 \<or> \<not> TransactionIdIsNormal id2 then id1 > id2
      else let diff = sint (id1 - id2) in diff > 0)"

definition TransactionIdFollowsOrEquals :: "TransactionId \<Rightarrow> TransactionId \<Rightarrow> bool" where
  "TransactionIdFollowsOrEquals id1 id2 =
     (if \<not> TransactionIdIsNormal id1 \<or> \<not> TransactionIdIsNormal id2 then id1 \<ge> id2
      else let diff = sint (id1 - id2) in diff \<ge> 0)"

text \<open>The loop scans the children from the last to the first.\<close>

definition TransactionIdLatest :: "TransactionId \<Rightarrow> TransactionId list \<Rightarrow> TransactionId" where
  "TransactionIdLatest mainxid xids =
     foldr (\<lambda>x result. if TransactionIdPrecedes result x then x else result) xids mainxid"

section \<open>Advancing and retreating\<close>

definition TransactionIdAdvance :: "TransactionId \<Rightarrow> TransactionId" where
  "TransactionIdAdvance dest =
     (let dest = dest + 1 in
      if dest < FirstNormalTransactionId then FirstNormalTransactionId else dest)"

text \<open>
  \<open>do dest--; while (dest < FirstNormalTransactionId)\<close>: the body runs at most four times,
  since 0, 1 and 2 are the only values the guard accepts.
\<close>

function retreat_loop :: "TransactionId \<Rightarrow> TransactionId" where
  "retreat_loop dest =
     (if dest < FirstNormalTransactionId then retreat_loop (dest - 1) else dest)"
  by pat_completeness auto
termination
proof (relation "measure (\<lambda>d. if d < FirstNormalTransactionId then Suc (unat d) else 0)")
  fix d :: TransactionId
  assume "d < FirstNormalTransactionId"
  then show "(d - 1, d) \<in> measure (\<lambda>d. if d < FirstNormalTransactionId then Suc (unat d) else 0)"
    by (auto simp: FirstNormalTransactionId_def less_3_word_iff)
qed simp

declare retreat_loop.simps [simp del]

definition TransactionIdRetreat :: "TransactionId \<Rightarrow> TransactionId" where
  "TransactionIdRetreat dest = retreat_loop (dest - 1)"

section \<open>Full transaction ids\<close>

text \<open>A 64-bit count of transactions: the epoch in the upper half, the xid in the lower.\<close>

record FullTransactionId =
  full_value :: uint64

definition FullTransactionIdFromEpochAndXid :: "uint32 \<Rightarrow> TransactionId \<Rightarrow> FullTransactionId" where
  "FullTransactionIdFromEpochAndXid epoch xid =
     \<lparr> full_value = push_bit 32 (ucast epoch) OR ucast xid \<rparr>"

definition FullTransactionIdFromU64 :: "uint64 \<Rightarrow> FullTransactionId" where
  "FullTransactionIdFromU64 v = \<lparr> full_value = v \<rparr>"

definition EpochFromFullTransactionId :: "FullTransactionId \<Rightarrow> uint32" where
  "EpochFromFullTransactionId x = ucast (drop_bit 32 (full_value x))"

definition XidFromFullTransactionId :: "FullTransactionId \<Rightarrow> TransactionId" where
  "XidFromFullTransactionId x = ucast (full_value x)"

definition FullTransactionIdPrecedes :: "FullTransactionId \<Rightarrow> FullTransactionId \<Rightarrow> bool" where
  "FullTransactionIdPrecedes a b \<longleftrightarrow> full_value a < full_value b"

definition FullTransactionIdFollowsOrEquals ::
  "FullTransactionId \<Rightarrow> FullTransactionId \<Rightarrow> bool" where
  "FullTransactionIdFollowsOrEquals a b \<longleftrightarrow> full_value a \<ge> full_value b"

definition FullTransactionIdIsValid :: "FullTransactionId \<Rightarrow> bool" where
  "FullTransactionIdIsValid x \<longleftrightarrow> TransactionIdIsValid (XidFromFullTransactionId x)"

definition FirstNormalFullTransactionId :: FullTransactionId where
  "FirstNormalFullTransactionId = FullTransactionIdFromEpochAndXid 0 FirstNormalTransactionId"

function full_advance_loop :: "uint64 \<Rightarrow> uint64" where
  "full_advance_loop v =
     (if (ucast v :: TransactionId) < FirstNormalTransactionId then full_advance_loop (v + 1)
      else v)"
  by pat_completeness auto
termination
proof (relation "measure (\<lambda>v. unat (3 - (ucast v :: TransactionId)))")
  fix v :: uint64
  assume "(ucast v :: TransactionId) < FirstNormalTransactionId"
  moreover have "(ucast (v + 1) :: TransactionId) = ucast v + 1"
    by (simp add: ucast_64_32_add)
  ultimately show "(v + 1, v) \<in> measure (\<lambda>v. unat (3 - (ucast v :: TransactionId)))"
    by (auto simp: FirstNormalTransactionId_def less_3_word_iff)
qed simp

declare full_advance_loop.simps [simp del]

definition FullTransactionIdAdvance :: "FullTransactionId \<Rightarrow> FullTransactionId" where
  "FullTransactionIdAdvance dest =
     (let dest = dest\<lparr> full_value := full_value dest + 1 \<rparr> in
      if FullTransactionIdPrecedes dest FirstNormalFullTransactionId then dest
      else dest\<lparr> full_value := full_advance_loop (full_value dest) \<rparr>)"

function full_retreat_loop :: "uint64 \<Rightarrow> uint64" where
  "full_retreat_loop v =
     (if (ucast v :: TransactionId) < FirstNormalTransactionId then full_retreat_loop (v - 1)
      else v)"
  by pat_completeness auto
termination
proof (relation "measure (\<lambda>v. let x = (ucast v :: TransactionId) in
                   if x < FirstNormalTransactionId then Suc (unat x) else 0)")
  fix v :: uint64
  assume "(ucast v :: TransactionId) < FirstNormalTransactionId"
  moreover have "(ucast (v - 1) :: TransactionId) = ucast v - 1"
    by (simp add: ucast_64_32_sub)
  ultimately show "(v - 1, v) \<in> measure (\<lambda>v. let x = (ucast v :: TransactionId) in
                   if x < FirstNormalTransactionId then Suc (unat x) else 0)"
    by (auto simp: FirstNormalTransactionId_def less_3_word_iff Let_def)
qed simp

declare full_retreat_loop.simps [simp del]

definition FullTransactionIdRetreat :: "FullTransactionId \<Rightarrow> FullTransactionId" where
  "FullTransactionIdRetreat dest =
     (let dest = dest\<lparr> full_value := full_value dest - 1 \<rparr> in
      if FullTransactionIdPrecedes dest FirstNormalFullTransactionId then dest
      else dest\<lparr> full_value := full_retreat_loop (full_value dest) \<rparr>)"

text \<open>
  \<open>FullXidRelativeTo\<close> of \<^verbatim>\<open>procarray.c\<close> adds the signed 32-bit distance of the two
  xids to the full id, sign-extended to 64 bits.
\<close>

definition FullXidRelativeTo :: "FullTransactionId \<Rightarrow> TransactionId \<Rightarrow> FullTransactionId" where
  "FullXidRelativeTo rel xid =
     (let rel_xid = XidFromFullTransactionId rel in
      FullTransactionIdFromU64 (full_value rel + scast (xid - rel_xid)))"

lemma Xid_of_relative: "XidFromFullTransactionId (FullXidRelativeTo rel x) = x"
  by (simp add: XidFromFullTransactionId_def FullXidRelativeTo_def FullTransactionIdFromU64_def Let_def
      ucast_64_32_add ucast_scast_32)

section \<open>Windows: where the circular order is linear\<close>

text \<open>
  The xids a running system compares all lie within half a turn of some base (the oldest xid
  still in use). \<open>xid_window b\<close> is the half circle that starts at \<open>b\<close>; on it the four
  comparisons are the order of the distances from \<open>b\<close>.
\<close>

definition xid_dist :: "TransactionId \<Rightarrow> TransactionId \<Rightarrow> nat" where
  "xid_dist b x = unat (x - b)"

definition xid_window :: "TransactionId \<Rightarrow> TransactionId \<Rightarrow> bool" where
  "xid_window b x \<longleftrightarrow> TransactionIdIsNormal x \<and> xid_dist b x < 2 ^ 31"

lemma xid_dist_inject [simp]: "xid_dist b x = xid_dist b y \<longleftrightarrow> x = y"
  by (auto simp: xid_dist_def dest!: unsigned_word_eqI)

lemma sint_diff_window:
  assumes "xid_window b x" and "xid_window b y"
  shows "sint (x - y) = int (xid_dist b x) - int (xid_dist b y)"
proof -
  have "sint ((x - b) - (y - b)) = int (unat (x - b)) - int (unat (y - b))"
    using assms by (intro sint_diff_lower_half) (simp_all add: xid_window_def xid_dist_def)
  then show ?thesis
    by (simp add: xid_dist_def)
qed

lemma window_precedes [simp]:
  assumes "xid_window b x" and "xid_window b y"
  shows "TransactionIdPrecedes x y \<longleftrightarrow> xid_dist b x < xid_dist b y"
    and "TransactionIdPrecedesOrEquals x y \<longleftrightarrow> xid_dist b x \<le> xid_dist b y"
    and "TransactionIdFollows x y \<longleftrightarrow> xid_dist b x > xid_dist b y"
    and "TransactionIdFollowsOrEquals x y \<longleftrightarrow> xid_dist b x \<ge> xid_dist b y"
  using assms sint_diff_window [OF assms]
  by (auto simp: xid_window_def TransactionIdPrecedes_def TransactionIdPrecedesOrEquals_def
      TransactionIdFollows_def TransactionIdFollowsOrEquals_def)

lemma xid_window_iff:
  "TransactionIdIsNormal b \<Longrightarrow> TransactionIdIsNormal x \<Longrightarrow>
     xid_window b x \<longleftrightarrow> \<not> TransactionIdPrecedes x b"
  by (simp add: xid_window_def xid_dist_def TransactionIdPrecedes_def sint_neg_iff not_le)


text \<open>
  C40: Within half a turn of a common base the four wrap-around comparisons are exactly the
  linear order of the distances from that base: \<open>Precedes\<close> is \<open><\<close>, \<open>PrecedesOrEquals\<close> is
  \<open>\<le>\<close>, \<open>Follows\<close> is \<open>>\<close> and \<open>FollowsOrEquals\<close> is \<open>\<ge>\<close>, whatever the wrap-around of the
  32-bit values.
\<close>

theorem xid_comparisons_linear:
  assumes "xid_window b x" and "xid_window b y"
  shows "(TransactionIdPrecedes x y \<longleftrightarrow> unat (x - b) < unat (y - b)) \<and>
         (TransactionIdPrecedesOrEquals x y \<longleftrightarrow> unat (x - b) \<le> unat (y - b)) \<and>
         (TransactionIdFollows x y \<longleftrightarrow> unat (x - b) > unat (y - b)) \<and>
         (TransactionIdFollowsOrEquals x y \<longleftrightarrow> unat (x - b) \<ge> unat (y - b))"
  using assms by (simp add: xid_dist_def)

theorem xid_comparisons_linear_witness:
  "xid_window 0xFFFFFFF0 0xFFFFFFF5 \<and> xid_window 0xFFFFFFF0 7 \<and>
   TransactionIdPrecedes 0xFFFFFFF5 7"
proof -
  have w: "xid_window 0xFFFFFFF0 0xFFFFFFF5" "xid_window 0xFFFFFFF0 7"
    by (simp_all add: xid_window_def xid_dist_def TransactionIdIsNormal_def xid_consts)
  show ?thesis
    using w xid_comparisons_linear [OF w] by simp
qed

section \<open>Stepping through the identifiers\<close>

lemma normal_not_special: "TransactionIdIsNormal x \<Longrightarrow> x \<noteq> 0 \<and> x \<noteq> 1 \<and> x \<noteq> 2"
  using less_3_word_iff [of x]
  by (auto simp: TransactionIdIsNormal_def xid_consts simp flip: not_less)

lemma advance_not_wrapping:
  assumes "TransactionIdIsNormal x" and "x \<noteq> - 1"
  shows "TransactionIdAdvance x = x + 1" and "TransactionIdIsNormal (x + 1)"
proof -
  have "\<not> x + 1 < 3"
    using assms normal_not_special [of x] by (auto simp: less_3_word_iff add_eq_0_iff2)
  then show "TransactionIdAdvance x = x + 1" and "TransactionIdIsNormal (x + 1)"
    by (simp_all add: TransactionIdAdvance_def Let_def TransactionIdIsNormal_def xid_consts
        not_less [symmetric])
qed

lemma advance_precedes:
  assumes "TransactionIdIsNormal x"
  shows "TransactionIdPrecedes x (TransactionIdAdvance x)"
proof (cases "x = - 1")
  case True
  then show ?thesis
    by (simp add: TransactionIdPrecedes_def TransactionIdAdvance_def xid_consts
        TransactionIdIsNormal_def)
next
  case False
  with assms advance_not_wrapping [OF assms False] show ?thesis
    by (simp add: TransactionIdPrecedes_def)
qed

lemma retreat_advance:
  assumes "TransactionIdIsNormal x"
  shows "TransactionIdRetreat (TransactionIdAdvance x) = x"
proof (cases "x = - 1")
  case True
  then show ?thesis
    by (simp add: TransactionIdRetreat_def TransactionIdAdvance_def xid_consts
        retreat_loop.simps)
next
  case False
  with assms advance_not_wrapping [OF assms False] show ?thesis
    by (simp add: TransactionIdRetreat_def retreat_loop.simps [of x] TransactionIdIsNormal_def
        not_less [symmetric])
qed

lemma advance_retreat:
  assumes "TransactionIdIsNormal x"
  shows "TransactionIdAdvance (TransactionIdRetreat x) = x"
proof (cases "x = 3")
  case True
  then show ?thesis
    by (simp add: TransactionIdRetreat_def TransactionIdAdvance_def xid_consts
        retreat_loop.simps)
next
  case False
  then have "\<not> x - 1 < 3"
    using assms normal_not_special [of x] by (auto simp: less_3_word_iff diff_eq_eq)
  with assms show ?thesis
    by (simp add: TransactionIdRetreat_def retreat_loop.simps [of "x - 1"]
        TransactionIdAdvance_def Let_def TransactionIdIsNormal_def xid_consts not_less [symmetric])
qed

text \<open>
  Advancing a normal xid yields a normal xid that logically follows it, stepping over the
  special values on wrap-around, and \<open>TransactionIdRetreat\<close> is its exact inverse in both
  directions.
\<close>

theorem xid_advance_retreat:
  assumes "TransactionIdIsNormal x"
  shows "TransactionIdIsNormal (TransactionIdAdvance x) \<and>
         TransactionIdPrecedes x (TransactionIdAdvance x) \<and>
         TransactionIdRetreat (TransactionIdAdvance x) = x \<and>
         TransactionIdAdvance (TransactionIdRetreat x) = x"
proof -
  have "TransactionIdIsNormal (TransactionIdAdvance x)"
    by (simp add: TransactionIdAdvance_def TransactionIdIsNormal_def Let_def not_less)
  with assms show ?thesis
    by (simp add: advance_precedes retreat_advance advance_retreat)
qed

theorem xid_advance_retreat_witness:
  "TransactionIdIsNormal 0xFFFFFFFF \<and> TransactionIdPrecedes 0xFFFFFFFF (TransactionIdAdvance 0xFFFFFFFF)"
proof -
  have n: "TransactionIdIsNormal 0xFFFFFFFF"
    by (simp add: TransactionIdIsNormal_def xid_consts)
  show ?thesis
    using n xid_advance_retreat [OF n] by simp
qed

section \<open>The latest of a set of xids\<close>

lemma TransactionIdLatest_mem: "TransactionIdLatest m xs \<in> insert m (set xs)"
  unfolding TransactionIdLatest_def by (induction xs) auto

text \<open>
  \<open>TransactionIdLatest\<close> returns one of the xids it was given, and every one of them
  precedes or equals it, as long as they share a window.
\<close>

theorem TransactionIdLatest_is_latest:
  assumes "xid_window b m" and "\<forall>x \<in> set xs. xid_window b x" and "y \<in> insert m (set xs)"
  shows "TransactionIdLatest m xs \<in> insert m (set xs) \<and>
         TransactionIdPrecedesOrEquals y (TransactionIdLatest m xs)"
  using assms
proof (induction xs)
  case Nil
  then show ?case by (simp add: TransactionIdLatest_def)
next
  case (Cons a xs)
  have "xid_window b (TransactionIdLatest m xs)"
    using TransactionIdLatest_mem [of m xs] Cons.prems by auto
  then have "TransactionIdPrecedesOrEquals y (TransactionIdLatest m (a # xs))"
    using Cons by (simp add: TransactionIdLatest_def) fastforce
  with TransactionIdLatest_mem show ?case by blast
qed

theorem TransactionIdLatest_is_latest_witness:
  "TransactionIdPrecedesOrEquals 0xFFFFFFF5 (TransactionIdLatest 0xFFFFFFF5 [9, 5])"
  by (rule TransactionIdLatest_is_latest [where b = "0xFFFFFFF0", THEN conjunct2])
     (simp_all add: xid_window_def xid_dist_def TransactionIdIsNormal_def xid_consts)

section \<open>Full transaction ids\<close>

lemma bit_uint32_bound: "bit (x :: uint32) n \<Longrightarrow> n < 32"
  using bit_imp_le_length [of x n] by simp

text \<open>
  Packing an epoch and an xid into a full transaction id loses nothing: both are read
  back unchanged.
\<close>

theorem FullTransactionId_roundtrip:
  "EpochFromFullTransactionId (FullTransactionIdFromEpochAndXid e x) = e \<and>
   XidFromFullTransactionId (FullTransactionIdFromEpochAndXid e x) = x"
  unfolding EpochFromFullTransactionId_def FullTransactionIdFromEpochAndXid_def
    XidFromFullTransactionId_def
  by (auto intro!: bit_word_eqI simp: bit_simps dest: bit_uint32_bound)

lemma scast_small:
  assumes "- (2 ^ 31) \<le> k" and "k < 2 ^ 31"
  shows "(scast (word_of_int k :: uint32) :: uint64) = word_of_int k"
proof -
  have "sint (word_of_int k :: uint32) = k"
    using assms by (simp add: sint_sbintrunc' signed_take_bit_int_eq_self)
  then show ?thesis
    by (metis of_int_sint)
qed

text \<open>
  \<open>FullXidRelativeTo\<close> recovers the 64-bit id of a transaction from its 32-bit xid
  whenever that id lies within half a turn of the reference, in either direction, also across
  an epoch boundary.
\<close>

theorem FullXidRelativeTo_recovers:
  assumes "- (2 ^ 31) \<le> uint (full_value fx) - uint (full_value rel)"
    and "uint (full_value fx) - uint (full_value rel) < 2 ^ 31"
  shows "FullXidRelativeTo rel (XidFromFullTransactionId fx) = fx"
proof -
  let ?k = "uint (full_value fx) - uint (full_value rel)"
  have "XidFromFullTransactionId fx - XidFromFullTransactionId rel
      = (ucast (full_value fx - full_value rel) :: uint32)"
    by (simp add: XidFromFullTransactionId_def ucast_64_32_sub)
  also have "\<dots> = word_of_int ?k"
    by (simp add: ucast_64_32_sub)
  finally have "scast (XidFromFullTransactionId fx - XidFromFullTransactionId rel)
      = (word_of_int ?k :: uint64)"
    using scast_small [OF assms] by simp
  then show ?thesis
    by (simp add: FullXidRelativeTo_def Let_def FullTransactionIdFromU64_def)
qed

theorem FullXidRelativeTo_recovers_witness:
  "FullXidRelativeTo \<lparr> full_value = 0x100000005 \<rparr>
     (XidFromFullTransactionId \<lparr> full_value = 0xFFFFFFF0 \<rparr>) = \<lparr> full_value = 0xFFFFFFF0 \<rparr>"
  by (rule FullXidRelativeTo_recovers) simp_all

end
