(* ===== verification/Item_Pointer.thy ===== *)
theory Item_Pointer
  imports Pg_Prelude
begin

text \<open>
  Item pointers: a block number (stored as two 16-bit halves) and an offset within the block,
  from \<^verbatim>\<open>src/include/storage/block.h\<close>, \<^verbatim>\<open>src/include/storage/itemptr.h\<close> and
  \<^verbatim>\<open>src/backend/storage/page/itemptr.c\<close>.
\<close>

type_synonym BlockNumber = uint32
type_synonym OffsetNumber = uint16

record BlockIdData =
  bi_hi :: uint16
  bi_lo :: uint16

record ItemPointerData =
  ip_blkid :: BlockIdData
  ip_posid :: OffsetNumber

definition InvalidBlockNumber :: BlockNumber where
  "InvalidBlockNumber = 0xFFFFFFFF"

definition PG_UINT16_MAX :: uint16 where
  "PG_UINT16_MAX = 0xFFFF"

definition SpecTokenOffsetNumber :: OffsetNumber where
  "SpecTokenOffsetNumber = 0xfffe"

definition MovedPartitionsOffsetNumber :: OffsetNumber where
  "MovedPartitionsOffsetNumber = 0xfffd"

definition BlockIdSet :: "BlockNumber \<Rightarrow> BlockIdData" where
  "BlockIdSet blockNumber =
     \<lparr> bi_hi = ucast (drop_bit 16 blockNumber), bi_lo = ucast (blockNumber AND 0xffff) \<rparr>"

definition BlockIdGetBlockNumber :: "BlockIdData \<Rightarrow> BlockNumber" where
  "BlockIdGetBlockNumber b = push_bit 16 (ucast (bi_hi b)) OR ucast (bi_lo b)"

definition ItemPointerIsValid :: "ItemPointerData \<Rightarrow> bool" where
  "ItemPointerIsValid p \<longleftrightarrow> ip_posid p \<noteq> 0"

definition ItemPointerGetBlockNumber :: "ItemPointerData \<Rightarrow> BlockNumber" where
  "ItemPointerGetBlockNumber p = BlockIdGetBlockNumber (ip_blkid p)"

definition ItemPointerGetOffsetNumber :: "ItemPointerData \<Rightarrow> OffsetNumber" where
  "ItemPointerGetOffsetNumber p = ip_posid p"

definition ItemPointerSet :: "BlockNumber \<Rightarrow> OffsetNumber \<Rightarrow> ItemPointerData" where
  "ItemPointerSet blockNumber offNum = \<lparr> ip_blkid = BlockIdSet blockNumber, ip_posid = offNum \<rparr>"

definition ItemPointerIndicatesMovedPartitions :: "ItemPointerData \<Rightarrow> bool" where
  "ItemPointerIndicatesMovedPartitions p \<longleftrightarrow>
     ItemPointerGetOffsetNumber p = MovedPartitionsOffsetNumber \<and>
     ItemPointerGetBlockNumber p = InvalidBlockNumber"

definition ItemPointerEquals :: "ItemPointerData \<Rightarrow> ItemPointerData \<Rightarrow> bool" where
  "ItemPointerEquals p1 p2 =
     (if ItemPointerGetBlockNumber p1 = ItemPointerGetBlockNumber p2 \<and>
         ItemPointerGetOffsetNumber p1 = ItemPointerGetOffsetNumber p2
      then True else False)"

definition ItemPointerCompare :: "ItemPointerData \<Rightarrow> ItemPointerData \<Rightarrow> int" where
  "ItemPointerCompare arg1 arg2 =
     (let b1 = ItemPointerGetBlockNumber arg1;
          b2 = ItemPointerGetBlockNumber arg2
      in if b1 < b2 then - 1
         else if b1 > b2 then 1
         else if ItemPointerGetOffsetNumber arg1 < ItemPointerGetOffsetNumber arg2 then - 1
         else if ItemPointerGetOffsetNumber arg1 > ItemPointerGetOffsetNumber arg2 then 1
         else 0)"

definition ItemPointerInc :: "ItemPointerData \<Rightarrow> ItemPointerData" where
  "ItemPointerInc p =
     (let blk = ItemPointerGetBlockNumber p;
          off = ItemPointerGetOffsetNumber p
      in if off = PG_UINT16_MAX
         then if blk \<noteq> InvalidBlockNumber then ItemPointerSet (blk + 1) 0
              else ItemPointerSet blk off
         else ItemPointerSet blk (off + 1))"

definition ItemPointerDec :: "ItemPointerData \<Rightarrow> ItemPointerData" where
  "ItemPointerDec p =
     (let blk = ItemPointerGetBlockNumber p;
          off = ItemPointerGetOffsetNumber p
      in if off = 0
         then if blk \<noteq> 0 then ItemPointerSet (blk - 1) PG_UINT16_MAX
              else ItemPointerSet blk off
         else ItemPointerSet blk (off - 1))"

section \<open>The packed block number\<close>

lemma bit_uint16_bound: "bit (x :: uint16) n \<Longrightarrow> n < 16"
  using bit_imp_le_length [of x n] by simp

lemma bit_0xffff: "bit (0xffff :: int) n \<longleftrightarrow> n < 16"
proof -
  have "bit (0xffff :: int) n \<longleftrightarrow> bit (mask 16 :: int) n"
    by (simp add: mask_eq_exp_minus_1)
  also have "\<dots> \<longleftrightarrow> n < 16"
    by (simp only: bit_mask_iff) auto
  finally show ?thesis .
qed

lemma BlockId_get_set [simp]: "BlockIdGetBlockNumber (BlockIdSet b) = b"
  unfolding BlockIdGetBlockNumber_def BlockIdSet_def
  by (rule bit_word_eqI) (auto simp: bit_simps bit_0xffff)

lemma BlockId_set_get [simp]: "BlockIdSet (BlockIdGetBlockNumber b) = b"
proof -
  have "ucast (drop_bit 16 (BlockIdGetBlockNumber b)) = bi_hi b"
    unfolding BlockIdGetBlockNumber_def
    by (rule bit_word_eqI) (auto simp: bit_simps dest: bit_uint16_bound)
  moreover have "ucast (BlockIdGetBlockNumber b AND 0xffff) = bi_lo b"
    unfolding BlockIdGetBlockNumber_def
    by (rule bit_word_eqI) (auto simp: bit_simps bit_0xffff dest: bit_uint16_bound)
  ultimately show ?thesis
    by (simp add: BlockIdSet_def)
qed

lemma ItemPointer_get_set [simp]:
  "ItemPointerGetBlockNumber (ItemPointerSet b f) = b"
  "ItemPointerGetOffsetNumber (ItemPointerSet b f) = f"
  by (simp_all add: ItemPointerGetBlockNumber_def ItemPointerGetOffsetNumber_def ItemPointerSet_def)

lemma ItemPointer_set_get [simp]:
  "ItemPointerSet (ItemPointerGetBlockNumber p) (ItemPointerGetOffsetNumber p) = p"
  by (simp add: ItemPointerGetBlockNumber_def ItemPointerGetOffsetNumber_def ItemPointerSet_def)

lemma ItemPointer_eqI:
  "ItemPointerGetBlockNumber p = ItemPointerGetBlockNumber q \<Longrightarrow>
   ItemPointerGetOffsetNumber p = ItemPointerGetOffsetNumber q \<Longrightarrow> p = q"
  by (metis ItemPointer_set_get)

lemma ItemPointerEquals_iff [simp]: "ItemPointerEquals p q \<longleftrightarrow> p = q"
  by (auto simp: ItemPointerEquals_def intro: ItemPointer_eqI)

section \<open>Order and stepping\<close>

text \<open>The position of an item pointer in the sequence of all \<open>2 ^ 48\<close> of them.\<close>

definition tid_pos :: "ItemPointerData \<Rightarrow> nat" where
  "tid_pos p = unat (ItemPointerGetBlockNumber p) * 2 ^ 16 + unat (ItemPointerGetOffsetNumber p)"

lemma offset_less: "unat (ItemPointerGetOffsetNumber p) < 2 ^ 16"
  using unsigned_less [of "ItemPointerGetOffsetNumber p", where ?'a = nat] by simp

lemma lex_less_iff:
  fixes a b c d :: nat
  assumes "b < m" and "d < m"
  shows "a * m + b < c * m + d \<longleftrightarrow> a < c \<or> a = c \<and> b < d"
proof -
  consider "a < c" | "a = c" | "c < a" by linarith
  then show ?thesis
  proof cases
    case 1
    then have "Suc a * m \<le> c * m" by (intro mult_le_mono1) simp
    with 1 assms show ?thesis by simp
  next
    case 3
    then have "Suc c * m \<le> a * m" by (intro mult_le_mono1) simp
    with 3 assms show ?thesis by simp
  qed simp
qed

lemma tid_pos_less_iff:
  "tid_pos p < tid_pos q \<longleftrightarrow>
     ItemPointerGetBlockNumber p < ItemPointerGetBlockNumber q \<or>
     ItemPointerGetBlockNumber p = ItemPointerGetBlockNumber q \<and>
     ItemPointerGetOffsetNumber p < ItemPointerGetOffsetNumber q"
  unfolding tid_pos_def lex_less_iff [OF offset_less offset_less]
  by (simp add: word_less_nat_alt word_eq_iff_unsigned [where ?'a = nat])

text \<open>
  \<open>ItemPointerCompare\<close> is a three-way comparison for the order of the pointers' positions
  (block first, offset second): it is negative, zero or positive exactly when the first comes
  before, is the same as, or comes after the second.
\<close>

theorem ItemPointerCompare_order:
  "(ItemPointerCompare p q = - 1 \<longleftrightarrow> tid_pos p < tid_pos q) \<and>
   (ItemPointerCompare p q = 0 \<longleftrightarrow> p = q) \<and>
   (ItemPointerCompare p q = 1 \<longleftrightarrow> tid_pos p > tid_pos q)"
  by (auto simp: ItemPointerCompare_def tid_pos_less_iff Let_def intro: ItemPointer_eqI)

lemma inc_word_unat: "(w :: 'a :: len word) \<noteq> - 1 \<Longrightarrow> unat (w + 1) = Suc (unat w)"
  by (metis add.commute add_eq_0_iff unatSuc)

text \<open>
  \<open>ItemPointerInc\<close> moves to the next position and \<open>ItemPointerDec\<close> moves back, for every
  pointer but the last one, which \<open>ItemPointerInc\<close> leaves alone.
\<close>

theorem ItemPointerInc_Dec:
  "if ItemPointerGetBlockNumber p = InvalidBlockNumber \<and> ItemPointerGetOffsetNumber p = PG_UINT16_MAX
   then ItemPointerInc p = p
   else tid_pos (ItemPointerInc p) = tid_pos p + 1 \<and> ItemPointerDec (ItemPointerInc p) = p"
proof (cases "ItemPointerGetOffsetNumber p = PG_UINT16_MAX")
  case off: True
  show ?thesis
  proof (cases "ItemPointerGetBlockNumber p = InvalidBlockNumber")
    case True
    with off show ?thesis
      by (simp add: ItemPointerInc_def) (metis ItemPointer_set_get)
  next
    case False
    then have "ItemPointerGetBlockNumber p \<noteq> - 1"
      by (simp add: InvalidBlockNumber_def neg_1_uint32)
    with off False show ?thesis
      by (auto simp: ItemPointerInc_def ItemPointerDec_def tid_pos_def inc_word_unat
          PG_UINT16_MAX_def Let_def add_eq_0_iff2 intro: ItemPointer_eqI)
  qed
next
  case False
  then have "ItemPointerGetOffsetNumber p \<noteq> - 1"
    by (simp add: PG_UINT16_MAX_def neg_1_uint16)
  with False show ?thesis
    by (auto simp: ItemPointerInc_def ItemPointerDec_def tid_pos_def inc_word_unat Let_def
        add_eq_0_iff2)
qed

end
