(* ===== verification/Heap_Tuple.thy ===== *)
theory Heap_Tuple
  imports Xid_Arith Item_Pointer
begin

text \<open>
  The header of a heap tuple (\<^verbatim>\<open>src/include/access/htup_details.h\<close>): who inserted it, who
  deleted or locked it, the command that did so, and the flag words that say how to read these
  fields. The two readings of \<open>t_field3\<close> (a command id, or the xid of an old-style VACUUM FULL)
  share one 32-bit field, as the C union does.
\<close>

type_synonym CommandId = uint32
type_synonym MultiXactId = TransactionId

record HeapTupleHeaderData =
  t_xmin :: TransactionId
  t_xmax :: TransactionId
  t_field3 :: uint32
  t_ctid :: ItemPointerData
  t_infomask2 :: uint16
  t_infomask :: uint16

definition InvalidCommandId :: CommandId where
  "InvalidCommandId = NOT 0"

section \<open>Flag bits\<close>

definition HEAP_XMAX_KEYSHR_LOCK :: uint16 where "HEAP_XMAX_KEYSHR_LOCK = 0x0010"
definition HEAP_COMBOCID :: uint16 where "HEAP_COMBOCID = 0x0020"
definition HEAP_XMAX_EXCL_LOCK :: uint16 where "HEAP_XMAX_EXCL_LOCK = 0x0040"
definition HEAP_XMAX_LOCK_ONLY :: uint16 where "HEAP_XMAX_LOCK_ONLY = 0x0080"
definition HEAP_XMAX_SHR_LOCK :: uint16 where
  "HEAP_XMAX_SHR_LOCK = HEAP_XMAX_EXCL_LOCK OR HEAP_XMAX_KEYSHR_LOCK"
definition HEAP_LOCK_MASK :: uint16 where
  "HEAP_LOCK_MASK = HEAP_XMAX_SHR_LOCK OR HEAP_XMAX_EXCL_LOCK OR HEAP_XMAX_KEYSHR_LOCK"
definition HEAP_XMIN_COMMITTED :: uint16 where "HEAP_XMIN_COMMITTED = 0x0100"
definition HEAP_XMIN_INVALID :: uint16 where "HEAP_XMIN_INVALID = 0x0200"
definition HEAP_XMIN_FROZEN :: uint16 where
  "HEAP_XMIN_FROZEN = HEAP_XMIN_COMMITTED OR HEAP_XMIN_INVALID"
definition HEAP_XMAX_COMMITTED :: uint16 where "HEAP_XMAX_COMMITTED = 0x0400"
definition HEAP_XMAX_INVALID :: uint16 where "HEAP_XMAX_INVALID = 0x0800"
definition HEAP_XMAX_IS_MULTI :: uint16 where "HEAP_XMAX_IS_MULTI = 0x1000"
definition HEAP_MOVED_OFF :: uint16 where "HEAP_MOVED_OFF = 0x4000"
definition HEAP_MOVED_IN :: uint16 where "HEAP_MOVED_IN = 0x8000"
definition HEAP_MOVED :: uint16 where "HEAP_MOVED = HEAP_MOVED_OFF OR HEAP_MOVED_IN"

text \<open>The C test \<open>infomask & flag\<close>.\<close>

definition flag_set :: "uint16 \<Rightarrow> uint16 \<Rightarrow> bool" where
  "flag_set m f \<longleftrightarrow> m AND f \<noteq> 0"

definition HEAP_XMAX_IS_LOCKED_ONLY :: "uint16 \<Rightarrow> bool" where
  "HEAP_XMAX_IS_LOCKED_ONLY infomask \<longleftrightarrow>
     flag_set infomask HEAP_XMAX_LOCK_ONLY \<or>
     infomask AND (HEAP_XMAX_IS_MULTI OR HEAP_LOCK_MASK) = HEAP_XMAX_EXCL_LOCK"

definition HEAP_LOCKED_UPGRADED :: "uint16 \<Rightarrow> bool" where
  "HEAP_LOCKED_UPGRADED infomask \<longleftrightarrow>
     flag_set infomask HEAP_XMAX_IS_MULTI \<and>
     flag_set infomask HEAP_XMAX_LOCK_ONLY \<and>
     infomask AND (HEAP_XMAX_EXCL_LOCK OR HEAP_XMAX_KEYSHR_LOCK) = 0"

section \<open>Accessors\<close>

definition HeapTupleHeaderGetRawXmin :: "HeapTupleHeaderData \<Rightarrow> TransactionId" where
  "HeapTupleHeaderGetRawXmin tup = t_xmin tup"

definition HeapTupleHeaderXminCommitted :: "HeapTupleHeaderData \<Rightarrow> bool" where
  "HeapTupleHeaderXminCommitted tup \<longleftrightarrow> t_infomask tup AND HEAP_XMIN_COMMITTED \<noteq> 0"

definition HeapTupleHeaderXminInvalid :: "HeapTupleHeaderData \<Rightarrow> bool" where
  "HeapTupleHeaderXminInvalid tup \<longleftrightarrow>
     t_infomask tup AND (HEAP_XMIN_COMMITTED OR HEAP_XMIN_INVALID) = HEAP_XMIN_INVALID"

definition HeapTupleHeaderXminFrozen :: "HeapTupleHeaderData \<Rightarrow> bool" where
  "HeapTupleHeaderXminFrozen tup \<longleftrightarrow> t_infomask tup AND HEAP_XMIN_FROZEN = HEAP_XMIN_FROZEN"

definition HeapTupleHeaderGetXmin :: "HeapTupleHeaderData \<Rightarrow> TransactionId" where
  "HeapTupleHeaderGetXmin tup =
     (if HeapTupleHeaderXminFrozen tup then FrozenTransactionId
      else HeapTupleHeaderGetRawXmin tup)"

definition HeapTupleHeaderGetRawXmax :: "HeapTupleHeaderData \<Rightarrow> TransactionId" where
  "HeapTupleHeaderGetRawXmax tup = t_xmax tup"

definition HeapTupleHeaderGetRawCommandId :: "HeapTupleHeaderData \<Rightarrow> CommandId" where
  "HeapTupleHeaderGetRawCommandId tup = t_field3 tup"

definition HeapTupleHeaderGetXvac :: "HeapTupleHeaderData \<Rightarrow> TransactionId" where
  "HeapTupleHeaderGetXvac tup =
     (if flag_set (t_infomask tup) HEAP_MOVED then t_field3 tup else InvalidTransactionId)"

definition HeapTupleHeaderIsSpeculative :: "HeapTupleHeaderData \<Rightarrow> bool" where
  "HeapTupleHeaderIsSpeculative tup \<longleftrightarrow>
     ItemPointerGetOffsetNumber (t_ctid tup) = SpecTokenOffsetNumber"

definition HeapTupleHeaderGetSpeculativeToken :: "HeapTupleHeaderData \<Rightarrow> uint32" where
  "HeapTupleHeaderGetSpeculativeToken tup = ItemPointerGetBlockNumber (t_ctid tup)"

definition HeapTupleHeaderSetCmin :: "CommandId \<Rightarrow> HeapTupleHeaderData \<Rightarrow> HeapTupleHeaderData" where
  "HeapTupleHeaderSetCmin cid tup =
     tup\<lparr> t_field3 := cid, t_infomask := t_infomask tup AND NOT HEAP_COMBOCID \<rparr>"

definition HeapTupleHeaderSetCmax ::
  "CommandId \<Rightarrow> bool \<Rightarrow> HeapTupleHeaderData \<Rightarrow> HeapTupleHeaderData" where
  "HeapTupleHeaderSetCmax cid iscombo tup =
     (let tup = tup\<lparr> t_field3 := cid \<rparr> in
      if iscombo then tup\<lparr> t_infomask := t_infomask tup OR HEAP_COMBOCID \<rparr>
      else tup\<lparr> t_infomask := t_infomask tup AND NOT HEAP_COMBOCID \<rparr>)"

section \<open>Flags as bit positions\<close>

lemmas flag_defs = HEAP_XMAX_KEYSHR_LOCK_def HEAP_COMBOCID_def HEAP_XMAX_EXCL_LOCK_def
  HEAP_XMAX_LOCK_ONLY_def HEAP_XMAX_SHR_LOCK_def HEAP_LOCK_MASK_def HEAP_XMIN_COMMITTED_def
  HEAP_XMIN_INVALID_def HEAP_XMIN_FROZEN_def HEAP_XMAX_COMMITTED_def HEAP_XMAX_INVALID_def
  HEAP_XMAX_IS_MULTI_def HEAP_MOVED_OFF_def HEAP_MOVED_IN_def HEAP_MOVED_def

lemma flag_power:
  "HEAP_XMAX_KEYSHR_LOCK = 2 ^ 4" "HEAP_COMBOCID = 2 ^ 5" "HEAP_XMAX_EXCL_LOCK = 2 ^ 6"
  "HEAP_XMAX_LOCK_ONLY = 2 ^ 7" "HEAP_XMIN_COMMITTED = 2 ^ 8" "HEAP_XMIN_INVALID = 2 ^ 9"
  "HEAP_XMAX_COMMITTED = 2 ^ 10" "HEAP_XMAX_INVALID = 2 ^ 11" "HEAP_XMAX_IS_MULTI = 2 ^ 12"
  "HEAP_MOVED_OFF = 2 ^ 14" "HEAP_MOVED_IN = 2 ^ 15"
  by (simp_all add: flag_defs)

lemma bit_power_16: "bit (2 ^ k :: uint16) n \<longleftrightarrow> n = k \<and> k < 16"
  by (auto simp: bit_exp_iff)

lemma and_power_flag: "(m :: uint16) AND 2 ^ k \<noteq> 0 \<longleftrightarrow> bit m k"
  by (simp add: and_exp_eq_0_iff_not_bit)

lemma flag_set_iff [simp]:
  "flag_set m HEAP_COMBOCID \<longleftrightarrow> bit m 5"
  "flag_set m HEAP_XMAX_EXCL_LOCK \<longleftrightarrow> bit m 6"
  "flag_set m HEAP_XMAX_LOCK_ONLY \<longleftrightarrow> bit m 7"
  "flag_set m HEAP_XMIN_COMMITTED \<longleftrightarrow> bit m 8"
  "flag_set m HEAP_XMIN_INVALID \<longleftrightarrow> bit m 9"
  "flag_set m HEAP_XMAX_COMMITTED \<longleftrightarrow> bit m 10"
  "flag_set m HEAP_XMAX_INVALID \<longleftrightarrow> bit m 11"
  "flag_set m HEAP_XMAX_IS_MULTI \<longleftrightarrow> bit m 12"
  "flag_set m HEAP_MOVED_OFF \<longleftrightarrow> bit m 14"
  "flag_set m HEAP_MOVED_IN \<longleftrightarrow> bit m 15"
  by (simp_all only: flag_set_def flag_power and_power_flag)

lemma bit_or_flag [simp]:
  "bit (m OR HEAP_XMIN_COMMITTED) n \<longleftrightarrow> bit m n \<or> n = 8"
  "bit (m OR HEAP_XMIN_INVALID) n \<longleftrightarrow> bit m n \<or> n = 9"
  "bit (m OR HEAP_XMAX_COMMITTED) n \<longleftrightarrow> bit m n \<or> n = 10"
  "bit (m OR HEAP_XMAX_INVALID) n \<longleftrightarrow> bit m n \<or> n = 11"
  by (simp_all only: flag_power bit_or_iff bit_power_16) auto

lemma all_less_16: "(\<forall>n < 16. P n) \<longleftrightarrow>
    P 0 \<and> P 1 \<and> P 2 \<and> P 3 \<and> P 4 \<and> P 5 \<and> P 6 \<and> P 7 \<and> P 8 \<and> P 9 \<and>
    P 10 \<and> P 11 \<and> P 12 \<and> P 13 \<and> P 14 \<and> P (15 :: nat)"
  by (simp add: numeral_eq_Suc All_less_Suc) blast

lemma uint16_eq_iff: "(a :: uint16) = b \<longleftrightarrow> (\<forall>n < 16. bit a n = bit b n)"
  by (auto intro: bit_word_eqI)

lemma HEAP_XMAX_IS_LOCKED_ONLY_iff [simp]:
  "HEAP_XMAX_IS_LOCKED_ONLY m \<longleftrightarrow> bit m 7 \<or> bit m 6 \<and> \<not> bit m 4 \<and> \<not> bit m 12"
  unfolding HEAP_XMAX_IS_LOCKED_ONLY_def HEAP_LOCK_MASK_def HEAP_XMAX_SHR_LOCK_def flag_power
    uint16_eq_iff flag_set_def and_power_flag
  by (simp add: all_less_16 bit_and_iff bit_or_iff bit_power_16) blast

lemma HEAP_LOCKED_UPGRADED_iff [simp]:
  "HEAP_LOCKED_UPGRADED m \<longleftrightarrow> bit m 12 \<and> bit m 7 \<and> \<not> bit m 6 \<and> \<not> bit m 4"
  unfolding HEAP_LOCKED_UPGRADED_def flag_power uint16_eq_iff flag_set_def and_power_flag
  by (simp add: all_less_16 bit_and_iff bit_or_iff bit_power_16) blast

lemma xmin_flags_iff [simp]:
  "HeapTupleHeaderXminCommitted tup \<longleftrightarrow> bit (t_infomask tup) 8"
  "HeapTupleHeaderXminInvalid tup \<longleftrightarrow> bit (t_infomask tup) 9 \<and> \<not> bit (t_infomask tup) 8"
  "HeapTupleHeaderXminFrozen tup \<longleftrightarrow> bit (t_infomask tup) 9 \<and> bit (t_infomask tup) 8"
  unfolding HeapTupleHeaderXminCommitted_def HeapTupleHeaderXminInvalid_def
    HeapTupleHeaderXminFrozen_def HEAP_XMIN_FROZEN_def flag_power uint16_eq_iff
  by (simp_all add: all_less_16 bit_and_iff bit_or_iff bit_power_16) blast+

lemma flag_set_MOVED [simp]: "flag_set m HEAP_MOVED \<longleftrightarrow> bit m 14 \<or> bit m 15"
  unfolding flag_set_def HEAP_MOVED_def flag_power uint16_eq_iff
  by (simp add: all_less_16 bit_and_iff bit_or_iff bit_power_16)

end
