(* ===== verification/Combo_Cid.thy ===== *)
theory Combo_Cid
  imports Heap_Tuple
begin

text \<open>
  Combo command ids (\<^verbatim>\<open>src/backend/utils/time/combocid.c\<close>): a tuple header has room for one
  command id, so a tuple inserted and deleted by one transaction stores the index of a
  (cmin, cmax) pair in a private table of the backend. \<open>comboCids\<close> is the used part of the C
  array (its length is \<open>usedComboCids\<close>), \<open>comboHash\<close> the hash table, \<open>None\<close> before first use.
\<close>

record combocid_state =
  comboHash :: "(CommandId \<times> CommandId \<rightharpoonup> CommandId) option"
  comboCids :: "(CommandId \<times> CommandId) list"
  sizeComboCids :: nat

definition AtEOXact_ComboCid :: "combocid_state \<Rightarrow> combocid_state" where
  "AtEOXact_ComboCid st = \<lparr> comboHash = None, comboCids = [], sizeComboCids = 0 \<rparr>"

text \<open>Reading past the used part of the array has no defined result: \<open>None\<close>.\<close>

definition GetRealCmin :: "combocid_state \<Rightarrow> CommandId \<Rightarrow> CommandId option" where
  "GetRealCmin st combocid =
     (if unat combocid < length (comboCids st) then Some (fst (comboCids st ! unat combocid))
      else None)"

definition GetRealCmax :: "combocid_state \<Rightarrow> CommandId \<Rightarrow> CommandId option" where
  "GetRealCmax st combocid =
     (if unat combocid < length (comboCids st) then Some (snd (comboCids st ! unat combocid))
      else None)"

definition HeapTupleHeaderGetCmin ::
  "combocid_state \<Rightarrow> HeapTupleHeaderData \<Rightarrow> CommandId option" where
  "HeapTupleHeaderGetCmin st tup =
     (let cid = HeapTupleHeaderGetRawCommandId tup in
      if flag_set (t_infomask tup) HEAP_COMBOCID then GetRealCmin st cid else Some cid)"

definition HeapTupleHeaderGetCmax ::
  "combocid_state \<Rightarrow> HeapTupleHeaderData \<Rightarrow> CommandId option" where
  "HeapTupleHeaderGetCmax st tup =
     (let cid = HeapTupleHeaderGetRawCommandId tup in
      if flag_set (t_infomask tup) HEAP_COMBOCID then GetRealCmax st cid else Some cid)"

definition CCID_ARRAY_SIZE :: nat where
  "CCID_ARRAY_SIZE = 100"

definition GetComboCommandId ::
  "combocid_state \<Rightarrow> CommandId \<Rightarrow> CommandId \<Rightarrow> CommandId \<times> combocid_state" where
  "GetComboCommandId st cmin cmax =
     (let st = (case comboHash st of
                  None \<Rightarrow> \<lparr> comboHash = Some Map.empty, comboCids = [],
                            sizeComboCids = CCID_ARRAY_SIZE \<rparr>
                | Some _ \<Rightarrow> st);
          st = (if length (comboCids st) \<ge> sizeComboCids st
                then st\<lparr> sizeComboCids := sizeComboCids st * 2 \<rparr> else st);
          hash = (case comboHash st of None \<Rightarrow> Map.empty | Some h \<Rightarrow> h)
      in case hash (cmin, cmax) of
           Some combocid \<Rightarrow> (combocid, st)
         | None \<Rightarrow>
             let combocid = of_nat (length (comboCids st)) in
             (combocid, st\<lparr> comboCids := comboCids st @ [(cmin, cmax)],
                            comboHash := Some (hash((cmin, cmax) \<mapsto> combocid)) \<rparr>))"

definition HeapTupleHeaderAdjustCmax ::
  "(TransactionId \<Rightarrow> bool) \<Rightarrow> combocid_state \<Rightarrow> HeapTupleHeaderData \<Rightarrow> CommandId \<Rightarrow>
   ((CommandId \<times> bool) \<times> combocid_state) option" where
  "HeapTupleHeaderAdjustCmax is_current st tup cmax =
     (if \<not> HeapTupleHeaderXminCommitted tup \<and> is_current (HeapTupleHeaderGetRawXmin tup)
      then case HeapTupleHeaderGetCmin st tup of
             None \<Rightarrow> None
           | Some cmin \<Rightarrow>
               let (cmax, st) = GetComboCommandId st cmin cmax in Some ((cmax, True), st)
      else Some ((cmax, False), st))"

section \<open>The table's invariant\<close>

text \<open>
  The hash table is the inverse of the array, the array fits its allocated size, and its
  indices fit a command id.
\<close>

definition combo_inv :: "combocid_state \<Rightarrow> bool" where
  "combo_inv st \<longleftrightarrow>
     (case comboHash st of
        None \<Rightarrow> comboCids st = []
      | Some h \<Rightarrow>
          0 < sizeComboCids st \<and> length (comboCids st) \<le> sizeComboCids st \<and>
          length (comboCids st) < 2 ^ 32 \<and>
          (\<forall>k i. h k = Some i \<longleftrightarrow> unat i < length (comboCids st) \<and> comboCids st ! unat i = k))"

lemma combo_inv_init: "combo_inv (AtEOXact_ComboCid st)"
  by (simp add: combo_inv_def AtEOXact_ComboCid_def)

lemma unat_of_nat_32: "n < 2 ^ 32 \<Longrightarrow> unat (of_nat n :: uint32) = n"
  by (simp add: unat_of_nat take_bit_nat_eq_self)

lemma combo_prepare:
  fixes st :: combocid_state
  assumes "combo_inv st"
  obtains st' h where
    "comboHash st' = Some h" "comboCids st' = comboCids st"
    "length (comboCids st') < sizeComboCids st'" "length (comboCids st') < 2 ^ 32"
    "\<And>k i. h k = Some i \<longleftrightarrow> unat i < length (comboCids st) \<and> comboCids st ! unat i = k"
    "GetComboCommandId st cmin cmax =
       (case h (cmin, cmax) of
          Some combocid \<Rightarrow> (combocid, st')
        | None \<Rightarrow> (of_nat (length (comboCids st')),
            st'\<lparr> comboCids := comboCids st' @ [(cmin, cmax)],
                 comboHash := Some (h((cmin, cmax) \<mapsto> of_nat (length (comboCids st')))) \<rparr>))"
proof (cases "comboHash st")
  case None
  then have "comboCids st = []"
    using assms by (simp add: combo_inv_def)
  with None show thesis
    by (intro that [of "\<lparr> comboHash = Some Map.empty, comboCids = [], sizeComboCids = CCID_ARRAY_SIZE \<rparr>"
           Map.empty])
       (simp_all add: GetComboCommandId_def CCID_ARRAY_SIZE_def)
next
  case (Some h)
  let ?st = "if length (comboCids st) \<ge> sizeComboCids st
             then st\<lparr> sizeComboCids := sizeComboCids st * 2 \<rparr> else st"
  have "\<And>k i. h k = Some i \<longleftrightarrow> unat i < length (comboCids st) \<and> comboCids st ! unat i = k"
    and len: "length (comboCids st) < sizeComboCids ?st" "length (comboCids st) < 2 ^ 32"
    using Some assms by (auto simp: combo_inv_def)
  moreover have "GetComboCommandId st cmin cmax =
       (case h (cmin, cmax) of
          Some combocid \<Rightarrow> (combocid, ?st)
        | None \<Rightarrow> (of_nat (length (comboCids ?st)),
            ?st\<lparr> comboCids := comboCids ?st @ [(cmin, cmax)],
                 comboHash := Some (h((cmin, cmax) \<mapsto> of_nat (length (comboCids ?st)))) \<rparr>))"
    by (cases "h (cmin, cmax)") (simp_all add: GetComboCommandId_def Some Let_def)
  moreover have "comboHash ?st = Some h" "comboCids ?st = comboCids st"
    by (simp_all add: Some)
  ultimately show thesis
    using len by (intro that [of ?st h]) simp_all
qed

lemma GetComboCommandId_correct:
  assumes inv: "combo_inv st" and room: "length (comboCids st) < 2 ^ 32 - 1"
    and call: "GetComboCommandId st cmin cmax = (cid, st')"
  shows "combo_inv st' \<and> unat cid < length (comboCids st') \<and>
         comboCids st' ! unat cid = (cmin, cmax) \<and> (\<exists>ps. comboCids st' = comboCids st @ ps)"
proof -
  obtain s h where s: "comboHash s = Some h" "comboCids s = comboCids st"
      "length (comboCids s) < sizeComboCids s" "length (comboCids s) < 2 ^ 32"
      "\<And>k i. h k = Some i \<longleftrightarrow> unat i < length (comboCids st) \<and> comboCids st ! unat i = k"
    and eq: "GetComboCommandId st cmin cmax =
       (case h (cmin, cmax) of
          Some combocid \<Rightarrow> (combocid, s)
        | None \<Rightarrow> (of_nat (length (comboCids s)),
            s\<lparr> comboCids := comboCids s @ [(cmin, cmax)],
               comboHash := Some (h((cmin, cmax) \<mapsto> of_nat (length (comboCids s)))) \<rparr>))"
    by (rule combo_prepare [OF inv, of cmin cmax]) (rule that, assumption+)
  show ?thesis
  proof (cases "h (cmin, cmax)")
    case (Some i)
    with eq call have "cid = i" "st' = s" by simp_all
    with Some s show ?thesis
      by (auto simp: combo_inv_def)
  next
    case None
    let ?n = "length (comboCids st)"
    have n: "unat (of_nat ?n :: uint32) = ?n"
      using room by (intro unat_of_nat_32) simp
    have fresh: "\<And>i. \<not> (i < ?n \<and> comboCids st ! i = (cmin, cmax))"
    proof
      fix i assume i: "i < ?n \<and> comboCids st ! i = (cmin, cmax)"
      then have "unat (of_nat i :: uint32) = i"
        using room by (intro unat_of_nat_32) simp
      with i s(5) [of "(cmin, cmax)" "of_nat i"] None show False by simp
    qed
    from None eq call s(2) have "cid = of_nat ?n"
      and st': "st' = s\<lparr> comboCids := comboCids st @ [(cmin, cmax)],
                         comboHash := Some (h((cmin, cmax) \<mapsto> of_nat ?n)) \<rparr>" by simp_all
    have "combo_inv st'"
      using s room fresh n
      by (auto simp: combo_inv_def st' nth_append less_Suc_eq
          dest: arg_cong [of _ _ "of_nat :: nat \<Rightarrow> uint32"])
    with n \<open>cid = of_nat ?n\<close> show ?thesis
      by (simp add: st')
  qed
qed



end
