(* ===== verification/Snapshot.thy ===== *)
theory Snapshot
  imports Combo_Cid "HOL-Library.Monad_Syntax"
begin

text \<open>
  Snapshots (\<^verbatim>\<open>src/include/utils/snapshot.h\<close>), the test whether a snapshot still considers an
  xid running (\<^verbatim>\<open>src/backend/utils/time/snapmgr.c\<close>), and the horizons below which no snapshot
  does (the \<open>GlobalVis\<close> part of \<^verbatim>\<open>src/backend/storage/ipc/procarray.c\<close>).

  Results are options: \<open>None\<close> stands for a call that raises an ERROR, does not return or has no
  defined result.
\<close>

section \<open>What the visibility code asks of the transaction system\<close>

datatype MultiXactStatus =
    MultiXactStatusForKeyShare
  | MultiXactStatusForShare
  | MultiXactStatusForNoKeyUpdate
  | MultiXactStatusForUpdate
  | MultiXactStatusNoKeyUpdate
  | MultiXactStatusUpdate

record MultiXactMember =
  mx_xid :: TransactionId
  mx_status :: MultiXactStatus

definition ISUPDATE_from_mxstatus :: "MultiXactStatus \<Rightarrow> bool" where
  "ISUPDATE_from_mxstatus status \<longleftrightarrow>
     (case status of
        MultiXactStatusForKeyShare \<Rightarrow> False
      | MultiXactStatusForShare \<Rightarrow> False
      | MultiXactStatusForNoKeyUpdate \<Rightarrow> False
      | MultiXactStatusForUpdate \<Rightarrow> False
      | MultiXactStatusNoKeyUpdate \<Rightarrow> True
      | MultiXactStatusUpdate \<Rightarrow> True)"

record ComputeXidHorizonsResult =
  latest_completed :: FullTransactionId
  slot_xmin :: TransactionId
  slot_catalog_xmin :: TransactionId
  oldest_considered_running :: TransactionId
  shared_oldest_nonremovable :: TransactionId
  shared_oldest_nonremovable_raw :: TransactionId
  catalog_oldest_nonremovable :: TransactionId
  data_oldest_nonremovable :: TransactionId
  temp_oldest_nonremovable :: TransactionId

text \<open>
  The functions of other modules that the visibility code calls, as a record: the transaction
  status functions (\<^verbatim>\<open>xact.c\<close>, \<^verbatim>\<open>procarray.c\<close>, \<^verbatim>\<open>transam.c\<close>), the topmost parent of a
  subtransaction (\<^verbatim>\<open>subtrans.c\<close>), the members of a multixact (\<^verbatim>\<open>multixact.c\<close>), the commit LSN
  and the flush state of the log, the backend's combo command ids, the decoding-time lookup of
  command ids (\<^verbatim>\<open>reorderbuffer.c\<close>) and the freshly computed horizons.
\<close>

record xact_env =
  is_current :: "TransactionId \<Rightarrow> bool"
  in_progress :: "TransactionId \<Rightarrow> bool option"
  did_commit :: "TransactionId \<Rightarrow> bool option"
  topmost_xact :: "TransactionId \<Rightarrow> TransactionId option"
  multixact_members :: "MultiXactId \<Rightarrow> bool \<Rightarrow> MultiXactMember list option"
  commit_lsn :: "TransactionId \<Rightarrow> uint64"
  xlog_needs_flush :: "uint64 \<Rightarrow> bool"
  combo_state :: combocid_state
  decoding_cids :: "ItemPointerData \<Rightarrow> (CommandId \<times> CommandId) option"
  recent_xmin :: TransactionId
  current_horizons :: ComputeXidHorizonsResult

section \<open>Snapshots\<close>

datatype SnapshotType =
    SNAPSHOT_MVCC
  | SNAPSHOT_SELF
  | SNAPSHOT_ANY
  | SNAPSHOT_TOAST
  | SNAPSHOT_DIRTY
  | SNAPSHOT_HISTORIC_MVCC
  | SNAPSHOT_NON_VACUUMABLE

datatype GlobalVisHorizonKind =
    VISHORIZON_SHARED
  | VISHORIZON_CATALOG
  | VISHORIZON_DATA
  | VISHORIZON_TEMP

text \<open>The arrays carry their lengths (\<open>xcnt\<close>, \<open>subxcnt\<close>); \<open>vistest\<close> points to one of four states.\<close>

record SnapshotData =
  snapshot_type :: SnapshotType
  snap_xmin :: TransactionId
  snap_xmax :: TransactionId
  xip :: "TransactionId list"
  subxip :: "TransactionId list"
  suboverflowed :: bool
  takenDuringRecovery :: bool
  curcid :: CommandId
  speculativeToken :: uint32
  vistest :: GlobalVisHorizonKind
  snapXactCompletionCount :: uint64

definition XidInMVCCSnapshot :: "xact_env \<Rightarrow> TransactionId \<Rightarrow> SnapshotData \<Rightarrow> bool option" where
  "XidInMVCCSnapshot env xid snapshot =
     (if TransactionIdPrecedes xid (snap_xmin snapshot) then Some False
      else if TransactionIdFollowsOrEquals xid (snap_xmax snapshot) then Some True
      else if \<not> takenDuringRecovery snapshot
      then if \<not> suboverflowed snapshot
           then if xid \<in> set (subxip snapshot) then Some True
                else Some (xid \<in> set (xip snapshot))
           else do {
             xid \<leftarrow> topmost_xact env xid;
             if TransactionIdPrecedes xid (snap_xmin snapshot) then Some False
             else Some (xid \<in> set (xip snapshot))
           }
      else if suboverflowed snapshot
           then do {
             xid \<leftarrow> topmost_xact env xid;
             if TransactionIdPrecedes xid (snap_xmin snapshot) then Some False
             else Some (xid \<in> set (subxip snapshot))
           }
           else Some (xid \<in> set (subxip snapshot)))"

section \<open>Visibility horizons\<close>

record GlobalVisState =
  definitely_needed :: FullTransactionId
  maybe_needed :: FullTransactionId

text \<open>The four states and the xmin of the last computation (\<open>ComputeXidHorizonsResultLastXmin\<close>).\<close>

record global_vis =
  GlobalVisSharedRels :: GlobalVisState
  GlobalVisCatalogRels :: GlobalVisState
  GlobalVisDataRels :: GlobalVisState
  GlobalVisTempRels :: GlobalVisState
  horizons_last_xmin :: TransactionId

definition FullTransactionIdNewer ::
  "FullTransactionId \<Rightarrow> FullTransactionId \<Rightarrow> FullTransactionId" where
  "FullTransactionIdNewer a b =
     (if \<not> FullTransactionIdIsValid a then b
      else if \<not> FullTransactionIdIsValid b then a
      else if full_value a > full_value b then a
      else b)"

definition GlobalVisTestFor :: "global_vis \<Rightarrow> GlobalVisHorizonKind \<Rightarrow> GlobalVisState" where
  "GlobalVisTestFor g kind =
     (case kind of
        VISHORIZON_SHARED \<Rightarrow> GlobalVisSharedRels g
      | VISHORIZON_CATALOG \<Rightarrow> GlobalVisCatalogRels g
      | VISHORIZON_DATA \<Rightarrow> GlobalVisDataRels g
      | VISHORIZON_TEMP \<Rightarrow> GlobalVisTempRels g)"

definition GlobalVisTestShouldUpdate :: "xact_env \<Rightarrow> global_vis \<Rightarrow> GlobalVisState \<Rightarrow> bool" where
  "GlobalVisTestShouldUpdate env g state =
     (if \<not> TransactionIdIsValid (horizons_last_xmin g) then True
      else if FullTransactionIdFollowsOrEquals (maybe_needed state) (definitely_needed state)
      then False
      else recent_xmin env \<noteq> horizons_last_xmin g)"

definition GlobalVisUpdateApply ::
  "TransactionId \<Rightarrow> ComputeXidHorizonsResult \<Rightarrow> global_vis \<Rightarrow> global_vis" where
  "GlobalVisUpdateApply myRecentXmin horizons g =
     (let shared = FullXidRelativeTo (latest_completed horizons) (shared_oldest_nonremovable horizons);
          catalog = FullXidRelativeTo (latest_completed horizons) (catalog_oldest_nonremovable horizons);
          data = FullXidRelativeTo (latest_completed horizons) (data_oldest_nonremovable horizons);
          temp = FullXidRelativeTo (latest_completed horizons) (temp_oldest_nonremovable horizons)
      in \<lparr> GlobalVisSharedRels =
             \<lparr> definitely_needed = FullTransactionIdNewer shared (definitely_needed (GlobalVisSharedRels g)),
               maybe_needed = shared \<rparr>,
           GlobalVisCatalogRels =
             \<lparr> definitely_needed = FullTransactionIdNewer catalog (definitely_needed (GlobalVisCatalogRels g)),
               maybe_needed = catalog \<rparr>,
           GlobalVisDataRels =
             \<lparr> definitely_needed = FullTransactionIdNewer data (definitely_needed (GlobalVisDataRels g)),
               maybe_needed = data \<rparr>,
           GlobalVisTempRels = \<lparr> definitely_needed = temp, maybe_needed = temp \<rparr>,
           horizons_last_xmin = myRecentXmin \<rparr>)"

definition GlobalVisUpdate :: "xact_env \<Rightarrow> global_vis \<Rightarrow> global_vis" where
  "GlobalVisUpdate env g = GlobalVisUpdateApply (recent_xmin env) (current_horizons env) g"

definition GlobalVisTestIsRemovableFullXid ::
  "xact_env \<Rightarrow> GlobalVisHorizonKind \<Rightarrow> FullTransactionId \<Rightarrow> global_vis \<Rightarrow> bool \<times> global_vis" where
  "GlobalVisTestIsRemovableFullXid env kind fxid g =
     (let state = GlobalVisTestFor g kind in
      if FullTransactionIdPrecedes fxid (maybe_needed state) then (True, g)
      else if FullTransactionIdFollowsOrEquals fxid (definitely_needed state) then (False, g)
      else if GlobalVisTestShouldUpdate env g state
      then let g = GlobalVisUpdate env g in
           (FullTransactionIdPrecedes fxid (maybe_needed (GlobalVisTestFor g kind)), g)
      else (False, g))"

definition GlobalVisTestIsRemovableXid ::
  "xact_env \<Rightarrow> GlobalVisHorizonKind \<Rightarrow> TransactionId \<Rightarrow> global_vis \<Rightarrow> bool \<times> global_vis" where
  "GlobalVisTestIsRemovableXid env kind xid g =
     (let fxid = FullXidRelativeTo (definitely_needed (GlobalVisTestFor g kind)) xid in
      GlobalVisTestIsRemovableFullXid env kind fxid g)"

end
