(* ===== verification/Visibility.thy ===== *)
theory Visibility
  imports Snapshot
begin

text \<open>
  The tuple visibility routines of \<^verbatim>\<open>src/backend/access/heap/heapam_visibility.c\<close>, with the
  multixact helpers they call. Each routine takes a tuple together with the buffer that holds
  it and returns its answer and the tuple with the hint bits it set. Each is written in two
  steps, the decision on the inserting transaction and the decision on the deleting one; the
  first either returns from the routine or falls through to the second, as in the C code.
\<close>

section \<open>Tuples in buffers, hint bits\<close>

record BufferState =
  buf_permanent :: bool
  buf_lsn :: uint64
  buf_dirty :: bool

record HeapTupleData =
  t_self :: ItemPointerData
  t_data :: HeapTupleHeaderData
  t_buffer :: BufferState

datatype 'r flow = Return 'r | FallThrough

definition SetHintBits ::
  "xact_env \<Rightarrow> uint16 \<Rightarrow> TransactionId \<Rightarrow> HeapTupleData \<Rightarrow> HeapTupleData" where
  "SetHintBits env infomask xid htup =
     (let commitLSN = commit_lsn env xid in
      if TransactionIdIsValid xid \<and>
         buf_permanent (t_buffer htup) \<and> xlog_needs_flush env commitLSN \<and>
         buf_lsn (t_buffer htup) < commitLSN
      then htup
      else htup\<lparr> t_data := (t_data htup)\<lparr> t_infomask := t_infomask (t_data htup) OR infomask \<rparr>,
                 t_buffer := (t_buffer htup)\<lparr> buf_dirty := True \<rparr> \<rparr>)"

definition HeapTupleSetHintBits ::
  "xact_env \<Rightarrow> uint16 \<Rightarrow> TransactionId \<Rightarrow> HeapTupleData \<Rightarrow> HeapTupleData" where
  "HeapTupleSetHintBits env infomask xid htup = SetHintBits env infomask xid htup"

abbreviation infomask_of :: "HeapTupleData \<Rightarrow> uint16" where
  "infomask_of htup \<equiv> t_infomask (t_data htup)"

abbreviation raw_xmin :: "HeapTupleData \<Rightarrow> TransactionId" where
  "raw_xmin htup \<equiv> HeapTupleHeaderGetRawXmin (t_data htup)"

abbreviation raw_xmax :: "HeapTupleData \<Rightarrow> TransactionId" where
  "raw_xmax htup \<equiv> HeapTupleHeaderGetRawXmax (t_data htup)"

section \<open>Multixacts\<close>

fun first_updater :: "MultiXactMember list \<Rightarrow> TransactionId" where
  "first_updater [] = InvalidTransactionId"
| "first_updater (m # ms) =
     (if \<not> ISUPDATE_from_mxstatus (mx_status m) then first_updater ms else mx_xid m)"

definition MultiXactIdGetUpdateXid :: "xact_env \<Rightarrow> TransactionId \<Rightarrow> TransactionId option" where
  "MultiXactIdGetUpdateXid env xmax = do {
     members \<leftarrow> multixact_members env xmax False;
     Some (first_updater members)
   }"

definition HeapTupleGetUpdateXid :: "xact_env \<Rightarrow> HeapTupleHeaderData \<Rightarrow> TransactionId option" where
  "HeapTupleGetUpdateXid env tup = MultiXactIdGetUpdateXid env (HeapTupleHeaderGetRawXmax tup)"

definition HeapTupleHeaderGetUpdateXid ::
  "xact_env \<Rightarrow> HeapTupleHeaderData \<Rightarrow> TransactionId option" where
  "HeapTupleHeaderGetUpdateXid env tup =
     (if \<not> flag_set (t_infomask tup) HEAP_XMAX_INVALID \<and>
         flag_set (t_infomask tup) HEAP_XMAX_IS_MULTI \<and>
         \<not> flag_set (t_infomask tup) HEAP_XMAX_LOCK_ONLY
      then HeapTupleGetUpdateXid env tup
      else Some (HeapTupleHeaderGetRawXmax tup))"

fun any_in_progress :: "xact_env \<Rightarrow> MultiXactMember list \<Rightarrow> bool option" where
  "any_in_progress env [] = Some False"
| "any_in_progress env (m # ms) = do {
     b \<leftarrow> in_progress env (mx_xid m);
     if b then Some True else any_in_progress env ms
   }"

definition MultiXactIdIsRunning :: "xact_env \<Rightarrow> MultiXactId \<Rightarrow> bool \<Rightarrow> bool option" where
  "MultiXactIdIsRunning env multi isLockOnly = do {
     members \<leftarrow> multixact_members env multi isLockOnly;
     if members = [] then Some False
     else if list_ex (\<lambda>m. is_current env (mx_xid m)) members then Some True
     else any_in_progress env members
   }"

section \<open>Tuples moved by an old-style VACUUM FULL\<close>

text \<open>
  The branches for \<open>HEAP_MOVED_OFF\<close> and \<open>HEAP_MOVED_IN\<close> are the same in every routine but
  \<open>HeapTupleSatisfiesVacuumHorizon\<close>, up to the value returned for an invisible tuple and
  the test for a running transaction.
\<close>

definition xmin_moved_off ::
  "xact_env \<Rightarrow> (TransactionId \<Rightarrow> bool option) \<Rightarrow> 'r \<Rightarrow> HeapTupleData \<Rightarrow>
   ('r flow \<times> HeapTupleData) option" where
  "xmin_moved_off env running invisible htup =
     (let xvac = HeapTupleHeaderGetXvac (t_data htup) in
      if is_current env xvac then Some (Return invisible, htup)
      else do {
        run \<leftarrow> running xvac;
        if \<not> run then do {
          committed \<leftarrow> did_commit env xvac;
          if committed
          then Some (Return invisible, SetHintBits env HEAP_XMIN_INVALID InvalidTransactionId htup)
          else Some (FallThrough, SetHintBits env HEAP_XMIN_COMMITTED InvalidTransactionId htup)
        }
        else Some (FallThrough, htup)
      })"

definition xmin_moved_in ::
  "xact_env \<Rightarrow> (TransactionId \<Rightarrow> bool option) \<Rightarrow> 'r \<Rightarrow> HeapTupleData \<Rightarrow>
   ('r flow \<times> HeapTupleData) option" where
  "xmin_moved_in env running invisible htup =
     (let xvac = HeapTupleHeaderGetXvac (t_data htup) in
      if \<not> is_current env xvac then do {
        run \<leftarrow> running xvac;
        if run then Some (Return invisible, htup)
        else do {
          committed \<leftarrow> did_commit env xvac;
          if committed
          then Some (FallThrough, SetHintBits env HEAP_XMIN_COMMITTED InvalidTransactionId htup)
          else Some (Return invisible, SetHintBits env HEAP_XMIN_INVALID InvalidTransactionId htup)
        }
      }
      else Some (FallThrough, htup))"

section \<open>HeapTupleSatisfiesSelf\<close>

definition Self_inserter :: "xact_env \<Rightarrow> HeapTupleData \<Rightarrow> (bool flow \<times> HeapTupleData) option" where
  "Self_inserter env htup =
     (if HeapTupleHeaderXminCommitted (t_data htup) then Some (FallThrough, htup)
      else if HeapTupleHeaderXminInvalid (t_data htup) then Some (Return False, htup)
      else if flag_set (infomask_of htup) HEAP_MOVED_OFF
      then xmin_moved_off env (in_progress env) False htup
      else if flag_set (infomask_of htup) HEAP_MOVED_IN
      then xmin_moved_in env (in_progress env) False htup
      else if is_current env (raw_xmin htup)
      then if flag_set (infomask_of htup) HEAP_XMAX_INVALID then Some (Return True, htup)
           else if HEAP_XMAX_IS_LOCKED_ONLY (infomask_of htup) then Some (Return True, htup)
           else if flag_set (infomask_of htup) HEAP_XMAX_IS_MULTI
           then do {
             xmax \<leftarrow> HeapTupleGetUpdateXid env (t_data htup);
             if \<not> is_current env xmax then Some (Return True, htup)
             else Some (Return False, htup)
           }
           else if \<not> is_current env (raw_xmax htup)
           then Some (Return True, SetHintBits env HEAP_XMAX_INVALID InvalidTransactionId htup)
           else Some (Return False, htup)
      else do {
        run \<leftarrow> in_progress env (raw_xmin htup);
        if run then Some (Return False, htup)
        else do {
          committed \<leftarrow> did_commit env (raw_xmin htup);
          if committed
          then Some (FallThrough, SetHintBits env HEAP_XMIN_COMMITTED (raw_xmin htup) htup)
          else Some (Return False, SetHintBits env HEAP_XMIN_INVALID InvalidTransactionId htup)
        }
      })"

definition Self_deleter :: "xact_env \<Rightarrow> HeapTupleData \<Rightarrow> (bool \<times> HeapTupleData) option" where
  "Self_deleter env htup =
     (if flag_set (infomask_of htup) HEAP_XMAX_INVALID then Some (True, htup)
      else if flag_set (infomask_of htup) HEAP_XMAX_COMMITTED
      then if HEAP_XMAX_IS_LOCKED_ONLY (infomask_of htup) then Some (True, htup)
           else Some (False, htup)
      else if flag_set (infomask_of htup) HEAP_XMAX_IS_MULTI
      then if HEAP_XMAX_IS_LOCKED_ONLY (infomask_of htup) then Some (True, htup)
           else do {
             xmax \<leftarrow> HeapTupleGetUpdateXid env (t_data htup);
             if is_current env xmax then Some (False, htup)
             else do {
               run \<leftarrow> in_progress env xmax;
               if run then Some (True, htup)
               else do {
                 committed \<leftarrow> did_commit env xmax;
                 if committed then Some (False, htup) else Some (True, htup)
               }
             }
           }
      else if is_current env (raw_xmax htup)
      then if HEAP_XMAX_IS_LOCKED_ONLY (infomask_of htup) then Some (True, htup)
           else Some (False, htup)
      else do {
        run \<leftarrow> in_progress env (raw_xmax htup);
        if run then Some (True, htup)
        else do {
          committed \<leftarrow> did_commit env (raw_xmax htup);
          if \<not> committed
          then Some (True, SetHintBits env HEAP_XMAX_INVALID InvalidTransactionId htup)
          else if HEAP_XMAX_IS_LOCKED_ONLY (infomask_of htup)
          then Some (True, SetHintBits env HEAP_XMAX_INVALID InvalidTransactionId htup)
          else Some (False, SetHintBits env HEAP_XMAX_COMMITTED (raw_xmax htup) htup)
        }
      })"

definition HeapTupleSatisfiesSelf ::
  "xact_env \<Rightarrow> HeapTupleData \<Rightarrow> (bool \<times> HeapTupleData) option" where
  "HeapTupleSatisfiesSelf env htup = do {
     (r, htup) \<leftarrow> Self_inserter env htup;
     case r of Return b \<Rightarrow> Some (b, htup) | FallThrough \<Rightarrow> Self_deleter env htup
   }"

section \<open>HeapTupleSatisfiesAny and HeapTupleSatisfiesToast\<close>

definition HeapTupleSatisfiesAny ::
  "xact_env \<Rightarrow> HeapTupleData \<Rightarrow> (bool \<times> HeapTupleData) option" where
  "HeapTupleSatisfiesAny env htup = Some (True, htup)"

definition HeapTupleSatisfiesToast ::
  "xact_env \<Rightarrow> HeapTupleData \<Rightarrow> (bool \<times> HeapTupleData) option" where
  "HeapTupleSatisfiesToast env htup = do {
     (r, htup) \<leftarrow>
       (if HeapTupleHeaderXminCommitted (t_data htup) then Some (FallThrough, htup)
        else if HeapTupleHeaderXminInvalid (t_data htup) then Some (Return False, htup)
        else if flag_set (infomask_of htup) HEAP_MOVED_OFF
        then xmin_moved_off env (in_progress env) False htup
        else if flag_set (infomask_of htup) HEAP_MOVED_IN
        then xmin_moved_in env (in_progress env) False htup
        else if \<not> TransactionIdIsValid (HeapTupleHeaderGetXmin (t_data htup))
        then Some (Return False, htup)
        else Some (FallThrough, htup));
     case r of Return b \<Rightarrow> Some (b, htup) | FallThrough \<Rightarrow> Some (True, htup)
   }"

section \<open>HeapTupleSatisfiesUpdate\<close>

datatype TM_Result =
    TM_Ok
  | TM_Invisible
  | TM_SelfModified
  | TM_Updated
  | TM_Deleted
  | TM_BeingModified
  | TM_WouldBlock

text \<open>\<open>if (HeapTupleHeaderGetCmax(tuple) >= curcid) return TM_SelfModified; else return TM_Invisible\<close>\<close>

definition modified_by_self ::
  "xact_env \<Rightarrow> CommandId \<Rightarrow> HeapTupleData \<Rightarrow> TM_Result option" where
  "modified_by_self env cid htup = do {
     cmax \<leftarrow> HeapTupleHeaderGetCmax (combo_state env) (t_data htup);
     if cmax \<ge> cid then Some TM_SelfModified else Some TM_Invisible
   }"

text \<open>\<open>if (!ItemPointerEquals(&htup->t_self, &tuple->t_ctid)) return TM_Updated; else return TM_Deleted\<close>\<close>

definition modified_by_other :: "HeapTupleData \<Rightarrow> TM_Result" where
  "modified_by_other htup =
     (if \<not> ItemPointerEquals (t_self htup) (t_ctid (t_data htup)) then TM_Updated else TM_Deleted)"

definition Update_own_insert ::
  "xact_env \<Rightarrow> CommandId \<Rightarrow> HeapTupleData \<Rightarrow> (TM_Result \<times> HeapTupleData) option" where
  "Update_own_insert env cid htup = do {
     cmin \<leftarrow> HeapTupleHeaderGetCmin (combo_state env) (t_data htup);
     if cmin \<ge> cid then Some (TM_Invisible, htup)
     else if flag_set (infomask_of htup) HEAP_XMAX_INVALID then Some (TM_Ok, htup)
     else if HEAP_XMAX_IS_LOCKED_ONLY (infomask_of htup)
     then let xmax = raw_xmax htup in
          if flag_set (infomask_of htup) HEAP_XMAX_IS_MULTI
          then do {
            run \<leftarrow> MultiXactIdIsRunning env xmax True;
            if run then Some (TM_BeingModified, htup) else Some (TM_Ok, htup)
          }
          else do {
            run \<leftarrow> in_progress env xmax;
            if \<not> run then Some (TM_Ok, htup) else Some (TM_BeingModified, htup)
          }
     else if flag_set (infomask_of htup) HEAP_XMAX_IS_MULTI
     then do {
       xmax \<leftarrow> HeapTupleGetUpdateXid env (t_data htup);
       if \<not> is_current env xmax
       then do {
         run \<leftarrow> MultiXactIdIsRunning env (raw_xmax htup) False;
         if run then Some (TM_BeingModified, htup) else Some (TM_Ok, htup)
       }
       else do {
         r \<leftarrow> modified_by_self env cid htup;
         Some (r, htup)
       }
     }
     else if \<not> is_current env (raw_xmax htup)
     then Some (TM_Ok, SetHintBits env HEAP_XMAX_INVALID InvalidTransactionId htup)
     else do {
       r \<leftarrow> modified_by_self env cid htup;
       Some (r, htup)
     }
   }"

definition Update_inserter ::
  "xact_env \<Rightarrow> CommandId \<Rightarrow> HeapTupleData \<Rightarrow> (TM_Result flow \<times> HeapTupleData) option" where
  "Update_inserter env cid htup =
     (if HeapTupleHeaderXminCommitted (t_data htup) then Some (FallThrough, htup)
      else if HeapTupleHeaderXminInvalid (t_data htup) then Some (Return TM_Invisible, htup)
      else if flag_set (infomask_of htup) HEAP_MOVED_OFF
      then xmin_moved_off env (in_progress env) TM_Invisible htup
      else if flag_set (infomask_of htup) HEAP_MOVED_IN
      then xmin_moved_in env (in_progress env) TM_Invisible htup
      else if is_current env (raw_xmin htup)
      then do {
        (r, htup) \<leftarrow> Update_own_insert env cid htup;
        Some (Return r, htup)
      }
      else do {
        run \<leftarrow> in_progress env (raw_xmin htup);
        if run then Some (Return TM_Invisible, htup)
        else do {
          committed \<leftarrow> did_commit env (raw_xmin htup);
          if committed
          then Some (FallThrough, SetHintBits env HEAP_XMIN_COMMITTED (raw_xmin htup) htup)
          else Some (Return TM_Invisible,
                     SetHintBits env HEAP_XMIN_INVALID InvalidTransactionId htup)
        }
      })"

text \<open>
  After the lookup of a multixact's updater the code tests for an invalid xid (a multixact
  with no updater): if a member runs the tuple is being modified, otherwise control goes on
  with the invalid xid.
\<close>

definition Update_deleter_multi ::
  "xact_env \<Rightarrow> CommandId \<Rightarrow> HeapTupleData \<Rightarrow> (TM_Result \<times> HeapTupleData) option" where
  "Update_deleter_multi env cid htup =
     (if HEAP_LOCKED_UPGRADED (infomask_of htup) then Some (TM_Ok, htup)
      else if HEAP_XMAX_IS_LOCKED_ONLY (infomask_of htup)
      then do {
        run \<leftarrow> MultiXactIdIsRunning env (raw_xmax htup) True;
        if run then Some (TM_BeingModified, htup)
        else Some (TM_Ok, SetHintBits env HEAP_XMAX_INVALID InvalidTransactionId htup)
      }
      else do {
        xmax \<leftarrow> HeapTupleGetUpdateXid env (t_data htup);
        lockers \<leftarrow> (if \<not> TransactionIdIsValid xmax
                    then MultiXactIdIsRunning env (raw_xmax htup) False else Some False);
        if lockers then Some (TM_BeingModified, htup)
        else if is_current env xmax
        then do {
          r \<leftarrow> modified_by_self env cid htup;
          Some (r, htup)
        }
        else do {
          run \<leftarrow> MultiXactIdIsRunning env (raw_xmax htup) False;
          if run then Some (TM_BeingModified, htup)
          else do {
            committed \<leftarrow> did_commit env xmax;
            if committed then Some (modified_by_other htup, htup)
            else do {
              run \<leftarrow> MultiXactIdIsRunning env (raw_xmax htup) False;
              if \<not> run
              then Some (TM_Ok, SetHintBits env HEAP_XMAX_INVALID InvalidTransactionId htup)
              else Some (TM_BeingModified, htup)
            }
          }
        }
      })"

definition Update_deleter ::
  "xact_env \<Rightarrow> CommandId \<Rightarrow> HeapTupleData \<Rightarrow> (TM_Result \<times> HeapTupleData) option" where
  "Update_deleter env cid htup =
     (if flag_set (infomask_of htup) HEAP_XMAX_INVALID then Some (TM_Ok, htup)
      else if flag_set (infomask_of htup) HEAP_XMAX_COMMITTED
      then if HEAP_XMAX_IS_LOCKED_ONLY (infomask_of htup) then Some (TM_Ok, htup)
           else Some (modified_by_other htup, htup)
      else if flag_set (infomask_of htup) HEAP_XMAX_IS_MULTI
      then Update_deleter_multi env cid htup
      else if is_current env (raw_xmax htup)
      then if HEAP_XMAX_IS_LOCKED_ONLY (infomask_of htup) then Some (TM_BeingModified, htup)
           else do {
             r \<leftarrow> modified_by_self env cid htup;
             Some (r, htup)
           }
      else do {
        run \<leftarrow> in_progress env (raw_xmax htup);
        if run then Some (TM_BeingModified, htup)
        else do {
          committed \<leftarrow> did_commit env (raw_xmax htup);
          if \<not> committed
          then Some (TM_Ok, SetHintBits env HEAP_XMAX_INVALID InvalidTransactionId htup)
          else if HEAP_XMAX_IS_LOCKED_ONLY (infomask_of htup)
          then Some (TM_Ok, SetHintBits env HEAP_XMAX_INVALID InvalidTransactionId htup)
          else let htup = SetHintBits env HEAP_XMAX_COMMITTED (raw_xmax htup) htup in
               Some (modified_by_other htup, htup)
        }
      })"

definition HeapTupleSatisfiesUpdate ::
  "xact_env \<Rightarrow> CommandId \<Rightarrow> HeapTupleData \<Rightarrow> (TM_Result \<times> HeapTupleData) option" where
  "HeapTupleSatisfiesUpdate env cid htup = do {
     (r, htup) \<leftarrow> Update_inserter env cid htup;
     case r of Return b \<Rightarrow> Some (b, htup) | FallThrough \<Rightarrow> Update_deleter env cid htup
   }"

section \<open>HeapTupleSatisfiesDirty\<close>

text \<open>The snapshot is an output argument: the xids of concurrent transactions, the token.\<close>

definition Dirty_inserter ::
  "xact_env \<Rightarrow> SnapshotData \<Rightarrow> HeapTupleData \<Rightarrow>
   (bool flow \<times> SnapshotData \<times> HeapTupleData) option" where
  "Dirty_inserter env snapshot htup =
     (if HeapTupleHeaderXminCommitted (t_data htup) then Some (FallThrough, snapshot, htup)
      else if HeapTupleHeaderXminInvalid (t_data htup) then Some (Return False, snapshot, htup)
      else if flag_set (infomask_of htup) HEAP_MOVED_OFF
      then do {
        (r, htup) \<leftarrow> xmin_moved_off env (in_progress env) False htup;
        Some (r, snapshot, htup)
      }
      else if flag_set (infomask_of htup) HEAP_MOVED_IN
      then do {
        (r, htup) \<leftarrow> xmin_moved_in env (in_progress env) False htup;
        Some (r, snapshot, htup)
      }
      else if is_current env (raw_xmin htup)
      then if flag_set (infomask_of htup) HEAP_XMAX_INVALID then Some (Return True, snapshot, htup)
           else if HEAP_XMAX_IS_LOCKED_ONLY (infomask_of htup)
           then Some (Return True, snapshot, htup)
           else if flag_set (infomask_of htup) HEAP_XMAX_IS_MULTI
           then do {
             xmax \<leftarrow> HeapTupleGetUpdateXid env (t_data htup);
             if \<not> is_current env xmax then Some (Return True, snapshot, htup)
             else Some (Return False, snapshot, htup)
           }
           else if \<not> is_current env (raw_xmax htup)
           then Some (Return True, snapshot,
                      SetHintBits env HEAP_XMAX_INVALID InvalidTransactionId htup)
           else Some (Return False, snapshot, htup)
      else do {
        run \<leftarrow> in_progress env (raw_xmin htup);
        if run
        then let snapshot = (if HeapTupleHeaderIsSpeculative (t_data htup)
                             then snapshot\<lparr> speculativeToken :=
                                    HeapTupleHeaderGetSpeculativeToken (t_data htup) \<rparr>
                             else snapshot) in
             Some (Return True, snapshot\<lparr> snap_xmin := raw_xmin htup \<rparr>, htup)
        else do {
          committed \<leftarrow> did_commit env (raw_xmin htup);
          if committed
          then Some (FallThrough, snapshot,
                     SetHintBits env HEAP_XMIN_COMMITTED (raw_xmin htup) htup)
          else Some (Return False, snapshot,
                     SetHintBits env HEAP_XMIN_INVALID InvalidTransactionId htup)
        }
      })"

definition Dirty_deleter ::
  "xact_env \<Rightarrow> SnapshotData \<Rightarrow> HeapTupleData \<Rightarrow> (bool \<times> SnapshotData \<times> HeapTupleData) option" where
  "Dirty_deleter env snapshot htup =
     (if flag_set (infomask_of htup) HEAP_XMAX_INVALID then Some (True, snapshot, htup)
      else if flag_set (infomask_of htup) HEAP_XMAX_COMMITTED
      then if HEAP_XMAX_IS_LOCKED_ONLY (infomask_of htup) then Some (True, snapshot, htup)
           else Some (False, snapshot, htup)
      else if flag_set (infomask_of htup) HEAP_XMAX_IS_MULTI
      then if HEAP_XMAX_IS_LOCKED_ONLY (infomask_of htup) then Some (True, snapshot, htup)
           else do {
             xmax \<leftarrow> HeapTupleGetUpdateXid env (t_data htup);
             if is_current env xmax then Some (False, snapshot, htup)
             else do {
               run \<leftarrow> in_progress env xmax;
               if run then Some (True, snapshot\<lparr> snap_xmax := xmax \<rparr>, htup)
               else do {
                 committed \<leftarrow> did_commit env xmax;
                 if committed then Some (False, snapshot, htup) else Some (True, snapshot, htup)
               }
             }
           }
      else if is_current env (raw_xmax htup)
      then if HEAP_XMAX_IS_LOCKED_ONLY (infomask_of htup) then Some (True, snapshot, htup)
           else Some (False, snapshot, htup)
      else do {
        run \<leftarrow> in_progress env (raw_xmax htup);
        if run
        then if \<not> HEAP_XMAX_IS_LOCKED_ONLY (infomask_of htup)
             then Some (True, snapshot\<lparr> snap_xmax := raw_xmax htup \<rparr>, htup)
             else Some (True, snapshot, htup)
        else do {
          committed \<leftarrow> did_commit env (raw_xmax htup);
          if \<not> committed
          then Some (True, snapshot, SetHintBits env HEAP_XMAX_INVALID InvalidTransactionId htup)
          else if HEAP_XMAX_IS_LOCKED_ONLY (infomask_of htup)
          then Some (True, snapshot, SetHintBits env HEAP_XMAX_INVALID InvalidTransactionId htup)
          else Some (False, snapshot, SetHintBits env HEAP_XMAX_COMMITTED (raw_xmax htup) htup)
        }
      })"

definition HeapTupleSatisfiesDirty ::
  "xact_env \<Rightarrow> SnapshotData \<Rightarrow> HeapTupleData \<Rightarrow> (bool \<times> SnapshotData \<times> HeapTupleData) option" where
  "HeapTupleSatisfiesDirty env snapshot htup =
     (let snapshot = snapshot\<lparr> snap_xmin := InvalidTransactionId, snap_xmax := InvalidTransactionId,
                               speculativeToken := 0 \<rparr> in
      do {
        (r, snapshot, htup) \<leftarrow> Dirty_inserter env snapshot htup;
        case r of Return b \<Rightarrow> Some (b, snapshot, htup)
                | FallThrough \<Rightarrow> Dirty_deleter env snapshot htup
      })"

end
