(* ===== verification/Bin_Search.thy ===== *)
theory Bin_Search
  imports Xid_Arith
begin

text \<open>
  Binary search over an array, the loop that \<open>bsearch\<close> of the C library, the searches of
  \<open>TransactionIdIsCurrentTransactionId\<close> and \<open>KnownAssignedXidsSearch\<close> share. The interface
  \<open>search_order\<close> states what a three-way comparison owes to such a search; its lemma says that
  on an ascending part of an array the search finds exactly the index of the key. The
  comparisons of the code interpret it.
\<close>

text \<open>
  \<open>bsearch_between cmp key xs low high\<close> looks at the elements with index in \<open>[low, high]\<close>;
  \<open>cmp key x\<close> is negative, zero or positive as in C. The indices are C ints, so that \<open>high\<close>
  can drop to \<open>-1\<close>.
\<close>

function bsearch_between ::
  "('a \<Rightarrow> 'a \<Rightarrow> int) \<Rightarrow> 'a \<Rightarrow> 'a list \<Rightarrow> int \<Rightarrow> int \<Rightarrow> nat option" where
  "bsearch_between cmp key xs low high =
     (if low \<le> high
      then let middle = low + (high - low) div 2;
               c = cmp key (xs ! nat middle)
           in if c = 0 then Some (nat middle)
              else if c > 0 then bsearch_between cmp key xs (middle + 1) high
              else bsearch_between cmp key xs low (middle - 1)
      else None)"
  by pat_completeness auto
termination
  by (relation "measure (\<lambda>(cmp, key, xs, low, high). nat (high - low + 1))") auto

declare bsearch_between.simps [simp del]

text \<open>\<open>bsearch (...) != NULL\<close>.\<close>

definition bsearch :: "('a \<Rightarrow> 'a \<Rightarrow> int) \<Rightarrow> 'a \<Rightarrow> 'a list \<Rightarrow> bool" where
  "bsearch cmp key xs \<longleftrightarrow> bsearch_between cmp key xs 0 (int (length xs) - 1) \<noteq> None"

text \<open>Whatever the order, an index that is found is one of the key.\<close>

lemma bsearch_between_found:
  assumes cmp: "\<And>x. cmp key x = 0 \<Longrightarrow> x = key"
  shows "bsearch_between cmp key xs low high = Some i \<Longrightarrow> 0 \<le> low \<Longrightarrow>
    low \<le> int i \<and> int i \<le> high \<and> xs ! i = key"
proof (induction "nat (high - low + 1)" arbitrary: low high rule: less_induct)
  case less
  let ?m = "low + (high - low) div 2"
  have le: "low \<le> high" using less.prems(1) by (subst (asm) bsearch_between.simps) (simp split: if_splits)
  then have m: "low \<le> ?m" "?m \<le> high" by auto
  have unfold: "(if cmp key (xs ! nat ?m) = 0 then Some (nat ?m)
      else if cmp key (xs ! nat ?m) > 0 then bsearch_between cmp key xs (?m + 1) high
      else bsearch_between cmp key xs low (?m - 1)) = Some i"
    using less.prems(1) le by (subst (asm) bsearch_between.simps) (simp add: Let_def)
  consider "cmp key (xs ! nat ?m) = 0" | "cmp key (xs ! nat ?m) > 0" | "cmp key (xs ! nat ?m) < 0"
    by linarith
  then show ?case
  proof cases
    case 1
    then have "i = nat ?m" using unfold by simp
    then show ?thesis using cmp [OF 1] m less.prems(2) by simp
  next
    case 2
    then have "bsearch_between cmp key xs (?m + 1) high = Some i" using unfold by simp
    from less.hyps [OF _ this] have "?m + 1 \<le> int i \<and> int i \<le> high \<and> xs ! i = key"
      using m less.prems(2) by simp
    moreover have "low \<le> ?m + 1" using m(1) by linarith
    ultimately show ?thesis by (blast intro: order_trans)
  next
    case 3
    then have "bsearch_between cmp key xs low (?m - 1) = Some i" using unfold by simp
    from less.hyps [OF _ this] have "low \<le> int i \<and> int i \<le> ?m - 1 \<and> xs ! i = key"
      using m less.prems(2) by simp
    moreover have "?m - 1 \<le> high" using m(2) by linarith
    ultimately show ?thesis by (blast intro: order_trans)
  qed
qed

text \<open>What the caller of a search knows of the comparison, on the set \<open>A\<close> of keys in use.\<close>

locale search_order =
  fixes cmp :: "'a \<Rightarrow> 'a \<Rightarrow> int"
    and A :: "'a set"
  assumes cmp_eq: "a \<in> A \<Longrightarrow> b \<in> A \<Longrightarrow> cmp a b = 0 \<longleftrightarrow> a = b"
    and cmp_swap: "a \<in> A \<Longrightarrow> b \<in> A \<Longrightarrow> cmp a b > 0 \<longleftrightarrow> cmp b a < 0"
begin

definition ascending_on :: "'a list \<Rightarrow> int \<Rightarrow> int \<Rightarrow> bool" where
  "ascending_on xs low high \<longleftrightarrow>
     (\<forall>i j. low \<le> int i \<and> i < j \<and> int j \<le> high \<longrightarrow> cmp (xs ! i) (xs ! j) < 0) \<and>
     (\<forall>i. low \<le> int i \<and> int i \<le> high \<longrightarrow> xs ! i \<in> A)"

lemma ascending_on_less:
  "ascending_on xs low high \<Longrightarrow> low \<le> int i \<Longrightarrow> i < j \<Longrightarrow> int j \<le> high \<Longrightarrow> cmp (xs ! i) (xs ! j) < 0"
  by (simp add: ascending_on_def)

lemma ascending_on_mono:
  "ascending_on xs low high \<Longrightarrow> low \<le> low' \<Longrightarrow> high' \<le> high \<Longrightarrow> ascending_on xs low' high'"
  by (auto simp: ascending_on_def)

lemma ascending_on_unique:
  assumes "ascending_on xs low high" "low \<le> int i" "int i \<le> high" "low \<le> int j" "int j \<le> high"
    "xs ! i = xs ! j"
  shows "i = j"
proof -
  have "xs ! i \<in> A" using assms by (simp add: ascending_on_def)
  then have "\<not> cmp (xs ! i) (xs ! i) < 0" using cmp_eq by fastforce
  then show ?thesis
    using ascending_on_less [OF assms(1), of i j] ascending_on_less [OF assms(1), of j i] assms
    by (cases i j rule: linorder_cases) auto
qed

lemma bsearch_between_iff:
  "ascending_on xs low high \<Longrightarrow> key \<in> A \<Longrightarrow> 0 \<le> low \<Longrightarrow>
   bsearch_between cmp key xs low high = Some i \<longleftrightarrow> low \<le> int i \<and> int i \<le> high \<and> xs ! i = key"
proof (induction "nat (high - low + 1)" arbitrary: low high rule: less_induct)
  case less
  show ?case
  proof (cases "low \<le> high")
    case False
    then show ?thesis by (subst bsearch_between.simps) auto
  next
    case True
    let ?m = "low + (high - low) div 2"
    define k where "k = nat ?m"
    have m: "low \<le> ?m" "?m \<le> high" "int k = ?m" using True less.prems by (auto simp: k_def)
    have inA: "xs ! k \<in> A" using less.prems(1) m by (simp add: ascending_on_def)
    consider "cmp key (xs ! k) = 0" | "cmp key (xs ! k) > 0" | "cmp key (xs ! k) < 0" by linarith
    then show ?thesis
    proof cases
      case 1
      then have key: "xs ! k = key" using cmp_eq [OF less.prems(2) inA] by simp
      then have "low \<le> int i \<and> int i \<le> high \<and> xs ! i = key \<longleftrightarrow> i = k"
        using ascending_on_unique [OF less.prems(1), of i k] m by auto
      then show ?thesis using 1 True
        by (subst bsearch_between.simps) (auto simp: Let_def k_def [symmetric])
    next
      case 2
      then have "cmp (xs ! k) key < 0" using cmp_swap less.prems(2) inA by simp
      then have "\<not> (low \<le> int i \<and> int i \<le> ?m \<and> xs ! i = key)"
        using ascending_on_less [OF less.prems(1), of i k] 2 m
          cmp_swap [OF less.prems(2) inA] cmp_eq [OF less.prems(2) less.prems(2)]
          cmp_swap [OF inA less.prems(2)]
        by (cases "i = k") auto
      then have "low \<le> int i \<and> int i \<le> high \<and> xs ! i = key \<longleftrightarrow>
          ?m + 1 \<le> int i \<and> int i \<le> high \<and> xs ! i = key"
        using m(1) by linarith
      moreover have "bsearch_between cmp key xs (?m + 1) high = Some i \<longleftrightarrow>
          ?m + 1 \<le> int i \<and> int i \<le> high \<and> xs ! i = key"
        using less.prems m by (intro less.hyps) (auto intro: ascending_on_mono)
      ultimately show ?thesis using 2 True
        by (subst bsearch_between.simps) (simp add: Let_def k_def [symmetric])
    next
      case 3
      then have "\<not> (?m \<le> int i \<and> int i \<le> high \<and> xs ! i = key)"
        using ascending_on_less [OF less.prems(1), of k i] m cmp_swap [OF less.prems(2) inA]
          cmp_swap [OF inA less.prems(2)] cmp_eq [OF inA inA]
        by (cases "i = k") auto
      then have "low \<le> int i \<and> int i \<le> high \<and> xs ! i = key \<longleftrightarrow>
          low \<le> int i \<and> int i \<le> ?m - 1 \<and> xs ! i = key"
        using m(2) by linarith
      moreover have "bsearch_between cmp key xs low (?m - 1) = Some i \<longleftrightarrow>
          low \<le> int i \<and> int i \<le> ?m - 1 \<and> xs ! i = key"
        using less.prems m by (intro less.hyps) (auto intro: ascending_on_mono)
      ultimately show ?thesis using 3 True
        by (subst bsearch_between.simps) (simp add: Let_def k_def [symmetric])
    qed
  qed
qed

definition ascending :: "'a list \<Rightarrow> bool" where
  "ascending xs \<longleftrightarrow> sorted_wrt (\<lambda>a b. cmp a b < 0) xs \<and> set xs \<subseteq> A"

lemma ascending_all: "ascending xs \<Longrightarrow> ascending_on xs 0 (int (length xs) - 1)"
  by (auto simp: ascending_def ascending_on_def sorted_wrt_iff_nth_less)

lemma bsearch_iff:
  assumes "ascending xs" "key \<in> A"
  shows "bsearch cmp key xs \<longleftrightarrow> key \<in> set xs"
proof -
  have "bsearch_between cmp key xs 0 (int (length xs) - 1) = Some i \<longleftrightarrow> i < length xs \<and> xs ! i = key" for i
    using bsearch_between_iff [OF ascending_all [OF assms(1)] assms(2)] by auto
  then show ?thesis by (auto simp: bsearch_def in_set_conv_nth)
qed

end

section \<open>The comparisons of the code\<close>

text \<open>\<open>xidComparator\<close> of \<^verbatim>\<open>src/backend/utils/adt/xid.c\<close>: the order of the unsigned values.\<close>

definition xidComparator :: "TransactionId \<Rightarrow> TransactionId \<Rightarrow> int" where
  "xidComparator xid1 xid2 =
     (if xid1 > xid2 then 1
      else if xid1 < xid2 then -1
      else 0)"

text \<open>The tests of the searches in \<open>TransactionIdIsCurrentTransactionId\<close> and \<open>KnownAssignedXidsSearch\<close>.\<close>

definition probe_order :: "TransactionId \<Rightarrow> TransactionId \<Rightarrow> int" where
  "probe_order xid probe =
     (if probe = xid then 0
      else if TransactionIdPrecedes probe xid then 1
      else -1)"

definition known_order :: "TransactionId \<Rightarrow> TransactionId \<Rightarrow> int" where
  "known_order xid mid_xid =
     (if xid = mid_xid then 0
      else if TransactionIdPrecedes xid mid_xid then -1
      else 1)"

interpretation xid_values: search_order xidComparator UNIV
  by unfold_locales (auto simp: xidComparator_def split: if_splits)

interpretation xid_probe: search_order probe_order "{x. xid_window b x}" for b
proof unfold_locales
  fix x y
  assume w: "x \<in> {x. xid_window b x}" "y \<in> {x. xid_window b x}"
  then have "x = y \<longleftrightarrow> xid_dist b x = xid_dist b y" by simp
  then show "probe_order x y > 0 \<longleftrightarrow> probe_order y x < 0" "probe_order x y = 0 \<longleftrightarrow> x = y"
    using w by (auto simp: probe_order_def simp del: xid_dist_inject)
qed

interpretation xid_known: search_order known_order "{x. xid_window b x}" for b
proof unfold_locales
  fix x y
  assume w: "x \<in> {x. xid_window b x}" "y \<in> {x. xid_window b x}"
  then have "x = y \<longleftrightarrow> xid_dist b x = xid_dist b y" by simp
  then show "known_order x y > 0 \<longleftrightarrow> known_order y x < 0" "known_order x y = 0 \<longleftrightarrow> x = y"
    using w by (auto simp: known_order_def simp del: xid_dist_inject)
qed

end
