(* ===== verification/Visibility_MVCC.thy ===== *)
theory Visibility_MVCC
  imports Visibility Bin_Search
begin

text \<open>
  The second half of \<^verbatim>\<open>src/backend/access/heap/heapam_visibility.c\<close>: visibility to an MVCC
  snapshot, the state of a tuple for VACUUM, visibility to a historic snapshot, and the
  dispatch on the snapshot type.
\<close>

section \<open>HeapTupleSatisfiesMVCC\<close>

text \<open>\<open>if (HeapTupleHeaderGetCmax(tuple) >= snapshot->curcid) return true; else return false\<close>\<close>

definition deleted_after_scan_start ::
  "xact_env \<Rightarrow> SnapshotData \<Rightarrow> HeapTupleData \<Rightarrow> bool option" where
  "deleted_after_scan_start env snapshot htup = do {
     cmax \<leftarrow> HeapTupleHeaderGetCmax (combo_state env) (t_data htup);
     Some (cmax \<ge> curcid snapshot)
   }"

definition MVCC_own_insert ::
  "xact_env \<Rightarrow> SnapshotData \<Rightarrow> HeapTupleData \<Rightarrow> (bool \<times> HeapTupleData) option" where
  "MVCC_own_insert env snapshot htup = do {
     cmin \<leftarrow> HeapTupleHeaderGetCmin (combo_state env) (t_data htup);
     if cmin \<ge> curcid snapshot then Some (False, htup)
     else if flag_set (infomask_of htup) HEAP_XMAX_INVALID then Some (True, htup)
     else if HEAP_XMAX_IS_LOCKED_ONLY (infomask_of htup) then Some (True, htup)
     else if flag_set (infomask_of htup) HEAP_XMAX_IS_MULTI
     then do {
       xmax \<leftarrow> HeapTupleGetUpdateXid env (t_data htup);
       if \<not> is_current env xmax then Some (True, htup)
       else do {
         r \<leftarrow> deleted_after_scan_start env snapshot htup;
         Some (r, htup)
       }
     }
     else if \<not> is_current env (raw_xmax htup)
     then Some (True, SetHintBits env HEAP_XMAX_INVALID InvalidTransactionId htup)
     else do {
       r \<leftarrow> deleted_after_scan_start env snapshot htup;
       Some (r, htup)
     }
   }"

definition MVCC_inserter ::
  "xact_env \<Rightarrow> SnapshotData \<Rightarrow> HeapTupleData \<Rightarrow> (bool flow \<times> HeapTupleData) option" where
  "MVCC_inserter env snapshot htup =
     (if \<not> HeapTupleHeaderXminCommitted (t_data htup)
      then if HeapTupleHeaderXminInvalid (t_data htup) then Some (Return False, htup)
           else if flag_set (infomask_of htup) HEAP_MOVED_OFF
           then xmin_moved_off env (\<lambda>xid. XidInMVCCSnapshot env xid snapshot) False htup
           else if flag_set (infomask_of htup) HEAP_MOVED_IN
           then xmin_moved_in env (\<lambda>xid. XidInMVCCSnapshot env xid snapshot) False htup
           else if is_current env (raw_xmin htup)
           then do {
             (r, htup) \<leftarrow> MVCC_own_insert env snapshot htup;
             Some (Return r, htup)
           }
           else do {
             run \<leftarrow> XidInMVCCSnapshot env (raw_xmin htup) snapshot;
             if run then Some (Return False, htup)
             else do {
               committed \<leftarrow> did_commit env (raw_xmin htup);
               if committed
               then Some (FallThrough, SetHintBits env HEAP_XMIN_COMMITTED (raw_xmin htup) htup)
               else Some (Return False,
                          SetHintBits env HEAP_XMIN_INVALID InvalidTransactionId htup)
             }
           }
      else if \<not> HeapTupleHeaderXminFrozen (t_data htup)
      then do {
        run \<leftarrow> XidInMVCCSnapshot env (raw_xmin htup) snapshot;
        if run then Some (Return False, htup) else Some (FallThrough, htup)
      }
      else Some (FallThrough, htup))"

definition MVCC_deleter ::
  "xact_env \<Rightarrow> SnapshotData \<Rightarrow> HeapTupleData \<Rightarrow> (bool \<times> HeapTupleData) option" where
  "MVCC_deleter env snapshot htup =
     (if flag_set (infomask_of htup) HEAP_XMAX_INVALID then Some (True, htup)
      else if HEAP_XMAX_IS_LOCKED_ONLY (infomask_of htup) then Some (True, htup)
      else if flag_set (infomask_of htup) HEAP_XMAX_IS_MULTI
      then do {
        xmax \<leftarrow> HeapTupleGetUpdateXid env (t_data htup);
        if is_current env xmax
        then do {
          r \<leftarrow> deleted_after_scan_start env snapshot htup;
          Some (r, htup)
        }
        else do {
          run \<leftarrow> XidInMVCCSnapshot env xmax snapshot;
          if run then Some (True, htup)
          else do {
            committed \<leftarrow> did_commit env xmax;
            if committed then Some (False, htup) else Some (True, htup)
          }
        }
      }
      else if \<not> flag_set (infomask_of htup) HEAP_XMAX_COMMITTED
      then if is_current env (raw_xmax htup)
           then do {
             r \<leftarrow> deleted_after_scan_start env snapshot htup;
             Some (r, htup)
           }
           else do {
             run \<leftarrow> XidInMVCCSnapshot env (raw_xmax htup) snapshot;
             if run then Some (True, htup)
             else do {
               committed \<leftarrow> did_commit env (raw_xmax htup);
               if \<not> committed
               then Some (True, SetHintBits env HEAP_XMAX_INVALID InvalidTransactionId htup)
               else Some (False, SetHintBits env HEAP_XMAX_COMMITTED (raw_xmax htup) htup)
             }
           }
      else do {
        run \<leftarrow> XidInMVCCSnapshot env (raw_xmax htup) snapshot;
        if run then Some (True, htup) else Some (False, htup)
      })"

definition HeapTupleSatisfiesMVCC ::
  "xact_env \<Rightarrow> SnapshotData \<Rightarrow> HeapTupleData \<Rightarrow> (bool \<times> HeapTupleData) option" where
  "HeapTupleSatisfiesMVCC env snapshot htup = do {
     (r, htup) \<leftarrow> MVCC_inserter env snapshot htup;
     case r of Return b \<Rightarrow> Some (b, htup) | FallThrough \<Rightarrow> MVCC_deleter env snapshot htup
   }"

section \<open>VACUUM\<close>

datatype HTSV_Result =
    HEAPTUPLE_DEAD
  | HEAPTUPLE_LIVE
  | HEAPTUPLE_RECENTLY_DEAD
  | HEAPTUPLE_INSERT_IN_PROGRESS
  | HEAPTUPLE_DELETE_IN_PROGRESS

definition HeapTupleHeaderIsOnlyLocked :: "xact_env \<Rightarrow> HeapTupleHeaderData \<Rightarrow> bool option" where
  "HeapTupleHeaderIsOnlyLocked env tuple =
     (if flag_set (t_infomask tuple) HEAP_XMAX_INVALID then Some True
      else if flag_set (t_infomask tuple) HEAP_XMAX_LOCK_ONLY then Some True
      else if \<not> TransactionIdIsValid (HeapTupleHeaderGetRawXmax tuple) then Some True
      else if \<not> flag_set (t_infomask tuple) HEAP_XMAX_IS_MULTI then Some False
      else do {
        xmax \<leftarrow> HeapTupleGetUpdateXid env tuple;
        if is_current env xmax then Some False
        else do {
          run \<leftarrow> in_progress env xmax;
          if run then Some False
          else do {
            committed \<leftarrow> did_commit env xmax;
            if committed then Some False else Some True
          }
        }
      })"

definition Vacuum_own_insert :: "xact_env \<Rightarrow> HeapTupleData \<Rightarrow> HTSV_Result option" where
  "Vacuum_own_insert env htup =
     (if flag_set (infomask_of htup) HEAP_XMAX_INVALID then Some HEAPTUPLE_INSERT_IN_PROGRESS
      else do {
        only_locked \<leftarrow> (if HEAP_XMAX_IS_LOCKED_ONLY (infomask_of htup) then Some True
                        else HeapTupleHeaderIsOnlyLocked env (t_data htup));
        if only_locked then Some HEAPTUPLE_INSERT_IN_PROGRESS
        else do {
          xmax \<leftarrow> HeapTupleHeaderGetUpdateXid env (t_data htup);
          if is_current env xmax then Some HEAPTUPLE_DELETE_IN_PROGRESS
          else Some HEAPTUPLE_INSERT_IN_PROGRESS
        }
      })"

definition Vacuum_moved_off ::
  "xact_env \<Rightarrow> HeapTupleData \<Rightarrow> (HTSV_Result flow \<times> HeapTupleData) option" where
  "Vacuum_moved_off env htup =
     (let xvac = HeapTupleHeaderGetXvac (t_data htup) in
      if is_current env xvac then Some (Return HEAPTUPLE_DELETE_IN_PROGRESS, htup)
      else do {
        run \<leftarrow> in_progress env xvac;
        if run then Some (Return HEAPTUPLE_DELETE_IN_PROGRESS, htup)
        else do {
          committed \<leftarrow> did_commit env xvac;
          if committed
          then Some (Return HEAPTUPLE_DEAD,
                     SetHintBits env HEAP_XMIN_INVALID InvalidTransactionId htup)
          else Some (FallThrough, SetHintBits env HEAP_XMIN_COMMITTED InvalidTransactionId htup)
        }
      })"

definition Vacuum_moved_in ::
  "xact_env \<Rightarrow> HeapTupleData \<Rightarrow> (HTSV_Result flow \<times> HeapTupleData) option" where
  "Vacuum_moved_in env htup =
     (let xvac = HeapTupleHeaderGetXvac (t_data htup) in
      if is_current env xvac then Some (Return HEAPTUPLE_INSERT_IN_PROGRESS, htup)
      else do {
        run \<leftarrow> in_progress env xvac;
        if run then Some (Return HEAPTUPLE_INSERT_IN_PROGRESS, htup)
        else do {
          committed \<leftarrow> did_commit env xvac;
          if committed
          then Some (FallThrough, SetHintBits env HEAP_XMIN_COMMITTED InvalidTransactionId htup)
          else Some (Return HEAPTUPLE_DEAD,
                     SetHintBits env HEAP_XMIN_INVALID InvalidTransactionId htup)
        }
      })"

definition Vacuum_inserter ::
  "xact_env \<Rightarrow> HeapTupleData \<Rightarrow> (HTSV_Result flow \<times> HeapTupleData) option" where
  "Vacuum_inserter env htup =
     (if HeapTupleHeaderXminCommitted (t_data htup) then Some (FallThrough, htup)
      else if HeapTupleHeaderXminInvalid (t_data htup) then Some (Return HEAPTUPLE_DEAD, htup)
      else if flag_set (infomask_of htup) HEAP_MOVED_OFF then Vacuum_moved_off env htup
      else if flag_set (infomask_of htup) HEAP_MOVED_IN then Vacuum_moved_in env htup
      else if is_current env (raw_xmin htup)
      then do {
        r \<leftarrow> Vacuum_own_insert env htup;
        Some (Return r, htup)
      }
      else do {
        run \<leftarrow> in_progress env (raw_xmin htup);
        if run then Some (Return HEAPTUPLE_INSERT_IN_PROGRESS, htup)
        else do {
          committed \<leftarrow> did_commit env (raw_xmin htup);
          if committed
          then Some (FallThrough, SetHintBits env HEAP_XMIN_COMMITTED (raw_xmin htup) htup)
          else Some (Return HEAPTUPLE_DEAD,
                     SetHintBits env HEAP_XMIN_INVALID InvalidTransactionId htup)
        }
      })"

definition Vacuum_locker ::
  "xact_env \<Rightarrow> HeapTupleData \<Rightarrow> (HTSV_Result \<times> HeapTupleData) option" where
  "Vacuum_locker env htup =
     (if \<not> flag_set (infomask_of htup) HEAP_XMAX_COMMITTED
      then do {
        run \<leftarrow> (if flag_set (infomask_of htup) HEAP_XMAX_IS_MULTI
                then if \<not> HEAP_LOCKED_UPGRADED (infomask_of htup)
                     then MultiXactIdIsRunning env (raw_xmax htup) True else Some False
                else in_progress env (raw_xmax htup));
        if run then Some (HEAPTUPLE_LIVE, htup)
        else Some (HEAPTUPLE_LIVE, SetHintBits env HEAP_XMAX_INVALID InvalidTransactionId htup)
      }
      else Some (HEAPTUPLE_LIVE, htup))"

definition Vacuum_deleter ::
  "xact_env \<Rightarrow> HeapTupleData \<Rightarrow> (HTSV_Result \<times> TransactionId \<times> HeapTupleData) option" where
  "Vacuum_deleter env htup =
     (if flag_set (infomask_of htup) HEAP_XMAX_INVALID
      then Some (HEAPTUPLE_LIVE, InvalidTransactionId, htup)
      else if HEAP_XMAX_IS_LOCKED_ONLY (infomask_of htup)
      then do {
        (r, htup) \<leftarrow> Vacuum_locker env htup;
        Some (r, InvalidTransactionId, htup)
      }
      else if flag_set (infomask_of htup) HEAP_XMAX_IS_MULTI
      then do {
        xmax \<leftarrow> HeapTupleGetUpdateXid env (t_data htup);
        run \<leftarrow> in_progress env xmax;
        if run then Some (HEAPTUPLE_DELETE_IN_PROGRESS, InvalidTransactionId, htup)
        else do {
          committed \<leftarrow> did_commit env xmax;
          if committed then Some (HEAPTUPLE_RECENTLY_DEAD, xmax, htup)
          else do {
            run \<leftarrow> MultiXactIdIsRunning env (raw_xmax htup) False;
            if \<not> run
            then Some (HEAPTUPLE_LIVE, InvalidTransactionId,
                       SetHintBits env HEAP_XMAX_INVALID InvalidTransactionId htup)
            else Some (HEAPTUPLE_LIVE, InvalidTransactionId, htup)
          }
        }
      }
      else if \<not> flag_set (infomask_of htup) HEAP_XMAX_COMMITTED
      then do {
        run \<leftarrow> in_progress env (raw_xmax htup);
        if run then Some (HEAPTUPLE_DELETE_IN_PROGRESS, InvalidTransactionId, htup)
        else do {
          committed \<leftarrow> did_commit env (raw_xmax htup);
          if committed
          then Some (HEAPTUPLE_RECENTLY_DEAD, raw_xmax htup,
                     SetHintBits env HEAP_XMAX_COMMITTED (raw_xmax htup) htup)
          else Some (HEAPTUPLE_LIVE, InvalidTransactionId,
                     SetHintBits env HEAP_XMAX_INVALID InvalidTransactionId htup)
        }
      }
      else Some (HEAPTUPLE_RECENTLY_DEAD, raw_xmax htup, htup))"

text \<open>The second component of the result is the output argument \<open>dead_after\<close>.\<close>

definition HeapTupleSatisfiesVacuumHorizon ::
  "xact_env \<Rightarrow> HeapTupleData \<Rightarrow> (HTSV_Result \<times> TransactionId \<times> HeapTupleData) option" where
  "HeapTupleSatisfiesVacuumHorizon env htup = do {
     (r, htup) \<leftarrow> Vacuum_inserter env htup;
     case r of Return res \<Rightarrow> Some (res, InvalidTransactionId, htup)
             | FallThrough \<Rightarrow> Vacuum_deleter env htup
   }"

definition HeapTupleSatisfiesVacuum ::
  "xact_env \<Rightarrow> TransactionId \<Rightarrow> HeapTupleData \<Rightarrow> (HTSV_Result \<times> HeapTupleData) option" where
  "HeapTupleSatisfiesVacuum env OldestXmin htup = do {
     (res, dead_after, htup) \<leftarrow> HeapTupleSatisfiesVacuumHorizon env htup;
     if res = HEAPTUPLE_RECENTLY_DEAD \<and> TransactionIdPrecedes dead_after OldestXmin
     then Some (HEAPTUPLE_DEAD, htup)
     else Some (res, htup)
   }"

definition HeapTupleSatisfiesNonVacuumable ::
  "xact_env \<Rightarrow> SnapshotData \<Rightarrow> HeapTupleData \<Rightarrow> global_vis \<Rightarrow>
   (bool \<times> HeapTupleData \<times> global_vis) option" where
  "HeapTupleSatisfiesNonVacuumable env snapshot htup g = do {
     (res, dead_after, htup) \<leftarrow> HeapTupleSatisfiesVacuumHorizon env htup;
     if res = HEAPTUPLE_RECENTLY_DEAD
     then let (removable, g) = GlobalVisTestIsRemovableXid env (vistest snapshot) dead_after g;
              res = (if removable then HEAPTUPLE_DEAD else res)
          in Some (res \<noteq> HEAPTUPLE_DEAD, htup, g)
     else Some (res \<noteq> HEAPTUPLE_DEAD, htup, g)
   }"

definition HeapTupleIsSurelyDead ::
  "xact_env \<Rightarrow> GlobalVisHorizonKind \<Rightarrow> HeapTupleData \<Rightarrow> global_vis \<Rightarrow> bool \<times> global_vis" where
  "HeapTupleIsSurelyDead env kind htup g =
     (if \<not> HeapTupleHeaderXminCommitted (t_data htup)
      then (HeapTupleHeaderXminInvalid (t_data htup), g)
      else if flag_set (infomask_of htup) HEAP_XMAX_INVALID then (False, g)
      else if HEAP_XMAX_IS_LOCKED_ONLY (infomask_of htup) then (False, g)
      else if flag_set (infomask_of htup) HEAP_XMAX_IS_MULTI then (False, g)
      else if \<not> flag_set (infomask_of htup) HEAP_XMAX_COMMITTED then (False, g)
      else GlobalVisTestIsRemovableXid env kind (raw_xmax htup) g)"

section \<open>Historic snapshots\<close>

definition TransactionIdInArray :: "TransactionId \<Rightarrow> TransactionId list \<Rightarrow> bool" where
  "TransactionIdInArray xid xids \<longleftrightarrow> length xids > 0 \<and> bsearch xidComparator xid xids"

definition Historic_inserter ::
  "xact_env \<Rightarrow> SnapshotData \<Rightarrow> HeapTupleData \<Rightarrow> bool flow option" where
  "Historic_inserter env snapshot htup =
     (let tuple = t_data htup;
          xmin = HeapTupleHeaderGetXmin tuple in
      if HeapTupleHeaderXminInvalid tuple then Some (Return False)
      else if TransactionIdInArray xmin (subxip snapshot)
      then case decoding_cids env (t_self htup) of
             None \<Rightarrow> Some (Return False)
           | Some (cmin, cmax) \<Rightarrow>
               if cmin \<ge> curcid snapshot then Some (Return False) else Some FallThrough
      else if TransactionIdPrecedes xmin (snap_xmin snapshot)
      then if HeapTupleHeaderXminCommitted tuple then Some FallThrough
           else do {
             committed \<leftarrow> did_commit env xmin;
             if \<not> committed then Some (Return False) else Some FallThrough
           }
      else if TransactionIdFollowsOrEquals xmin (snap_xmax snapshot) then Some (Return False)
      else if TransactionIdInArray xmin (xip snapshot) then Some FallThrough
      else Some (Return False))"

definition Historic_deleter ::
  "xact_env \<Rightarrow> SnapshotData \<Rightarrow> HeapTupleData \<Rightarrow> bool option" where
  "Historic_deleter env snapshot htup =
     (let tuple = t_data htup in
      if flag_set (t_infomask tuple) HEAP_XMAX_INVALID then Some True
      else if HEAP_XMAX_IS_LOCKED_ONLY (t_infomask tuple) then Some True
      else do {
        xmax \<leftarrow> (if flag_set (t_infomask tuple) HEAP_XMAX_IS_MULTI
                 then HeapTupleGetUpdateXid env tuple
                 else Some (HeapTupleHeaderGetRawXmax tuple));
        if TransactionIdInArray xmax (subxip snapshot)
        then case decoding_cids env (t_self htup) of
               None \<Rightarrow> Some True
             | Some (cmin, cmax) \<Rightarrow>
                 if cmax = InvalidCommandId then Some True
                 else if cmax \<ge> curcid snapshot then Some True
                 else Some False
        else if TransactionIdPrecedes xmax (snap_xmin snapshot)
        then if flag_set (t_infomask tuple) HEAP_XMAX_COMMITTED then Some False
             else do {
               committed \<leftarrow> did_commit env xmax;
               Some (\<not> committed)
             }
        else if TransactionIdFollowsOrEquals xmax (snap_xmax snapshot) then Some True
        else if TransactionIdInArray xmax (xip snapshot) then Some False
        else Some True
      })"

definition HeapTupleSatisfiesHistoricMVCC ::
  "xact_env \<Rightarrow> SnapshotData \<Rightarrow> HeapTupleData \<Rightarrow> (bool \<times> HeapTupleData) option" where
  "HeapTupleSatisfiesHistoricMVCC env snapshot htup = do {
     r \<leftarrow> Historic_inserter env snapshot htup;
     b \<leftarrow> (case r of Return b \<Rightarrow> Some b | FallThrough \<Rightarrow> Historic_deleter env snapshot htup);
     Some (b, htup)
   }"

section \<open>Dispatch\<close>

text \<open>
  The result carries everything the call may change: the snapshot (an output of the dirty
  test), the tuple with its hint bits, the backend's horizons.
\<close>

definition HeapTupleSatisfiesVisibility ::
  "xact_env \<Rightarrow> HeapTupleData \<Rightarrow> SnapshotData \<Rightarrow> global_vis \<Rightarrow>
   (bool \<times> HeapTupleData \<times> SnapshotData \<times> global_vis) option" where
  "HeapTupleSatisfiesVisibility env tup snapshot g =
     (case snapshot_type snapshot of
        SNAPSHOT_MVCC \<Rightarrow>
          map_option (\<lambda>(b, tup). (b, tup, snapshot, g)) (HeapTupleSatisfiesMVCC env snapshot tup)
      | SNAPSHOT_SELF \<Rightarrow>
          map_option (\<lambda>(b, tup). (b, tup, snapshot, g)) (HeapTupleSatisfiesSelf env tup)
      | SNAPSHOT_ANY \<Rightarrow>
          map_option (\<lambda>(b, tup). (b, tup, snapshot, g)) (HeapTupleSatisfiesAny env tup)
      | SNAPSHOT_TOAST \<Rightarrow>
          map_option (\<lambda>(b, tup). (b, tup, snapshot, g)) (HeapTupleSatisfiesToast env tup)
      | SNAPSHOT_DIRTY \<Rightarrow>
          map_option (\<lambda>(b, snapshot, tup). (b, tup, snapshot, g))
            (HeapTupleSatisfiesDirty env snapshot tup)
      | SNAPSHOT_HISTORIC_MVCC \<Rightarrow>
          map_option (\<lambda>(b, tup). (b, tup, snapshot, g))
            (HeapTupleSatisfiesHistoricMVCC env snapshot tup)
      | SNAPSHOT_NON_VACUUMABLE \<Rightarrow>
          map_option (\<lambda>(b, tup, g). (b, tup, snapshot, g))
            (HeapTupleSatisfiesNonVacuumable env snapshot tup g))"

end
