(* ===== verification/Visibility_Spec.thy ===== *)
theory Visibility_Spec
  imports Visibility_MVCC
begin

text \<open>
  What the visibility routines promise. The routines mix two things: the question whether a
  tuple is visible, and the caching of finished transactions' outcomes in hint bits. Here the
  question is answered without the cache (\<open>mvcc_visible\<close>, \<open>self_visible\<close>, ...), and the caching
  is a step relation (\<open>hint_step\<close>) that may only write down what is true. The lemmas show that
  every routine computes its specification whatever hints are already there, and that no step
  changes the answer for any backend, now or later.
\<close>

section \<open>Finished transactions\<close>

definition finished_committed :: "xact_env \<Rightarrow> TransactionId \<Rightarrow> bool" where
  "finished_committed env x \<longleftrightarrow> in_progress env x = Some False \<and> did_commit env x = Some True"

definition finished_aborted :: "xact_env \<Rightarrow> TransactionId \<Rightarrow> bool" where
  "finished_aborted env x \<longleftrightarrow> in_progress env x = Some False \<and> did_commit env x = Some False"

text \<open>The contract of the transaction system, as the callers of its functions rely on it.\<close>

definition xact_env_ok :: "xact_env \<Rightarrow> bool" where
  "xact_env_ok env \<longleftrightarrow>
     (\<forall>x. in_progress env x \<noteq> None \<and> did_commit env x \<noteq> None \<and>
          (is_current env x \<longrightarrow>
             TransactionIdIsValid x \<and> in_progress env x = Some True \<and> did_commit env x = Some False))"

text \<open>
  What two views have in common, taken by two backends or by one backend at two times, the
  second later: a finished transaction stays finished, a multixact keeps its members.
\<close>

definition later_view :: "xact_env \<Rightarrow> xact_env \<Rightarrow> bool" where
  "later_view env env' \<longleftrightarrow>
     (\<forall>x. (finished_committed env x \<longrightarrow> finished_committed env' x) \<and>
          (finished_aborted env x \<longrightarrow> finished_aborted env' x)) \<and>
     (\<forall>m b. multixact_members env' m b = multixact_members env m b)"

text \<open>A snapshot of the backend: what it does not consider running has finished.\<close>

definition snapshot_ok :: "xact_env \<Rightarrow> SnapshotData \<Rightarrow> bool" where
  "snapshot_ok env snapshot \<longleftrightarrow>
     (\<forall>x. \<not> is_current env x \<longrightarrow>
        XidInMVCCSnapshot env x snapshot = Some True \<or>
        XidInMVCCSnapshot env x snapshot = Some False \<and> in_progress env x = Some False)"

section \<open>Tuples\<close>

text \<open>The transaction that deleted or updated the tuple, if there is one.\<close>

definition updater :: "xact_env \<Rightarrow> HeapTupleData \<Rightarrow> TransactionId option" where
  "updater env t =
     (if flag_set (infomask_of t) HEAP_XMAX_INVALID \<or> HEAP_XMAX_IS_LOCKED_ONLY (infomask_of t)
      then None
      else if flag_set (infomask_of t) HEAP_XMAX_IS_MULTI then HeapTupleGetUpdateXid env (t_data t)
      else Some (raw_xmax t))"

text \<open>Nobody holds the lock that a lock-only xmax stands for.\<close>

definition unlocked :: "xact_env \<Rightarrow> HeapTupleData \<Rightarrow> bool" where
  "unlocked env t \<longleftrightarrow>
     (if flag_set (infomask_of t) HEAP_XMAX_IS_MULTI
      then HEAP_LOCKED_UPGRADED (infomask_of t) \<or>
           MultiXactIdIsRunning env (raw_xmax t) True = Some False
      else in_progress env (raw_xmax t) = Some False)"

definition hints_ok :: "xact_env \<Rightarrow> HeapTupleData \<Rightarrow> bool" where
  "hints_ok env t \<longleftrightarrow>
     (HeapTupleHeaderXminCommitted (t_data t) \<and> \<not> HeapTupleHeaderXminFrozen (t_data t) \<longrightarrow>
        finished_committed env (raw_xmin t)) \<and>
     (HeapTupleHeaderXminInvalid (t_data t) \<longrightarrow> finished_aborted env (raw_xmin t)) \<and>
     (flag_set (infomask_of t) HEAP_XMAX_COMMITTED \<and>
      \<not> flag_set (infomask_of t) HEAP_XMAX_INVALID \<and>
      \<not> HEAP_XMAX_IS_LOCKED_ONLY (infomask_of t) \<longrightarrow>
        \<not> flag_set (infomask_of t) HEAP_XMAX_IS_MULTI \<and> finished_committed env (raw_xmax t)) \<and>
     (flag_set (infomask_of t) HEAP_XMAX_COMMITTED \<and>
      \<not> flag_set (infomask_of t) HEAP_XMAX_INVALID \<and>
      HEAP_XMAX_IS_LOCKED_ONLY (infomask_of t) \<longrightarrow> unlocked env t)"

text \<open>A multixact in xmax can be read, and has an updater unless it only locks.\<close>

definition multi_ok :: "xact_env \<Rightarrow> HeapTupleData \<Rightarrow> bool" where
  "multi_ok env t \<longleftrightarrow>
     (\<not> flag_set (infomask_of t) HEAP_XMAX_INVALID \<and>
      flag_set (infomask_of t) HEAP_XMAX_IS_MULTI \<longrightarrow>
      TransactionIdIsValid (raw_xmax t) \<and>
      (case multixact_members env (raw_xmax t) (HEAP_XMAX_IS_LOCKED_ONLY (infomask_of t)) of
         None \<Rightarrow> False
       | Some ms \<Rightarrow> HEAP_XMAX_IS_LOCKED_ONLY (infomask_of t) \<or>
                     TransactionIdIsValid (first_updater ms)))"

text \<open>
  Only the inserting transaction can delete a tuple it has not committed, a backend can
  read the command ids of its own transaction, and no tuple of it comes from a pg_upgrade.
\<close>

definition own_ok :: "xact_env \<Rightarrow> HeapTupleData \<Rightarrow> bool" where
  "own_ok env t \<longleftrightarrow>
     (is_current env (raw_xmin t) \<longrightarrow>
        HeapTupleHeaderGetCmin (combo_state env) (t_data t) \<noteq> None \<and>
        \<not> HEAP_LOCKED_UPGRADED (infomask_of t) \<and>
        (case updater env t of None \<Rightarrow> True
         | Some x \<Rightarrow> is_current env x \<or> finished_aborted env x)) \<and>
     (case updater env t of None \<Rightarrow> True
      | Some x \<Rightarrow> is_current env x \<longrightarrow>
                   HeapTupleHeaderGetCmax (combo_state env) (t_data t) \<noteq> None)"

text \<open>Tuples of this server version: no trace of an old-style VACUUM FULL.\<close>

definition tuple_ok :: "xact_env \<Rightarrow> HeapTupleData \<Rightarrow> bool" where
  "tuple_ok env t \<longleftrightarrow>
     \<not> flag_set (infomask_of t) HEAP_MOVED \<and> hints_ok env t \<and> multi_ok env t \<and> own_ok env t"

section \<open>Specifications\<close>

definition mvcc_inserted :: "xact_env \<Rightarrow> SnapshotData \<Rightarrow> HeapTupleData \<Rightarrow> bool" where
  "mvcc_inserted env snapshot t \<longleftrightarrow>
     HeapTupleHeaderXminFrozen (t_data t) \<or>
     (if is_current env (raw_xmin t)
      then (case HeapTupleHeaderGetCmin (combo_state env) (t_data t) of
              None \<Rightarrow> False | Some cmin \<Rightarrow> cmin < curcid snapshot)
      else XidInMVCCSnapshot env (raw_xmin t) snapshot = Some False \<and>
           did_commit env (raw_xmin t) = Some True)"

definition mvcc_deleted :: "xact_env \<Rightarrow> SnapshotData \<Rightarrow> HeapTupleData \<Rightarrow> bool" where
  "mvcc_deleted env snapshot t \<longleftrightarrow>
     (case updater env t of
        None \<Rightarrow> False
      | Some x \<Rightarrow>
          if is_current env x
          then (case HeapTupleHeaderGetCmax (combo_state env) (t_data t) of
                  None \<Rightarrow> False | Some cmax \<Rightarrow> cmax < curcid snapshot)
          else XidInMVCCSnapshot env x snapshot = Some False \<and> did_commit env x = Some True)"

definition mvcc_visible :: "xact_env \<Rightarrow> SnapshotData \<Rightarrow> HeapTupleData \<Rightarrow> bool" where
  "mvcc_visible env snapshot t \<longleftrightarrow> mvcc_inserted env snapshot t \<and> \<not> mvcc_deleted env snapshot t"

definition now_inserted :: "xact_env \<Rightarrow> HeapTupleData \<Rightarrow> bool" where
  "now_inserted env t \<longleftrightarrow>
     HeapTupleHeaderXminFrozen (t_data t) \<or> is_current env (raw_xmin t) \<or>
     finished_committed env (raw_xmin t)"

definition now_deleted :: "xact_env \<Rightarrow> HeapTupleData \<Rightarrow> bool" where
  "now_deleted env t \<longleftrightarrow>
     (case updater env t of None \<Rightarrow> False
      | Some x \<Rightarrow> is_current env x \<or> finished_committed env x)"

definition self_visible :: "xact_env \<Rightarrow> HeapTupleData \<Rightarrow> bool" where
  "self_visible env t \<longleftrightarrow> now_inserted env t \<and> \<not> now_deleted env t"

section \<open>Hint bits as a step relation\<close>

definition mark :: "uint16 \<Rightarrow> HeapTupleData \<Rightarrow> HeapTupleData" where
  "mark f t = t\<lparr> t_data := (t_data t)\<lparr> t_infomask := infomask_of t OR f \<rparr>,
                 t_buffer := (t_buffer t)\<lparr> buf_dirty := True \<rparr> \<rparr>"

inductive hint_step :: "xact_env \<Rightarrow> HeapTupleData \<Rightarrow> HeapTupleData \<Rightarrow> bool" for env where
  xmin_committed: "\<not> HeapTupleHeaderXminCommitted (t_data t) \<Longrightarrow>
    \<not> HeapTupleHeaderXminInvalid (t_data t) \<Longrightarrow> finished_committed env (raw_xmin t) \<Longrightarrow>
    hint_step env t (mark HEAP_XMIN_COMMITTED t)"
| xmin_aborted: "\<not> HeapTupleHeaderXminCommitted (t_data t) \<Longrightarrow>
    finished_aborted env (raw_xmin t) \<Longrightarrow> hint_step env t (mark HEAP_XMIN_INVALID t)"
| xmax_committed: "\<not> flag_set (infomask_of t) HEAP_XMAX_INVALID \<Longrightarrow>
    \<not> HEAP_XMAX_IS_LOCKED_ONLY (infomask_of t) \<Longrightarrow>
    \<not> flag_set (infomask_of t) HEAP_XMAX_IS_MULTI \<Longrightarrow> finished_committed env (raw_xmax t) \<Longrightarrow>
    hint_step env t (mark HEAP_XMAX_COMMITTED t)"
| xmax_aborted: "updater env t = Some x \<Longrightarrow> finished_aborted env x \<Longrightarrow>
    hint_step env t (mark HEAP_XMAX_INVALID t)"
| xmax_unlocked: "HEAP_XMAX_IS_LOCKED_ONLY (infomask_of t) \<Longrightarrow> unlocked env t \<Longrightarrow>
    hint_step env t (mark HEAP_XMAX_INVALID t)"

abbreviation hint_steps :: "xact_env \<Rightarrow> HeapTupleData \<Rightarrow> HeapTupleData \<Rightarrow> bool" where
  "hint_steps env \<equiv> (hint_step env)\<^sup>*\<^sup>*"

lemma mark_simps [simp]:
  "t_self (mark f t) = t_self t"
  "t_infomask (t_data (mark f t)) = infomask_of t OR f"
  "t_xmin (t_data (mark f t)) = t_xmin (t_data t)"
  "t_xmax (t_data (mark f t)) = t_xmax (t_data t)"
  "t_field3 (t_data (mark f t)) = t_field3 (t_data t)"
  "t_ctid (t_data (mark f t)) = t_ctid (t_data t)"
  "raw_xmin (mark f t) = raw_xmin t"
  "raw_xmax (mark f t) = raw_xmax t"
  by (simp_all add: mark_def HeapTupleHeaderGetRawXmin_def HeapTupleHeaderGetRawXmax_def)

lemma SetHintBits_cases: "SetHintBits env f x t = t \<or> SetHintBits env f x t = mark f t"
  by (simp add: SetHintBits_def mark_def Let_def)

lemma SetHintBits_invalid_xid: "SetHintBits env f InvalidTransactionId t = mark f t"
  by (simp add: SetHintBits_def mark_def TransactionIdIsValid_def Let_def)

lemma SetHintBits_steps:
  "hint_step env t (mark f t) \<Longrightarrow> hint_steps env t (SetHintBits env f x t)"
  using SetHintBits_cases [of env f x t] by auto

lemma GetCmin_mark [simp]:
  "HeapTupleHeaderGetCmin st (t_data (mark HEAP_XMIN_COMMITTED t)) = HeapTupleHeaderGetCmin st (t_data t)"
  "HeapTupleHeaderGetCmin st (t_data (mark HEAP_XMIN_INVALID t)) = HeapTupleHeaderGetCmin st (t_data t)"
  "HeapTupleHeaderGetCmin st (t_data (mark HEAP_XMAX_COMMITTED t)) = HeapTupleHeaderGetCmin st (t_data t)"
  "HeapTupleHeaderGetCmin st (t_data (mark HEAP_XMAX_INVALID t)) = HeapTupleHeaderGetCmin st (t_data t)"
  by (simp_all add: HeapTupleHeaderGetCmin_def HeapTupleHeaderGetRawCommandId_def)

lemma GetCmax_mark [simp]:
  "HeapTupleHeaderGetCmax st (t_data (mark HEAP_XMIN_COMMITTED t)) = HeapTupleHeaderGetCmax st (t_data t)"
  "HeapTupleHeaderGetCmax st (t_data (mark HEAP_XMIN_INVALID t)) = HeapTupleHeaderGetCmax st (t_data t)"
  "HeapTupleHeaderGetCmax st (t_data (mark HEAP_XMAX_COMMITTED t)) = HeapTupleHeaderGetCmax st (t_data t)"
  "HeapTupleHeaderGetCmax st (t_data (mark HEAP_XMAX_INVALID t)) = HeapTupleHeaderGetCmax st (t_data t)"
  by (simp_all add: HeapTupleHeaderGetCmax_def HeapTupleHeaderGetRawCommandId_def)

lemma HeapTupleGetUpdateXid_mark [simp]:
  "HeapTupleGetUpdateXid env (t_data (mark f t)) = HeapTupleGetUpdateXid env (t_data t)"
  by (simp add: HeapTupleGetUpdateXid_def)

lemma updater_mark [simp]:
  "updater env (mark HEAP_XMIN_COMMITTED t) = updater env t"
  "updater env (mark HEAP_XMIN_INVALID t) = updater env t"
  "updater env (mark HEAP_XMAX_COMMITTED t) = updater env t"
  "updater env (mark HEAP_XMAX_INVALID t) = None"
  by (simp_all add: updater_def)

section \<open>A hint step changes no answer\<close>

lemma finished_simps [simp]:
  "xact_env_ok env \<Longrightarrow> finished_committed env x \<Longrightarrow> \<not> is_current env x"
  "xact_env_ok env \<Longrightarrow> finished_aborted env x \<Longrightarrow> \<not> is_current env x"
  "finished_committed env x \<Longrightarrow> \<not> finished_aborted env x"
  by (auto simp: xact_env_ok_def finished_committed_def finished_aborted_def)

lemma later_viewD:
  "later_view env env' \<Longrightarrow> finished_committed env x \<Longrightarrow> finished_committed env' x"
  "later_view env env' \<Longrightarrow> finished_aborted env x \<Longrightarrow> finished_aborted env' x"
  by (simp_all add: later_view_def)

lemma later_view_refl [simp]: "later_view env env"
  by (simp add: later_view_def)

lemma later_view_updater: "later_view env env' \<Longrightarrow> updater env' t = updater env t"
  by (simp add: updater_def HeapTupleGetUpdateXid_def MultiXactIdGetUpdateXid_def later_view_def)

lemma hint_step_deleted:
  assumes "hint_step env t t'" "later_view env env'" "xact_env_ok env'"
  shows "mvcc_deleted env' snapshot t' = mvcc_deleted env' snapshot t \<and>
         now_deleted env' t' = now_deleted env' t"
  using assms
proof cases
  case (xmax_aborted x)
  then have "updater env' t = Some x" "finished_aborted env' x"
    using assms by (auto simp: later_view_updater dest: later_viewD)
  then show ?thesis using xmax_aborted assms(3) finished_simps(2) [of env' x]
    by (auto simp: mvcc_deleted_def now_deleted_def finished_aborted_def finished_committed_def)
next
  case xmax_unlocked
  then have "updater env' t = None" by (simp add: updater_def)
  then show ?thesis using xmax_unlocked by (simp add: mvcc_deleted_def now_deleted_def)
qed (simp_all add: mvcc_deleted_def now_deleted_def split: option.split)

lemma hint_step_inserted:
  assumes "hint_step env t t'"
  shows "mvcc_inserted env' snapshot t' = mvcc_inserted env' snapshot t \<and>
         now_inserted env' t' = now_inserted env' t"
  using assms by cases (simp_all add: mvcc_inserted_def now_inserted_def)

lemma hint_step_hints_ok: "hint_step env t t' \<Longrightarrow> hints_ok env t \<Longrightarrow> hints_ok env t'"
  by (erule hint_step.cases) (auto simp: hints_ok_def unlocked_def)

lemma hint_step_multi_ok: "hint_step env t t' \<Longrightarrow> multi_ok env t \<Longrightarrow> multi_ok env t'"
  by (erule hint_step.cases) (simp_all add: multi_ok_def split: option.splits)

lemma hint_step_own_ok: "hint_step env t t' \<Longrightarrow> own_ok env t \<Longrightarrow> own_ok env t'"
  by (erule hint_step.cases) (simp_all add: own_ok_def split: option.splits)

lemma hint_step_tuple_ok: "hint_step env t t' \<Longrightarrow> tuple_ok env t \<Longrightarrow> tuple_ok env t'"
  using hint_step_hints_ok hint_step_multi_ok hint_step_own_ok
  by (auto simp: tuple_ok_def elim!: hint_step.cases)

text \<open>The steps a routine takes by calling \<open>SetHintBits\<close>.\<close>

lemma SetHintBits_hint_steps [simp]:
  "\<not> bit (infomask_of t) 8 \<Longrightarrow> \<not> bit (infomask_of t) 9 \<Longrightarrow>
     finished_committed env (raw_xmin t) \<Longrightarrow>
     hint_steps env t (SetHintBits env HEAP_XMIN_COMMITTED x t)"
  "\<not> bit (infomask_of t) 8 \<Longrightarrow> finished_aborted env (raw_xmin t) \<Longrightarrow>
     hint_steps env t (SetHintBits env HEAP_XMIN_INVALID x t)"
  "\<not> bit (infomask_of t) 11 \<Longrightarrow> \<not> HEAP_XMAX_IS_LOCKED_ONLY (infomask_of t) \<Longrightarrow>
     \<not> bit (infomask_of t) 12 \<Longrightarrow> finished_committed env (raw_xmax t) \<Longrightarrow>
     hint_steps env t (SetHintBits env HEAP_XMAX_COMMITTED x t)"
  "updater env t = Some y \<Longrightarrow> finished_aborted env y \<Longrightarrow>
     hint_steps env t (SetHintBits env HEAP_XMAX_INVALID x t)"
  "HEAP_XMAX_IS_LOCKED_ONLY (infomask_of t) \<Longrightarrow> unlocked env t \<Longrightarrow>
     hint_steps env t (SetHintBits env HEAP_XMAX_INVALID x t)"
  by (rule SetHintBits_steps, rule hint_step.intros; simp)+

text \<open>Any number of steps.\<close>

lemma hint_steps_tuple_ok: "hint_steps env t t' \<Longrightarrow> tuple_ok env t \<Longrightarrow> tuple_ok env t'"
  by (induction rule: rtranclp_induct) (auto intro: hint_step_tuple_ok)

lemma hint_steps_visible:
  assumes "hint_steps env t t'" "later_view env env'" "xact_env_ok env'"
  shows "mvcc_visible env' snapshot t' = mvcc_visible env' snapshot t"
    and "self_visible env' t' = self_visible env' t"
    and "mvcc_deleted env' snapshot t' = mvcc_deleted env' snapshot t"
    and "now_deleted env' t' = now_deleted env' t"
  using assms(1)
  by (induction rule: rtranclp_induct)
    (simp_all add: mvcc_visible_def self_visible_def hint_step_deleted [OF _ assms(2,3)]
       hint_step_inserted)

lemma hint_steps_fields:
  "hint_steps env t t' \<Longrightarrow>
     t_self t' = t_self t \<and> t_xmin (t_data t') = t_xmin (t_data t) \<and>
     t_xmax (t_data t') = t_xmax (t_data t) \<and> t_field3 (t_data t') = t_field3 (t_data t) \<and>
     t_ctid (t_data t') = t_ctid (t_data t) \<and>
     (\<forall>k. k \<notin> {8, 9, 10, 11} \<longrightarrow> bit (infomask_of t') k = bit (infomask_of t) k) \<and>
     (\<forall>k. bit (infomask_of t) k \<longrightarrow> bit (infomask_of t') k)"
  by (induction rule: rtranclp_induct) (auto elim!: hint_step.cases)

end
