(* ===== verification/Visibility_Correct.thy ===== *)
theory Visibility_Correct
  imports Visibility_Spec
begin

text \<open>
  The visibility routines compute their specifications. The interface between them and the
  transaction system is the locale \<open>transaction_manager\<close>: the states of the system, the view a
  backend has of each, and the laws its status functions keep. The routines' lemmas are proved
  against this interface once.
\<close>

locale transaction_manager =
  fixes env_of :: "'s \<Rightarrow> xact_env"
    and good :: "'s \<Rightarrow> bool"
  assumes in_progress_total: "good s \<Longrightarrow> in_progress (env_of s) x \<noteq> None"
    and did_commit_total: "good s \<Longrightarrow> did_commit (env_of s) x \<noteq> None"
    and current_in_progress:
      "good s \<Longrightarrow> is_current (env_of s) x \<Longrightarrow> in_progress (env_of s) x = Some True"
    and current_not_committed:
      "good s \<Longrightarrow> is_current (env_of s) x \<Longrightarrow> did_commit (env_of s) x = Some False"
    and current_valid: "good s \<Longrightarrow> is_current (env_of s) x \<Longrightarrow> TransactionIdIsValid x"
begin

lemma env_ok: "good s \<Longrightarrow> xact_env_ok (env_of s)"
  unfolding xact_env_ok_def
  using in_progress_total did_commit_total current_in_progress current_not_committed
    current_valid by blast

definition running :: "'s \<Rightarrow> TransactionId \<Rightarrow> bool" where
  "running s x \<longleftrightarrow> in_progress (env_of s) x = Some True"

definition committed :: "'s \<Rightarrow> TransactionId \<Rightarrow> bool" where
  "committed s x \<longleftrightarrow> did_commit (env_of s) x = Some True"

lemma in_progress_eq: "good s \<Longrightarrow> in_progress (env_of s) x = Some (running s x)"
  using in_progress_total [of s x] by (cases "in_progress (env_of s) x") (auto simp: running_def)

lemma did_commit_eq: "good s \<Longrightarrow> did_commit (env_of s) x = Some (committed s x)"
  using did_commit_total [of s x] by (cases "did_commit (env_of s) x") (auto simp: committed_def)

lemma finished_eq:
  "good s \<Longrightarrow> finished_committed (env_of s) x \<longleftrightarrow> \<not> running s x \<and> committed s x"
  "good s \<Longrightarrow> finished_aborted (env_of s) x \<longleftrightarrow> \<not> running s x \<and> \<not> committed s x"
  by (simp_all add: finished_committed_def finished_aborted_def in_progress_eq did_commit_eq)

lemma current_running:
  "good s \<Longrightarrow> is_current (env_of s) x \<Longrightarrow> running s x"
  "good s \<Longrightarrow> is_current (env_of s) x \<Longrightarrow> \<not> committed s x"
  by (simp_all add: running_def committed_def current_in_progress current_not_committed)

lemmas status = in_progress_eq did_commit_eq finished_eq current_running

text \<open>The facts about a tuple that the routines' case distinctions use.\<close>

lemma tuple_facts:
  assumes "good s" "tuple_ok (env_of s) t"
  shows "\<not> bit (infomask_of t) 14" "\<not> bit (infomask_of t) 15"
    "bit (infomask_of t) 8 \<Longrightarrow> \<not> bit (infomask_of t) 9 \<Longrightarrow>
       \<not> running s (raw_xmin t) \<and> committed s (raw_xmin t)"
    "bit (infomask_of t) 9 \<Longrightarrow> \<not> bit (infomask_of t) 8 \<Longrightarrow>
       \<not> running s (raw_xmin t) \<and> \<not> committed s (raw_xmin t)"
    "bit (infomask_of t) 10 \<Longrightarrow> \<not> bit (infomask_of t) 11 \<Longrightarrow>
       \<not> HEAP_XMAX_IS_LOCKED_ONLY (infomask_of t) \<Longrightarrow>
       \<not> bit (infomask_of t) 12 \<and> \<not> running s (raw_xmax t) \<and> committed s (raw_xmax t)"
    "bit (infomask_of t) 10 \<Longrightarrow> \<not> bit (infomask_of t) 11 \<Longrightarrow>
       HEAP_XMAX_IS_LOCKED_ONLY (infomask_of t) \<Longrightarrow> unlocked (env_of s) t"
  using assms by (auto simp: tuple_ok_def hints_ok_def finished_eq)

lemma updater_multi:
  assumes "tuple_ok env t" "\<not> bit (infomask_of t) 11" "bit (infomask_of t) 12"
    "\<not> bit (infomask_of t) 7"
  obtains ms where "multixact_members env (raw_xmax t) False = Some ms"
    "HeapTupleGetUpdateXid env (t_data t) = Some (first_updater ms)"
    "TransactionIdIsValid (first_updater ms)" "updater env t = Some (first_updater ms)"
    "TransactionIdIsValid (raw_xmax t)"
  using assms
  by (auto simp: tuple_ok_def multi_ok_def HeapTupleGetUpdateXid_def MultiXactIdGetUpdateXid_def
      updater_def split: option.splits)

text \<open>The four ways to read xmax, in the order the routines take them.\<close>

lemma xmax_cases:
  assumes "tuple_ok env t"
  obtains (none) "bit (infomask_of t) 11" "updater env t = None"
  | (lock) "\<not> bit (infomask_of t) 11" "HEAP_XMAX_IS_LOCKED_ONLY (infomask_of t)"
      "updater env t = None"
      "bit (infomask_of t) 12 \<Longrightarrow> multixact_members env (raw_xmax t) True \<noteq> None"
  | (multi) ms where "\<not> bit (infomask_of t) 11" "\<not> HEAP_XMAX_IS_LOCKED_ONLY (infomask_of t)"
      "bit (infomask_of t) 12" "multixact_members env (raw_xmax t) False = Some ms"
      "HeapTupleGetUpdateXid env (t_data t) = Some (first_updater ms)"
      "TransactionIdIsValid (first_updater ms)" "updater env t = Some (first_updater ms)"
      "TransactionIdIsValid (raw_xmax t)"
  | (xid) "\<not> bit (infomask_of t) 11" "\<not> HEAP_XMAX_IS_LOCKED_ONLY (infomask_of t)"
      "\<not> bit (infomask_of t) 12" "updater env t = Some (raw_xmax t)"
proof -
  consider "bit (infomask_of t) 11"
    | "\<not> bit (infomask_of t) 11" "HEAP_XMAX_IS_LOCKED_ONLY (infomask_of t)"
    | "\<not> bit (infomask_of t) 11" "\<not> HEAP_XMAX_IS_LOCKED_ONLY (infomask_of t)"
      "bit (infomask_of t) 12"
    | "\<not> bit (infomask_of t) 11" "\<not> HEAP_XMAX_IS_LOCKED_ONLY (infomask_of t)"
      "\<not> bit (infomask_of t) 12" by blast
  then show thesis
  proof cases
    case 1 then show thesis by (intro none) (simp_all add: updater_def)
  next
    case 2 then show thesis using assms
      by (intro lock) (auto simp: updater_def tuple_ok_def multi_ok_def split: option.splits)
  next
    case 3 then show thesis
      using updater_multi [OF assms] multi by (metis HEAP_XMAX_IS_LOCKED_ONLY_iff)
  next
    case 4 then show thesis by (intro xid) (simp_all add: updater_def)
  qed
qed

lemma own_deleter:
  assumes "good s" "tuple_ok (env_of s) t" "is_current (env_of s) (raw_xmin t)"
    "updater (env_of s) t = Some x" "\<not> is_current (env_of s) x"
  shows "finished_aborted (env_of s) x"
  using assms by (simp add: tuple_ok_def own_ok_def)

lemma Self_inserter_ok:
  assumes "good s" "tuple_ok (env_of s) t"
  shows "\<exists>r t'. Self_inserter (env_of s) t = Some (r, t') \<and> hint_steps (env_of s) t t' \<and>
           (case r of Return b \<Rightarrow> b = self_visible (env_of s) t
            | FallThrough \<Rightarrow> now_inserted (env_of s) t)"
proof -
  let ?e = "env_of s" and ?m = "infomask_of t"
  note f = tuple_facts [OF assms]
  consider "bit ?m 8" | "\<not> bit ?m 8" "bit ?m 9"
    | "\<not> bit ?m 8" "\<not> bit ?m 9" "\<not> is_current ?e (raw_xmin t)"
    | "\<not> bit ?m 8" "\<not> bit ?m 9" "is_current ?e (raw_xmin t)" by blast
  then show ?thesis
  proof cases
    case 1
    then show ?thesis using f assms
      by (auto simp: Self_inserter_def now_inserted_def status)
  next
    case 2
    then show ?thesis using f assms
      by (auto simp: Self_inserter_def self_visible_def now_inserted_def status)
  next
    case 3
    then show ?thesis using f assms
      by (auto simp: Self_inserter_def self_visible_def now_inserted_def status)
  next
    case 4
    note own = own_deleter [OF assms 4(3)]
    from assms(2) show ?thesis
    proof (cases rule: xmax_cases)
      case (multi ms)
      then show ?thesis using 4 f own assms(1)
        by (auto simp: Self_inserter_def self_visible_def now_inserted_def now_deleted_def
            finished_eq)
    next
      case xid
      then show ?thesis using 4 f own assms(1)
        by (auto simp: Self_inserter_def self_visible_def now_inserted_def now_deleted_def
            finished_eq)
    qed (use 4 f in \<open>simp_all add: Self_inserter_def self_visible_def now_inserted_def
         now_deleted_def\<close>)
  qed
qed

lemma Self_deleter_ok:
  assumes "good s" "tuple_ok (env_of s) t"
  shows "\<exists>t'. Self_deleter (env_of s) t = Some (\<not> now_deleted (env_of s) t, t') \<and>
           hint_steps (env_of s) t t'"
proof -
  note f = tuple_facts [OF assms]
  from assms(2) show ?thesis
  proof (cases rule: xmax_cases)
    case (multi ms)
    then show ?thesis using f assms(1)
      by (auto simp: Self_deleter_def now_deleted_def status)
  next
    case xid
    then show ?thesis using f assms(1)
      by (auto simp: Self_deleter_def now_deleted_def status)
  next
    case lock
    then show ?thesis using f assms(1)
      by (auto simp: Self_deleter_def now_deleted_def status unlocked_def)
  qed (simp add: Self_deleter_def now_deleted_def)
qed

lemma HeapTupleSatisfiesSelf_spec:
  assumes "good s" "tuple_ok (env_of s) t"
  shows "\<exists>t'. HeapTupleSatisfiesSelf (env_of s) t = Some (self_visible (env_of s) t, t') \<and>
           hint_steps (env_of s) t t'"
proof -
  obtain r t1 where 1: "Self_inserter (env_of s) t = Some (r, t1)" "hint_steps (env_of s) t t1"
      "case r of Return b \<Rightarrow> b = self_visible (env_of s) t | FallThrough \<Rightarrow> now_inserted (env_of s) t"
    using Self_inserter_ok [OF assms] by blast
  then have ok: "tuple_ok (env_of s) t1"
    and same: "now_deleted (env_of s) t1 = now_deleted (env_of s) t"
    using hint_steps_tuple_ok assms hint_steps_visible(4) [OF _ later_view_refl env_ok] by auto
  show ?thesis
  proof (cases r)
    case (Return b)
    then show ?thesis using 1 by (simp add: HeapTupleSatisfiesSelf_def)
  next
    case FallThrough
    then show ?thesis using 1 Self_deleter_ok [OF assms(1) ok] same
      by (auto simp: HeapTupleSatisfiesSelf_def self_visible_def)
  qed
qed

section \<open>MVCC snapshots\<close>

definition in_snap :: "'s \<Rightarrow> SnapshotData \<Rightarrow> TransactionId \<Rightarrow> bool" where
  "in_snap s snapshot x \<longleftrightarrow> XidInMVCCSnapshot (env_of s) x snapshot = Some True"

lemma snapshot_eq:
  assumes "good s" "snapshot_ok (env_of s) snapshot" "\<not> is_current (env_of s) x"
  shows "XidInMVCCSnapshot (env_of s) x snapshot = Some (in_snap s snapshot x)"
    and "\<not> in_snap s snapshot x \<Longrightarrow> \<not> running s x"
  using assms unfolding snapshot_ok_def in_snap_def running_def by auto

lemma own_cids:
  assumes "tuple_ok env t"
  shows "is_current env (raw_xmin t) \<Longrightarrow>
           \<exists>c. HeapTupleHeaderGetCmin (combo_state env) (t_data t) = Some c"
    and "updater env t = Some x \<Longrightarrow> is_current env x \<Longrightarrow>
           \<exists>c. HeapTupleHeaderGetCmax (combo_state env) (t_data t) = Some c"
  using assms by (auto simp: tuple_ok_def own_ok_def)

lemma MVCC_own_insert_ok:
  assumes "good s" "tuple_ok (env_of s) t" "is_current (env_of s) (raw_xmin t)"
    "\<not> bit (infomask_of t) 8"
  shows "\<exists>t'. MVCC_own_insert (env_of s) snapshot t = Some (mvcc_visible (env_of s) snapshot t, t') \<and>
           hint_steps (env_of s) t t'"
proof -
  let ?e = "env_of s"
  obtain cmin where cmin: "HeapTupleHeaderGetCmin (combo_state ?e) (t_data t) = Some cmin"
    using own_cids [OF assms(2)] assms(3) by blast
  note own = own_deleter [OF assms(1-3)] and cmax = own_cids(2) [OF assms(2)]
  have ins: "mvcc_inserted ?e snapshot t \<longleftrightarrow> cmin < curcid snapshot"
    using cmin assms by (simp add: mvcc_inserted_def)
  from assms(2) show ?thesis
  proof (cases rule: xmax_cases)
    case (multi ms)
    then show ?thesis using ins cmin own cmax assms(1)
      by (auto simp: MVCC_own_insert_def deleted_after_scan_start_def mvcc_visible_def
          mvcc_deleted_def not_less finished_eq did_commit_eq)
  next
    case xid
    then show ?thesis using ins cmin own cmax assms(1)
      by (auto simp: MVCC_own_insert_def deleted_after_scan_start_def mvcc_visible_def
          mvcc_deleted_def not_less finished_eq did_commit_eq)
  qed (use ins cmin in \<open>auto simp: MVCC_own_insert_def mvcc_visible_def mvcc_deleted_def not_less\<close>)
qed

lemma MVCC_inserter_ok:
  assumes "good s" "tuple_ok (env_of s) t" "snapshot_ok (env_of s) snapshot"
  shows "\<exists>r t'. MVCC_inserter (env_of s) snapshot t = Some (r, t') \<and> hint_steps (env_of s) t t' \<and>
           (case r of Return b \<Rightarrow> b = mvcc_visible (env_of s) snapshot t
            | FallThrough \<Rightarrow> mvcc_inserted (env_of s) snapshot t)"
proof -
  let ?e = "env_of s" and ?m = "infomask_of t"
  note f = tuple_facts [OF assms(1,2)] and snap = snapshot_eq [OF assms(1,3)]
  consider "bit ?m 8" | "\<not> bit ?m 8" "bit ?m 9"
    | "\<not> bit ?m 8" "\<not> bit ?m 9" "\<not> is_current ?e (raw_xmin t)"
    | "\<not> bit ?m 8" "\<not> bit ?m 9" "is_current ?e (raw_xmin t)" by blast
  then show ?thesis
  proof cases
    case 1
    then have "\<not> bit ?m 9 \<Longrightarrow> \<not> is_current ?e (raw_xmin t)"
      using f(3) current_running(1) assms(1) by blast
    then show ?thesis using 1 f snap assms(1)
      by (cases "bit ?m 9")
        (auto simp: MVCC_inserter_def mvcc_visible_def mvcc_inserted_def did_commit_eq)
  next
    case 2
    then have "\<not> is_current ?e (raw_xmin t)"
      using f(4) current_running(1) assms(1) by blast
    then show ?thesis using 2 f assms(1)
      by (simp add: MVCC_inserter_def mvcc_visible_def mvcc_inserted_def did_commit_eq)
  next
    case 3
    then show ?thesis using f snap [OF 3(3)] assms(1)
      by (auto simp: MVCC_inserter_def mvcc_visible_def mvcc_inserted_def did_commit_eq finished_eq)
  next
    case 4
    then show ?thesis using f MVCC_own_insert_ok [OF assms(1,2) 4(3,1), of snapshot]
      by (auto simp: MVCC_inserter_def)
  qed
qed

lemma MVCC_deleter_ok:
  assumes "good s" "tuple_ok (env_of s) t" "snapshot_ok (env_of s) snapshot"
  shows "\<exists>t'. MVCC_deleter (env_of s) snapshot t =
             Some (\<not> mvcc_deleted (env_of s) snapshot t, t') \<and> hint_steps (env_of s) t t'"
proof -
  note f = tuple_facts [OF assms(1,2)] and snap = snapshot_eq [OF assms(1,3)]
    and cmax = own_cids(2) [OF assms(2)]
  from assms(2) show ?thesis
  proof (cases rule: xmax_cases)
    case (multi ms)
    then show ?thesis using f assms(1) snap [of "first_updater ms"] cmax
      by (cases "is_current (env_of s) (first_updater ms)")
        (auto simp: MVCC_deleter_def mvcc_deleted_def deleted_after_scan_start_def not_less
          did_commit_eq)
  next
    case xid
    show ?thesis
    proof (cases "is_current (env_of s) (raw_xmax t)")
      case True
      then have "\<not> bit (infomask_of t) 10"
        using xid f(5) current_running(1) [OF assms(1) True] by blast
      then show ?thesis using xid True cmax
        by (auto simp: MVCC_deleter_def mvcc_deleted_def deleted_after_scan_start_def not_less)
    next
      case False
      then show ?thesis using xid f assms(1) snap [OF False]
        by (auto simp: MVCC_deleter_def mvcc_deleted_def did_commit_eq finished_eq)
    qed
  qed (auto simp: MVCC_deleter_def mvcc_deleted_def)
qed

lemma HeapTupleSatisfiesMVCC_spec:
  assumes "good s" "tuple_ok (env_of s) t" "snapshot_ok (env_of s) snapshot"
  shows "\<exists>t'. HeapTupleSatisfiesMVCC (env_of s) snapshot t =
             Some (mvcc_visible (env_of s) snapshot t, t') \<and> hint_steps (env_of s) t t'"
proof -
  obtain r t1 where 1: "MVCC_inserter (env_of s) snapshot t = Some (r, t1)"
      "hint_steps (env_of s) t t1"
      "case r of Return b \<Rightarrow> b = mvcc_visible (env_of s) snapshot t
       | FallThrough \<Rightarrow> mvcc_inserted (env_of s) snapshot t"
    using MVCC_inserter_ok [OF assms] by blast
  then have ok: "tuple_ok (env_of s) t1"
    and same: "mvcc_deleted (env_of s) snapshot t1 = mvcc_deleted (env_of s) snapshot t"
    using hint_steps_tuple_ok assms hint_steps_visible(3) [OF _ later_view_refl env_ok] by auto
  show ?thesis
  proof (cases r)
    case (Return b)
    then show ?thesis using 1 by (simp add: HeapTupleSatisfiesMVCC_def)
  next
    case FallThrough
    then show ?thesis using 1 MVCC_deleter_ok [OF assms(1) ok assms(3)] same
      by (auto simp: HeapTupleSatisfiesMVCC_def mvcc_visible_def)
  qed
qed

end

end
