(* ===== verification/Visibility_Results.thy ===== *)
theory Visibility_Results
  imports Visibility_Correct
begin

text \<open>
  The routines whose answer is more than a boolean: the dirty test (which reports the
  transactions to wait for), the test before an update, and the state of a tuple for VACUUM.
  Each has a specification free of hint bits, and computes it.
\<close>

section \<open>Specifications\<close>

definition dirty_deleter_result ::
  "xact_env \<Rightarrow> SnapshotData \<Rightarrow> HeapTupleData \<Rightarrow> bool \<times> SnapshotData" where
  "dirty_deleter_result env out t =
     (case updater env t of
        None \<Rightarrow> (True, out)
      | Some x \<Rightarrow>
          if is_current env x \<or> finished_committed env x then (False, out)
          else if in_progress env x = Some True then (True, out\<lparr> snap_xmax := x \<rparr>)
          else (True, out))"

definition dirty_result ::
  "xact_env \<Rightarrow> SnapshotData \<Rightarrow> HeapTupleData \<Rightarrow> bool \<times> SnapshotData" where
  "dirty_result env snapshot t =
     (let out = snapshot\<lparr> snap_xmin := InvalidTransactionId, snap_xmax := InvalidTransactionId,
                          speculativeToken := 0 \<rparr> in
      if \<not> HeapTupleHeaderXminFrozen (t_data t) \<and> \<not> is_current env (raw_xmin t) \<and>
         in_progress env (raw_xmin t) = Some True
      then (True, out\<lparr> snap_xmin := raw_xmin t,
                       speculativeToken :=
                         (if HeapTupleHeaderIsSpeculative (t_data t)
                          then HeapTupleHeaderGetSpeculativeToken (t_data t) else 0) \<rparr>)
      else if \<not> now_inserted env t then (False, out)
      else dirty_deleter_result env out t)"

text \<open>A transaction that deleted, updated or locked the tuple still runs.\<close>

definition xmax_running :: "xact_env \<Rightarrow> HeapTupleData \<Rightarrow> bool" where
  "xmax_running env t \<longleftrightarrow>
     (if flag_set (infomask_of t) HEAP_XMAX_IS_MULTI
      then MultiXactIdIsRunning env (raw_xmax t) False = Some True
      else in_progress env (raw_xmax t) = Some True)"

definition update_result :: "xact_env \<Rightarrow> CommandId \<Rightarrow> HeapTupleData \<Rightarrow> TM_Result" where
  "update_result env cid t =
     (if \<not> now_inserted env t then TM_Invisible
      else if \<not> HeapTupleHeaderXminFrozen (t_data t) \<and> is_current env (raw_xmin t) \<and>
              the (HeapTupleHeaderGetCmin (combo_state env) (t_data t)) \<ge> cid
      then TM_Invisible
      else (case updater env t of
              None \<Rightarrow>
                if flag_set (infomask_of t) HEAP_XMAX_INVALID \<or> unlocked env t then TM_Ok
                else TM_BeingModified
            | Some x \<Rightarrow>
                if is_current env x
                then if the (HeapTupleHeaderGetCmax (combo_state env) (t_data t)) \<ge> cid
                     then TM_SelfModified else TM_Invisible
                else if xmax_running env t then TM_BeingModified
                else if finished_committed env x
                then if ItemPointerEquals (t_self t) (t_ctid (t_data t)) then TM_Deleted
                     else TM_Updated
                else TM_Ok))"

definition vacuum_result :: "xact_env \<Rightarrow> HeapTupleData \<Rightarrow> HTSV_Result \<times> TransactionId" where
  "vacuum_result env t =
     (if HeapTupleHeaderXminFrozen (t_data t) \<or> finished_committed env (raw_xmin t)
      then (case updater env t of
              None \<Rightarrow> (HEAPTUPLE_LIVE, InvalidTransactionId)
            | Some x \<Rightarrow>
                if in_progress env x = Some True
                then (HEAPTUPLE_DELETE_IN_PROGRESS, InvalidTransactionId)
                else if did_commit env x = Some True then (HEAPTUPLE_RECENTLY_DEAD, x)
                else (HEAPTUPLE_LIVE, InvalidTransactionId))
      else if is_current env (raw_xmin t)
      then (case updater env t of
              None \<Rightarrow> (HEAPTUPLE_INSERT_IN_PROGRESS, InvalidTransactionId)
            | Some x \<Rightarrow>
                if is_current env x then (HEAPTUPLE_DELETE_IN_PROGRESS, InvalidTransactionId)
                else (HEAPTUPLE_INSERT_IN_PROGRESS, InvalidTransactionId))
      else if in_progress env (raw_xmin t) = Some True
      then (HEAPTUPLE_INSERT_IN_PROGRESS, InvalidTransactionId)
      else (HEAPTUPLE_DEAD, InvalidTransactionId))"

lemma hint_step_updater:
  assumes "hint_step env t t'"
  shows "updater env t' = updater env t \<or>
         (updater env t' = None \<and> (\<exists>x. updater env t = Some x \<and> finished_aborted env x))"
  using assms by cases (auto simp: updater_def)

context transaction_manager
begin

section \<open>Multixacts\<close>

lemma any_in_progress_eq:
  "good s \<Longrightarrow> any_in_progress (env_of s) ms = Some (list_ex (\<lambda>m. running s (mx_xid m)) ms)"
  by (induction ms) (auto simp: in_progress_eq)

lemma MultiXactIdIsRunning_eq:
  "good s \<Longrightarrow> multixact_members (env_of s) m b = Some ms \<Longrightarrow>
   MultiXactIdIsRunning (env_of s) m b = Some (list_ex (\<lambda>m. running s (mx_xid m)) ms)"
  unfolding MultiXactIdIsRunning_def
  by (simp add: any_in_progress_eq list_ex_iff) (meson current_running(1))

lemma first_updater_mem:
  "TransactionIdIsValid (first_updater ms) \<Longrightarrow> \<exists>m \<in> set ms. mx_xid m = first_updater ms"
  by (induction ms) (auto simp: TransactionIdIsValid_def)

lemma MultiXactIdIsRunning_updater:
  assumes "good s" "multixact_members (env_of s) m False = Some ms"
    "TransactionIdIsValid (first_updater ms)" "running s (first_updater ms)"
  shows "MultiXactIdIsRunning (env_of s) m False = Some True"
  using assms first_updater_mem [of ms]
  by (simp add: MultiXactIdIsRunning_eq list_ex_iff) metis

section \<open>HeapTupleSatisfiesDirty\<close>

abbreviation dirty_out :: "SnapshotData \<Rightarrow> SnapshotData" where
  "dirty_out snapshot \<equiv> snapshot\<lparr> snap_xmin := InvalidTransactionId,
     snap_xmax := InvalidTransactionId, speculativeToken := 0 \<rparr>"

lemma Dirty_inserter_ok:
  assumes "good s" "tuple_ok (env_of s) t"
  shows "\<exists>r sn t'. Dirty_inserter (env_of s) (dirty_out snapshot) t = Some (r, sn, t') \<and>
           hint_steps (env_of s) t t' \<and>
           (case r of Return b \<Rightarrow> (b, sn) = dirty_result (env_of s) snapshot t
            | FallThrough \<Rightarrow> sn = dirty_out snapshot \<and> now_inserted (env_of s) t \<and>
                \<not> (\<not> HeapTupleHeaderXminFrozen (t_data t) \<and> running s (raw_xmin t)))"
proof -
  let ?e = "env_of s" and ?m = "infomask_of t"
  note f = tuple_facts [OF assms]
  consider "bit ?m 8" | "\<not> bit ?m 8" "bit ?m 9"
    | "\<not> bit ?m 8" "\<not> bit ?m 9" "\<not> is_current ?e (raw_xmin t)"
    | "\<not> bit ?m 8" "\<not> bit ?m 9" "is_current ?e (raw_xmin t)" by blast
  then show ?thesis
  proof cases
    case 1
    then show ?thesis using f assms
      by (auto simp: Dirty_inserter_def now_inserted_def status)
  next
    case 2
    then have "\<not> is_current ?e (raw_xmin t)" using f(4) current_running(1) assms(1) by blast
    then show ?thesis using 2 f assms
      by (simp add: Dirty_inserter_def dirty_result_def now_inserted_def status Let_def)
  next
    case 3
    then show ?thesis using f assms
      by (auto simp: Dirty_inserter_def dirty_result_def now_inserted_def status Let_def)
  next
    case 4
    note own = own_deleter [OF assms 4(3)]
    from assms(2) show ?thesis
    proof (cases rule: xmax_cases)
      case (multi ms)
      then show ?thesis using 4 f own assms(1)
        by (auto simp: Dirty_inserter_def dirty_result_def dirty_deleter_result_def
            now_inserted_def Let_def status)
    next
      case xid
      then show ?thesis using 4 f own assms(1)
        by (auto simp: Dirty_inserter_def dirty_result_def dirty_deleter_result_def
            now_inserted_def Let_def status)
    qed (use 4 f in \<open>simp_all add: Dirty_inserter_def dirty_result_def
         dirty_deleter_result_def now_inserted_def Let_def\<close>)
  qed
qed

lemma Dirty_deleter_ok:
  assumes "good s" "tuple_ok (env_of s) t"
  shows "\<exists>t' b sn. Dirty_deleter (env_of s) out t = Some (b, sn, t') \<and>
           (b, sn) = dirty_deleter_result (env_of s) out t \<and> hint_steps (env_of s) t t'"
proof -
  note f = tuple_facts [OF assms]
  from assms(2) show ?thesis
  proof (cases rule: xmax_cases)
    case (multi ms)
    then show ?thesis using f assms(1)
      by (auto simp: Dirty_deleter_def dirty_deleter_result_def status)
  next
    case xid
    then show ?thesis using f assms(1)
      by (auto simp: Dirty_deleter_def dirty_deleter_result_def status)
  next
    case lock
    then show ?thesis using f assms(1)
      by (auto simp: Dirty_deleter_def dirty_deleter_result_def status unlocked_def)
  qed (auto simp: Dirty_deleter_def dirty_deleter_result_def)
qed

lemma hint_steps_updater:
  assumes "hint_steps env t t'"
  shows "updater env t' = updater env t \<or>
         (updater env t' = None \<and> (\<exists>x. updater env t = Some x \<and> finished_aborted env x))"
  using assms
proof (induction rule: rtranclp_induct)
  case (step y z)
  then show ?case using hint_step_updater [of env y z] by metis
qed simp

lemma hint_steps_dirty_deleter:
  assumes "good s" "hint_steps (env_of s) t t'"
  shows "dirty_deleter_result (env_of s) out t' = dirty_deleter_result (env_of s) out t"
  using hint_steps_updater [OF assms(2)] assms(1)
  by (auto simp: dirty_deleter_result_def status)

lemma HeapTupleSatisfiesDirty_spec:
  assumes "good s" "tuple_ok (env_of s) t"
  shows "\<exists>b sn t'. HeapTupleSatisfiesDirty (env_of s) snapshot t = Some (b, sn, t') \<and>
           (b, sn) = dirty_result (env_of s) snapshot t \<and> hint_steps (env_of s) t t'"
proof -
  let ?out = "dirty_out snapshot"
  obtain r sn t1 where 1: "Dirty_inserter (env_of s) ?out t = Some (r, sn, t1)"
      "hint_steps (env_of s) t t1"
      "case r of Return b \<Rightarrow> (b, sn) = dirty_result (env_of s) snapshot t
       | FallThrough \<Rightarrow> sn = ?out \<and> now_inserted (env_of s) t \<and>
           \<not> (\<not> HeapTupleHeaderXminFrozen (t_data t) \<and> running s (raw_xmin t))"
    using Dirty_inserter_ok [OF assms] by blast
  then have ok: "tuple_ok (env_of s) t1" using hint_steps_tuple_ok assms by blast
  show ?thesis
  proof (cases r)
    case (Return b)
    then show ?thesis using 1 by (simp add: HeapTupleSatisfiesDirty_def)
  next
    case FallThrough
    obtain b sn2 t2 where 2: "Dirty_deleter (env_of s) ?out t1 = Some (b, sn2, t2)"
        "(b, sn2) = dirty_deleter_result (env_of s) ?out t1" "hint_steps (env_of s) t1 t2"
      using Dirty_deleter_ok [OF assms(1) ok] by blast
    have "dirty_result (env_of s) snapshot t = dirty_deleter_result (env_of s) ?out t"
      using 1(3) FallThrough assms(1) by (auto simp: dirty_result_def in_progress_eq)
    then show ?thesis
      using 1 2 FallThrough hint_steps_dirty_deleter [OF assms(1) 1(2)]
      by (auto simp: HeapTupleSatisfiesDirty_def)
  qed
qed

section \<open>HeapTupleSatisfiesVacuum\<close>

lemma HeapTupleHeaderIsOnlyLocked_ok:
  assumes "good s" "tuple_ok (env_of s) t" "\<not> HEAP_XMAX_IS_LOCKED_ONLY (infomask_of t)"
    "\<not> bit (infomask_of t) 11"
  shows "HeapTupleHeaderIsOnlyLocked (env_of s) (t_data t) =
           Some (case updater (env_of s) t of None \<Rightarrow> True
                 | Some x \<Rightarrow> \<not> TransactionIdIsValid (raw_xmax t) \<or>
                              bit (infomask_of t) 12 \<and> finished_aborted (env_of s) x)"
  using assms(2)
proof (cases rule: xmax_cases)
  case (multi ms)
  then show ?thesis using assms(1) by (auto simp: HeapTupleHeaderIsOnlyLocked_def status)
next
  case xid
  then show ?thesis using assms(1) by (auto simp: HeapTupleHeaderIsOnlyLocked_def)
qed (use assms in simp_all)

lemma HeapTupleHeaderGetUpdateXid_ok:
  assumes "tuple_ok (env_of s) t" "updater (env_of s) t = Some x"
  shows "HeapTupleHeaderGetUpdateXid (env_of s) (t_data t) = Some x"
  using assms(1) by (cases rule: xmax_cases) (use assms(2) in \<open>auto simp: HeapTupleHeaderGetUpdateXid_def\<close>)

lemma Vacuum_own_insert_ok:
  assumes "good s" "tuple_ok (env_of s) t" "is_current (env_of s) (raw_xmin t)"
    "\<not> bit (infomask_of t) 8"
  shows "\<exists>r. Vacuum_own_insert (env_of s) t = Some r \<and>
           vacuum_result (env_of s) t = (r, InvalidTransactionId)"
proof -
  let ?e = "env_of s"
  have res: "vacuum_result ?e t =
      ((case updater ?e t of
          None \<Rightarrow> HEAPTUPLE_INSERT_IN_PROGRESS
        | Some x \<Rightarrow> if is_current ?e x then HEAPTUPLE_DELETE_IN_PROGRESS
                     else HEAPTUPLE_INSERT_IN_PROGRESS), InvalidTransactionId)"
    using assms current_running [OF assms(1,3)]
    by (simp add: vacuum_result_def finished_eq split: option.split)
  have valid: "is_current ?e x \<Longrightarrow> TransactionIdIsValid x" for x
    using current_valid assms(1) by blast
  from assms(2) show ?thesis
  proof (cases rule: xmax_cases)
    case (multi ms)
    then show ?thesis
      using res HeapTupleHeaderIsOnlyLocked_ok [OF assms(1,2) multi(2,1)]
        HeapTupleHeaderGetUpdateXid_ok [OF assms(2) multi(7)] assms(1)
      by (auto simp: Vacuum_own_insert_def status)
  next
    case xid
    then show ?thesis
      using res HeapTupleHeaderIsOnlyLocked_ok [OF assms(1,2) xid(2,1)] valid
        HeapTupleHeaderGetUpdateXid_ok [OF assms(2) xid(4)]
      by (auto simp: Vacuum_own_insert_def)
  qed (use res in \<open>simp_all add: Vacuum_own_insert_def\<close>)
qed

lemma Vacuum_inserter_ok:
  assumes "good s" "tuple_ok (env_of s) t"
  shows "\<exists>r t'. Vacuum_inserter (env_of s) t = Some (r, t') \<and> hint_steps (env_of s) t t' \<and>
           (case r of Return b \<Rightarrow> vacuum_result (env_of s) t = (b, InvalidTransactionId)
            | FallThrough \<Rightarrow> HeapTupleHeaderXminFrozen (t_data t) \<or>
                             finished_committed (env_of s) (raw_xmin t))"
proof -
  let ?e = "env_of s" and ?m = "infomask_of t"
  note f = tuple_facts [OF assms]
  consider "bit ?m 8" | "\<not> bit ?m 8" "bit ?m 9"
    | "\<not> bit ?m 8" "\<not> bit ?m 9" "\<not> is_current ?e (raw_xmin t)"
    | "\<not> bit ?m 8" "\<not> bit ?m 9" "is_current ?e (raw_xmin t)" by blast
  then show ?thesis
  proof cases
    case 1
    then show ?thesis using f assms by (auto simp: Vacuum_inserter_def finished_eq)
  next
    case 2
    then have "\<not> is_current ?e (raw_xmin t)" using f(4) current_running(1) assms(1) by blast
    then show ?thesis using 2 f assms
      by (simp add: Vacuum_inserter_def vacuum_result_def status)
  next
    case 3
    then show ?thesis using f assms
      by (auto simp: Vacuum_inserter_def vacuum_result_def status)
  next
    case 4
    then show ?thesis using f Vacuum_own_insert_ok [OF assms 4(3,1)]
      by (auto simp: Vacuum_inserter_def)
  qed
qed

lemma Vacuum_locker_ok:
  assumes "good s" "tuple_ok (env_of s) t" "HEAP_XMAX_IS_LOCKED_ONLY (infomask_of t)"
    "\<not> bit (infomask_of t) 11"
  shows "\<exists>t'. Vacuum_locker (env_of s) t = Some (HEAPTUPLE_LIVE, t') \<and> hint_steps (env_of s) t t'"
proof (cases "bit (infomask_of t) 12")
  case True
  then obtain ms where ms: "multixact_members (env_of s) (raw_xmax t) True = Some ms"
    using assms by (auto simp: tuple_ok_def multi_ok_def split: option.splits)
  show ?thesis using True assms(1,3,4) MultiXactIdIsRunning_eq [OF assms(1) ms]
    by (auto simp: Vacuum_locker_def unlocked_def)
next
  case False
  then show ?thesis using assms by (auto simp: Vacuum_locker_def unlocked_def in_progress_eq)
qed

definition vacuum_deleter_result :: "'s \<Rightarrow> HeapTupleData \<Rightarrow> HTSV_Result \<times> TransactionId" where
  "vacuum_deleter_result s t =
     (case updater (env_of s) t of
        None \<Rightarrow> (HEAPTUPLE_LIVE, InvalidTransactionId)
      | Some x \<Rightarrow>
          if running s x then (HEAPTUPLE_DELETE_IN_PROGRESS, InvalidTransactionId)
          else if committed s x then (HEAPTUPLE_RECENTLY_DEAD, x)
          else (HEAPTUPLE_LIVE, InvalidTransactionId))"

lemma Vacuum_deleter_ok:
  assumes "good s" "tuple_ok (env_of s) t"
  shows "\<exists>r d t'. Vacuum_deleter (env_of s) t = Some (r, d, t') \<and>
           vacuum_deleter_result s t = (r, d) \<and> hint_steps (env_of s) t t'"
proof -
  note f = tuple_facts [OF assms]
  from assms(2) show ?thesis
  proof (cases rule: xmax_cases)
    case (multi ms)
    then show ?thesis using f assms(1) MultiXactIdIsRunning_eq [OF assms(1) multi(4)]
      by (auto simp: Vacuum_deleter_def vacuum_deleter_result_def status)
  next
    case xid
    then show ?thesis using f assms(1)
      by (auto simp: Vacuum_deleter_def vacuum_deleter_result_def status)
  next
    case lock
    then show ?thesis using Vacuum_locker_ok [OF assms lock(2,1)]
      by (auto simp: Vacuum_deleter_def vacuum_deleter_result_def)
  qed (auto simp: Vacuum_deleter_def vacuum_deleter_result_def)
qed

lemma hint_steps_vacuum_deleter:
  assumes "good s" "hint_steps (env_of s) t t'"
  shows "vacuum_deleter_result s t' = vacuum_deleter_result s t"
  using hint_steps_updater [OF assms(2)] assms(1)
  by (auto simp: vacuum_deleter_result_def finished_eq)

lemma HeapTupleSatisfiesVacuumHorizon_spec:
  assumes "good s" "tuple_ok (env_of s) t"
  shows "\<exists>r d t'. HeapTupleSatisfiesVacuumHorizon (env_of s) t = Some (r, d, t') \<and>
           vacuum_result (env_of s) t = (r, d) \<and> hint_steps (env_of s) t t'"
proof -
  obtain r t1 where 1: "Vacuum_inserter (env_of s) t = Some (r, t1)" "hint_steps (env_of s) t t1"
      "case r of Return b \<Rightarrow> vacuum_result (env_of s) t = (b, InvalidTransactionId)
       | FallThrough \<Rightarrow> HeapTupleHeaderXminFrozen (t_data t) \<or>
                        finished_committed (env_of s) (raw_xmin t)"
    using Vacuum_inserter_ok [OF assms] by blast
  then have ok: "tuple_ok (env_of s) t1" using hint_steps_tuple_ok assms by blast
  show ?thesis
  proof (cases r)
    case (Return b)
    then show ?thesis using 1 by (simp add: HeapTupleSatisfiesVacuumHorizon_def)
  next
    case FallThrough
    have "vacuum_result (env_of s) t = vacuum_deleter_result s t"
      using 1(3) FallThrough assms(1)
      by (auto simp: vacuum_result_def vacuum_deleter_result_def status split: option.split)
    then show ?thesis
      using 1 FallThrough Vacuum_deleter_ok [OF assms(1) ok]
        hint_steps_vacuum_deleter [OF assms(1) 1(2)]
      by (auto simp: HeapTupleSatisfiesVacuumHorizon_def)
  qed
qed

text \<open>A tuple VACUUM may remove is invisible to every snapshot that is not older.\<close>

lemma vacuum_dead_invisible:
  assumes "good s" "good s'" "later_view (env_of s) (env_of s')"
    and ok: "tuple_ok (env_of s) t" "tuple_ok (env_of s') t"
    and dead: "HeapTupleSatisfiesVacuum (env_of s) OldestXmin t = Some (HEAPTUPLE_DEAD, t')"
    and old: "\<And>x. TransactionIdPrecedes x OldestXmin \<Longrightarrow> updater (env_of s) t = Some x \<Longrightarrow>
                XidInMVCCSnapshot (env_of s') x snapshot = Some False"
  shows "\<not> mvcc_visible (env_of s') snapshot t"
proof -
  let ?e = "env_of s" and ?e' = "env_of s'"
  obtain r d t1 where 1: "HeapTupleSatisfiesVacuumHorizon ?e t = Some (r, d, t1)"
      "vacuum_result ?e t = (r, d)"
    using HeapTupleSatisfiesVacuumHorizon_spec [OF assms(1) ok(1)] by blast
  then consider "r = HEAPTUPLE_DEAD" | "r = HEAPTUPLE_RECENTLY_DEAD" "TransactionIdPrecedes d OldestXmin"
    using dead by (auto simp: HeapTupleSatisfiesVacuum_def split: if_splits)
  then show ?thesis
  proof cases
    case 1
    then have "\<not> HeapTupleHeaderXminFrozen (t_data t)" "finished_aborted ?e (raw_xmin t)"
      using \<open>vacuum_result ?e t = (r, d)\<close> assms(1)
      by (auto simp: vacuum_result_def status split: if_splits option.splits)
    moreover from this have "finished_aborted ?e' (raw_xmin t)"
      using later_viewD(2) [OF assms(3)] by blast
    ultimately show ?thesis using assms(2) finished_simps(2) [OF env_ok [OF assms(2)]]
      by (auto simp: mvcc_visible_def mvcc_inserted_def finished_aborted_def)
  next
    case 2
    then have "updater ?e t = Some d" "finished_committed ?e d"
      using \<open>vacuum_result ?e t = (r, d)\<close> assms(1)
      by (auto simp: vacuum_result_def status split: if_splits option.splits)
    moreover from this have "updater ?e' t = Some d" "finished_committed ?e' d"
      using later_viewD(1) [OF assms(3)] later_view_updater [OF assms(3)] by auto
    ultimately show ?thesis
      using old [OF 2(2)] finished_simps(1) [OF env_ok [OF assms(2)]]
      by (auto simp: mvcc_visible_def mvcc_deleted_def finished_committed_def)
  qed
qed

section \<open>HeapTupleSatisfiesUpdate\<close>

lemma xmax_running_multi:
  assumes "good s" "multixact_members (env_of s) (raw_xmax t) False = Some ms"
    "bit (infomask_of t) 12"
  shows "MultiXactIdIsRunning (env_of s) (raw_xmax t) False = Some (xmax_running (env_of s) t)"
  using MultiXactIdIsRunning_eq [OF assms(1,2)] assms(3) by (simp add: xmax_running_def)

lemma xmax_running_xid:
  assumes "good s" "\<not> bit (infomask_of t) 12"
  shows "xmax_running (env_of s) t \<longleftrightarrow> running s (raw_xmax t)"
  using assms by (simp add: xmax_running_def in_progress_eq)

lemma xmax_running_updater:
  assumes "good s" "multixact_members (env_of s) (raw_xmax t) False = Some ms"
    "bit (infomask_of t) 12" "TransactionIdIsValid (first_updater ms)"
    "\<not> xmax_running (env_of s) t"
  shows "\<not> running s (first_updater ms)"
  using MultiXactIdIsRunning_updater [OF assms(1,2,4)] assms(3,5) by (auto simp: xmax_running_def)

lemma unlocked_eq:
  assumes "good s" "tuple_ok (env_of s) t" "HEAP_XMAX_IS_LOCKED_ONLY (infomask_of t)"
    "\<not> bit (infomask_of t) 11" "\<not> HEAP_LOCKED_UPGRADED (infomask_of t)"
  shows "(if bit (infomask_of t) 12 then MultiXactIdIsRunning (env_of s) (raw_xmax t) True
          else in_progress (env_of s) (raw_xmax t)) = Some (\<not> unlocked (env_of s) t)"
proof (cases "bit (infomask_of t) 12")
  case True
  then obtain ms where ms: "multixact_members (env_of s) (raw_xmax t) True = Some ms"
    using assms by (auto simp: tuple_ok_def multi_ok_def split: option.splits)
  show ?thesis using True assms(5) MultiXactIdIsRunning_eq [OF assms(1) ms]
    by (simp add: unlocked_def)
qed (use assms in \<open>simp add: unlocked_def in_progress_eq\<close>)

definition update_deleter_result :: "'s \<Rightarrow> CommandId \<Rightarrow> HeapTupleData \<Rightarrow> TM_Result" where
  "update_deleter_result s cid t =
     (case updater (env_of s) t of
        None \<Rightarrow> if bit (infomask_of t) 11 \<or> unlocked (env_of s) t then TM_Ok else TM_BeingModified
      | Some x \<Rightarrow>
          if is_current (env_of s) x
          then if the (HeapTupleHeaderGetCmax (combo_state (env_of s)) (t_data t)) \<ge> cid
               then TM_SelfModified else TM_Invisible
          else if xmax_running (env_of s) t then TM_BeingModified
          else if finished_committed (env_of s) x
          then if ItemPointerEquals (t_self t) (t_ctid (t_data t)) then TM_Deleted else TM_Updated
          else TM_Ok)"

lemma update_result_own:
  assumes "good s" "tuple_ok (env_of s) t" "is_current (env_of s) (raw_xmin t)"
    "\<not> bit (infomask_of t) 8"
    "HeapTupleHeaderGetCmin (combo_state (env_of s)) (t_data t) = Some cmin"
  shows "update_result (env_of s) cid t =
           (if cmin \<ge> cid then TM_Invisible else update_deleter_result s cid t)"
  using assms own_deleter [OF assms(1-3)]
  by (auto simp: update_result_def update_deleter_result_def now_inserted_def finished_eq
      split: option.splits)

lemma Update_own_insert_ok:
  assumes "good s" "tuple_ok (env_of s) t" "is_current (env_of s) (raw_xmin t)"
    "\<not> bit (infomask_of t) 8"
  shows "\<exists>t'. Update_own_insert (env_of s) cid t = Some (update_result (env_of s) cid t, t') \<and>
           hint_steps (env_of s) t t'"
proof -
  let ?e = "env_of s"
  obtain cmin where cmin: "HeapTupleHeaderGetCmin (combo_state ?e) (t_data t) = Some cmin"
    using own_cids(1) [OF assms(2,3)] by blast
  note own = own_deleter [OF assms(1-3)] and cmax = own_cids(2) [OF assms(2)]
    and res = update_result_own [OF assms cmin, of cid]
  have up: "\<not> HEAP_LOCKED_UPGRADED (infomask_of t)"
    using assms by (simp add: tuple_ok_def own_ok_def)
  from assms(2) show ?thesis
  proof (cases rule: xmax_cases)
    case none
    then show ?thesis using res cmin
      by (auto simp: Update_own_insert_def update_deleter_result_def)
  next
    case lock
    then show ?thesis using res cmin unlocked_eq [OF assms(1,2) lock(2,1) up]
      by (auto simp: Update_own_insert_def update_deleter_result_def Let_def split: if_splits)
  next
    case (multi ms)
    show ?thesis
    proof (cases "is_current ?e (first_updater ms)")
      case True
      then show ?thesis using multi res cmin cmax
        by (auto simp: Update_own_insert_def update_deleter_result_def modified_by_self_def)
    next
      case False
      then have "\<not> committed s (first_updater ms)"
        using own multi(7) assms(1) by (simp add: finished_eq)
      then show ?thesis
        using False multi res cmin xmax_running_multi [OF assms(1) multi(4,3)] assms(1)
        by (auto simp: Update_own_insert_def update_deleter_result_def finished_eq)
    qed
  next
    case xid
    show ?thesis
    proof (cases "is_current ?e (raw_xmax t)")
      case True
      then show ?thesis using xid res cmin cmax
        by (auto simp: Update_own_insert_def update_deleter_result_def modified_by_self_def)
    next
      case False
      then have "\<not> committed s (raw_xmax t)" "\<not> running s (raw_xmax t)"
          "finished_aborted ?e (raw_xmax t)"
        using own xid(4) assms(1) by (simp_all add: finished_eq)
      then show ?thesis
        using False xid res cmin xmax_running_xid [OF assms(1) xid(3)] assms(1)
        by (auto simp: Update_own_insert_def update_deleter_result_def finished_eq)
    qed
  qed
qed

lemma Update_inserter_ok:
  assumes "good s" "tuple_ok (env_of s) t"
  shows "\<exists>r t'. Update_inserter (env_of s) cid t = Some (r, t') \<and> hint_steps (env_of s) t t' \<and>
           (case r of Return b \<Rightarrow> b = update_result (env_of s) cid t
            | FallThrough \<Rightarrow> update_result (env_of s) cid t = update_deleter_result s cid t)"
proof -
  let ?e = "env_of s" and ?m = "infomask_of t"
  note f = tuple_facts [OF assms]
  consider "bit ?m 8" | "\<not> bit ?m 8" "bit ?m 9"
    | "\<not> bit ?m 8" "\<not> bit ?m 9" "\<not> is_current ?e (raw_xmin t)"
    | "\<not> bit ?m 8" "\<not> bit ?m 9" "is_current ?e (raw_xmin t)" by blast
  then show ?thesis
  proof cases
    case 1
    then have "now_inserted ?e t" "bit ?m 9 \<or> \<not> is_current ?e (raw_xmin t)"
      using f(3) current_running(1) assms(1) by (auto simp: now_inserted_def finished_eq)
    then show ?thesis using 1 assms(1)
      by (auto simp: Update_inserter_def update_result_def update_deleter_result_def status
          split: option.split)
  next
    case 2
    then have "\<not> is_current ?e (raw_xmin t)" using f(4) current_running(1) assms(1) by blast
    then show ?thesis using 2 f assms(1)
      by (simp add: Update_inserter_def update_result_def now_inserted_def finished_eq)
  next
    case 3
    then show ?thesis using f assms(1)
      by (auto simp: Update_inserter_def update_result_def update_deleter_result_def
          now_inserted_def status split: option.split)
  next
    case 4
    then show ?thesis using f Update_own_insert_ok [OF assms 4(3,1), of cid]
      by (auto simp: Update_inserter_def)
  qed
qed

lemma Update_deleter_ok:
  assumes "good s" "tuple_ok (env_of s) t"
  shows "\<exists>t'. Update_deleter (env_of s) cid t = Some (update_deleter_result s cid t, t') \<and>
           hint_steps (env_of s) t t'"
proof -
  let ?e = "env_of s"
  note f = tuple_facts [OF assms] and cmax = own_cids(2) [OF assms(2)]
  from assms(2) show ?thesis
  proof (cases rule: xmax_cases)
    case none
    then show ?thesis by (auto simp: Update_deleter_def update_deleter_result_def)
  next
    case lock
    show ?thesis
    proof (cases "HEAP_LOCKED_UPGRADED (infomask_of t)")
      case True
      then have "unlocked ?e t" by (simp add: unlocked_def)
      then show ?thesis using lock f(6) True
        by (auto simp: Update_deleter_def Update_deleter_multi_def update_deleter_result_def)
    next
      case False
      note u = unlocked_eq [OF assms lock(2,1) False]
      show ?thesis
      proof (cases "bit (infomask_of t) 12")
        case True
        then show ?thesis using lock(1-3) f(6) u False
          by (auto simp: Update_deleter_def Update_deleter_multi_def update_deleter_result_def)
      next
        case nomulti: False
        then show ?thesis using lock(1-3) f(6) u assms(1)
          by (auto simp: Update_deleter_def update_deleter_result_def status)
      qed
    qed
  next
    case (multi ms)
    have nolock: "\<not> bit (infomask_of t) 7" using multi(2) by simp
    note x = xmax_running_multi [OF assms(1) multi(4,3)]
      and u = xmax_running_updater [OF assms(1) multi(4,3,6)]
    show ?thesis
    proof (cases "is_current ?e (first_updater ms)")
      case True
      then show ?thesis using multi nolock f(5) cmax
        by (auto simp: Update_deleter_def Update_deleter_multi_def update_deleter_result_def
            modified_by_self_def)
    next
      case False
      then show ?thesis using multi nolock f(5) x u assms(1)
        by (auto simp: Update_deleter_def Update_deleter_multi_def update_deleter_result_def
            modified_by_other_def did_commit_eq finished_eq)
    qed
  next
    case xid
    note x = xmax_running_xid [OF assms(1) xid(3)]
    show ?thesis
    proof (cases "is_current ?e (raw_xmax t)")
      case True
      then have "\<not> bit (infomask_of t) 10"
        using xid f(5) current_running(1) [OF assms(1) True] by blast
      then show ?thesis using xid True cmax
        by (auto simp: Update_deleter_def update_deleter_result_def modified_by_self_def)
    next
      case False
      then show ?thesis using xid f(5) x assms(1) SetHintBits_cases [of ?e HEAP_XMAX_COMMITTED "raw_xmax t" t]
        by (auto simp: Update_deleter_def update_deleter_result_def modified_by_other_def
            did_commit_eq in_progress_eq finished_eq Let_def)
    qed
  qed
qed

text \<open>The marks of the inserter's stage do not change the deleter's.\<close>

lemma Update_inserter_marks:
  assumes "Update_inserter env cid t = Some (FallThrough, t')" "tuple_ok env t"
  shows "t' = t \<or> t' = mark HEAP_XMIN_COMMITTED t"
proof -
  have "\<not> bit (infomask_of t) 14" "\<not> bit (infomask_of t) 15"
    using assms(2) by (simp_all add: tuple_ok_def)
  then have "t' = t \<or> t' = SetHintBits env HEAP_XMIN_COMMITTED (raw_xmin t) t"
    using assms(1) by (simp add: Update_inserter_def bind_eq_Some_conv split_beta split: if_splits) blast
  then show ?thesis using SetHintBits_cases by metis
qed

lemma update_deleter_result_mark:
  "update_deleter_result s cid (mark HEAP_XMIN_COMMITTED t) = update_deleter_result s cid t"
proof -
  have "unlocked env (mark HEAP_XMIN_COMMITTED t) = unlocked env t"
      "xmax_running env (mark HEAP_XMIN_COMMITTED t) = xmax_running env t" for env
    by (simp_all add: unlocked_def xmax_running_def)
  then show ?thesis by (cases "updater (env_of s) t") (simp_all add: update_deleter_result_def)
qed

lemma HeapTupleSatisfiesUpdate_spec:
  assumes "good s" "tuple_ok (env_of s) t"
  shows "\<exists>t'. HeapTupleSatisfiesUpdate (env_of s) cid t = Some (update_result (env_of s) cid t, t') \<and>
           hint_steps (env_of s) t t'"
proof -
  obtain r t1 where 1: "Update_inserter (env_of s) cid t = Some (r, t1)" "hint_steps (env_of s) t t1"
      "case r of Return b \<Rightarrow> b = update_result (env_of s) cid t
       | FallThrough \<Rightarrow> update_result (env_of s) cid t = update_deleter_result s cid t"
    using Update_inserter_ok [OF assms] by blast
  then have ok: "tuple_ok (env_of s) t1" using hint_steps_tuple_ok assms by blast
  show ?thesis
  proof (cases r)
    case (Return b)
    then show ?thesis using 1 by (simp add: HeapTupleSatisfiesUpdate_def)
  next
    case FallThrough
    then have "t1 = t \<or> t1 = mark HEAP_XMIN_COMMITTED t"
      using Update_inserter_marks 1(1) assms(2) by blast
    then have "update_deleter_result s cid t1 = update_deleter_result s cid t"
      using update_deleter_result_mark by blast
    then show ?thesis using 1 FallThrough Update_deleter_ok [OF assms(1) ok, of cid]
      by (auto simp: HeapTupleSatisfiesUpdate_def)
  qed
qed

end

end
