(* ===== verification/Visibility_Props.thy ===== *)
theory Visibility_Props
  imports Visibility_Results
begin

text \<open>
  The properties of the visibility routines, over any view of the transaction system that
  keeps its contract. The interpretation below instantiates the interface with the contract
  itself; theory \<open>Backend_View\<close> instantiates it with the view a backend has of the modelled
  commit log, subtransaction log and process array.
\<close>

interpretation any_view: transaction_manager "\<lambda>env. env" xact_env_ok
  by (unfold_locales; unfold xact_env_ok_def; blast)

section \<open>A concrete view\<close>

text \<open>
  The view the witnesses use: transaction 100 is the backend's own, 101 runs elsewhere, 90 to
  95 have committed, everything else aborted.
\<close>

definition sample_view :: xact_env where
  "sample_view =
     \<lparr> is_current = (\<lambda>x. x = 100),
       in_progress = (\<lambda>x. Some (x = 100 \<or> x = 101)),
       did_commit = (\<lambda>x. Some (90 \<le> x \<and> x \<le> 95)),
       topmost_xact = Some,
       multixact_members = (\<lambda>m b. if m = 7
          then Some [\<lparr> mx_xid = 101, mx_status = MultiXactStatusForKeyShare \<rparr>,
                     \<lparr> mx_xid = 94, mx_status = MultiXactStatusNoKeyUpdate \<rparr>] else None),
       commit_lsn = (\<lambda>x. ucast x),
       xlog_needs_flush = (\<lambda>lsn. lsn > 93),
       combo_state = \<lparr> comboHash = None, comboCids = [], sizeComboCids = 0 \<rparr>,
       decoding_cids = (\<lambda>p. None),
       recent_xmin = 100,
       current_horizons = \<lparr> latest_completed = \<lparr> full_value = 99 \<rparr>, slot_xmin = 0, slot_catalog_xmin = 0,
          oldest_considered_running = 100, shared_oldest_nonremovable = 100,
          shared_oldest_nonremovable_raw = 100,
          catalog_oldest_nonremovable = 100, data_oldest_nonremovable = 100,
          temp_oldest_nonremovable = 100 \<rparr> \<rparr>"

definition sample_snapshot :: SnapshotData where
  "sample_snapshot =
     \<lparr> snapshot_type = SNAPSHOT_MVCC, snap_xmin = 100, snap_xmax = 102, xip = [101], subxip = [],
       suboverflowed = False, takenDuringRecovery = False, curcid = 3, speculativeToken = 0,
       vistest = VISHORIZON_DATA, snapXactCompletionCount = 0 \<rparr>"

text \<open>A tuple with the given xmin, xmax and flags, in a buffer of a permanent relation.\<close>

definition sample_tuple ::
  "TransactionId \<Rightarrow> TransactionId \<Rightarrow> CommandId \<Rightarrow> uint16 \<Rightarrow> HeapTupleData" where
  "sample_tuple xmin xmax cid flags =
     \<lparr> t_self = ItemPointerSet 4 2,
       t_data = \<lparr> t_xmin = xmin, t_xmax = xmax, t_field3 = cid, t_ctid = ItemPointerSet 4 3,
                  t_infomask2 = 2, t_infomask = flags \<rparr>,
       t_buffer = \<lparr> buf_permanent = True, buf_lsn = 0, buf_dirty = False \<rparr> \<rparr>"

lemma sample_view_ok: "xact_env_ok sample_view"
  by (auto simp: xact_env_ok_def sample_view_def TransactionIdIsValid_def xid_consts)

lemma sample_snapshot_ok: "snapshot_ok sample_view sample_snapshot"
  unfolding snapshot_ok_def
proof (intro allI impI)
  fix x
  assume "\<not> is_current sample_view x"
  then have x: "x \<noteq> 100" by (simp add: sample_view_def)
  show "XidInMVCCSnapshot sample_view x sample_snapshot = Some True \<or>
        XidInMVCCSnapshot sample_view x sample_snapshot = Some False \<and>
        in_progress sample_view x = Some False"
  proof (cases "x = 101")
    case True
    then show ?thesis
      by (simp add: XidInMVCCSnapshot_def sample_snapshot_def TransactionIdPrecedes_def
          TransactionIdFollowsOrEquals_def TransactionIdIsNormal_def xid_consts)
  next
    case False
    then show ?thesis using x
      by (auto simp: XidInMVCCSnapshot_def sample_snapshot_def sample_view_def)
  qed
qed

lemmas sample_simps = sample_view_def sample_tuple_def tuple_ok_def hints_ok_def multi_ok_def
  own_ok_def updater_def unlocked_def finished_committed_def finished_aborted_def
  HeapTupleHeaderGetRawXmin_def HeapTupleHeaderGetRawXmax_def HeapTupleHeaderGetCmin_def
  HeapTupleHeaderGetCmax_def HeapTupleHeaderGetRawCommandId_def HeapTupleGetUpdateXid_def
  MultiXactIdGetUpdateXid_def ISUPDATE_from_mxstatus_def xid_consts TransactionIdIsValid_def
  bit_iff_odd

text \<open>A tuple of 92 deleted by 94, no hints set; one the backend inserted and 94 cannot delete.\<close>

lemma sample_tuples_ok:
  "tuple_ok sample_view (sample_tuple 92 94 0 0)"
  "tuple_ok sample_view (sample_tuple 92 7 0 0x1000)"
  "tuple_ok sample_view (sample_tuple 100 0 1 0x0800)"
  "tuple_ok sample_view (sample_tuple 92 101 0 0)"
  by (simp_all add: sample_simps)

section \<open>Properties\<close>

text \<open>
  C1: \<open>HeapTupleSatisfiesMVCC\<close> answers exactly the question whether the snapshot sees the
  tuple: the inserter is frozen, or ran an earlier command of this transaction, or is a
  committed transaction the snapshot considers finished, and the same does not hold of a
  transaction that deleted the tuple. The answer does not depend on which hint bits were set,
  no lookup fails, and the only change to the tuple is a sequence of hint steps, each of them
  recording a true fact.
\<close>

theorem HeapTupleSatisfiesMVCC_correct:
  assumes "xact_env_ok env" "tuple_ok env t" "snapshot_ok env snapshot"
  shows "\<exists>t'. HeapTupleSatisfiesMVCC env snapshot t = Some (mvcc_visible env snapshot t, t') \<and>
           hint_steps env t t'"
  using assms by (rule any_view.HeapTupleSatisfiesMVCC_spec)

theorem HeapTupleSatisfiesMVCC_correct_witness:
  "\<exists>t'. HeapTupleSatisfiesMVCC sample_view sample_snapshot (sample_tuple 92 94 0 0) =
          Some (mvcc_visible sample_view sample_snapshot (sample_tuple 92 94 0 0), t') \<and>
        hint_steps sample_view (sample_tuple 92 94 0 0) t'"
  by (rule HeapTupleSatisfiesMVCC_correct [OF sample_view_ok sample_tuples_ok(1) sample_snapshot_ok])



text \<open>
  C2: VACUUM removes nothing that anybody can see. If \<open>HeapTupleSatisfiesVacuum\<close> calls a
  tuple dead under the horizon \<open>OldestXmin\<close>, then \<open>HeapTupleSatisfiesMVCC\<close> finds it invisible in
  every backend, at that moment or later, under every snapshot whose xmin is not older than the
  horizon (all within one window of xids), and with whatever hint bits it has by then.
\<close>

theorem HeapTupleSatisfiesVacuum_dead_invisible:
  assumes views: "xact_env_ok env" "xact_env_ok env'" "later_view env env'"
    and tuple: "tuple_ok env t" "tuple_ok env' t"
    and dead: "HeapTupleSatisfiesVacuum env OldestXmin t = Some (HEAPTUPLE_DEAD, t')"
    and snapshot: "snapshot_ok env' snapshot"
    and window: "xid_window b OldestXmin" "xid_window b (snap_xmin snapshot)"
      "\<forall>x. updater env t = Some x \<longrightarrow> xid_window b x"
    and horizon: "TransactionIdPrecedesOrEquals OldestXmin (snap_xmin snapshot)"
  shows "\<exists>t''. HeapTupleSatisfiesMVCC env' snapshot t = Some (False, t'')"
proof -
  have "XidInMVCCSnapshot env' x snapshot = Some False"
    if "TransactionIdPrecedes x OldestXmin" "updater env t = Some x" for x
  proof -
    have "xid_window b x" using window(3) that(2) by blast
    then have "TransactionIdPrecedes x (snap_xmin snapshot)"
      using window(1,2) horizon that(1) by simp
    then show ?thesis by (simp add: XidInMVCCSnapshot_def)
  qed
  then have "\<not> mvcc_visible env' snapshot t"
    by (rule any_view.vacuum_dead_invisible [OF views tuple dead])
  then show ?thesis
    using any_view.HeapTupleSatisfiesMVCC_spec [OF views(2) tuple(2) snapshot] by auto
qed

theorem HeapTupleSatisfiesVacuum_dead_invisible_witness:
  "\<exists>t''. HeapTupleSatisfiesMVCC sample_view sample_snapshot (sample_tuple 92 94 0 0) =
           Some (False, t'')"
proof -
  have "vacuum_result sample_view (sample_tuple 92 94 0 0) = (HEAPTUPLE_RECENTLY_DEAD, 94)"
    by (simp add: vacuum_result_def sample_simps)
  then obtain t' where dead:
    "HeapTupleSatisfiesVacuum sample_view 97 (sample_tuple 92 94 0 0) = Some (HEAPTUPLE_DEAD, t')"
    using any_view.HeapTupleSatisfiesVacuumHorizon_spec [OF sample_view_ok sample_tuples_ok(1)]
    by (auto simp: HeapTupleSatisfiesVacuum_def TransactionIdPrecedes_def TransactionIdIsNormal_def
        xid_consts)
  show ?thesis
    by (rule HeapTupleSatisfiesVacuum_dead_invisible
          [OF sample_view_ok sample_view_ok later_view_refl sample_tuples_ok(1) sample_tuples_ok(1)
             dead sample_snapshot_ok, of 90])
      (simp_all add: sample_simps sample_snapshot_def xid_window_def xid_dist_def
        TransactionIdIsNormal_def TransactionIdPrecedesOrEquals_def)
qed

text \<open>
  C21: \<open>HeapTupleSatisfiesSelf\<close> sees a tuple iff its inserter is frozen, current or a finished
  committed transaction, and no transaction of that kind deleted it.
\<close>

theorem HeapTupleSatisfiesSelf_correct:
  assumes "xact_env_ok env" "tuple_ok env t"
  shows "\<exists>t'. HeapTupleSatisfiesSelf env t = Some (self_visible env t, t') \<and> hint_steps env t t'"
  using assms by (rule any_view.HeapTupleSatisfiesSelf_spec)

theorem HeapTupleSatisfiesSelf_correct_witness:
  "\<exists>t'. HeapTupleSatisfiesSelf sample_view (sample_tuple 92 7 0 0x1000) =
          Some (self_visible sample_view (sample_tuple 92 7 0 0x1000), t') \<and>
        hint_steps sample_view (sample_tuple 92 7 0 0x1000) t'"
  by (rule HeapTupleSatisfiesSelf_correct [OF sample_view_ok sample_tuples_ok(2)])

text \<open>
  C18: \<open>HeapTupleSatisfiesDirty\<close> also sees the effects of running transactions, and reports
  them: the inserter in the snapshot's xmin (with the token of a speculative insertion), the
  deleter in its xmax. Both fields and the token are cleared when there is nobody to wait for.
\<close>

theorem HeapTupleSatisfiesDirty_correct:
  assumes "xact_env_ok env" "tuple_ok env t"
  shows "\<exists>b snapshot' t'. HeapTupleSatisfiesDirty env snapshot t = Some (b, snapshot', t') \<and>
           (b, snapshot') = dirty_result env snapshot t \<and> hint_steps env t t'"
  using assms by (rule any_view.HeapTupleSatisfiesDirty_spec)

theorem HeapTupleSatisfiesDirty_correct_witness:
  "\<exists>b snapshot' t'. HeapTupleSatisfiesDirty sample_view sample_snapshot (sample_tuple 92 101 0 0) =
       Some (b, snapshot', t') \<and> b \<and> snap_xmax snapshot' = 101"
proof -
  obtain b sn t' where
    "HeapTupleSatisfiesDirty sample_view sample_snapshot (sample_tuple 92 101 0 0) = Some (b, sn, t')"
    "(b, sn) = dirty_result sample_view sample_snapshot (sample_tuple 92 101 0 0)"
    using HeapTupleSatisfiesDirty_correct [OF sample_view_ok sample_tuples_ok(4)] by blast
  moreover have "dirty_result sample_view sample_snapshot (sample_tuple 92 101 0 0) =
      (True, sample_snapshot\<lparr> snap_xmin := 0, snap_xmax := 101, speculativeToken := 0 \<rparr>)"
    by (simp add: dirty_result_def dirty_deleter_result_def now_inserted_def sample_simps)
  ultimately show ?thesis by auto
qed



text \<open>
  C15: \<open>HeapTupleSatisfiesVacuumHorizon\<close> computes the tuple's state: live, dead at once (an
  aborted insertion), insertion or deletion in progress, or dead after the returned xid, which
  is the committed deleter; lockers never make a tuple dead.
\<close>

theorem HeapTupleSatisfiesVacuumHorizon_correct:
  assumes "xact_env_ok env" "tuple_ok env t"
  shows "\<exists>r dead_after t'. HeapTupleSatisfiesVacuumHorizon env t = Some (r, dead_after, t') \<and>
           vacuum_result env t = (r, dead_after) \<and> hint_steps env t t'"
  using assms by (rule any_view.HeapTupleSatisfiesVacuumHorizon_spec)

theorem HeapTupleSatisfiesVacuumHorizon_correct_witness:
  "\<exists>t'. HeapTupleSatisfiesVacuumHorizon sample_view (sample_tuple 92 7 0 0x1000) =
          Some (HEAPTUPLE_RECENTLY_DEAD, 94, t')"
proof -
  have "vacuum_result sample_view (sample_tuple 92 7 0 0x1000) = (HEAPTUPLE_RECENTLY_DEAD, 94)"
    by (simp add: vacuum_result_def sample_simps)
  then show ?thesis
    using HeapTupleSatisfiesVacuumHorizon_correct [OF sample_view_ok sample_tuples_ok(2)] by auto
qed

text \<open>
  C22: The cheap test agrees with the full one: a tuple that \<open>HeapTupleIsSurelyDead\<close> gives up,
  looking at hint bits only, is vacuumable for \<open>HeapTupleSatisfiesNonVacuumable\<close> too, whatever
  the state of the transaction system, and both leave the tuple and move the horizons alike.
\<close>

theorem HeapTupleIsSurelyDead_vacuumable:
  assumes "HeapTupleIsSurelyDead env (vistest snapshot) t g = (True, g')"
  shows "HeapTupleSatisfiesNonVacuumable env snapshot t g = Some (False, t, g')"
  using assms
  by (auto simp: HeapTupleIsSurelyDead_def HeapTupleSatisfiesNonVacuumable_def
      HeapTupleSatisfiesVacuumHorizon_def Vacuum_inserter_def Vacuum_deleter_def
      simp del: HEAP_XMAX_IS_LOCKED_ONLY_iff split: if_splits)

theorem HeapTupleIsSurelyDead_vacuumable_witness:
  fixes g :: global_vis
  defines "g \<equiv> (let h = \<lparr> definitely_needed = \<lparr> full_value = 98 \<rparr>, maybe_needed = \<lparr> full_value = 96 \<rparr> \<rparr>
                in \<lparr> GlobalVisSharedRels = h, GlobalVisCatalogRels = h, GlobalVisDataRels = h,
                     GlobalVisTempRels = h, horizons_last_xmin = 100 \<rparr>)"
  shows "HeapTupleSatisfiesNonVacuumable sample_view sample_snapshot (sample_tuple 92 94 0 0x0500) g =
           Some (False, sample_tuple 92 94 0 0x0500, g)"
  by (rule HeapTupleIsSurelyDead_vacuumable)
    (simp add: HeapTupleIsSurelyDead_def g_def sample_simps sample_snapshot_def Let_def
      GlobalVisTestIsRemovableXid_def GlobalVisTestIsRemovableFullXid_def GlobalVisTestFor_def
      FullXidRelativeTo_def FullTransactionIdPrecedes_def FullTransactionIdFromU64_def
      XidFromFullTransactionId_def)

end
