(* ===== verification/Commit_Log.thy ===== *)
theory Commit_Log
  imports Xid_Arith
begin

text \<open>
  The commit log (\<^verbatim>\<open>src/backend/access/transam/clog.c\<close>): two bits per transaction, packed
  four to a byte, 32768 to a page, and for every 32 transactions the latest LSN of an
  asynchronous commit among them. A page is found by its number; the buffer slots of
  \<^verbatim>\<open>slru.c\<close> and the eviction of pages are not modelled.
\<close>

section \<open>Pages and positions\<close>

text \<open>A C int whose value fits two bits.\<close>

type_synonym XidStatus = uint8
type_synonym XLogRecPtr = uint64

definition TRANSACTION_STATUS_IN_PROGRESS :: XidStatus where "TRANSACTION_STATUS_IN_PROGRESS = 0"
definition TRANSACTION_STATUS_COMMITTED :: XidStatus where "TRANSACTION_STATUS_COMMITTED = 1"
definition TRANSACTION_STATUS_ABORTED :: XidStatus where "TRANSACTION_STATUS_ABORTED = 2"
definition TRANSACTION_STATUS_SUB_COMMITTED :: XidStatus where
  "TRANSACTION_STATUS_SUB_COMMITTED = 3"

lemmas status_consts = TRANSACTION_STATUS_IN_PROGRESS_def TRANSACTION_STATUS_COMMITTED_def
  TRANSACTION_STATUS_ABORTED_def TRANSACTION_STATUS_SUB_COMMITTED_def

definition InvalidXLogRecPtr :: XLogRecPtr where "InvalidXLogRecPtr = 0"

definition XLogRecPtrIsInvalid :: "XLogRecPtr \<Rightarrow> bool" where
  "XLogRecPtrIsInvalid r \<longleftrightarrow> r = InvalidXLogRecPtr"

definition BLCKSZ :: nat where "BLCKSZ = 8192"
definition CLOG_BITS_PER_XACT :: nat where "CLOG_BITS_PER_XACT = 2"
definition CLOG_XACTS_PER_BYTE :: nat where "CLOG_XACTS_PER_BYTE = 4"
definition CLOG_XACTS_PER_PAGE :: nat where "CLOG_XACTS_PER_PAGE = BLCKSZ * CLOG_XACTS_PER_BYTE"
definition CLOG_XACT_BITMASK :: uint8 where
  "CLOG_XACT_BITMASK = push_bit CLOG_BITS_PER_XACT 1 - 1"
definition CLOG_XACTS_PER_LSN_GROUP :: nat where "CLOG_XACTS_PER_LSN_GROUP = 32"

lemmas clog_consts = BLCKSZ_def CLOG_BITS_PER_XACT_def CLOG_XACTS_PER_BYTE_def
  CLOG_XACTS_PER_PAGE_def CLOG_XACTS_PER_LSN_GROUP_def

definition TransactionIdToPage :: "TransactionId \<Rightarrow> nat" where
  "TransactionIdToPage xid = unat xid div CLOG_XACTS_PER_PAGE"

definition TransactionIdToPgIndex :: "TransactionId \<Rightarrow> nat" where
  "TransactionIdToPgIndex xid = unat xid mod CLOG_XACTS_PER_PAGE"

definition TransactionIdToByte :: "TransactionId \<Rightarrow> nat" where
  "TransactionIdToByte xid = TransactionIdToPgIndex xid div CLOG_XACTS_PER_BYTE"

definition TransactionIdToBIndex :: "TransactionId \<Rightarrow> nat" where
  "TransactionIdToBIndex xid = unat xid mod CLOG_XACTS_PER_BYTE"

text \<open>The position within the group LSNs of a page.\<close>

definition GetLSNIndex :: "TransactionId \<Rightarrow> nat" where
  "GetLSNIndex xid = (unat xid mod CLOG_XACTS_PER_PAGE) div CLOG_XACTS_PER_LSN_GROUP"

record clog_state =
  page_buffer :: "nat \<Rightarrow> nat \<Rightarrow> uint8"
  group_lsn :: "nat \<Rightarrow> nat \<Rightarrow> XLogRecPtr"
  page_dirty :: "nat \<Rightarrow> bool"

section \<open>Setting and getting a status\<close>

definition TransactionIdSetStatusBit ::
  "bool \<Rightarrow> TransactionId \<Rightarrow> XidStatus \<Rightarrow> XLogRecPtr \<Rightarrow> nat \<Rightarrow> clog_state \<Rightarrow> clog_state" where
  "TransactionIdSetStatusBit InRecovery xid status lsn slotno st =
     (let byteno = TransactionIdToByte xid;
          bshift = TransactionIdToBIndex xid * CLOG_BITS_PER_XACT;
          byte = page_buffer st slotno byteno;
          curval = drop_bit bshift byte AND CLOG_XACT_BITMASK in
      if InRecovery \<and> status = TRANSACTION_STATUS_SUB_COMMITTED \<and>
         curval = TRANSACTION_STATUS_COMMITTED
      then st
      else
        let byteval = byte AND NOT (push_bit bshift (push_bit CLOG_BITS_PER_XACT 1 - 1));
            byteval = byteval OR push_bit bshift status;
            st = st\<lparr> page_buffer := (page_buffer st)
                       (slotno := (page_buffer st slotno)(byteno := byteval)) \<rparr> in
        if \<not> XLogRecPtrIsInvalid lsn
        then let lsnindex = GetLSNIndex xid in
             if group_lsn st slotno lsnindex < lsn
             then st\<lparr> group_lsn := (group_lsn st)
                        (slotno := (group_lsn st slotno)(lsnindex := lsn)) \<rparr>
             else st
        else st)"

definition TransactionIdGetStatus :: "clog_state \<Rightarrow> TransactionId \<Rightarrow> XidStatus \<times> XLogRecPtr" where
  "TransactionIdGetStatus st xid =
     (let pageno = TransactionIdToPage xid;
          byteno = TransactionIdToByte xid;
          bshift = TransactionIdToBIndex xid * CLOG_BITS_PER_XACT;
          slotno = pageno;
          byte = page_buffer st slotno byteno;
          status = drop_bit bshift byte AND CLOG_XACT_BITMASK;
          lsnindex = GetLSNIndex xid
      in (status, group_lsn st slotno lsnindex))"

section \<open>Setting the status of a transaction tree\<close>

definition set_status_bits ::
  "bool \<Rightarrow> TransactionId list \<Rightarrow> XidStatus \<Rightarrow> XLogRecPtr \<Rightarrow> nat \<Rightarrow> clog_state \<Rightarrow> clog_state" where
  "set_status_bits InRecovery subxids status lsn slotno st =
     fold (\<lambda>x. TransactionIdSetStatusBit InRecovery x status lsn slotno) subxids st"

definition TransactionIdSetPageStatusInternal ::
  "bool \<Rightarrow> TransactionId \<Rightarrow> TransactionId list \<Rightarrow> XidStatus \<Rightarrow> XLogRecPtr \<Rightarrow> nat \<Rightarrow>
   clog_state \<Rightarrow> clog_state" where
  "TransactionIdSetPageStatusInternal InRecovery xid subxids status lsn pageno st =
     (let slotno = pageno;
          st = (if TransactionIdIsValid xid
                then let st = (if status = TRANSACTION_STATUS_COMMITTED
                               then set_status_bits InRecovery subxids
                                      TRANSACTION_STATUS_SUB_COMMITTED lsn slotno st
                               else st)
                     in TransactionIdSetStatusBit InRecovery xid status lsn slotno st
                else st);
          st = set_status_bits InRecovery subxids status lsn slotno st
      in st\<lparr> page_dirty := (page_dirty st)(slotno := True) \<rparr>)"

text \<open>
  A call of \<open>TransactionIdSetPageStatus\<close>. Each call takes the lock of the log for itself, so
  another backend sees the log before or after the call, not in between. The group update by
  which a waiting backend hands its call to the lock holder performs the same internal call.
\<close>

record page_call =
  pc_xid :: TransactionId
  pc_subxids :: "TransactionId list"
  pc_status :: XidStatus
  pc_lsn :: XLogRecPtr
  pc_page :: nat

definition TransactionIdSetPageStatus :: "bool \<Rightarrow> page_call \<Rightarrow> clog_state \<Rightarrow> clog_state" where
  "TransactionIdSetPageStatus InRecovery c st =
     TransactionIdSetPageStatusInternal InRecovery (pc_xid c) (pc_subxids c) (pc_status c)
       (pc_lsn c) (pc_page c) st"

text \<open>The calls that \<open>set_status_by_pages\<close> makes, one for each run of xids on one page.\<close>

function set_status_by_pages ::
  "TransactionId list \<Rightarrow> XidStatus \<Rightarrow> XLogRecPtr \<Rightarrow> page_call list" where
  "set_status_by_pages subxids status lsn =
     (case subxids of
        [] \<Rightarrow> []
      | x # _ \<Rightarrow>
          let pageno = TransactionIdToPage x;
              on_page = takeWhile (\<lambda>y. TransactionIdToPage y = pageno) subxids;
              rest = dropWhile (\<lambda>y. TransactionIdToPage y = pageno) subxids
          in \<lparr> pc_xid = InvalidTransactionId, pc_subxids = on_page, pc_status = status,
               pc_lsn = lsn, pc_page = pageno \<rparr> # set_status_by_pages rest status lsn)"
  by pat_completeness auto
termination
  by (relation "measure (\<lambda>(xs, status, lsn). length xs)")
    (auto simp: le_imp_less_Suc length_dropWhile_le)

declare set_status_by_pages.simps [simp del]

text \<open>The calls that \<open>TransactionIdSetTreeStatus\<close> makes.\<close>

definition tree_status_calls ::
  "TransactionId \<Rightarrow> TransactionId list \<Rightarrow> XidStatus \<Rightarrow> XLogRecPtr \<Rightarrow> page_call list" where
  "tree_status_calls xid subxids status lsn =
     (let pageno = TransactionIdToPage xid;
          on_first_page = takeWhile (\<lambda>y. TransactionIdToPage y = pageno) subxids;
          rest = dropWhile (\<lambda>y. TransactionIdToPage y = pageno) subxids in
      if rest = []
      then [\<lparr> pc_xid = xid, pc_subxids = subxids, pc_status = status, pc_lsn = lsn,
             pc_page = pageno \<rparr>]
      else (if status = TRANSACTION_STATUS_COMMITTED
            then set_status_by_pages rest TRANSACTION_STATUS_SUB_COMMITTED lsn else []) @
           [\<lparr> pc_xid = xid, pc_subxids = on_first_page, pc_status = status, pc_lsn = lsn,
             pc_page = pageno \<rparr>] @
           set_status_by_pages rest status lsn)"

definition TransactionIdSetTreeStatus ::
  "bool \<Rightarrow> TransactionId \<Rightarrow> TransactionId list \<Rightarrow> XidStatus \<Rightarrow> XLogRecPtr \<Rightarrow>
   clog_state \<Rightarrow> clog_state" where
  "TransactionIdSetTreeStatus InRecovery xid subxids status lsn st =
     fold (TransactionIdSetPageStatus InRecovery) (tree_status_calls xid subxids status lsn) st"

section \<open>Maintenance\<close>

definition ZeroCLOGPage :: "nat \<Rightarrow> clog_state \<Rightarrow> clog_state" where
  "ZeroCLOGPage pageno st =
     st\<lparr> page_buffer := (page_buffer st)(pageno := (\<lambda>_. 0)),
         group_lsn := (group_lsn st)(pageno := (\<lambda>_. 0)),
         page_dirty := (page_dirty st)(pageno := True) \<rparr>"

definition ExtendCLOG :: "TransactionId \<Rightarrow> clog_state \<Rightarrow> clog_state" where
  "ExtendCLOG newestXact st =
     (if TransactionIdToPgIndex newestXact \<noteq> 0 \<and> newestXact \<noteq> FirstNormalTransactionId then st
      else ZeroCLOGPage (TransactionIdToPage newestXact) st)"

definition TrimCLOG :: "FullTransactionId \<Rightarrow> clog_state \<Rightarrow> clog_state" where
  "TrimCLOG nextXid st =
     (let xid = XidFromFullTransactionId nextXid;
          pageno = TransactionIdToPage xid in
      if TransactionIdToPgIndex xid \<noteq> 0
      then let byteno = TransactionIdToByte xid;
               bshift = TransactionIdToBIndex xid * CLOG_BITS_PER_XACT;
               page = page_buffer st pageno;
               page = page(byteno := page byteno AND (push_bit bshift 1 - 1));
               page = (\<lambda>i. if byteno + 1 \<le> i \<and> i < BLCKSZ then 0 else page i)
           in st\<lparr> page_buffer := (page_buffer st)(pageno := page),
                  page_dirty := (page_dirty st)(pageno := True) \<rparr>
      else st)"

definition CLOGPagePrecedes :: "uint32 \<Rightarrow> uint32 \<Rightarrow> bool" where
  "CLOGPagePrecedes page1 page2 =
     (let xid1 = page1 * of_nat CLOG_XACTS_PER_PAGE;
          xid1 = xid1 + (FirstNormalTransactionId + 1);
          xid2 = page2 * of_nat CLOG_XACTS_PER_PAGE;
          xid2 = xid2 + (FirstNormalTransactionId + 1)
      in TransactionIdPrecedes xid1 xid2 \<and>
         TransactionIdPrecedes xid1 (xid2 + of_nat CLOG_XACTS_PER_PAGE - 1))"

end
