(* ===== verification/Xid_Store.thy ===== *)
theory Xid_Store
  imports Xid_Arith
begin

text \<open>
  The interface that the commit log and the subtransaction log share: a value per transaction,
  written one at a time. Whatever the packing of the values into pages, a write must be read
  back and must leave every other transaction alone. The lemmas are those the callers rely on
  when they write a whole tree of transactions.
\<close>

locale xid_store =
  fixes lookup :: "'s \<Rightarrow> TransactionId \<Rightarrow> 'v"
    and store :: "TransactionId \<Rightarrow> 'v \<Rightarrow> 's \<Rightarrow> 's"
    and storable :: "'v \<Rightarrow> bool"
  assumes lookup_store:
    "storable v \<Longrightarrow> lookup (store x v s) y = (if y = x then v else lookup s y)"
begin

lemma lookup_fold_store:
  "storable v \<Longrightarrow>
     lookup (fold (\<lambda>x. store x v) xs s) y = (if y \<in> set xs then v else lookup s y)"
  by (induction xs arbitrary: s) (auto simp: lookup_store)

lemma store_idem: "storable v \<Longrightarrow> lookup s x = v \<Longrightarrow> lookup (store x v s) y = lookup s y"
  by (simp add: lookup_store)

lemma store_commute:
  "storable v \<Longrightarrow> storable w \<Longrightarrow> x \<noteq> z \<Longrightarrow>
     lookup (store x v (store z w s)) y = lookup (store z w (store x v s)) y"
  by (simp add: lookup_store)

lemma lookup_fold_pairs:
  "(\<And>x v. (x, v) \<in> set ps \<Longrightarrow> storable v) \<Longrightarrow> distinct (map fst ps) \<Longrightarrow>
     lookup (fold (\<lambda>(x, v). store x v) ps s) y =
       (case map_of ps y of Some v \<Rightarrow> v | None \<Rightarrow> lookup s y)"
proof (induction ps arbitrary: s)
  case (Cons p ps)
  obtain x v where p: "p = (x, v)" by (cases p)
  have "storable v" "x \<notin> fst ` set ps" using Cons.prems by (auto simp: p)
  moreover have "map_of ps x = None" using \<open>x \<notin> fst ` set ps\<close> by (simp add: map_of_eq_None_iff)
  moreover have "lookup (fold (\<lambda>(x, v). store x v) ps (store x v s)) y =
      (case map_of ps y of Some w \<Rightarrow> w | None \<Rightarrow> lookup (store x v s) y)"
    using Cons by (intro Cons.IH) auto
  ultimately show ?case by (auto simp: p lookup_store split: option.split)
qed simp

end

end
