(* ===== verification/Commit_Log_Props.thy ===== *)
theory Commit_Log_Props
  imports Commit_Log Xid_Store
begin

text \<open>
  The commit log is a map from transactions to statuses: the two-bit packing interprets the
  interface \<open>xid_store\<close>, and a tree of transactions gets its status and nothing else does.
\<close>

section \<open>Two-bit fields\<close>

lemma bit_3_uint8: "bit (3 :: uint8) n \<longleftrightarrow> n < 2"
proof -
  have "(3 :: uint8) = mask 2" by (simp add: mask_eq_exp_minus_1)
  then show ?thesis by (simp only: bit_mask_iff) auto
qed

lemma bit_3_int: "bit (3 :: int) n \<longleftrightarrow> n < 2"
proof -
  have "(3 :: int) = mask 2" by (simp add: mask_eq_exp_minus_1)
  then show ?thesis by (simp only: bit_mask_iff) auto
qed

lemma two_bit_less: "(v :: uint8) < 4 \<Longrightarrow> bit v n \<Longrightarrow> n < 2"
proof (rule ccontr)
  assume v: "v < 4" and b: "bit v n" and n: "\<not> n < 2"
  have "unat v < 2 ^ 2" using v by (simp add: word_less_nat_alt)
  also have "(2 :: nat) ^ 2 \<le> 2 ^ n" using n by (intro power_increasing) auto
  finally have "unat v div 2 ^ n = 0" by simp
  moreover have "bit (unat v) n" using b by (simp add: bit_unsigned_iff)
  ultimately show False by (simp add: bit_iff_odd)
qed

lemma two_bit_field:
  fixes byte v :: uint8
  assumes "v < 4" "i < 4" "j < 4"
  shows "drop_bit (2 * j) (byte AND NOT (push_bit (2 * i) 3) OR push_bit (2 * i) v) AND 3 =
         (if i = j then v else drop_bit (2 * j) byte AND 3)"
proof (rule bit_word_eqI)
  fix n
  assume n: "n < LENGTH(8)"
  have "n < 2 \<Longrightarrow> i \<noteq> j \<Longrightarrow> \<not> (2 * i \<le> 2 * j + n \<and> 2 * j + n - 2 * i < 2)"
    by arith
  moreover have "n < 2 \<Longrightarrow> 2 * j + n < 8" using assms(3) by simp
  ultimately show "bit (drop_bit (2 * j) (byte AND NOT (push_bit (2 * i) 3) OR push_bit (2 * i) v)
          AND 3) n =
        bit (if i = j then v else drop_bit (2 * j) byte AND 3) n"
    using n assms two_bit_less [OF assms(1)]
    by (cases "n < 2") (auto simp: bit_simps bit_3_uint8 bit_3_int dest: two_bit_less [OF assms(1)])
qed

definition two_bits :: "nat \<Rightarrow> uint8 \<Rightarrow> uint8" where
  "two_bits i byte = drop_bit (2 * i) byte AND 3"

definition set_two_bits :: "nat \<Rightarrow> uint8 \<Rightarrow> uint8 \<Rightarrow> uint8" where
  "set_two_bits i v byte = byte AND NOT (push_bit (2 * i) 3) OR push_bit (2 * i) v"

lemma two_bits_set:
  "v < 4 \<Longrightarrow> i < 4 \<Longrightarrow> j < 4 \<Longrightarrow>
     two_bits j (set_two_bits i v byte) = (if i = j then v else two_bits j byte)"
  unfolding two_bits_def set_two_bits_def by (rule two_bit_field)

section \<open>Positions\<close>

lemma position_split_nat: "(n :: nat) = n div 32768 * 32768 + (n mod 32768) div 4 * 4 + n mod 4"
proof -
  have "(n mod 32768) mod 4 = n mod 4" by (rule mod_mod_cancel) simp
  then show ?thesis
    using div_mult_mod_eq [of n 32768] div_mult_mod_eq [of "n mod 32768" 4] by linarith
qed

lemma position_split:
  "unat x = TransactionIdToPage x * 32768 + TransactionIdToByte x * 4 + TransactionIdToBIndex x"
proof -
  have "CLOG_XACTS_PER_PAGE = 32768" by (simp add: clog_consts)
  then show ?thesis
    using position_split_nat [of "unat x"]
    by (simp only: TransactionIdToPage_def TransactionIdToByte_def TransactionIdToPgIndex_def
        TransactionIdToBIndex_def CLOG_XACTS_PER_BYTE_def)
qed

lemma clog_position_inject:
  "TransactionIdToPage x = TransactionIdToPage y \<Longrightarrow>
   TransactionIdToByte x = TransactionIdToByte y \<Longrightarrow>
   TransactionIdToBIndex x = TransactionIdToBIndex y \<Longrightarrow> x = y"
  using position_split [of x] position_split [of y] by (simp add: word_unat_eq_iff)

lemma TransactionIdToBIndex_less: "TransactionIdToBIndex x < 4"
  by (simp add: TransactionIdToBIndex_def clog_consts)

section \<open>One status\<close>

abbreviation status_of :: "clog_state \<Rightarrow> TransactionId \<Rightarrow> XidStatus" where
  "status_of st x \<equiv> fst (TransactionIdGetStatus st x)"

abbreviation lsn_of :: "clog_state \<Rightarrow> TransactionId \<Rightarrow> XLogRecPtr" where
  "lsn_of st x \<equiv> snd (TransactionIdGetStatus st x)"

lemma status_of_eq:
  "status_of st x =
     two_bits (TransactionIdToBIndex x) (page_buffer st (TransactionIdToPage x) (TransactionIdToByte x))"
  by (simp add: TransactionIdGetStatus_def Let_def two_bits_def CLOG_BITS_PER_XACT_def
      CLOG_XACT_BITMASK_def mult.commute)

text \<open>A write that recovery skips: the transaction already has its final status.\<close>

definition replay_noop :: "bool \<Rightarrow> XidStatus \<Rightarrow> XidStatus \<Rightarrow> bool" where
  "replay_noop InRecovery status curval \<longleftrightarrow>
     InRecovery \<and> status = TRANSACTION_STATUS_SUB_COMMITTED \<and> curval = TRANSACTION_STATUS_COMMITTED"

lemma SetStatusBit_eq:
  "TransactionIdSetStatusBit InRecovery x status lsn pg st =
     (if replay_noop InRecovery status
           (two_bits (TransactionIdToBIndex x) (page_buffer st pg (TransactionIdToByte x)))
      then st
      else let st' = st\<lparr> page_buffer := (page_buffer st)(pg := (page_buffer st pg)
                 (TransactionIdToByte x := set_two_bits (TransactionIdToBIndex x) status
                    (page_buffer st pg (TransactionIdToByte x)))) \<rparr>
           in if lsn \<noteq> 0 \<and> group_lsn st pg (GetLSNIndex x) < lsn
              then st'\<lparr> group_lsn := (group_lsn st)(pg := (group_lsn st pg)(GetLSNIndex x := lsn)) \<rparr>
              else st')"
  by (simp add: TransactionIdSetStatusBit_def Let_def two_bits_def set_two_bits_def
      CLOG_BITS_PER_XACT_def CLOG_XACT_BITMASK_def XLogRecPtrIsInvalid_def InvalidXLogRecPtr_def
      replay_noop_def mult.commute)

lemma page_buffer_SetStatusBit:
  "page_buffer (TransactionIdSetStatusBit InRecovery x status lsn pg st) p b =
     (if p = pg \<and> b = TransactionIdToByte x \<and>
         \<not> replay_noop InRecovery status
            (two_bits (TransactionIdToBIndex x) (page_buffer st pg (TransactionIdToByte x)))
      then set_two_bits (TransactionIdToBIndex x) status (page_buffer st p b)
      else page_buffer st p b)"
  by (simp add: SetStatusBit_eq Let_def)

lemma status_of_SetStatusBit:
  assumes "status < 4"
  shows "status_of (TransactionIdSetStatusBit InRecovery x status lsn (TransactionIdToPage x) st) y =
    (if y = x \<and> \<not> replay_noop InRecovery status (status_of st x) then status else status_of st y)"
  using clog_position_inject [of x y]
  by (auto simp: status_of_eq page_buffer_SetStatusBit two_bits_set [OF assms]
      TransactionIdToBIndex_less)

lemma lsn_of_eq: "lsn_of st x = group_lsn st (TransactionIdToPage x) (GetLSNIndex x)"
  by (simp add: TransactionIdGetStatus_def Let_def)

lemma lsn_of_SetStatusBit:
  "lsn_of (TransactionIdSetStatusBit InRecovery x status lsn (TransactionIdToPage x) st) y =
    (if TransactionIdToPage y = TransactionIdToPage x \<and> GetLSNIndex y = GetLSNIndex x \<and>
        \<not> replay_noop InRecovery status (status_of st x)
     then max (lsn_of st y) lsn else lsn_of st y)"
  unfolding lsn_of_eq status_of_eq SetStatusBit_eq Let_def
  by (auto simp: max_def dest: less_imp_le)

section \<open>One page call\<close>

interpretation clog: xid_store status_of
  "\<lambda>x v. TransactionIdSetStatusBit False x v lsn (TransactionIdToPage x)" "\<lambda>v. v < 4" for lsn
  by unfold_locales (simp add: status_of_SetStatusBit replay_noop_def)

definition xids_of_call :: "page_call \<Rightarrow> TransactionId set" where
  "xids_of_call c = set (pc_subxids c) \<union> (if TransactionIdIsValid (pc_xid c) then {pc_xid c} else {})"

definition call_ok :: "page_call \<Rightarrow> bool" where
  "call_ok c \<longleftrightarrow> pc_status c < 4 \<and> (\<forall>x \<in> xids_of_call c. TransactionIdToPage x = pc_page c)"

lemma set_status_bits_page:
  assumes "\<forall>x \<in> set xs. TransactionIdToPage x = pg"
  shows "set_status_bits InRecovery xs status lsn pg st =
         fold (\<lambda>x. TransactionIdSetStatusBit InRecovery x status lsn (TransactionIdToPage x)) xs st"
  unfolding set_status_bits_def using assms by (intro fold_cong) auto

lemma status_of_page_dirty [simp]:
  "status_of (st\<lparr> page_dirty := d \<rparr>) y = status_of st y"
  "lsn_of (st\<lparr> page_dirty := d \<rparr>) y = lsn_of st y"
  by (simp_all add: status_of_eq lsn_of_eq)

lemma status_of_SetPageStatus:
  assumes "call_ok c"
  shows "status_of (TransactionIdSetPageStatus False c st) y =
         (if y \<in> xids_of_call c then pc_status c else status_of st y)"
proof -
  have small: "pc_status c < 4" "TRANSACTION_STATUS_SUB_COMMITTED < 4"
    using assms by (simp_all add: call_ok_def status_consts)
  have page: "\<forall>x \<in> set (pc_subxids c). TransactionIdToPage x = pc_page c"
    using assms by (auto simp: call_ok_def xids_of_call_def)
  have xid: "TransactionIdIsValid (pc_xid c) \<Longrightarrow> TransactionIdToPage (pc_xid c) = pc_page c"
    using assms by (simp add: call_ok_def xids_of_call_def)
  note fold = clog.lookup_fold_store [OF small(1)] clog.lookup_fold_store [OF small(2)]
  show ?thesis
  proof (cases "TransactionIdIsValid (pc_xid c)")
    case True
    have one: "status_of (TransactionIdSetStatusBit False (pc_xid c) (pc_status c) lsn (pc_page c) st) z =
        (if z = pc_xid c then pc_status c else status_of st z)" for lsn st z
      using clog.lookup_store [OF small(1)] by (simp add: xid [OF True, symmetric])
    show ?thesis using True
      by (auto simp: TransactionIdSetPageStatus_def TransactionIdSetPageStatusInternal_def Let_def
          set_status_bits_page [OF page] fold one xids_of_call_def)
  next
    case False
    then show ?thesis
      by (auto simp: TransactionIdSetPageStatus_def TransactionIdSetPageStatusInternal_def Let_def
          set_status_bits_page [OF page] fold xids_of_call_def)
  qed
qed

section \<open>Sequences of page calls\<close>

lemma status_of_calls_unchanged:
  "\<forall>c \<in> set cs. call_ok c \<and> y \<notin> xids_of_call c \<Longrightarrow>
     status_of (fold (TransactionIdSetPageStatus False) cs st) y = status_of st y"
  by (induction cs arbitrary: st) (auto simp: status_of_SetPageStatus)

lemma status_of_calls:
  "\<forall>c \<in> set cs. call_ok c \<and> pc_status c = v \<Longrightarrow>
     status_of (fold (TransactionIdSetPageStatus False) cs st) y =
       (if \<exists>c \<in> set cs. y \<in> xids_of_call c then v else status_of st y)"
  by (induction cs arbitrary: st) (auto simp: status_of_SetPageStatus)

lemma set_status_by_pages_calls:
  assumes "status < 4"
  shows "(\<forall>c \<in> set (set_status_by_pages xs status lsn). call_ok c \<and> pc_status c = status) \<and>
         (\<Union>c \<in> set (set_status_by_pages xs status lsn). xids_of_call c) = set xs"
  using assms
proof (induction xs status lsn rule: set_status_by_pages.induct)
  case (1 xs status lsn)
  show ?case
  proof (cases xs)
    case Nil
    then show ?thesis by (simp add: set_status_by_pages.simps)
  next
    case (Cons x ys)
    let ?P = "\<lambda>y. TransactionIdToPage y = TransactionIdToPage x"
    have IH: "(\<forall>c \<in> set (set_status_by_pages (dropWhile ?P xs) status lsn).
                 call_ok c \<and> pc_status c = status) \<and>
         (\<Union>c \<in> set (set_status_by_pages (dropWhile ?P xs) status lsn). xids_of_call c) =
           set (dropWhile ?P xs)"
      using "1.IH" [OF Cons refl refl refl] "1.prems" by simp
    have unfold: "set_status_by_pages xs status lsn =
        \<lparr> pc_xid = InvalidTransactionId, pc_subxids = takeWhile ?P xs, pc_status = status,
          pc_lsn = lsn, pc_page = TransactionIdToPage x \<rparr> #
        set_status_by_pages (dropWhile ?P xs) status lsn"
      by (subst set_status_by_pages.simps) (simp add: Cons Let_def)
    have "set (takeWhile ?P xs) \<union> set (dropWhile ?P xs) = set xs"
      by (metis set_append takeWhile_dropWhile_id)
    moreover have "call_ok \<lparr> pc_xid = InvalidTransactionId, pc_subxids = takeWhile ?P xs,
        pc_status = status, pc_lsn = lsn, pc_page = TransactionIdToPage x \<rparr>"
      using "1.prems"
      by (auto simp: call_ok_def xids_of_call_def TransactionIdIsValid_def dest: set_takeWhileD)
    moreover have "xids_of_call \<lparr> pc_xid = InvalidTransactionId, pc_subxids = takeWhile ?P xs,
        pc_status = status, pc_lsn = lsn, pc_page = TransactionIdToPage x \<rparr> = set (takeWhile ?P xs)"
      by (simp add: xids_of_call_def TransactionIdIsValid_def)
    ultimately show ?thesis
      using IH unfolding unfold by simp
  qed
qed

section \<open>The whole tree\<close>

text \<open>The calls before the one that names the parent, that call, and the calls after it.\<close>

definition calls_before ::
  "TransactionId \<Rightarrow> TransactionId list \<Rightarrow> XidStatus \<Rightarrow> XLogRecPtr \<Rightarrow> page_call list" where
  "calls_before xid subxids status lsn =
     (let rest = dropWhile (\<lambda>y. TransactionIdToPage y = TransactionIdToPage xid) subxids in
      if rest = [] \<or> status \<noteq> TRANSACTION_STATUS_COMMITTED then []
      else set_status_by_pages rest TRANSACTION_STATUS_SUB_COMMITTED lsn)"

definition parent_call ::
  "TransactionId \<Rightarrow> TransactionId list \<Rightarrow> XidStatus \<Rightarrow> XLogRecPtr \<Rightarrow> page_call" where
  "parent_call xid subxids status lsn =
     \<lparr> pc_xid = xid,
       pc_subxids = takeWhile (\<lambda>y. TransactionIdToPage y = TransactionIdToPage xid) subxids,
       pc_status = status, pc_lsn = lsn, pc_page = TransactionIdToPage xid \<rparr>"

definition calls_after ::
  "TransactionId \<Rightarrow> TransactionId list \<Rightarrow> XidStatus \<Rightarrow> XLogRecPtr \<Rightarrow> page_call list" where
  "calls_after xid subxids status lsn =
     set_status_by_pages (dropWhile (\<lambda>y. TransactionIdToPage y = TransactionIdToPage xid) subxids)
       status lsn"

lemma tree_status_calls_eq:
  "tree_status_calls xid subxids status lsn =
     calls_before xid subxids status lsn @ parent_call xid subxids status lsn #
     calls_after xid subxids status lsn"
proof -
  let ?P = "\<lambda>y. TransactionIdToPage y = TransactionIdToPage xid"
  have nil: "set_status_by_pages [] status lsn = []"
    by (simp add: set_status_by_pages.simps)
  show ?thesis
  proof (cases "dropWhile ?P subxids = []")
    case True
    have all: "takeWhile ?P subxids = subxids"
      using takeWhile_dropWhile_id [of ?P subxids] by (simp only: True append_Nil2)
    show ?thesis
      by (simp only: tree_status_calls_def calls_before_def parent_call_def calls_after_def Let_def
          True nil all if_True simp_thms append.simps)
  next
    case False
    then show ?thesis
      by (simp only: tree_status_calls_def calls_before_def parent_call_def calls_after_def Let_def
          simp_thms append.simps if_False) auto
  qed
qed

lemma calls_before_ok:
  "(\<forall>c \<in> set (calls_before xid subxids status lsn).
      call_ok c \<and> pc_status c = TRANSACTION_STATUS_SUB_COMMITTED) \<and>
   (\<Union>c \<in> set (calls_before xid subxids status lsn). xids_of_call c) \<subseteq> set subxids"
  using set_status_by_pages_calls [of TRANSACTION_STATUS_SUB_COMMITTED
      "dropWhile (\<lambda>y. TransactionIdToPage y = TransactionIdToPage xid) subxids" lsn]
  by (auto simp: calls_before_def status_consts Let_def dest: set_dropWhileD)

lemma parent_call_ok:
  assumes "status < 4"
  shows "call_ok (parent_call xid subxids status lsn)"
  using assms
  by (auto simp: call_ok_def parent_call_def xids_of_call_def dest: set_takeWhileD)

lemma calls_after_ok:
  assumes "status < 4"
  shows "\<forall>c \<in> set (calls_after xid subxids status lsn). call_ok c \<and> pc_status c = status"
  using set_status_by_pages_calls [OF assms] by (simp add: calls_after_def)

lemma tree_call_xids:
  assumes "status < 4" "TransactionIdIsValid xid"
  shows "xids_of_call (parent_call xid subxids status lsn) \<union>
         (\<Union>c \<in> set (calls_after xid subxids status lsn). xids_of_call c) = insert xid (set subxids)"
proof -
  let ?P = "\<lambda>y. TransactionIdToPage y = TransactionIdToPage xid"
  have "set (takeWhile ?P subxids) \<union> set (dropWhile ?P subxids) = set subxids"
    by (metis set_append takeWhile_dropWhile_id)
  moreover have "xids_of_call (parent_call xid subxids status lsn) =
      insert xid (set (takeWhile ?P subxids))"
    using assms(2) by (simp add: xids_of_call_def parent_call_def)
  ultimately show ?thesis
    using set_status_by_pages_calls [OF assms(1), of "dropWhile ?P subxids" lsn]
    by (simp add: calls_after_def)
qed

lemma status_of_SetTreeStatus:
  assumes "TransactionIdIsValid xid" "status < 4"
  shows "status_of (TransactionIdSetTreeStatus False xid subxids status lsn st) y =
         (if y \<in> insert xid (set subxids) then status else status_of st y)"
proof -
  let ?pre = "fold (TransactionIdSetPageStatus False) (calls_before xid subxids status lsn) st"
  let ?cs = "parent_call xid subxids status lsn # calls_after xid subxids status lsn"
  have "status_of (fold (TransactionIdSetPageStatus False) ?cs ?pre) y =
      (if \<exists>c \<in> set ?cs. y \<in> xids_of_call c then status else status_of ?pre y)"
    using parent_call_ok [OF assms(2)] calls_after_ok [OF assms(2)]
    by (intro status_of_calls) (auto simp: parent_call_def)
  moreover have "(\<exists>c \<in> set ?cs. y \<in> xids_of_call c) \<longleftrightarrow> y \<in> insert xid (set subxids)"
    using tree_call_xids [OF assms(2,1), of subxids lsn] by auto
  moreover have "status_of ?pre y = status_of st y" if "y \<notin> set subxids"
    using calls_before_ok [of xid subxids status lsn] that
    by (intro status_of_calls_unchanged) blast
  ultimately show ?thesis
    by (auto simp: TransactionIdSetTreeStatus_def tree_status_calls_eq)
qed

section \<open>Properties\<close>

text \<open>
  C34: Writing a two-bit status and reading it back: outside recovery the transaction written
  has the new status and every other transaction of the log, in the same byte or elsewhere,
  keeps its own; the LSN reported for a transaction never goes back, and covers every
  commit LSN written for it. During replay a subcommit of a committed transaction is a no-op.
\<close>

theorem clog_status_readback:
  assumes "status < 4"
  shows "status_of (TransactionIdSetStatusBit InRecovery x status lsn (TransactionIdToPage x) st) y =
           (if y = x \<and> \<not> (InRecovery \<and> status = TRANSACTION_STATUS_SUB_COMMITTED \<and>
                          status_of st x = TRANSACTION_STATUS_COMMITTED)
            then status else status_of st y) \<and>
         lsn_of (TransactionIdSetStatusBit InRecovery x status lsn (TransactionIdToPage x) st) y \<ge>
           lsn_of st y \<and>
         (\<not> InRecovery \<longrightarrow>
           lsn_of (TransactionIdSetStatusBit InRecovery x status lsn (TransactionIdToPage x) st) x \<ge> lsn)"
  using assms by (simp add: status_of_SetStatusBit lsn_of_SetStatusBit replay_noop_def)

theorem clog_status_readback_witness:
  "status_of (TransactionIdSetStatusBit False 70001 1 12 (TransactionIdToPage 70001)
      \<lparr> page_buffer = (\<lambda>p b. 0xE4), group_lsn = (\<lambda>p i. 0), page_dirty = (\<lambda>p. False) \<rparr>) 70002 = 2"
proof -
  have "status_of \<lparr> page_buffer = (\<lambda>p b. 0xE4), group_lsn = (\<lambda>p i. 0), page_dirty = (\<lambda>p. False) \<rparr>
      70002 = 2"
    by (simp add: TransactionIdGetStatus_def Let_def TransactionIdToBIndex_def clog_consts
        CLOG_XACT_BITMASK_def)
  then show ?thesis
    using clog_status_readback [of 1 False 70001 12 _ 70002] by simp
qed

text \<open>
  C28: \<open>TransactionIdSetTreeStatus\<close> gives the parent and every subtransaction the final status,
  over however many pages they are spread and in whatever order they are listed, and changes
  the status of no other transaction.
\<close>

theorem TransactionIdSetTreeStatus_sets_tree:
  assumes "TransactionIdIsValid xid"
    and "status = TRANSACTION_STATUS_COMMITTED \<or> status = TRANSACTION_STATUS_ABORTED"
  shows "fst (TransactionIdGetStatus (TransactionIdSetTreeStatus False xid subxids status lsn st) y) =
         (if y = xid \<or> y \<in> set subxids then status else fst (TransactionIdGetStatus st y))"
  using status_of_SetTreeStatus [OF assms(1), of status subxids lsn st y] assms(2)
  by (auto simp: status_consts)

theorem TransactionIdSetTreeStatus_sets_tree_witness:
  "fst (TransactionIdGetStatus (TransactionIdSetTreeStatus False 32760 [32765, 32770, 65540] 1 0
      \<lparr> page_buffer = (\<lambda>p b. 0), group_lsn = (\<lambda>p i. 0), page_dirty = (\<lambda>p. False) \<rparr>) 65540) = 1"
  by (subst TransactionIdSetTreeStatus_sets_tree)
    (simp_all add: TransactionIdIsValid_def xid_consts status_consts)

section \<open>Trimming\<close>

lemma bit_low_mask: "n < 8 \<Longrightarrow> bit (2 ^ n - 1 :: uint8) k \<longleftrightarrow> k < n"
proof -
  assume n: "n < 8"
  have "2 ^ n - 1 = (mask n :: uint8)" by (simp add: mask_eq_exp_minus_1)
  then show ?thesis using n by (simp only: bit_mask_iff) auto
qed

lemma two_bits_trim:
  assumes "i < 4" "j < 4"
  shows "two_bits j (byte AND (2 ^ (2 * i) - 1)) = (if j < i then two_bits j byte else 0)"
proof (rule bit_word_eqI)
  fix n
  have "n < 2 \<Longrightarrow> 2 * j + n < 2 * i \<longleftrightarrow> j < i" by arith
  moreover have "2 * i < 8" using assms by simp
  ultimately show "bit (two_bits j (byte AND (2 ^ (2 * i) - 1))) n =
      bit (if j < i then two_bits j byte else 0) n"
    by (auto simp: two_bits_def bit_low_mask bit_and_iff bit_drop_bit_eq bit_3_uint8 bit_3_int)
qed

lemma page_buffer_TrimCLOG:
  assumes "XidFromFullTransactionId nextXid = x" "b < 8192"
  shows "page_buffer (TrimCLOG nextXid st) p b =
     (if TransactionIdToPgIndex x = 0 \<or> p \<noteq> TransactionIdToPage x then page_buffer st p b
      else if b > TransactionIdToByte x then 0
      else if b = TransactionIdToByte x
      then page_buffer st p b AND (2 ^ (2 * TransactionIdToBIndex x) - 1)
      else page_buffer st p b)"
  using assms
  by (simp add: TrimCLOG_def Let_def CLOG_BITS_PER_XACT_def BLCKSZ_def mult.commute)

lemma same_page_order:
  assumes "TransactionIdToPage y = TransactionIdToPage x"
  shows "y \<ge> x \<longleftrightarrow> TransactionIdToByte y > TransactionIdToByte x \<or>
      TransactionIdToByte y = TransactionIdToByte x \<and> TransactionIdToBIndex y \<ge> TransactionIdToBIndex x"
proof -
  have "y \<ge> x \<longleftrightarrow> TransactionIdToByte y * 4 + TransactionIdToBIndex y \<ge>
      TransactionIdToByte x * 4 + TransactionIdToBIndex x"
    using position_split [of y] position_split [of x] assms by (simp add: word_le_nat_alt)
  then show ?thesis
    using TransactionIdToBIndex_less [of x] TransactionIdToBIndex_less [of y] by linarith
qed

lemma TransactionIdToByte_less: "TransactionIdToByte z < 8192"
  by (simp add: TransactionIdToByte_def TransactionIdToPgIndex_def clog_consts less_mult_imp_div_less)

text \<open>
  \<open>TrimCLOG\<close> forgets exactly the transactions of the current page that have not been
  assigned yet: those at or after \<open>nextXid\<close> on its page read as in progress afterwards, all
  other transactions keep their status.
\<close>

theorem TrimCLOG_forgets_unassigned:
  "fst (TransactionIdGetStatus (TrimCLOG nextXid st) y) =
     (let x = XidFromFullTransactionId nextXid in
      if TransactionIdToPgIndex x \<noteq> 0 \<and> TransactionIdToPage y = TransactionIdToPage x \<and> y \<ge> x
      then TRANSACTION_STATUS_IN_PROGRESS else fst (TransactionIdGetStatus st y))"
proof -
  define x where "x = XidFromFullTransactionId nextXid"
  have zero: "two_bits i 0 = 0" for i by (simp add: two_bits_def)
  note buffer = page_buffer_TrimCLOG [OF x_def [symmetric] TransactionIdToByte_less]
  show ?thesis
  proof (cases "TransactionIdToPgIndex x = 0 \<or> TransactionIdToPage y \<noteq> TransactionIdToPage x")
    case True
    then show ?thesis
      by (auto simp: x_def [symmetric] Let_def status_of_eq buffer)
  next
    case False
    then show ?thesis
      using same_page_order [of y x] TransactionIdToBIndex_less [of x] TransactionIdToBIndex_less [of y]
      by (simp add: x_def [symmetric] Let_def status_of_eq buffer two_bits_trim zero status_consts)
  qed
qed

end
