(* ===== verification/Sub_Trans.thy ===== *)
theory Sub_Trans
  imports Commit_Log Xid_Store "HOL-Library.Monad_Syntax"
begin

text \<open>
  The subtransaction log (\<^verbatim>\<open>src/backend/access/transam/subtrans.c\<close>), which holds the parent of
  every subtransaction, and the questions about transaction trees that combine it with the
  commit log (\<^verbatim>\<open>src/backend/access/transam/transam.c\<close>). As in \<open>Commit_Log\<close> a page is found
  by its number. \<open>TransactionXmin\<close>, the oldest xid the backend may look up, is a component of
  the state.
\<close>

section \<open>The subtransaction log\<close>

definition SUBTRANS_XACTS_PER_PAGE :: nat where
  "SUBTRANS_XACTS_PER_PAGE = BLCKSZ div 4"

definition TransactionIdToPage_subtrans :: "TransactionId \<Rightarrow> nat" where
  "TransactionIdToPage_subtrans xid = unat xid div SUBTRANS_XACTS_PER_PAGE"

definition TransactionIdToEntry :: "TransactionId \<Rightarrow> nat" where
  "TransactionIdToEntry xid = unat xid mod SUBTRANS_XACTS_PER_PAGE"

record subtrans_state =
  sub_page :: "nat \<Rightarrow> nat \<Rightarrow> TransactionId"
  sub_dirty :: "nat \<Rightarrow> bool"

definition SubTransSetParent ::
  "TransactionId \<Rightarrow> TransactionId \<Rightarrow> subtrans_state \<Rightarrow> subtrans_state" where
  "SubTransSetParent xid parent st =
     (let pageno = TransactionIdToPage_subtrans xid;
          entryno = TransactionIdToEntry xid;
          slotno = pageno in
      if sub_page st slotno entryno \<noteq> parent
      then st\<lparr> sub_page := (sub_page st)(slotno := (sub_page st slotno)(entryno := parent)),
               sub_dirty := (sub_dirty st)(slotno := True) \<rparr>
      else st)"

definition SubTransGetParent :: "subtrans_state \<Rightarrow> TransactionId \<Rightarrow> TransactionId" where
  "SubTransGetParent st xid =
     (let pageno = TransactionIdToPage_subtrans xid;
          entryno = TransactionIdToEntry xid in
      if \<not> TransactionIdIsNormal xid then InvalidTransactionId
      else sub_page st pageno entryno)"

definition ZeroSUBTRANSPage :: "nat \<Rightarrow> subtrans_state \<Rightarrow> subtrans_state" where
  "ZeroSUBTRANSPage pageno st =
     st\<lparr> sub_page := (sub_page st)(pageno := (\<lambda>_. 0)),
         sub_dirty := (sub_dirty st)(pageno := True) \<rparr>"

definition ExtendSUBTRANS :: "TransactionId \<Rightarrow> subtrans_state \<Rightarrow> subtrans_state" where
  "ExtendSUBTRANS newestXact st =
     (if TransactionIdToEntry newestXact \<noteq> 0 \<and> newestXact \<noteq> FirstNormalTransactionId then st
      else ZeroSUBTRANSPage (TransactionIdToPage_subtrans newestXact) st)"

text \<open>The number of the last page, that of \<open>MaxTransactionId\<close>.\<close>

definition last_subtrans_page :: nat where
  "last_subtrans_page = TransactionIdToPage_subtrans 0xFFFFFFFF"

text \<open>
  The loop zeroes pages up to the page of \<open>nextXid\<close>, wrapping around at the last page. It
  takes at most one turn; \<open>startup_distance\<close> is the number of pages left to zero.
\<close>

definition startup_distance :: "nat \<Rightarrow> nat \<Rightarrow> nat" where
  "startup_distance startPage endPage =
     (if startPage \<le> endPage then endPage - startPage
      else endPage + (last_subtrans_page + 1) - startPage)"

function startup_loop :: "nat \<Rightarrow> nat \<Rightarrow> subtrans_state \<Rightarrow> subtrans_state" where
  "startup_loop startPage endPage st =
     (if startPage \<noteq> endPage \<and> startPage \<le> last_subtrans_page \<and> endPage \<le> last_subtrans_page
      then let st = ZeroSUBTRANSPage startPage st;
               startPage = startPage + 1;
               startPage = (if startPage > last_subtrans_page then 0 else startPage)
           in startup_loop startPage endPage st
      else ZeroSUBTRANSPage startPage st)"
  by pat_completeness auto
termination
  by (relation "measure (\<lambda>(s, e, st). startup_distance s e)") (auto simp: startup_distance_def)

declare startup_loop.simps [simp del]

definition StartupSUBTRANS ::
  "TransactionId \<Rightarrow> FullTransactionId \<Rightarrow> subtrans_state \<Rightarrow> subtrans_state" where
  "StartupSUBTRANS oldestActiveXID nextXid st =
     startup_loop (TransactionIdToPage_subtrans oldestActiveXID)
       (TransactionIdToPage_subtrans (XidFromFullTransactionId nextXid)) st"

definition SubTransPagePrecedes :: "uint32 \<Rightarrow> uint32 \<Rightarrow> bool" where
  "SubTransPagePrecedes page1 page2 =
     (let xid1 = page1 * of_nat SUBTRANS_XACTS_PER_PAGE;
          xid1 = xid1 + (FirstNormalTransactionId + 1);
          xid2 = page2 * of_nat SUBTRANS_XACTS_PER_PAGE;
          xid2 = xid2 + (FirstNormalTransactionId + 1)
      in TransactionIdPrecedes xid1 xid2 \<and>
         TransactionIdPrecedes xid1 (xid2 + of_nat SUBTRANS_XACTS_PER_PAGE - 1))"

section \<open>Topmost parents\<close>

datatype xact_error = SubtransCorrupted TransactionId TransactionId

text \<open>
  The loop of \<open>SubTransGetTopmostTransaction\<close>. \<open>None\<close> would be a loop that does not end,
  \<open>Inl\<close> is the ERROR raised at an entry that does not point backwards.
\<close>

partial_function (option) topmost_loop ::
  "TransactionId \<Rightarrow> subtrans_state \<Rightarrow> TransactionId \<Rightarrow> TransactionId \<Rightarrow>
   (xact_error + TransactionId) option" where
  "topmost_loop TransactionXmin st parentXid previousXid =
     (if TransactionIdIsValid parentXid
      then let previousXid = parentXid in
           if TransactionIdPrecedes parentXid TransactionXmin then Some (Inr previousXid)
           else let parentXid = SubTransGetParent st parentXid in
                if \<not> TransactionIdPrecedes parentXid previousXid
                then Some (Inl (SubtransCorrupted previousXid parentXid))
                else topmost_loop TransactionXmin st parentXid previousXid
      else Some (Inr previousXid))"

definition SubTransGetTopmostTransaction ::
  "TransactionId \<Rightarrow> subtrans_state \<Rightarrow> TransactionId \<Rightarrow> (xact_error + TransactionId) option" where
  "SubTransGetTopmostTransaction TransactionXmin st xid = topmost_loop TransactionXmin st xid xid"

section \<open>Transaction status\<close>

text \<open>The single-item cache of \<^verbatim>\<open>transam.c\<close>.\<close>

record fetch_cache =
  cachedFetchXid :: TransactionId
  cachedFetchXidStatus :: XidStatus
  cachedCommitLSN :: XLogRecPtr

record xact_logs =
  clog :: clog_state
  subtrans :: subtrans_state
  TransactionXmin :: TransactionId

definition TransactionLogFetch ::
  "xact_logs \<Rightarrow> TransactionId \<Rightarrow> fetch_cache \<Rightarrow> XidStatus \<times> fetch_cache" where
  "TransactionLogFetch logs transactionId cache =
     (if transactionId = cachedFetchXid cache then (cachedFetchXidStatus cache, cache)
      else if \<not> TransactionIdIsNormal transactionId
      then (if transactionId = BootstrapTransactionId then TRANSACTION_STATUS_COMMITTED
            else if transactionId = FrozenTransactionId then TRANSACTION_STATUS_COMMITTED
            else TRANSACTION_STATUS_ABORTED, cache)
      else let (xidstatus, xidlsn) = TransactionIdGetStatus (clog logs) transactionId in
           (xidstatus,
            if xidstatus \<noteq> TRANSACTION_STATUS_IN_PROGRESS \<and>
               xidstatus \<noteq> TRANSACTION_STATUS_SUB_COMMITTED
            then \<lparr> cachedFetchXid = transactionId, cachedFetchXidStatus = xidstatus,
                   cachedCommitLSN = xidlsn \<rparr>
            else cache))"

text \<open>The recursions over the parents; \<open>None\<close> would be a recursion that does not end.\<close>

partial_function (option) TransactionIdDidCommit ::
  "xact_logs \<Rightarrow> TransactionId \<Rightarrow> fetch_cache \<Rightarrow> (bool \<times> fetch_cache) option" where
  "TransactionIdDidCommit logs transactionId cache =
     (case TransactionLogFetch logs transactionId cache of
        (xidstatus, cache) \<Rightarrow>
          if xidstatus = TRANSACTION_STATUS_COMMITTED then Some (True, cache)
          else if xidstatus = TRANSACTION_STATUS_SUB_COMMITTED
          then if TransactionIdPrecedes transactionId (TransactionXmin logs) then Some (False, cache)
               else let parentXid = SubTransGetParent (subtrans logs) transactionId in
                    if \<not> TransactionIdIsValid parentXid then Some (False, cache)
                    else TransactionIdDidCommit logs parentXid cache
          else Some (False, cache))"

partial_function (option) TransactionIdDidAbort ::
  "xact_logs \<Rightarrow> TransactionId \<Rightarrow> fetch_cache \<Rightarrow> (bool \<times> fetch_cache) option" where
  "TransactionIdDidAbort logs transactionId cache =
     (case TransactionLogFetch logs transactionId cache of
        (xidstatus, cache) \<Rightarrow>
          if xidstatus = TRANSACTION_STATUS_ABORTED then Some (True, cache)
          else if xidstatus = TRANSACTION_STATUS_SUB_COMMITTED
          then if TransactionIdPrecedes transactionId (TransactionXmin logs) then Some (True, cache)
               else let parentXid = SubTransGetParent (subtrans logs) transactionId in
                    if \<not> TransactionIdIsValid parentXid then Some (True, cache)
                    else TransactionIdDidAbort logs parentXid cache
          else Some (False, cache))"

definition TransactionIdCommitTree ::
  "bool \<Rightarrow> TransactionId \<Rightarrow> TransactionId list \<Rightarrow> clog_state \<Rightarrow> clog_state" where
  "TransactionIdCommitTree InRecovery xid xids st =
     TransactionIdSetTreeStatus InRecovery xid xids TRANSACTION_STATUS_COMMITTED InvalidXLogRecPtr st"

definition TransactionIdAsyncCommitTree ::
  "bool \<Rightarrow> TransactionId \<Rightarrow> TransactionId list \<Rightarrow> XLogRecPtr \<Rightarrow> clog_state \<Rightarrow> clog_state" where
  "TransactionIdAsyncCommitTree InRecovery xid xids lsn st =
     TransactionIdSetTreeStatus InRecovery xid xids TRANSACTION_STATUS_COMMITTED lsn st"

definition TransactionIdAbortTree ::
  "bool \<Rightarrow> TransactionId \<Rightarrow> TransactionId list \<Rightarrow> clog_state \<Rightarrow> clog_state" where
  "TransactionIdAbortTree InRecovery xid xids st =
     TransactionIdSetTreeStatus InRecovery xid xids TRANSACTION_STATUS_ABORTED InvalidXLogRecPtr st"

definition TransactionIdGetCommitLSN :: "xact_logs \<Rightarrow> fetch_cache \<Rightarrow> TransactionId \<Rightarrow> XLogRecPtr" where
  "TransactionIdGetCommitLSN logs cache xid =
     (if xid = cachedFetchXid cache then cachedCommitLSN cache
      else if \<not> TransactionIdIsNormal xid then InvalidXLogRecPtr
      else let (status, result) = TransactionIdGetStatus (clog logs) xid in result)"

end
