(* ===== verification/Sub_Trans_Props.thy ===== *)
theory Sub_Trans_Props
  imports Sub_Trans Commit_Log_Props
begin

text \<open>
  Parents and statuses together: the subtransaction log interprets \<open>xid_store\<close> too, the
  searches up the tree end, the status cache is transparent, and a commit is atomic for every
  reader although it may take several page updates.
\<close>

section \<open>The subtransaction log as a store\<close>

lemma subtrans_position_inject:
  assumes "TransactionIdToPage_subtrans x = TransactionIdToPage_subtrans y"
    "TransactionIdToEntry x = TransactionIdToEntry y"
  shows "x = y"
proof -
  have "unat z = TransactionIdToPage_subtrans z * SUBTRANS_XACTS_PER_PAGE + TransactionIdToEntry z" for z
    unfolding TransactionIdToPage_subtrans_def TransactionIdToEntry_def
    by (rule div_mult_mod_eq [symmetric])
  then show ?thesis using assms by (simp add: word_unat_eq_iff)
qed

definition raw_parent :: "subtrans_state \<Rightarrow> TransactionId \<Rightarrow> TransactionId" where
  "raw_parent st x = sub_page st (TransactionIdToPage_subtrans x) (TransactionIdToEntry x)"

interpretation parents: xid_store raw_parent SubTransSetParent "\<lambda>_. True"
  using subtrans_position_inject
  by unfold_locales (auto simp: raw_parent_def SubTransSetParent_def Let_def)

lemma SubTransGetParent_eq:
  "SubTransGetParent st x = (if TransactionIdIsNormal x then raw_parent st x else 0)"
  by (simp add: SubTransGetParent_def raw_parent_def InvalidTransactionId_def)

section \<open>A measure on the way up\<close>

text \<open>Every entry the backend may look at points to an older transaction, or to none.\<close>

definition subtrans_wf :: "TransactionId \<Rightarrow> subtrans_state \<Rightarrow> bool" where
  "subtrans_wf Xmin st \<longleftrightarrow>
     (\<forall>x. TransactionIdIsNormal x \<and> \<not> TransactionIdPrecedes x Xmin \<longrightarrow>
          TransactionIdPrecedes (SubTransGetParent st x) x)"

definition age :: "TransactionId \<Rightarrow> TransactionId \<Rightarrow> nat" where
  "age Xmin x =
     (if TransactionIdIsNormal x \<and> \<not> TransactionIdPrecedes x Xmin then Suc (xid_dist Xmin x) else 0)"

lemma age_parent:
  assumes "TransactionIdIsNormal Xmin" "TransactionIdIsNormal x" "\<not> TransactionIdPrecedes x Xmin"
    "TransactionIdPrecedes p x"
  shows "age Xmin p < age Xmin x"
proof -
  have x: "xid_window Xmin x" using xid_window_iff assms by blast
  show ?thesis
  proof (cases "TransactionIdIsNormal p \<and> \<not> TransactionIdPrecedes p Xmin")
    case True
    then have "xid_window Xmin p" using xid_window_iff assms(1) by blast
    then show ?thesis using x assms True by (simp add: age_def)
  qed (use assms in \<open>auto simp: age_def\<close>)
qed

lemma special_precedes:
  assumes "TransactionIdIsNormal Xmin" "\<not> TransactionIdIsNormal x"
  shows "TransactionIdPrecedes x Xmin"
  using assms by (auto simp: TransactionIdPrecedes_def TransactionIdIsNormal_def not_le)

section \<open>Topmost parents\<close>

text \<open>\<open>t\<close> is reached from \<open>x\<close> by following parents that the backend may look up.\<close>

inductive ancestor :: "TransactionId \<Rightarrow> subtrans_state \<Rightarrow> TransactionId \<Rightarrow> TransactionId \<Rightarrow> bool"
  for Xmin st where
  ancestor_refl: "ancestor Xmin st x x"
| ancestor_parent: "\<not> TransactionIdPrecedes x Xmin \<Longrightarrow> SubTransGetParent st x = p \<Longrightarrow>
    TransactionIdIsValid p \<Longrightarrow> ancestor Xmin st p t \<Longrightarrow> ancestor Xmin st x t"

inductive_cases ancestor_cases: "ancestor Xmin st x t"

text \<open>The search stops at a transaction without parent, or before \<open>TransactionXmin\<close>.\<close>

definition topmost :: "TransactionId \<Rightarrow> subtrans_state \<Rightarrow> TransactionId \<Rightarrow> bool" where
  "topmost Xmin st x \<longleftrightarrow>
     TransactionIdPrecedes x Xmin \<or> \<not> TransactionIdIsValid (SubTransGetParent st x)"

lemma topmost_loop_result:
  assumes "TransactionIdIsNormal Xmin" "TransactionIdIsValid x"
  shows "\<exists>r. topmost_loop Xmin st x q = Some r \<and>
           (case r of
              Inl e \<Rightarrow> \<not> subtrans_wf Xmin st
            | Inr t \<Rightarrow> ancestor Xmin st x t \<and> topmost Xmin st t)"
  using assms(2)
proof (induction "age Xmin x" arbitrary: x q rule: less_induct)
  case less
  let ?p = "SubTransGetParent st x"
  show ?case
  proof (cases "TransactionIdPrecedes x Xmin")
    case True
    then show ?thesis using less.prems
      by (subst topmost_loop.simps) (simp add: Let_def topmost_def ancestor_refl)
  next
    case before: False
    then have normal: "TransactionIdIsNormal x" using special_precedes [OF assms(1)] by blast
    show ?thesis
    proof (cases "TransactionIdPrecedes ?p x")
      case False
      then have "\<not> subtrans_wf Xmin st" using before normal by (auto simp: subtrans_wf_def)
      then show ?thesis using less.prems before False
        by (subst topmost_loop.simps) (simp add: Let_def)
    next
      case True
      have step: "topmost_loop Xmin st x q = topmost_loop Xmin st ?p x"
        using less.prems before True by (subst topmost_loop.simps) (simp add: Let_def)
      show ?thesis
      proof (cases "TransactionIdIsValid ?p")
        case False
        then have "topmost_loop Xmin st ?p x = Some (Inr x)"
          by (subst topmost_loop.simps) simp
        then show ?thesis using step False by (simp add: topmost_def ancestor_refl)
      next
        case valid: True
        obtain r where r: "topmost_loop Xmin st ?p x = Some r"
          "case r of Inl e \<Rightarrow> \<not> subtrans_wf Xmin st
           | Inr t \<Rightarrow> ancestor Xmin st ?p t \<and> topmost Xmin st t"
          using less.hyps [OF age_parent [OF assms(1) normal before True] valid, of x] by blast
        then show ?thesis using step ancestor_parent [OF before refl valid]
          by (auto split: sum.splits)
      qed
    qed
  qed
qed

text \<open>
  C32: \<open>SubTransGetTopmostTransaction\<close> always returns or raises its error, whatever the
  contents of the subtransaction log, cyclic ones included. When it returns, the result is
  reached by following parents, and is a transaction without a parent or one that is older than
  \<open>TransactionXmin\<close>; it raises the error only if some entry does not point backwards.
\<close>

theorem SubTransGetTopmostTransaction_terminates:
  assumes "TransactionIdIsNormal Xmin" "TransactionIdIsValid x"
  shows "\<exists>r. SubTransGetTopmostTransaction Xmin st x = Some r \<and>
           (case r of
              Inl e \<Rightarrow> \<not> subtrans_wf Xmin st
            | Inr t \<Rightarrow> ancestor Xmin st x t \<and> topmost Xmin st t)"
  unfolding SubTransGetTopmostTransaction_def by (rule topmost_loop_result [OF assms])

text \<open>Two entries that point at each other: the search raises its error.\<close>

theorem SubTransGetTopmostTransaction_terminates_witness:
  "\<exists>r. SubTransGetTopmostTransaction 10
         (SubTransSetParent 20 30 (SubTransSetParent 30 20
           \<lparr> sub_page = (\<lambda>p e. 0), sub_dirty = (\<lambda>p. False) \<rparr>)) 30 = Some r"
  using SubTransGetTopmostTransaction_terminates [of 10 30]
  by (auto simp: TransactionIdIsNormal_def TransactionIdIsValid_def xid_consts)

section \<open>The status of a transaction\<close>

text \<open>What the logs say, without the cache.\<close>

definition log_status :: "xact_logs \<Rightarrow> TransactionId \<Rightarrow> XidStatus" where
  "log_status logs x =
     (if TransactionIdIsNormal x then status_of (clog logs) x
      else if x = BootstrapTransactionId \<or> x = FrozenTransactionId then TRANSACTION_STATUS_COMMITTED
      else TRANSACTION_STATUS_ABORTED)"

text \<open>The cache is as it was at startup, or holds the final status of a normal transaction.\<close>

definition cache_ok :: "xact_logs \<Rightarrow> fetch_cache \<Rightarrow> bool" where
  "cache_ok logs c \<longleftrightarrow>
     (cachedFetchXid c = InvalidTransactionId \<and> cachedFetchXidStatus c = TRANSACTION_STATUS_IN_PROGRESS) \<or>
     (TransactionIdIsNormal (cachedFetchXid c) \<and>
      cachedFetchXidStatus c = status_of (clog logs) (cachedFetchXid c) \<and>
      cachedFetchXidStatus c \<notin> {TRANSACTION_STATUS_IN_PROGRESS, TRANSACTION_STATUS_SUB_COMMITTED})"

lemma TransactionLogFetch_ok:
  assumes "cache_ok logs c"
  obtains s c' where "TransactionLogFetch logs x c = (s, c')" "cache_ok logs c'"
    "TransactionIdIsValid x \<Longrightarrow> s = log_status logs x"
    "\<not> TransactionIdIsValid x \<Longrightarrow> s \<in> {TRANSACTION_STATUS_IN_PROGRESS, TRANSACTION_STATUS_ABORTED}"
proof (cases "x = cachedFetchXid c")
  case True
  then show thesis
    using assms by (intro that [of "cachedFetchXidStatus c" c])
      (auto simp: TransactionLogFetch_def cache_ok_def log_status_def TransactionIdIsValid_def
        TransactionIdIsNormal_def xid_consts)
next
  case False
  show thesis
  proof (cases "TransactionIdIsNormal x")
    case True
    then show thesis using False assms
      by (cases "TransactionIdGetStatus (clog logs) x")
        (auto intro!: that simp: TransactionLogFetch_def cache_ok_def log_status_def
          TransactionIdIsValid_def TransactionIdIsNormal_def xid_consts)
  next
    case special: False
    then show thesis using False assms
      by (intro that [of "log_status logs x" c])
        (auto simp: TransactionLogFetch_def log_status_def TransactionIdIsValid_def xid_consts)
  qed
qed

text \<open>A transaction is committed if its own entry says so or a parent's entry does.\<close>

inductive tree_committed :: "xact_logs \<Rightarrow> TransactionId \<Rightarrow> bool" for logs where
  committed_self: "log_status logs x = TRANSACTION_STATUS_COMMITTED \<Longrightarrow> tree_committed logs x"
| committed_parent: "log_status logs x = TRANSACTION_STATUS_SUB_COMMITTED \<Longrightarrow>
    \<not> TransactionIdPrecedes x (TransactionXmin logs) \<Longrightarrow>
    SubTransGetParent (subtrans logs) x = p \<Longrightarrow> TransactionIdIsValid p \<Longrightarrow>
    tree_committed logs p \<Longrightarrow> tree_committed logs x"

inductive tree_aborted :: "xact_logs \<Rightarrow> TransactionId \<Rightarrow> bool" for logs where
  aborted_self: "log_status logs x = TRANSACTION_STATUS_ABORTED \<Longrightarrow> tree_aborted logs x"
| aborted_orphan: "log_status logs x = TRANSACTION_STATUS_SUB_COMMITTED \<Longrightarrow>
    TransactionIdPrecedes x (TransactionXmin logs) \<or>
    \<not> TransactionIdIsValid (SubTransGetParent (subtrans logs) x) \<Longrightarrow> tree_aborted logs x"
| aborted_parent: "log_status logs x = TRANSACTION_STATUS_SUB_COMMITTED \<Longrightarrow>
    \<not> TransactionIdPrecedes x (TransactionXmin logs) \<Longrightarrow>
    SubTransGetParent (subtrans logs) x = p \<Longrightarrow> TransactionIdIsValid p \<Longrightarrow>
    tree_aborted logs p \<Longrightarrow> tree_aborted logs x"

lemma tree_committed_iff:
  "tree_committed logs x \<longleftrightarrow>
     log_status logs x = TRANSACTION_STATUS_COMMITTED \<or>
     log_status logs x = TRANSACTION_STATUS_SUB_COMMITTED \<and>
     \<not> TransactionIdPrecedes x (TransactionXmin logs) \<and>
     TransactionIdIsValid (SubTransGetParent (subtrans logs) x) \<and>
     tree_committed logs (SubTransGetParent (subtrans logs) x)"
  by (subst tree_committed.simps) auto

lemma tree_aborted_iff:
  "tree_aborted logs x \<longleftrightarrow>
     log_status logs x = TRANSACTION_STATUS_ABORTED \<or>
     log_status logs x = TRANSACTION_STATUS_SUB_COMMITTED \<and>
     (TransactionIdPrecedes x (TransactionXmin logs) \<or>
      \<not> TransactionIdIsValid (SubTransGetParent (subtrans logs) x) \<or>
      tree_aborted logs (SubTransGetParent (subtrans logs) x))"
  by (subst tree_aborted.simps) auto

definition logs_ok :: "xact_logs \<Rightarrow> bool" where
  "logs_ok logs \<longleftrightarrow>
     TransactionIdIsNormal (TransactionXmin logs) \<and> subtrans_wf (TransactionXmin logs) (subtrans logs)"

lemma status_not_equal [simp]:
  "TRANSACTION_STATUS_COMMITTED \<noteq> TRANSACTION_STATUS_SUB_COMMITTED"
  "TRANSACTION_STATUS_ABORTED \<noteq> TRANSACTION_STATUS_SUB_COMMITTED"
  "TRANSACTION_STATUS_IN_PROGRESS \<noteq> TRANSACTION_STATUS_SUB_COMMITTED"
  "TRANSACTION_STATUS_IN_PROGRESS \<noteq> TRANSACTION_STATUS_COMMITTED"
  "TRANSACTION_STATUS_IN_PROGRESS \<noteq> TRANSACTION_STATUS_ABORTED"
  "TRANSACTION_STATUS_ABORTED \<noteq> TRANSACTION_STATUS_COMMITTED"
  by (simp_all add: status_consts)

lemma age_logs_parent:
  assumes "logs_ok logs" "\<not> TransactionIdPrecedes x (TransactionXmin logs)"
  shows "age (TransactionXmin logs) (SubTransGetParent (subtrans logs) x) < age (TransactionXmin logs) x"
proof -
  have n: "TransactionIdIsNormal (TransactionXmin logs)" using assms by (simp add: logs_ok_def)
  have x: "TransactionIdIsNormal x" using special_precedes [OF n] assms(2) by blast
  have "TransactionIdPrecedes (SubTransGetParent (subtrans logs) x) x"
    using assms x by (simp add: logs_ok_def subtrans_wf_def)
  then show ?thesis using age_parent [OF n x assms(2)] by blast
qed

lemma TransactionIdDidCommit_result:
  assumes "logs_ok logs" "TransactionIdIsValid x" "cache_ok logs c"
  shows "\<exists>c'. TransactionIdDidCommit logs x c = Some (tree_committed logs x, c') \<and> cache_ok logs c'"
  using assms(2,3)
proof (induction "age (TransactionXmin logs) x" arbitrary: x c rule: less_induct)
  case less
  obtain s c' where f: "TransactionLogFetch logs x c = (s, c')" "cache_ok logs c'" "s = log_status logs x"
    using TransactionLogFetch_ok [OF less.prems(2)] less.prems(1) by metis
  consider "s \<noteq> TRANSACTION_STATUS_SUB_COMMITTED"
    | "s = TRANSACTION_STATUS_SUB_COMMITTED" "TransactionIdPrecedes x (TransactionXmin logs)"
    | "s = TRANSACTION_STATUS_SUB_COMMITTED" "\<not> TransactionIdPrecedes x (TransactionXmin logs)"
    by blast
  then show ?case
  proof cases
    case 3
    show ?thesis
    proof (cases "TransactionIdIsValid (SubTransGetParent (subtrans logs) x)")
      case True
      then show ?thesis
        using less.hyps [OF age_logs_parent [OF assms(1) 3(2)] True f(2)] f 3
        by (subst TransactionIdDidCommit.simps, subst tree_committed_iff) (auto simp: Let_def)
    qed (use f 3 in \<open>subst TransactionIdDidCommit.simps, subst tree_committed_iff, simp\<close>)
  qed (use f in \<open>subst TransactionIdDidCommit.simps, subst tree_committed_iff, simp\<close>)+
qed

lemma TransactionIdDidAbort_result:
  assumes "logs_ok logs" "TransactionIdIsValid x" "cache_ok logs c"
  shows "\<exists>c'. TransactionIdDidAbort logs x c = Some (tree_aborted logs x, c') \<and> cache_ok logs c'"
  using assms(2,3)
proof (induction "age (TransactionXmin logs) x" arbitrary: x c rule: less_induct)
  case less
  obtain s c' where f: "TransactionLogFetch logs x c = (s, c')" "cache_ok logs c'" "s = log_status logs x"
    using TransactionLogFetch_ok [OF less.prems(2)] less.prems(1) by metis
  consider "s \<noteq> TRANSACTION_STATUS_SUB_COMMITTED"
    | "s = TRANSACTION_STATUS_SUB_COMMITTED" "TransactionIdPrecedes x (TransactionXmin logs)"
    | "s = TRANSACTION_STATUS_SUB_COMMITTED" "\<not> TransactionIdPrecedes x (TransactionXmin logs)"
    by blast
  then show ?case
  proof cases
    case 3
    show ?thesis
    proof (cases "TransactionIdIsValid (SubTransGetParent (subtrans logs) x)")
      case True
      then show ?thesis
        using less.hyps [OF age_logs_parent [OF assms(1) 3(2)] True f(2)] f 3
        by (subst TransactionIdDidAbort.simps, subst tree_aborted_iff) (auto simp: Let_def)
    qed (use f 3 in \<open>subst TransactionIdDidAbort.simps, subst tree_aborted_iff, simp\<close>)
  qed (use f in \<open>subst TransactionIdDidAbort.simps, subst tree_aborted_iff, simp\<close>)+
qed

lemma not_committed_and_aborted:
  assumes "logs_ok logs"
  shows "\<not> (tree_committed logs x \<and> tree_aborted logs x)"
proof (induction "age (TransactionXmin logs) x" arbitrary: x rule: less_induct)
  case less
  show ?case
  proof
    assume both: "tree_committed logs x \<and> tree_aborted logs x"
    then have c: "log_status logs x = TRANSACTION_STATUS_COMMITTED \<or>
        log_status logs x = TRANSACTION_STATUS_SUB_COMMITTED \<and>
        \<not> TransactionIdPrecedes x (TransactionXmin logs) \<and>
        TransactionIdIsValid (SubTransGetParent (subtrans logs) x) \<and>
        tree_committed logs (SubTransGetParent (subtrans logs) x)"
      and a: "log_status logs x = TRANSACTION_STATUS_ABORTED \<or>
        log_status logs x = TRANSACTION_STATUS_SUB_COMMITTED \<and>
        (TransactionIdPrecedes x (TransactionXmin logs) \<or>
         \<not> TransactionIdIsValid (SubTransGetParent (subtrans logs) x) \<or>
         tree_aborted logs (SubTransGetParent (subtrans logs) x))"
      using tree_committed_iff tree_aborted_iff by blast+
    then have "log_status logs x = TRANSACTION_STATUS_SUB_COMMITTED" by auto
    then show False
      using c a less [OF age_logs_parent [OF assms]] by (auto simp: status_consts)
  qed
qed


section \<open>Commit is atomic\<close>

text \<open>The logs after the first \<open>k\<close> page updates of a commit.\<close>

definition logs_during_commit ::
  "xact_logs \<Rightarrow> TransactionId \<Rightarrow> TransactionId list \<Rightarrow> XLogRecPtr \<Rightarrow> nat \<Rightarrow> xact_logs" where
  "logs_during_commit logs xid subxids lsn k =
     logs\<lparr> clog := fold (TransactionIdSetPageStatus False)
             (take k (tree_status_calls xid subxids TRANSACTION_STATUS_COMMITTED lsn)) (clog logs) \<rparr>"

text \<open>A running tree, as the backend that commits it has recorded it.\<close>

definition running_tree :: "xact_logs \<Rightarrow> TransactionId \<Rightarrow> TransactionId list \<Rightarrow> bool" where
  "running_tree logs xid subxids \<longleftrightarrow>
     xid \<notin> set subxids \<and>
     (\<forall>x \<in> insert xid (set subxids).
        TransactionIdIsNormal x \<and> \<not> TransactionIdPrecedes x (TransactionXmin logs) \<and>
        status_of (clog logs) x = TRANSACTION_STATUS_IN_PROGRESS) \<and>
     (\<forall>x \<in> set subxids. SubTransGetParent (subtrans logs) x \<in> insert xid (set subxids))"

text \<open>How many page updates come before the one that decides.\<close>

definition updates_before_parent :: "TransactionId \<Rightarrow> TransactionId list \<Rightarrow> XLogRecPtr \<Rightarrow> nat" where
  "updates_before_parent xid subxids lsn =
     length (calls_before xid subxids TRANSACTION_STATUS_COMMITTED lsn)"

lemma during_commit_simps [simp]:
  "subtrans (logs_during_commit logs xid subxids lsn k) = subtrans logs"
  "TransactionXmin (logs_during_commit logs xid subxids lsn k) = TransactionXmin logs"
  "logs_ok (logs_during_commit logs xid subxids lsn k) = logs_ok logs"
  by (simp_all add: logs_during_commit_def logs_ok_def)

lemma statuses_before_parent:
  assumes "running_tree logs xid subxids" "k \<le> updates_before_parent xid subxids lsn"
    "x \<in> insert xid (set subxids)"
  shows "status_of (clog (logs_during_commit logs xid subxids lsn k)) x \<in>
           {TRANSACTION_STATUS_IN_PROGRESS, TRANSACTION_STATUS_SUB_COMMITTED}"
    and "x = xid \<Longrightarrow> status_of (clog (logs_during_commit logs xid subxids lsn k)) x =
           TRANSACTION_STATUS_IN_PROGRESS"
proof -
  let ?B = "calls_before xid subxids TRANSACTION_STATUS_COMMITTED lsn"
  have take: "take k (tree_status_calls xid subxids TRANSACTION_STATUS_COMMITTED lsn) = take k ?B"
    using assms(2) by (simp add: tree_status_calls_eq updates_before_parent_def)
  have ok: "\<forall>c \<in> set (take k ?B). call_ok c \<and> pc_status c = TRANSACTION_STATUS_SUB_COMMITTED"
    using calls_before_ok [of xid subxids TRANSACTION_STATUS_COMMITTED lsn]
    by (meson in_set_takeD)
  have old: "status_of (clog logs) x = TRANSACTION_STATUS_IN_PROGRESS"
    using assms(1,3) by (auto simp: running_tree_def)
  show "status_of (clog (logs_during_commit logs xid subxids lsn k)) x \<in>
           {TRANSACTION_STATUS_IN_PROGRESS, TRANSACTION_STATUS_SUB_COMMITTED}"
    using status_of_calls [OF ok, of "clog logs" x] old
    by (auto simp: logs_during_commit_def take)
  assume "x = xid"
  then have "\<forall>c \<in> set (take k ?B). call_ok c \<and> x \<notin> xids_of_call c"
    using ok assms(1) calls_before_ok [of xid subxids TRANSACTION_STATUS_COMMITTED lsn]
    unfolding running_tree_def by (meson UN_I in_mono in_set_takeD)
  then show "status_of (clog (logs_during_commit logs xid subxids lsn k)) x =
           TRANSACTION_STATUS_IN_PROGRESS"
    using status_of_calls_unchanged old by (simp add: logs_during_commit_def take)
qed

lemma statuses_after_parent:
  assumes "running_tree logs xid subxids" "k > updates_before_parent xid subxids lsn"
    "x \<in> insert xid (set subxids)"
  shows "status_of (clog (logs_during_commit logs xid subxids lsn k)) x \<in>
           {TRANSACTION_STATUS_COMMITTED, TRANSACTION_STATUS_SUB_COMMITTED}"
    and "x = xid \<Longrightarrow> status_of (clog (logs_during_commit logs xid subxids lsn k)) x =
           TRANSACTION_STATUS_COMMITTED"
proof -
  let ?C = TRANSACTION_STATUS_COMMITTED and ?S = TRANSACTION_STATUS_SUB_COMMITTED
  let ?P = "\<lambda>y. TransactionIdToPage y = TransactionIdToPage xid"
  let ?B = "calls_before xid subxids ?C lsn" and ?p = "parent_call xid subxids ?C lsn"
  define A where "A = take (k - Suc (length ?B)) (calls_after xid subxids ?C lsn)"
  let ?b = "fold (TransactionIdSetPageStatus False) ?B (clog logs)"
  have take: "take k (tree_status_calls xid subxids ?C lsn) = ?B @ ?p # A"
    using assms(2) by (simp add: tree_status_calls_eq updates_before_parent_def A_def take_Cons'
        Suc_diff_le)
  have valid: "TransactionIdIsValid xid"
    using assms(1) by (auto simp: running_tree_def TransactionIdIsNormal_def TransactionIdIsValid_def xid_consts)
  have C4: "?C < 4" by (simp add: status_consts)
  have ok: "\<forall>c \<in> set (?p # A). call_ok c \<and> pc_status c = ?C"
    using parent_call_ok [OF C4] calls_after_ok [OF C4, of xid subxids lsn]
    by (auto simp: A_def parent_call_def dest: in_set_takeD)
  have eq: "status_of (clog (logs_during_commit logs xid subxids lsn k)) x =
      (if \<exists>c \<in> set (?p # A). x \<in> xids_of_call c then ?C else status_of ?b x)"
    using status_of_calls [OF ok, of ?b x] by (simp add: logs_during_commit_def take)
  have p: "xids_of_call ?p = insert xid (set (takeWhile ?P subxids))"
    using valid by (simp add: xids_of_call_def parent_call_def)
  show "status_of (clog (logs_during_commit logs xid subxids lsn k)) x \<in> {?C, ?S}"
  proof (cases "x \<in> xids_of_call ?p")
    case False
    then have x: "x \<in> set (dropWhile ?P subxids)"
      using assms(3) p by (metis Un_iff insertE insert_iff set_append takeWhile_dropWhile_id)
    have S4: "?S < 4" by (simp add: status_consts)
    have "dropWhile ?P subxids \<noteq> []"
      using x by (metis (no_types, lifting) empty_iff list.set(1))
    then have "?B = set_status_by_pages (dropWhile ?P subxids) ?S lsn"
      by (simp only: calls_before_def Let_def simp_thms if_False)
    then have "\<exists>c \<in> set ?B. x \<in> xids_of_call c"
      using set_status_by_pages_calls [OF S4, of "dropWhile ?P subxids" lsn] x by auto
    moreover have "\<forall>c \<in> set ?B. call_ok c \<and> pc_status c = ?S"
      using calls_before_ok by blast
    ultimately have "status_of ?b x = ?S"
      using status_of_calls by metis
    then show ?thesis using eq by auto
  qed (use eq in auto)
  assume "x = xid"
  then show "status_of (clog (logs_during_commit logs xid subxids lsn k)) x = ?C"
    using eq p by auto
qed

lemma uncommitted_before_parent:
  assumes "logs_ok logs" "running_tree logs xid subxids" "k \<le> updates_before_parent xid subxids lsn"
    "x \<in> insert xid (set subxids)"
  shows "\<not> tree_committed (logs_during_commit logs xid subxids lsn k) x"
  using assms(4)
proof (induction "age (TransactionXmin logs) x" arbitrary: x rule: less_induct)
  case less
  let ?l = "logs_during_commit logs xid subxids lsn k"
  have normal: "TransactionIdIsNormal x" "\<not> TransactionIdPrecedes x (TransactionXmin logs)"
    using assms(2) less.prems by (auto simp: running_tree_def)
  note st = statuses_before_parent [OF assms(2,3) less.prems]
  show ?case
  proof (cases "x = xid")
    case True
    then show ?thesis using st(2) normal
      by (subst tree_committed_iff) (simp add: log_status_def)
  next
    case False
    then have "SubTransGetParent (subtrans logs) x \<in> insert xid (set subxids)"
      using assms(2) less.prems by (auto simp: running_tree_def)
    then have "\<not> tree_committed ?l (SubTransGetParent (subtrans logs) x)"
      using less.hyps age_logs_parent [OF assms(1) normal(2)] by blast
    then show ?thesis using st(1) normal
      by (subst tree_committed_iff) (auto simp: log_status_def status_consts)
  qed
qed

lemma committed_after_parent:
  assumes "logs_ok logs" "running_tree logs xid subxids" "k > updates_before_parent xid subxids lsn"
    "x \<in> insert xid (set subxids)"
  shows "tree_committed (logs_during_commit logs xid subxids lsn k) x"
  using assms(4)
proof (induction "age (TransactionXmin logs) x" arbitrary: x rule: less_induct)
  case less
  let ?l = "logs_during_commit logs xid subxids lsn k"
  have normal: "TransactionIdIsNormal x" "\<not> TransactionIdPrecedes x (TransactionXmin logs)"
    using assms(2) less.prems by (auto simp: running_tree_def)
  note st = statuses_after_parent [OF assms(2,3) less.prems]
  show ?case
  proof (cases "x = xid")
    case True
    then show ?thesis using st(2) normal
      by (intro committed_self) (simp add: log_status_def)
  next
    case False
    let ?p = "SubTransGetParent (subtrans logs) x"
    have p: "?p \<in> insert xid (set subxids)"
      using assms(2) less.prems False by (auto simp: running_tree_def)
    then have "tree_committed ?l ?p" "TransactionIdIsValid ?p"
      using less.hyps age_logs_parent [OF assms(1) normal(2)] assms(2)
      by (auto simp: running_tree_def TransactionIdIsNormal_def TransactionIdIsValid_def xid_consts)
    then show ?thesis using st(1) normal
      by (subst tree_committed_iff) (auto simp: log_status_def)
  qed
qed

text \<open>
  C26: Committing a transaction tree is atomic for every reader, although the statuses may lie
  on many pages of the commit log and be written by many separate page updates. After any
  number \<open>k\<close> of them \<open>TransactionIdDidCommit\<close> gives the same answer for the parent and for
  every subtransaction, with whatever valid cache: uncommitted until the update that writes the
  parent's page, committed from then on, and all updates include that one.
\<close>

theorem TransactionIdCommitTree_atomic:
  assumes "logs_ok logs" "running_tree logs xid subxids"
    and "x \<in> insert xid (set subxids)"
    and "cache_ok (logs_during_commit logs xid subxids InvalidXLogRecPtr k) c"
  shows "(\<exists>c'. TransactionIdDidCommit (logs_during_commit logs xid subxids InvalidXLogRecPtr k) x c =
            Some (k > updates_before_parent xid subxids InvalidXLogRecPtr, c')) \<and>
         (k \<ge> length (tree_status_calls xid subxids TRANSACTION_STATUS_COMMITTED InvalidXLogRecPtr) \<longrightarrow>
            k > updates_before_parent xid subxids InvalidXLogRecPtr \<and>
            clog (logs_during_commit logs xid subxids InvalidXLogRecPtr k) =
              TransactionIdCommitTree False xid subxids (clog logs))"
proof -
  let ?l = "logs_during_commit logs xid subxids InvalidXLogRecPtr k"
  have "TransactionIdIsValid x"
    using assms(2,3) by (auto simp: running_tree_def TransactionIdIsNormal_def TransactionIdIsValid_def
        xid_consts)
  moreover have "tree_committed ?l x = (k > updates_before_parent xid subxids InvalidXLogRecPtr)"
    using committed_after_parent [OF assms(1,2) _ assms(3)]
      uncommitted_before_parent [OF assms(1,2) _ assms(3)] by (meson not_le)
  moreover have "logs_ok ?l" using assms(1) by simp
  ultimately have "\<exists>c'. TransactionIdDidCommit ?l x c =
      Some (k > updates_before_parent xid subxids InvalidXLogRecPtr, c')"
    using TransactionIdDidCommit_result [of ?l x c] assms(4) by auto
  moreover have "clog ?l = TransactionIdCommitTree False xid subxids (clog logs)"
    if "k \<ge> length (tree_status_calls xid subxids TRANSACTION_STATUS_COMMITTED InvalidXLogRecPtr)"
    using that
    by (simp add: TransactionIdCommitTree_def TransactionIdSetTreeStatus_def logs_during_commit_def)
  moreover have "k > updates_before_parent xid subxids InvalidXLogRecPtr"
    if "k \<ge> length (tree_status_calls xid subxids TRANSACTION_STATUS_COMMITTED InvalidXLogRecPtr)"
    using that by (simp add: updates_before_parent_def tree_status_calls_eq)
  ultimately show ?thesis by blast
qed

section \<open>Witnesses\<close>

text \<open>
  A tree over three pages: parent 32760, children 32765 and 65540, and 32770 below 32765. All
  entries of the commit log are empty.
\<close>

definition sample_logs :: xact_logs where
  "sample_logs =
     \<lparr> clog = \<lparr> page_buffer = (\<lambda>p b. 0), group_lsn = (\<lambda>p i. 0), page_dirty = (\<lambda>p. False) \<rparr>,
       subtrans = fold (\<lambda>(x, p). SubTransSetParent x p)
         [(32765, 32760), (32770, 32765), (65540, 32760)]
         \<lparr> sub_page = (\<lambda>p e. 0), sub_dirty = (\<lambda>p. False) \<rparr>,
       TransactionXmin = 32000 \<rparr>"

definition empty_cache :: fetch_cache where
  "empty_cache = \<lparr> cachedFetchXid = 0, cachedFetchXidStatus = 0, cachedCommitLSN = 0 \<rparr>"

lemma sample_parents:
  "SubTransGetParent (subtrans sample_logs) x =
     (if x = 32765 then 32760 else if x = 32770 then 32765 else if x = 65540 then 32760 else 0)"
proof -
  have "raw_parent \<lparr> sub_page = (\<lambda>p e. 0), sub_dirty = (\<lambda>p. False) \<rparr> y = 0" for y
    by (simp add: raw_parent_def)
  then show ?thesis
    by (simp add: sample_logs_def SubTransGetParent_eq parents.lookup_store
        TransactionIdIsNormal_def xid_consts)
qed

lemma sample_statuses: "status_of (clog sample_logs) x = TRANSACTION_STATUS_IN_PROGRESS"
  by (simp add: sample_logs_def TransactionIdGetStatus_def Let_def status_consts)

lemma sample_xmin: "TransactionXmin sample_logs = 32000"
  by (simp add: sample_logs_def)

lemma precedes_0: "TransactionIdIsNormal x \<Longrightarrow> TransactionIdPrecedes 0 x"
  by (simp add: TransactionIdPrecedes_def TransactionIdIsNormal_def xid_consts word_less_nat_alt
      word_le_nat_alt)

lemma sample_logs_ok: "logs_ok sample_logs"
proof -
  have "TransactionIdPrecedes 32760 32765" "TransactionIdPrecedes 32765 32770"
      "TransactionIdPrecedes 32760 65540" "TransactionIdIsNormal 32000"
    by (simp_all add: TransactionIdPrecedes_def TransactionIdIsNormal_def xid_consts)
  then show ?thesis
    using precedes_0 by (auto simp: logs_ok_def subtrans_wf_def sample_parents sample_xmin)
qed

lemma sample_running_tree: "running_tree sample_logs 32760 [32765, 32770, 65540]"
  unfolding running_tree_def
  by (auto simp: sample_parents sample_statuses sample_xmin
      TransactionIdPrecedes_def TransactionIdIsNormal_def xid_consts)

lemma empty_cache_ok: "cache_ok logs empty_cache"
  by (simp add: cache_ok_def empty_cache_def status_consts xid_consts)


theorem TransactionIdCommitTree_atomic_witness:
  "\<exists>c'. TransactionIdDidCommit
          (logs_during_commit sample_logs 32760 [32765, 32770, 65540] InvalidXLogRecPtr 3) 65540
          empty_cache =
        Some (3 > updates_before_parent 32760 [32765, 32770, 65540] InvalidXLogRecPtr, c')"
  using TransactionIdCommitTree_atomic [OF sample_logs_ok sample_running_tree _ empty_cache_ok,
      of 65540 3] by auto

end
