(* ===== verification/Xact_State.thy ===== *)
theory Xact_State
  imports Bin_Search
begin

text \<open>
  The part of the backend's transaction state (\<^verbatim>\<open>src/backend/access/transam/xact.c\<close>) that knows
  which xids are its own: the stack of open subtransactions, the arrays of subcommitted
  children, and the xids a parallel worker inherits. The stack is a list whose head is
  \<open>CurrentTransactionState\<close> and whose last element is the top-level transaction; only the
  components that these operations touch are kept.
\<close>

datatype TransState =
    TRANS_DEFAULT
  | TRANS_START
  | TRANS_INPROGRESS
  | TRANS_COMMIT
  | TRANS_ABORT
  | TRANS_PREPARE

record TransactionStateData =
  fullTransactionId :: FullTransactionId
  ts_state :: TransState
  childXids :: "TransactionId list"
  maxChildXids :: nat

record xact_state =
  XactTopFullTransactionId :: FullTransactionId
  ParallelCurrentXids :: "TransactionId list"
  state_stack :: "TransactionStateData list"

definition GetTopTransactionIdIfAny :: "xact_state \<Rightarrow> TransactionId" where
  "GetTopTransactionIdIfAny st = XidFromFullTransactionId (XactTopFullTransactionId st)"

section \<open>TransactionIdIsCurrentTransactionId\<close>

text \<open>The loop over the stack, from the current subtransaction to the top.\<close>

fun stack_has_xid :: "TransactionId \<Rightarrow> TransactionStateData list \<Rightarrow> bool" where
  "stack_has_xid xid [] = False"
| "stack_has_xid xid (s # parents) =
     (if ts_state s = TRANS_ABORT then stack_has_xid xid parents
      else if \<not> FullTransactionIdIsValid (fullTransactionId s) then stack_has_xid xid parents
      else if xid = XidFromFullTransactionId (fullTransactionId s) then True
      else if bsearch_between probe_order xid (childXids s) 0 (int (length (childXids s)) - 1) \<noteq> None
      then True
      else stack_has_xid xid parents)"

definition TransactionIdIsCurrentTransactionId :: "xact_state \<Rightarrow> TransactionId \<Rightarrow> bool" where
  "TransactionIdIsCurrentTransactionId st xid =
     (if \<not> TransactionIdIsNormal xid then False
      else if xid = GetTopTransactionIdIfAny st then True
      else if length (ParallelCurrentXids st) > 0
      then bsearch_between xidComparator xid (ParallelCurrentXids st) 0
             (int (length (ParallelCurrentXids st)) - 1) \<noteq> None
      else stack_has_xid xid (state_stack st))"

section \<open>Children of committed and aborted subtransactions\<close>

definition MaxAllocSize :: nat where "MaxAllocSize = 0x3fffffff"

definition max_child_xids :: nat where
  "max_child_xids = MaxAllocSize div 4"

datatype childxids_error = TooManySubtransactions nat

text \<open>
  The current subtransaction hands its xid and its children to its parent. \<open>None\<close> when there is
  no parent (the code asserts that there is one).
\<close>

definition AtSubCommit_childXids ::
  "TransactionStateData list \<Rightarrow> (childxids_error + TransactionStateData list) option" where
  "AtSubCommit_childXids stack =
     (case stack of
        s # parent # rest \<Rightarrow>
          let new_nChildXids = length (childXids parent) + length (childXids s) + 1;
              new_maxChildXids = min (new_nChildXids * 2) max_child_xids in
          if maxChildXids parent < new_nChildXids \<and> new_maxChildXids < new_nChildXids
          then Some (Inl (TooManySubtransactions max_child_xids))
          else
            let parent = (if maxChildXids parent < new_nChildXids
                          then parent\<lparr> maxChildXids := new_maxChildXids \<rparr> else parent);
                parent = parent\<lparr> childXids :=
                  childXids parent @ [XidFromFullTransactionId (fullTransactionId s)] @ childXids s \<rparr>;
                s = s\<lparr> childXids := [], maxChildXids := 0 \<rparr>
            in Some (Inr (s # parent # rest))
      | _ \<Rightarrow> None)"

definition AtSubAbort_childXids :: "TransactionStateData list \<Rightarrow> TransactionStateData list" where
  "AtSubAbort_childXids stack =
     (case stack of
        [] \<Rightarrow> []
      | s # rest \<Rightarrow> s\<lparr> childXids := [], maxChildXids := 0 \<rparr> # rest)"

definition xactGetCommittedChildren :: "TransactionStateData list \<Rightarrow> TransactionId list" where
  "xactGetCommittedChildren stack = (case stack of [] \<Rightarrow> [] | s # rest \<Rightarrow> childXids s)"

section \<open>The invariant of the stack\<close>

text \<open>The xids a level owns: its own, if assigned, then its subcommitted children.\<close>

definition level_xids :: "TransactionStateData \<Rightarrow> TransactionId list" where
  "level_xids s =
     (if FullTransactionIdIsValid (fullTransactionId s)
      then XidFromFullTransactionId (fullTransactionId s) # childXids s else [])"

text \<open>
  Read from the top-level transaction down, the owned xids ascend: a subtransaction that is
  still open got its xid after all of its parent's. A level without xid owns nothing, nor do
  the levels above it in the list (its open subtransactions).
\<close>

definition stack_xids :: "TransactionStateData list \<Rightarrow> TransactionId list" where
  "stack_xids stack = concat (map level_xids (rev stack))"

definition stack_ok :: "TransactionId \<Rightarrow> TransactionStateData list \<Rightarrow> bool" where
  "stack_ok b stack \<longleftrightarrow>
     list_all (xid_window b) (stack_xids stack) \<and>
     sorted_wrt (\<lambda>x y. xid_dist b x < xid_dist b y) (stack_xids stack) \<and>
     (\<forall>s \<in> set stack. length (childXids s) \<le> maxChildXids s \<and>
        (\<not> FullTransactionIdIsValid (fullTransactionId s) \<longrightarrow> childXids s = []))"

text \<open>The xids a stack makes current: those of the levels that are not being aborted.\<close>

definition current_xids :: "TransactionStateData list \<Rightarrow> TransactionId set" where
  "current_xids stack = (\<Union>s \<in> {s \<in> set stack. ts_state s \<noteq> TRANS_ABORT}. set (level_xids s))"

lemma stack_xids_Cons: "stack_xids (s # stack) = stack_xids stack @ level_xids s"
  by (simp add: stack_xids_def)

lemma current_xids_Cons:
  "current_xids (s # stack) =
     (if ts_state s = TRANS_ABORT then {} else set (level_xids s)) \<union> current_xids stack"
  by (auto simp: current_xids_def)

lemma stack_ok_Cons:
  "stack_ok b (s # stack) \<Longrightarrow> stack_ok b stack"
  by (auto simp: stack_ok_def stack_xids_Cons sorted_wrt_append)

lemma probe_order_less:
  "xid_window b x \<Longrightarrow> xid_window b y \<Longrightarrow> probe_order x y < 0 \<longleftrightarrow> xid_dist b x < xid_dist b y"
proof -
  assume w: "xid_window b x" "xid_window b y"
  have "x = y \<longleftrightarrow> xid_dist b x = xid_dist b y" by simp
  then show ?thesis using w by (auto simp: probe_order_def simp del: xid_dist_inject)
qed

lemma level_ascending:
  assumes "stack_ok b (s # stack)"
  shows "xid_probe.ascending b (childXids s)"
proof -
  have sub: "set (childXids s) \<subseteq> set (level_xids s)"
    using assms by (auto simp: level_xids_def stack_ok_def)
  have window: "\<forall>x \<in> set (childXids s). xid_window b x"
    using assms sub by (auto simp: stack_ok_def stack_xids_Cons list_all_iff)
  have "sorted_wrt (\<lambda>x y. xid_dist b x < xid_dist b y) (childXids s)"
    using assms by (auto simp: stack_ok_def stack_xids_Cons sorted_wrt_append level_xids_def split: if_splits)
  then have "sorted_wrt (\<lambda>x y. probe_order x y < 0) (childXids s)"
    using window by (auto elim!: sorted_wrt_mono_rel [rotated] simp: probe_order_less [of b])
  then show ?thesis using window by (auto simp: xid_probe.ascending_def)
qed

lemma stack_has_xid_iff:
  assumes "stack_ok b stack" "xid_window b xid"
  shows "stack_has_xid xid stack \<longleftrightarrow> xid \<in> current_xids stack"
  using assms(1)
proof (induction stack)
  case Nil
  then show ?case by (simp add: current_xids_def)
next
  case (Cons s stack)
  have IH: "stack_has_xid xid stack \<longleftrightarrow> xid \<in> current_xids stack"
    using Cons stack_ok_Cons by blast
  have "bsearch_between probe_order xid (childXids s) 0 (int (length (childXids s)) - 1) \<noteq> None \<longleftrightarrow>
      xid \<in> set (childXids s)"
    using xid_probe.bsearch_iff [OF level_ascending [OF Cons.prems], of xid] assms(2)
    by (simp add: bsearch_def)
  then show ?case using IH by (auto simp: current_xids_Cons level_xids_def)
qed

section \<open>Properties\<close>

text \<open>
  C36: The binary searches of \<open>TransactionIdIsCurrentTransactionId\<close> decide membership: in a
  backend with a well-formed stack a normal xid is current iff it is the top-level xid, or the
  xid or a subcommitted child of a level that is not being aborted; in a parallel worker iff it
  is the top-level xid or one of the inherited xids. No permanent xid is ever current.
\<close>

theorem TransactionIdIsCurrentTransactionId_correct:
  assumes "stack_ok b (state_stack st)" "xid_window b xid"
    and "sorted_wrt (<) (ParallelCurrentXids st)"
  shows "TransactionIdIsCurrentTransactionId st xid \<longleftrightarrow>
           xid = GetTopTransactionIdIfAny st \<or>
           xid \<in> (if ParallelCurrentXids st \<noteq> [] then set (ParallelCurrentXids st)
                  else current_xids (state_stack st))"
proof -
  have "sorted_wrt (\<lambda>x y. xidComparator x y < 0) (ParallelCurrentXids st)"
    using assms(3) by (auto elim!: sorted_wrt_mono_rel [rotated] simp: xidComparator_def)
  then have "bsearch xidComparator xid (ParallelCurrentXids st) \<longleftrightarrow> xid \<in> set (ParallelCurrentXids st)"
    by (intro xid_values.bsearch_iff) (auto simp: xid_values.ascending_def)
  then show ?thesis
    using stack_has_xid_iff [OF assms(1,2)] assms(2)
    by (auto simp: TransactionIdIsCurrentTransactionId_def bsearch_def xid_window_def)
qed

text \<open>
  C37: Subcommit keeps the stack well formed: when \<open>AtSubCommit_childXids\<close> returns normally the
  parent's array still ascends and fits its allocation, so that it can be searched, and the
  set of current xids is the same as before; it raises its error only when the parent would
  own more xids than fit an allocation.
\<close>

theorem AtSubCommit_childXids_correct:
  assumes "stack_ok b (s # parent # rest)" "FullTransactionIdIsValid (fullTransactionId s)"
    and "FullTransactionIdIsValid (fullTransactionId parent)"
    and "ts_state s \<noteq> TRANS_ABORT" "ts_state parent \<noteq> TRANS_ABORT"
  shows "(case AtSubCommit_childXids (s # parent # rest) of
            None \<Rightarrow> False
          | Some (Inl (TooManySubtransactions n)) \<Rightarrow>
              n < length (childXids parent) + length (childXids s) + 1
          | Some (Inr stack) \<Rightarrow>
              stack_ok b (tl stack) \<and> current_xids stack = current_xids (s # parent # rest) \<and>
              current_xids (tl stack) = current_xids (s # parent # rest))"
  using assms
  by (auto simp: AtSubCommit_childXids_def Let_def stack_ok_def stack_xids_Cons current_xids_Cons
      level_xids_def sorted_wrt_append min_def)

text \<open>Transaction 100 with subcommitted child 101 and open subtransaction 102, child 103.\<close>

definition sample_stack :: "TransactionStateData list" where
  "sample_stack =
     [\<lparr> fullTransactionId = \<lparr> full_value = 102 \<rparr>, ts_state = TRANS_INPROGRESS, childXids = [103],
        maxChildXids = 2 \<rparr>,
      \<lparr> fullTransactionId = \<lparr> full_value = 100 \<rparr>, ts_state = TRANS_INPROGRESS, childXids = [101],
        maxChildXids = 2 \<rparr>]"

lemmas sample_stack_simps = sample_stack_def stack_ok_def stack_xids_def level_xids_def
  FullTransactionIdIsValid_def XidFromFullTransactionId_def xid_window_def xid_dist_def
  TransactionIdIsNormal_def TransactionIdIsValid_def xid_consts

lemma sample_stack_ok: "stack_ok 100 sample_stack"
  by (simp add: sample_stack_simps)

lemma sample_stack_current: "103 \<in> current_xids sample_stack"
proof -
  have "current_xids [] = {}" by (simp add: current_xids_def)
  then show ?thesis by (simp add: sample_stack_simps current_xids_Cons)
qed

theorem TransactionIdIsCurrentTransactionId_correct_witness:
  "TransactionIdIsCurrentTransactionId
     \<lparr> XactTopFullTransactionId = \<lparr> full_value = 100 \<rparr>, ParallelCurrentXids = [],
       state_stack = sample_stack \<rparr> 103"
  by (subst TransactionIdIsCurrentTransactionId_correct [where b = 100])
    (simp_all add: sample_stack_ok sample_stack_current xid_window_def xid_dist_def
      TransactionIdIsNormal_def xid_consts)

theorem AtSubCommit_childXids_correct_witness:
  "\<exists>stack. AtSubCommit_childXids sample_stack = Some (Inr stack) \<and> stack_ok 100 (tl stack)"
proof -
  have "\<exists>s p. sample_stack = [s, p] \<and> FullTransactionIdIsValid (fullTransactionId s) \<and>
      FullTransactionIdIsValid (fullTransactionId p) \<and>
      ts_state s \<noteq> TRANS_ABORT \<and> ts_state p \<noteq> TRANS_ABORT \<and>
      length (childXids p) + length (childXids s) + 1 < max_child_xids"
    by (simp add: sample_stack_simps max_child_xids_def MaxAllocSize_def)
  then obtain s p where eq: "sample_stack = [s, p]"
    and hyps: "FullTransactionIdIsValid (fullTransactionId s)"
      "FullTransactionIdIsValid (fullTransactionId p)" "ts_state s \<noteq> TRANS_ABORT"
      "ts_state p \<noteq> TRANS_ABORT"
    and small: "length (childXids p) + length (childXids s) + 1 < max_child_xids" by blast
  have "stack_ok 100 [s, p]" using sample_stack_ok eq by simp
  from AtSubCommit_childXids_correct [OF this hyps] show ?thesis
    using small unfolding eq
    by (auto simp: AtSubCommit_childXids_def Let_def split: if_splits)
qed

end
