(* ===== verification/Known_Assigned.thy ===== *)
theory Known_Assigned
  imports Bin_Search
begin

text \<open>
  The transactions a hot standby knows to be running on its primary: the sorted array
  \<open>KnownAssignedXids\<close> with its validity flags (the last part of
  \<^verbatim>\<open>src/backend/storage/ipc/procarray.c\<close>). Entries with index in \<open>[tail, head)\<close> are in use; a
  deletion only clears the flag, and compression moves the valid entries to the front. The
  locks are not modelled; the counters and the time stamp that decide when to compress are
  part of the state, and the two readings a call may take of the clock are an argument.
\<close>

section \<open>The array\<close>

record known_assigned =
  KnownAssignedXids :: "TransactionId list"
  KnownAssignedXidsValid :: "bool list"
  tailKnownAssignedXids :: nat
  headKnownAssignedXids :: nat
  numKnownAssignedXids :: int
  maxKnownAssignedXids :: nat
  transactionEndsCounter :: uint32
  lastCompressTs :: int

datatype KAXCompressReason =
    KAX_NO_SPACE
  | KAX_PRUNE
  | KAX_TRANSACTION_END
  | KAX_STARTUP_PROCESS_IDLE

datatype known_error = OutOfOrderInsertion | TooManyKnownAssignedXids

text \<open>What the clock shows when a call asks whether to compress, and after it has done so.\<close>

record clock =
  clock_before :: int
  clock_after :: int

definition KAX_COMPRESS_FREQUENCY :: uint32 where "KAX_COMPRESS_FREQUENCY = 128"
definition KAX_COMPRESS_IDLE_INTERVAL :: int where "KAX_COMPRESS_IDLE_INTERVAL = 1000"

definition TimestampTzPlusMilliseconds :: "int \<Rightarrow> int \<Rightarrow> int" where
  "TimestampTzPlusMilliseconds tz ms = tz + ms * 1000"

section \<open>Compression\<close>

function compress_loop ::
  "nat \<Rightarrow> nat \<Rightarrow> nat \<Rightarrow> TransactionId list \<Rightarrow> bool list \<Rightarrow> nat \<times> TransactionId list \<times> bool list" where
  "compress_loop i last_one compress_index xids valids =
     (if i < last_one
      then if valids ! i
           then compress_loop (i + 1) last_one (compress_index + 1)
                  (xids[compress_index := xids ! i]) (valids[compress_index := True])
           else compress_loop (i + 1) last_one compress_index xids valids
      else (compress_index, xids, valids))"
  by pat_completeness auto
termination
  by (relation "measure (\<lambda>(i, last_one, compress_index, xids, valids). last_one - i)") auto

declare compress_loop.simps [simp del]

text \<open>The part of the routine after its early returns.\<close>

definition compress_now :: "clock \<Rightarrow> known_assigned \<Rightarrow> known_assigned" where
  "compress_now t ka =
     (let (compress_index, xids, valids) =
            compress_loop (tailKnownAssignedXids ka) (headKnownAssignedXids ka) 0
              (KnownAssignedXids ka) (KnownAssignedXidsValid ka)
      in ka\<lparr> KnownAssignedXids := xids, KnownAssignedXidsValid := valids,
             tailKnownAssignedXids := 0, headKnownAssignedXids := compress_index,
             lastCompressTs := clock_after t \<rparr>)"

definition KnownAssignedXidsCompress ::
  "KAXCompressReason \<Rightarrow> clock \<Rightarrow> known_assigned \<Rightarrow> known_assigned" where
  "KnownAssignedXidsCompress reason t ka =
     (let nelements = int (headKnownAssignedXids ka) - int (tailKnownAssignedXids ka) in
      if nelements = numKnownAssignedXids ka
      then if reason \<noteq> KAX_NO_SPACE then ka else compress_now t ka
      else if reason = KAX_TRANSACTION_END
      then let counter = transactionEndsCounter ka;
               ka = ka\<lparr> transactionEndsCounter := counter + 1 \<rparr> in
           if counter mod KAX_COMPRESS_FREQUENCY \<noteq> 0 then ka
           else if nelements < 2 * numKnownAssignedXids ka then ka
           else compress_now t ka
      else if reason = KAX_STARTUP_PROCESS_IDLE
      then if lastCompressTs ka \<noteq> 0
           then let compress_after =
                      TimestampTzPlusMilliseconds (lastCompressTs ka) KAX_COMPRESS_IDLE_INTERVAL in
                if clock_before t < compress_after then ka else compress_now t ka
           else compress_now t ka
      else compress_now t ka)"

section \<open>Insertion\<close>

lemma advance_normal: "TransactionIdIsNormal (TransactionIdAdvance x)"
  by (simp add: TransactionIdAdvance_def TransactionIdIsNormal_def Let_def not_less)

lemma advance_closer:
  assumes "TransactionIdIsNormal x" "TransactionIdIsNormal y" "x \<noteq> y"
  shows "unat (y - TransactionIdAdvance x) < unat (y - x)"
proof (cases "x = - 1")
  case False
  have "y - x \<noteq> 0" using assms(3) by simp
  then have "unat (y - x - 1) < unat (y - x)" by (rule measure_unat)
  then show ?thesis
    using advance_not_wrapping [OF assms(1) False] by (simp add: diff_diff_eq)
next
  case True
  have "3 \<le> y" using assms(2) by (simp add: TransactionIdIsNormal_def xid_consts)
  then have "y - 3 \<le> y" by (simp add: word_sub_le)
  moreover have "y < y + 1"
    using assms(3) True unatSuc [of y] by (simp add: word_less_nat_alt add.commute add_eq_0_iff)
  ultimately have "y - 3 < y + 1" by (rule le_less_trans)
  then show ?thesis
    using True by (simp add: TransactionIdAdvance_def xid_consts word_less_nat_alt)
qed

text \<open>
  The loop that counts the xids when they cross the wrap point. Once \<open>next_xid\<close> is normal
  every turn brings it closer to \<open>to_xid\<close>.
\<close>

function count_xids :: "TransactionId \<Rightarrow> TransactionId \<Rightarrow> nat \<Rightarrow> nat" where
  "count_xids next_xid to_xid nxids =
     (if TransactionIdPrecedes next_xid to_xid
      then count_xids (TransactionIdAdvance next_xid) to_xid (nxids + 1)
      else nxids)"
  by pat_completeness auto

termination
proof (relation "measure (\<lambda>(next_xid, to_xid, nxids).
    (if TransactionIdIsNormal next_xid then 0 else 2 ^ 32) + unat (to_xid - next_xid))")
  fix next_xid to_xid :: TransactionId and nxids :: nat
  assume p: "TransactionIdPrecedes next_xid to_xid"
  show "((TransactionIdAdvance next_xid, to_xid, nxids + 1), next_xid, to_xid, nxids)
      \<in> measure (\<lambda>(next_xid, to_xid, nxids).
          (if TransactionIdIsNormal next_xid then 0 else 2 ^ 32) + unat (to_xid - next_xid))"
  proof (cases "TransactionIdIsNormal next_xid")
    case False
    have "unat (to_xid - TransactionIdAdvance next_xid) < 2 ^ 32"
      using unsigned_less [of "to_xid - TransactionIdAdvance next_xid"] by simp
    then show ?thesis using False by (simp add: advance_normal)
  next
    case True
    then have "TransactionIdIsNormal to_xid" "next_xid \<noteq> to_xid"
      using p by (auto simp: TransactionIdPrecedes_def TransactionIdIsNormal_def split: if_splits)
    then show ?thesis using True by (simp add: advance_normal advance_closer)
  qed
qed simp

declare count_xids.simps [simp del]

function add_loop ::
  "nat \<Rightarrow> TransactionId \<Rightarrow> nat \<Rightarrow> TransactionId list \<Rightarrow> bool list \<Rightarrow> nat \<times> TransactionId list \<times> bool list" where
  "add_loop n next_xid head_index xids valids =
     (if n > 0
      then add_loop (n - 1) (TransactionIdAdvance next_xid) (head_index + 1)
             (xids[head_index := next_xid]) (valids[head_index := True])
      else (head_index, xids, valids))"
  by pat_completeness auto
termination
  by (relation "measure (\<lambda>(n, next_xid, head_index, xids, valids). n)") auto

declare add_loop.simps [simp del]

definition xids_between :: "TransactionId \<Rightarrow> TransactionId \<Rightarrow> nat" where
  "xids_between from_xid to_xid =
     (if to_xid \<ge> from_xid then unat (to_xid - from_xid + 1)
      else count_xids from_xid to_xid 1)"

text \<open>An error leaves the state as the failed call has left it.\<close>

definition KnownAssignedXidsAdd ::
  "TransactionId \<Rightarrow> TransactionId \<Rightarrow> clock \<Rightarrow> known_assigned \<Rightarrow>
   (known_error \<times> known_assigned) + known_assigned" where
  "KnownAssignedXidsAdd from_xid to_xid t ka =
     (let nxids = xids_between from_xid to_xid in
      if headKnownAssignedXids ka > tailKnownAssignedXids ka \<and>
         TransactionIdFollowsOrEquals (KnownAssignedXids ka ! (headKnownAssignedXids ka - 1)) from_xid
      then Inl (OutOfOrderInsertion, ka)
      else
        let full = (headKnownAssignedXids ka + nxids > maxKnownAssignedXids ka);
            ka = (if full then KnownAssignedXidsCompress KAX_NO_SPACE t ka else ka) in
        if full \<and> headKnownAssignedXids ka + nxids > maxKnownAssignedXids ka
        then Inl (TooManyKnownAssignedXids, ka)
        else
          let (head_index, xids, valids) =
                add_loop nxids from_xid (headKnownAssignedXids ka)
                  (KnownAssignedXids ka) (KnownAssignedXidsValid ka)
          in Inr (ka\<lparr> KnownAssignedXids := xids, KnownAssignedXidsValid := valids,
                      numKnownAssignedXids := numKnownAssignedXids ka + int nxids,
                      headKnownAssignedXids := head_index \<rparr>))"

section \<open>Search and removal\<close>

function skip_invalid :: "nat \<Rightarrow> nat \<Rightarrow> bool list \<Rightarrow> nat" where
  "skip_invalid i head_index valids =
     (if i < head_index \<and> \<not> valids ! i then skip_invalid (i + 1) head_index valids else i)"
  by pat_completeness auto
termination
  by (relation "measure (\<lambda>(i, head_index, valids). head_index - i)") auto

declare skip_invalid.simps [simp del]

text \<open>Both pointers are reset when the array has become empty, else the tail moves to \<open>i\<close>.\<close>

definition reset_tail :: "nat \<Rightarrow> known_assigned \<Rightarrow> known_assigned" where
  "reset_tail i ka =
     (if i \<ge> headKnownAssignedXids ka
      then ka\<lparr> headKnownAssignedXids := 0, tailKnownAssignedXids := 0 \<rparr>
      else ka\<lparr> tailKnownAssignedXids := i \<rparr>)"

definition KnownAssignedXidsSearch ::
  "TransactionId \<Rightarrow> bool \<Rightarrow> known_assigned \<Rightarrow> bool \<times> known_assigned" where
  "KnownAssignedXidsSearch xid remove ka =
     (case bsearch_between known_order xid (KnownAssignedXids ka)
             (int (tailKnownAssignedXids ka)) (int (headKnownAssignedXids ka) - 1) of
        None \<Rightarrow> (False, ka)
      | Some result_index \<Rightarrow>
          if \<not> KnownAssignedXidsValid ka ! result_index then (False, ka)
          else if remove
          then let ka = ka\<lparr> KnownAssignedXidsValid := (KnownAssignedXidsValid ka)[result_index := False],
                            numKnownAssignedXids := numKnownAssignedXids ka - 1 \<rparr> in
               (True,
                if result_index = tailKnownAssignedXids ka
                then reset_tail (skip_invalid (tailKnownAssignedXids ka + 1)
                       (headKnownAssignedXids ka) (KnownAssignedXidsValid ka)) ka
                else ka)
          else (True, ka))"

definition KnownAssignedXidExists :: "TransactionId \<Rightarrow> known_assigned \<Rightarrow> bool" where
  "KnownAssignedXidExists xid ka = fst (KnownAssignedXidsSearch xid False ka)"

definition KnownAssignedXidsRemove :: "TransactionId \<Rightarrow> known_assigned \<Rightarrow> known_assigned" where
  "KnownAssignedXidsRemove xid ka = snd (KnownAssignedXidsSearch xid True ka)"

definition KnownAssignedXidsRemoveTree ::
  "TransactionId \<Rightarrow> TransactionId list \<Rightarrow> clock \<Rightarrow> known_assigned \<Rightarrow> known_assigned" where
  "KnownAssignedXidsRemoveTree xid subxids t ka =
     (let ka = (if TransactionIdIsValid xid then KnownAssignedXidsRemove xid ka else ka);
          ka = fold KnownAssignedXidsRemove subxids ka
      in KnownAssignedXidsCompress KAX_TRANSACTION_END t ka)"

text \<open>The loop that marks the entries before \<open>removeXid\<close>; \<open>count\<close> is the number it has marked.\<close>

function prune_loop ::
  "(TransactionId \<Rightarrow> bool) \<Rightarrow> TransactionId \<Rightarrow> nat \<Rightarrow> nat \<Rightarrow> TransactionId list \<Rightarrow> bool list \<Rightarrow> int \<Rightarrow>
   bool list \<times> int" where
  "prune_loop is_prepared removeXid i head_index xids valids count =
     (if i < head_index
      then if valids ! i
           then let knownXid = xids ! i in
                if TransactionIdFollowsOrEquals knownXid removeXid then (valids, count)
                else if \<not> is_prepared knownXid
                then prune_loop is_prepared removeXid (i + 1) head_index xids
                       (valids[i := False]) (count + 1)
                else prune_loop is_prepared removeXid (i + 1) head_index xids valids count
           else prune_loop is_prepared removeXid (i + 1) head_index xids valids count
      else (valids, count))"
  by pat_completeness auto
termination
  by (relation "measure (\<lambda>(is_prepared, removeXid, i, head_index, xids, valids, count). head_index - i)") auto

declare prune_loop.simps [simp del]

text \<open>\<open>is_prepared\<close> is \<open>StandbyTransactionIdIsPrepared\<close> of \<^verbatim>\<open>twophase.c\<close>, which reads the state files.\<close>

definition KnownAssignedXidsRemovePreceding ::
  "(TransactionId \<Rightarrow> bool) \<Rightarrow> TransactionId \<Rightarrow> clock \<Rightarrow> known_assigned \<Rightarrow> known_assigned" where
  "KnownAssignedXidsRemovePreceding is_prepared removeXid t ka =
     (if \<not> TransactionIdIsValid removeXid
      then ka\<lparr> numKnownAssignedXids := 0, headKnownAssignedXids := 0, tailKnownAssignedXids := 0 \<rparr>
      else
        let (valids, count) =
              prune_loop is_prepared removeXid (tailKnownAssignedXids ka) (headKnownAssignedXids ka)
                (KnownAssignedXids ka) (KnownAssignedXidsValid ka) 0;
            ka = ka\<lparr> KnownAssignedXidsValid := valids,
                     numKnownAssignedXids := numKnownAssignedXids ka - count \<rparr>;
            ka = reset_tail (skip_invalid (tailKnownAssignedXids ka) (headKnownAssignedXids ka) valids) ka
        in KnownAssignedXidsCompress KAX_PRUNE t ka)"

definition KnownAssignedXidsReset :: "known_assigned \<Rightarrow> known_assigned" where
  "KnownAssignedXidsReset ka =
     ka\<lparr> numKnownAssignedXids := 0, tailKnownAssignedXids := 0, headKnownAssignedXids := 0 \<rparr>"

section \<open>Reading the array\<close>

function get_loop ::
  "nat \<Rightarrow> nat \<Rightarrow> TransactionId list \<Rightarrow> bool list \<Rightarrow> TransactionId \<Rightarrow> TransactionId list \<Rightarrow> TransactionId \<Rightarrow>
   TransactionId list \<times> TransactionId" where
  "get_loop i head_index xids valids xmax xarray xmin =
     (if i < head_index
      then if valids ! i
           then let knownXid = xids ! i;
                    xmin = (if length xarray = 0 \<and> TransactionIdPrecedes knownXid xmin
                            then knownXid else xmin) in
                if TransactionIdIsValid xmax \<and> TransactionIdFollowsOrEquals knownXid xmax
                then (xarray, xmin)
                else get_loop (i + 1) head_index xids valids xmax (xarray @ [knownXid]) xmin
           else get_loop (i + 1) head_index xids valids xmax xarray xmin
      else (xarray, xmin))"
  by pat_completeness auto
termination
  by (relation "measure (\<lambda>(i, head_index, xids, valids, xmax, xarray, xmin). head_index - i)") auto

declare get_loop.simps [simp del]

text \<open>The array of xids and the lowered \<open>xmin\<close>.\<close>

definition KnownAssignedXidsGetAndSetXmin ::
  "known_assigned \<Rightarrow> TransactionId \<Rightarrow> TransactionId \<Rightarrow> TransactionId list \<times> TransactionId" where
  "KnownAssignedXidsGetAndSetXmin ka xmin xmax =
     get_loop (tailKnownAssignedXids ka) (headKnownAssignedXids ka)
       (KnownAssignedXids ka) (KnownAssignedXidsValid ka) xmax [] xmin"

definition KnownAssignedXidsGet :: "known_assigned \<Rightarrow> TransactionId \<Rightarrow> TransactionId list" where
  "KnownAssignedXidsGet ka xmax =
     fst (KnownAssignedXidsGetAndSetXmin ka InvalidTransactionId xmax)"

definition KnownAssignedXidsGetOldestXmin :: "known_assigned \<Rightarrow> TransactionId" where
  "KnownAssignedXidsGetOldestXmin ka =
     (let i = skip_invalid (tailKnownAssignedXids ka) (headKnownAssignedXids ka)
                (KnownAssignedXidsValid ka)
      in if i < headKnownAssignedXids ka then KnownAssignedXids ka ! i else InvalidTransactionId)"

end
