(* ===== verification/Known_Assigned_Props.thy ===== *)
theory Known_Assigned_Props
  imports Known_Assigned
begin

text \<open>
  The known-assigned array implements a sorted list of xids. The invariant \<open>known_ok\<close> (entries in
  use ascend within a window, the entry at the tail is valid, the count is right) is kept by
  every operation, and \<open>valid_xids\<close> maps a state to the list it stands for; each operation acts
  on that list as its name says. The interface \<open>xid_set\<close> is what the removal of a transaction
  tree relies on.
\<close>

section \<open>The abstraction and the invariant\<close>

definition valid_between :: "TransactionId list \<Rightarrow> bool list \<Rightarrow> nat \<Rightarrow> nat \<Rightarrow> TransactionId list" where
  "valid_between xids valids i j = map (nth xids) (filter (nth valids) [i..<j])"

definition valid_xids :: "known_assigned \<Rightarrow> TransactionId list" where
  "valid_xids ka =
     valid_between (KnownAssignedXids ka) (KnownAssignedXidsValid ka)
       (tailKnownAssignedXids ka) (headKnownAssignedXids ka)"

definition entries_ascend :: "TransactionId \<Rightarrow> TransactionId list \<Rightarrow> nat \<Rightarrow> nat \<Rightarrow> bool" where
  "entries_ascend b xids i j \<longleftrightarrow>
     (\<forall>k. i \<le> k \<and> k < j \<longrightarrow> xid_window b (xids ! k)) \<and>
     (\<forall>k l. i \<le> k \<and> k < l \<and> l < j \<longrightarrow> xid_dist b (xids ! k) < xid_dist b (xids ! l))"

definition known_ok :: "TransactionId \<Rightarrow> known_assigned \<Rightarrow> bool" where
  "known_ok b ka \<longleftrightarrow>
     length (KnownAssignedXids ka) = maxKnownAssignedXids ka \<and>
     length (KnownAssignedXidsValid ka) = maxKnownAssignedXids ka \<and>
     headKnownAssignedXids ka \<le> maxKnownAssignedXids ka \<and>
     (if tailKnownAssignedXids ka < headKnownAssignedXids ka
      then KnownAssignedXidsValid ka ! tailKnownAssignedXids ka
      else tailKnownAssignedXids ka = 0 \<and> headKnownAssignedXids ka = 0) \<and>
     entries_ascend b (KnownAssignedXids ka) (tailKnownAssignedXids ka) (headKnownAssignedXids ka) \<and>
     numKnownAssignedXids ka = int (length (valid_xids ka))"

definition ascending_from :: "TransactionId \<Rightarrow> TransactionId list \<Rightarrow> bool" where
  "ascending_from b xs \<longleftrightarrow>
     list_all (xid_window b) xs \<and> sorted_wrt (\<lambda>x y. xid_dist b x < xid_dist b y) xs"

subsection \<open>Segments of the array\<close>

lemma valid_between_empty [simp]: "j \<le> i \<Longrightarrow> valid_between xids valids i j = []"
  by (simp add: valid_between_def)

lemma valid_between_Cons:
  "i < j \<Longrightarrow> valid_between xids valids i j =
     (if valids ! i then [xids ! i] else []) @ valid_between xids valids (Suc i) j"
  by (simp add: valid_between_def upt_conv_Cons)

lemma valid_between_append:
  "i \<le> j \<Longrightarrow> j \<le> k \<Longrightarrow>
     valid_between xids valids i k = valid_between xids valids i j @ valid_between xids valids j k"
  using upt_add_eq_append [of i j "k - j"] by (simp add: valid_between_def)

lemma valid_between_cong:
  "(\<And>k. i \<le> k \<Longrightarrow> k < j \<Longrightarrow> valids ! k = valids' ! k) \<Longrightarrow>
   (\<And>k. i \<le> k \<Longrightarrow> k < j \<Longrightarrow> valids ! k \<Longrightarrow> xids ! k = xids' ! k) \<Longrightarrow>
     valid_between xids valids i j = valid_between xids' valids' i j"
  unfolding valid_between_def by (intro map_cong filter_cong) auto

lemma set_valid_between:
  "set (valid_between xids valids i j) = {xids ! k | k. i \<le> k \<and> k < j \<and> valids ! k}"
  by (auto simp: valid_between_def)

lemma entries_ascend_mono:
  "entries_ascend b xids i j \<Longrightarrow> i \<le> i' \<Longrightarrow> j' \<le> j \<Longrightarrow> entries_ascend b xids i' j'"
  by (auto simp: entries_ascend_def)

lemma ascending_from_filter: "ascending_from b xs \<Longrightarrow> ascending_from b (filter P xs)"
  by (auto simp: ascending_from_def list_all_iff sorted_wrt_filter)

lemma valid_between_ascending:
  assumes "entries_ascend b xids i j"
  shows "ascending_from b (valid_between xids valids i j)"
proof -
  have "sorted_wrt (\<lambda>k l. xid_dist b (xids ! k) < xid_dist b (xids ! l)) [i..<j]"
    using assms by (auto simp: sorted_wrt_iff_nth_less entries_ascend_def)
  then show ?thesis
    using assms by (auto simp: ascending_from_def valid_between_def sorted_wrt_map sorted_wrt_filter
        list_all_iff entries_ascend_def)
qed

lemma valid_xids_ascending: "known_ok b ka \<Longrightarrow> ascending_from b (valid_xids ka)"
  by (simp add: known_ok_def valid_xids_def valid_between_ascending)

lemma entries_ascend_list:
  "ascending_from b (take n xids) \<Longrightarrow> n \<le> length xids \<Longrightarrow> entries_ascend b xids 0 n"
  by (auto simp: ascending_from_def entries_ascend_def sorted_wrt_iff_nth_less list_all_length)

lemma valid_between_full:
  "(\<forall>k < n. valids ! k) \<Longrightarrow> n \<le> length xids \<Longrightarrow> valid_between xids valids 0 n = take n xids"
  by (auto simp: valid_between_def intro!: nth_equalityI)

section \<open>Compression\<close>

lemma compress_loop_correct:
  "compress_index \<le> i \<Longrightarrow> last_one \<le> length xids \<Longrightarrow> last_one \<le> length valids \<Longrightarrow>
   compress_loop i last_one compress_index xids valids = (n, xids', valids') \<Longrightarrow>
     n = compress_index + length (valid_between xids valids i last_one) \<and>
     length xids' = length xids \<and> length valids' = length valids \<and>
     take n xids' = take compress_index xids @ valid_between xids valids i last_one \<and>
     (\<forall>k. k < compress_index \<longrightarrow> valids' ! k = valids ! k) \<and>
     (\<forall>k. compress_index \<le> k \<and> k < n \<longrightarrow> valids' ! k)"
proof (induction i last_one compress_index xids valids rule: compress_loop.induct)
  case (1 i last_one compress_index xids valids)
  consider "\<not> i < last_one" | "i < last_one" "\<not> valids ! i" | "i < last_one" "valids ! i" by blast
  then show ?case
  proof cases
    case 1
    then show ?thesis using "1.prems" by (auto simp: compress_loop.simps [of i])
  next
    case 2
    then have eq: "valid_between xids valids i last_one = valid_between xids valids (Suc i) last_one"
      by (simp add: valid_between_Cons)
    have "compress_loop (i + 1) last_one compress_index xids valids = (n, xids', valids')"
      using 2 "1.prems"(4) by (simp add: compress_loop.simps [of i])
    then show ?thesis 
      unfolding eq Suc_eq_plus1 using "1.IH"(2) [OF 2] "1.prems"(1-3) le_SucI by (metis Suc_eq_plus1)
  next
    case 3
    let ?xids = "xids[compress_index := xids ! i]" and ?valids = "valids[compress_index := True]"
    have same: "valid_between ?xids ?valids (Suc i) last_one = valid_between xids valids (Suc i) last_one"
      using "1.prems" by (intro valid_between_cong) auto
    have "take (Suc compress_index) ?xids = take compress_index xids @ [xids ! i]"
      using 3 "1.prems" by (simp add: take_Suc_conv_app_nth)
    then show ?thesis using "1.IH"(1) "1.prems" 3 same
      by (auto simp: compress_loop.simps [of i] valid_between_Cons nth_list_update less_Suc_eq_le
          split: if_splits dest: le_neq_implies_less)
  qed
qed

lemma compress_now_ok:
  assumes "known_ok b ka"
  shows "known_ok b (compress_now t ka) \<and> valid_xids (compress_now t ka) = valid_xids ka \<and>
         int (headKnownAssignedXids (compress_now t ka)) = numKnownAssignedXids ka \<and>
         maxKnownAssignedXids (compress_now t ka) = maxKnownAssignedXids ka \<and>
         (\<forall>k < headKnownAssignedXids (compress_now t ka).
            KnownAssignedXids (compress_now t ka) ! k \<in> set (valid_xids ka))"
proof -
  obtain n xids valids where loop: "compress_loop (tailKnownAssignedXids ka)
      (headKnownAssignedXids ka) 0 (KnownAssignedXids ka) (KnownAssignedXidsValid ka) =
      (n, xids, valids)" by (metis prod_cases3)
  have n: "n = length (valid_xids ka)" "length xids = maxKnownAssignedXids ka"
      "length valids = maxKnownAssignedXids ka" "take n xids = valid_xids ka" "\<forall>k < n. valids ! k"
    using compress_loop_correct [OF _ _ _ loop] assms by (auto simp: known_ok_def valid_xids_def)
  have "n \<le> maxKnownAssignedXids ka"
    using arg_cong [OF n(4), of length] n(1,2) by (simp add: min_def split: if_splits)
  moreover have "entries_ascend b xids 0 n"
    using calculation valid_xids_ascending [OF assms] n by (intro entries_ascend_list) auto
  moreover have "valid_between xids valids 0 n = valid_xids ka"
    using calculation(1) n by (simp add: valid_between_full)
  moreover have "\<forall>k < n. xids ! k \<in> set (valid_xids ka)"
    using n(1,4) by (metis nth_mem nth_take)
  ultimately show ?thesis using n assms
    by (auto simp: compress_now_def loop known_ok_def valid_xids_def)
qed

lemma counter_irrelevant [simp]:
  "known_ok b (ka\<lparr> transactionEndsCounter := c \<rparr>) = known_ok b ka"
  "valid_xids (ka\<lparr> transactionEndsCounter := c \<rparr>) = valid_xids ka"
  by (simp_all add: known_ok_def valid_xids_def)

lemma Compress_cases:
  obtains "KnownAssignedXidsCompress reason t ka = ka"
  | "KnownAssignedXidsCompress reason t ka =
       ka\<lparr> transactionEndsCounter := transactionEndsCounter ka + 1 \<rparr>"
  | "KnownAssignedXidsCompress reason t ka = compress_now t ka"
  | "KnownAssignedXidsCompress reason t ka =
       compress_now t (ka\<lparr> transactionEndsCounter := transactionEndsCounter ka + 1 \<rparr>)"
  unfolding KnownAssignedXidsCompress_def Let_def by (atomize_elim) (auto split: if_splits)

lemma Compress_ok:
  assumes "known_ok b ka"
  shows "known_ok b (KnownAssignedXidsCompress reason t ka)"
    and "valid_xids (KnownAssignedXidsCompress reason t ka) = valid_xids ka"
    and "maxKnownAssignedXids (KnownAssignedXidsCompress reason t ka) = maxKnownAssignedXids ka"
  using compress_now_ok [of b ka t] assms
    compress_now_ok [of b "ka\<lparr> transactionEndsCounter := transactionEndsCounter ka + 1 \<rparr>" t]
  by (cases rule: Compress_cases [of reason t ka]; simp)+

lemma Compress_no_space:
  assumes "known_ok b ka"
  shows "int (headKnownAssignedXids (KnownAssignedXidsCompress KAX_NO_SPACE t ka)) =
           numKnownAssignedXids ka"
    and "k < headKnownAssignedXids (KnownAssignedXidsCompress KAX_NO_SPACE t ka) \<Longrightarrow>
           KnownAssignedXids (KnownAssignedXidsCompress KAX_NO_SPACE t ka) ! k \<in> set (valid_xids ka)"
proof -
  have "KnownAssignedXidsCompress KAX_NO_SPACE t ka = compress_now t ka"
    by (simp add: KnownAssignedXidsCompress_def Let_def)
  then show "int (headKnownAssignedXids (KnownAssignedXidsCompress KAX_NO_SPACE t ka)) =
      numKnownAssignedXids ka"
    and "k < headKnownAssignedXids (KnownAssignedXidsCompress KAX_NO_SPACE t ka) \<Longrightarrow>
      KnownAssignedXids (KnownAssignedXidsCompress KAX_NO_SPACE t ka) ! k \<in> set (valid_xids ka)"
    using compress_now_ok [OF assms, of t] by simp_all
qed

lemma valid_before_last:
  assumes ok: "known_ok b ka" and v: "v \<in> set (valid_xids ka)"
  shows "tailKnownAssignedXids ka < headKnownAssignedXids ka \<and>
    xid_dist b v \<le> xid_dist b (KnownAssignedXids ka ! (headKnownAssignedXids ka - 1))"
proof -
  obtain k where k: "tailKnownAssignedXids ka \<le> k" "k < headKnownAssignedXids ka"
      "v = KnownAssignedXids ka ! k"
    using v by (auto simp: valid_xids_def set_valid_between)
  then show ?thesis using ok
    by (cases "k = headKnownAssignedXids ka - 1")
      (auto simp: known_ok_def entries_ascend_def intro!: less_imp_le)
qed

section \<open>Insertion\<close>

text \<open>\<open>n\<close> xids in the order in which they are assigned.\<close>

definition xid_range :: "TransactionId \<Rightarrow> nat \<Rightarrow> TransactionId list" where
  "xid_range x n = map (\<lambda>k. (TransactionIdAdvance ^^ k) x) [0..<n]"

lemma xid_range_Suc: "xid_range x (Suc n) = x # xid_range (TransactionIdAdvance x) n"
  by (simp add: xid_range_def upt_conv_Cons map_Suc_upt [symmetric] funpow_swap1 del: upt_Suc)

lemma small_Suc: "unat (w :: uint32) < 2 ^ 31 \<Longrightarrow> unat (w + 1) = Suc (unat w)"
proof -
  assume small: "unat w < 2 ^ 31"
  have "w + 1 \<noteq> 0"
  proof
    assume "w + 1 = 0"
    then have "w = 0xFFFFFFFF" by (simp add: eq_neg_iff_add_eq_0 [symmetric])
    then show False using small by simp
  qed
  then show ?thesis using unatSuc [of w] by (simp add: add.commute)
qed

text \<open>The xid after \<open>x\<close> is the first normal one at a greater distance from the base.\<close>

lemma advance_next:
  assumes x: "xid_window b x" and z: "xid_window b z" "xid_dist b x < xid_dist b z"
  shows "xid_window b (TransactionIdAdvance x) \<and> xid_dist b x < xid_dist b (TransactionIdAdvance x) \<and>
         xid_dist b (TransactionIdAdvance x) \<le> xid_dist b z"
proof (cases "x = - 1")
  case False
  have "unat (x - b) < 2 ^ 31" using x by (simp add: xid_window_def xid_dist_def)
  then have "xid_dist b (x + 1) = Suc (xid_dist b x)"
    using small_Suc [of "x - b"] by (simp add: xid_dist_def algebra_simps)
  then show ?thesis
    using advance_not_wrapping [OF _ False] x z by (auto simp: xid_window_def)
next
  case True
  define d where "d = xid_dist b x"
  have d: "d < 2 ^ 31" using x by (simp add: xid_window_def d_def)
  have at: "xid_dist b (word_of_nat k - 1) = d + k" if "k < 2 ^ 31" for k
  proof -
    have "unat (x - b + word_of_nat k) = unat (x - b) + unat (word_of_nat k :: uint32)"
      using that d by (intro unat_add_lem [THEN iffD1]) (simp add: d_def xid_dist_def unat_of_nat)
    moreover have "unat (word_of_nat k :: uint32) = k" using that by (simp add: unat_of_nat)
    moreover have "word_of_nat k - 1 - b = x - b + word_of_nat k" using True by simp
    ultimately show ?thesis by (simp only: xid_dist_def d_def)
  qed
  define k where "k = xid_dist b z - d"
  have k: "xid_dist b z = d + k" "0 < k" "k < 2 ^ 31"
    using z le_less_trans [OF diff_le_self] by (simp_all add: k_def d_def xid_window_def)
  then have zk: "z = word_of_nat k - 1" using at [OF k(3)] by (metis xid_dist_inject)
  have "k \<noteq> 1" "k \<noteq> 2" "k \<noteq> 3"
    using zk z(1) by (auto simp: xid_window_def TransactionIdIsNormal_def xid_consts word_le_nat_alt)
  then have "4 \<le> k" using k by linarith
  moreover have "xid_dist b 3 = d + 4" using at [of 4] by simp
  moreover have "TransactionIdAdvance x = 3" using True by (simp add: TransactionIdAdvance_def xid_consts)
  ultimately show ?thesis
    using k z by (auto simp: xid_window_def TransactionIdIsNormal_def xid_consts d_def)
qed

lemma xid_range_exact:
  "xid_window b x \<Longrightarrow> xid_window b y \<Longrightarrow> xid_dist b x \<le> xid_dist b y \<Longrightarrow>
   \<exists>n. xids_between x y = n \<and> (\<forall>k. count_xids x y k = k + n - 1) \<and> 0 < n \<and>
       ascending_from b (xid_range x n) \<and>
       set (xid_range x n) = {z. xid_window b z \<and> xid_dist b x \<le> xid_dist b z \<and> xid_dist b z \<le> xid_dist b y}"
proof (induction "xid_dist b y - xid_dist b x" arbitrary: x rule: less_induct)
  case less
  show ?case
  proof (cases "xid_dist b x = xid_dist b y")
    case True
    then have "x = y" by simp
    then show ?thesis using less.prems
      by (intro exI [of _ 1])
        (auto simp: xids_between_def count_xids.simps [of y] xid_range_def ascending_from_def
          dest: le_antisym)
  next
    case False
    let ?x = "TransactionIdAdvance x"
    have lt: "xid_dist b x < xid_dist b y" using False less.prems(3) by linarith
    have nxt: "xid_window b ?x" "xid_dist b x < xid_dist b ?x" "xid_dist b ?x \<le> xid_dist b y"
      using advance_next [OF less.prems(1,2) lt] by auto
    obtain n where n: "xids_between ?x y = n" "\<And>k. count_xids ?x y k = k + n - 1" "0 < n"
      "ascending_from b (xid_range ?x n)"
      "set (xid_range ?x n) = {z. xid_window b z \<and> xid_dist b ?x \<le> xid_dist b z \<and> xid_dist b z \<le> xid_dist b y}"
      using less.hyps [OF _ nxt(1) less.prems(2) nxt(3)] nxt(2,3) by auto
    have count: "count_xids x y k = k + Suc n - 1" for k
      using lt less.prems(1,2) n(2) [of "k + 1"] n(3) by (simp add: count_xids.simps [of x])
    have "xids_between x y = Suc n"
    proof (cases "x \<le> y")
      case False
      then show ?thesis using count by (simp add: xids_between_def)
    next
      case True
      then have "x < y" using lt by (metis order_le_less less_irrefl)
      then have "x \<noteq> - 1" using word_order.extremum_strict by blast
      then have adv: "?x = x + 1" using advance_not_wrapping less.prems(1) by (simp add: xid_window_def)
      then have le: "?x \<le> y" using \<open>x < y\<close> by (simp add: inc_le)
      then have "unat (y - ?x + 1) = n" using n(1) by (simp add: xids_between_def)
      then have "unat (y - x) = n" using adv by simp
      moreover have "unat (y - x) < 2 ^ 31"
        using sint_diff_window [OF less.prems(2,1)] lt sint_neg_iff [of "y - x"] by linarith
      ultimately show ?thesis using True small_Suc [of "y - x"] by (simp add: xids_between_def)
    qed
    moreover have "ascending_from b (xid_range x (Suc n))"
      using n(4,5) nxt(2) less.prems(1) by (auto simp: xid_range_Suc ascending_from_def)
    moreover have "set (xid_range x (Suc n)) =
        {z. xid_window b z \<and> xid_dist b x \<le> xid_dist b z \<and> xid_dist b z \<le> xid_dist b y}"
    proof -
      have "xid_window b z \<and> xid_dist b x \<le> xid_dist b z \<and> xid_dist b z \<le> xid_dist b y \<longleftrightarrow>
          z = x \<or> (xid_window b z \<and> xid_dist b ?x \<le> xid_dist b z \<and> xid_dist b z \<le> xid_dist b y)" for z
        using advance_next [OF less.prems(1), of z] nxt(2) lt less.prems(1) xid_dist_inject [of b x z]
        by (metis le_neq_implies_less le_trans less_imp_le order_refl)
      then show ?thesis unfolding xid_range_Suc list.set n(5) by blast
    qed
    ultimately show ?thesis using count by blast
  qed
qed

text \<open>The loop writes the range behind the head.\<close>

lemma add_loop_correct:
  "add_loop n x h xids valids = (h', xids', valids') \<Longrightarrow>
   h + n \<le> length xids \<Longrightarrow> h + n \<le> length valids \<Longrightarrow>
     h' = h + n \<and> length xids' = length xids \<and> length valids' = length valids \<and>
     (\<forall>k < h. xids' ! k = xids ! k \<and> valids' ! k = valids ! k) \<and>
     (\<forall>k < n. xids' ! (h + k) = xid_range x n ! k \<and> valids' ! (h + k))"
proof (induction n arbitrary: x h xids valids)
  case 0
  then show ?case by (simp add: add_loop.simps)
next
  case (Suc n)
  have loop: "add_loop n (TransactionIdAdvance x) (Suc h) (xids[h := x]) (valids[h := True]) =
      (h', xids', valids')"
    using Suc.prems(1) by (simp add: add_loop.simps [of "Suc n"])
  have IH: "h' = Suc h + n \<and> length xids' = length xids \<and> length valids' = length valids \<and>
     (\<forall>k < Suc h. xids' ! k = xids[h := x] ! k \<and> valids' ! k = valids[h := True] ! k) \<and>
     (\<forall>k < n. xids' ! (Suc h + k) = xid_range (TransactionIdAdvance x) n ! k \<and> valids' ! (Suc h + k))"
    using Suc.IH [OF loop] Suc.prems by simp
  have "xids' ! (h + k) = xid_range x (Suc n) ! k \<and> valids' ! (h + k)" if "k < Suc n" for k
    using IH that Suc.prems by (cases k) (auto simp: xid_range_Suc)
  then show ?case using IH Suc.prems by auto
qed

lemma valid_between_all:
  "(\<And>k. k < length ys \<Longrightarrow> xids ! (i + k) = ys ! k \<and> valids ! (i + k)) \<Longrightarrow>
     valid_between xids valids i (i + length ys) = ys"
proof (induction ys arbitrary: i)
  case (Cons y ys)
  have "valid_between xids valids (Suc i) (Suc i + length ys) = ys"
    using Cons.prems [of "Suc k" for k] by (intro Cons.IH) auto
  then show ?case using Cons.prems [of 0] by (simp add: valid_between_Cons)
qed simp

lemma length_xid_range [simp]: "length (xid_range x n) = n"
  by (simp add: xid_range_def)

text \<open>The part of the insertion after the checks.\<close>

lemma add_checked:
  assumes ok: "known_ok b ka" and n: "0 < n" and range: "ascending_from b (xid_range x n)"
    and room: "headKnownAssignedXids ka + n \<le> maxKnownAssignedXids ka"
    and order: "tailKnownAssignedXids ka < headKnownAssignedXids ka \<Longrightarrow>
      xid_dist b (KnownAssignedXids ka ! (headKnownAssignedXids ka - 1)) < xid_dist b x"
    and loop: "add_loop n x (headKnownAssignedXids ka) (KnownAssignedXids ka)
      (KnownAssignedXidsValid ka) = (h, xids, valids)"
    and new: "ka' = ka\<lparr> KnownAssignedXids := xids, KnownAssignedXidsValid := valids,
      numKnownAssignedXids := numKnownAssignedXids ka + int n, headKnownAssignedXids := h \<rparr>"
  shows "known_ok b ka' \<and> valid_xids ka' = valid_xids ka @ xid_range x n"
proof -
  let ?t = "tailKnownAssignedXids ka" and ?h = "headKnownAssignedXids ka"
  have len: "length (KnownAssignedXids ka) = maxKnownAssignedXids ka"
      "length (KnownAssignedXidsValid ka) = maxKnownAssignedXids ka" "?t \<le> ?h"
      "entries_ascend b (KnownAssignedXids ka) ?t ?h"
    using ok by (auto simp: known_ok_def split: if_splits)
  have res: "h = ?h + n" "length xids = maxKnownAssignedXids ka" "length valids = maxKnownAssignedXids ka"
      "\<And>k. k < ?h \<Longrightarrow> xids ! k = KnownAssignedXids ka ! k \<and> valids ! k = KnownAssignedXidsValid ka ! k"
      "\<And>k. k < n \<Longrightarrow> xids ! (?h + k) = xid_range x n ! k \<and> valids ! (?h + k)"
    using add_loop_correct [OF loop] len room by auto
  have "valid_between xids valids ?t ?h = valid_xids ka"
    unfolding valid_xids_def using res(4) by (intro valid_between_cong) auto
  moreover have "valid_between xids valids ?h h = xid_range x n"
    using valid_between_all [of "xid_range x n" xids ?h valids] res by simp
  ultimately have valid: "valid_between xids valids ?t h = valid_xids ka @ xid_range x n"
    using valid_between_append [of ?t ?h h] len(3) res(1) by simp
  have hd: "xid_range x n ! 0 = x" using n by (simp add: xid_range_def)
  have entry: "xid_window b (xids ! k)" if "?t \<le> k" "k < h" for k
    using that res(4) [of k] res(5) [of "k - ?h"] len(4) range res(1)
    by (cases "k < ?h") (auto simp: entries_ascend_def ascending_from_def list_all_length)
  have step: "xid_dist b (xids ! k) < xid_dist b (xids ! l)" if "?t \<le> k" "k < l" "l < h" for k l
  proof -
    consider "l < ?h" | "k < ?h" "?h \<le> l" | "?h \<le> k" by linarith
    then show ?thesis
    proof cases
      case 1
      then show ?thesis using that res(4) [of k] res(4) [of l] len(4) by (simp add: entries_ascend_def)
    next
      case 3
      then have "xid_dist b (xid_range x n ! (k - ?h)) < xid_dist b (xid_range x n ! (l - ?h))"
        using that range res(1) by (auto simp: ascending_from_def sorted_wrt_iff_nth_less)
      then show ?thesis using 3 that res(1) res(5) [of "k - ?h"] res(5) [of "l - ?h"] by simp
    next
      case 2
      have "xid_dist b (xids ! k) \<le> xid_dist b (KnownAssignedXids ka ! (?h - 1))"
        using 2 that len(4) res(4) [of k]
        by (cases "k = ?h - 1") (auto simp: entries_ascend_def intro!: less_imp_le)
      also have "\<dots> < xid_dist b x" using 2 that order by simp
      also have "\<dots> \<le> xid_dist b (xid_range x n ! (l - ?h))"
        using 2 that range res(1) hd
          sorted_wrt_nth_less [of "\<lambda>x y. xid_dist b x < xid_dist b y" "xid_range x n" 0 "l - ?h"]
        by (cases "l = ?h") (auto simp: ascending_from_def intro!: less_imp_le)
      finally show ?thesis using 2 that res(1) res(5) [of "l - ?h"] by simp
    qed
  qed
  have "entries_ascend b xids ?t h" using entry step by (simp add: entries_ascend_def)
  moreover have "valids ! ?t"
    using ok n res(4) [of ?t] res(5) [of 0] by (auto simp: known_ok_def split: if_splits)
  ultimately show ?thesis
    using valid ok res room n len(3) by (simp add: new known_ok_def valid_xids_def)
qed

lemma KnownAssignedXidsAdd_ok:
  assumes ok: "known_ok b ka"
    and args: "xid_window b x" "xid_window b y" "xid_dist b x \<le> xid_dist b y"
  shows "(case KnownAssignedXidsAdd x y t ka of
            Inl (OutOfOrderInsertion, ka') \<Rightarrow> ka' = ka \<and> headKnownAssignedXids ka > 0 \<and>
              xid_window b (KnownAssignedXids ka ! (headKnownAssignedXids ka - 1)) \<and>
              xid_dist b x \<le> xid_dist b (KnownAssignedXids ka ! (headKnownAssignedXids ka - 1))
          | Inl (TooManyKnownAssignedXids, ka') \<Rightarrow>
              known_ok b ka' \<and> valid_xids ka' = valid_xids ka \<and>
              length (valid_xids ka) + xids_between x y > maxKnownAssignedXids ka
          | Inr ka' \<Rightarrow> known_ok b ka' \<and> valid_xids ka' = valid_xids ka @ xid_range x (xids_between x y))"
proof -
  let ?last = "KnownAssignedXids ka ! (headKnownAssignedXids ka - 1)"
  define n where "n = xids_between x y"
  define full where "full = (headKnownAssignedXids ka + n > maxKnownAssignedXids ka)"
  define ka1 where "ka1 = (if full then KnownAssignedXidsCompress KAX_NO_SPACE t ka else ka)"
  obtain h xids valids where loop: "add_loop n x (headKnownAssignedXids ka1) (KnownAssignedXids ka1)
      (KnownAssignedXidsValid ka1) = (h, xids, valids)" by (metis prod_cases3)
  have range: "0 < n" "ascending_from b (xid_range x n)"
    using xid_range_exact [OF args] by (auto simp: n_def)
  have ok1: "known_ok b ka1" "valid_xids ka1 = valid_xids ka"
      "maxKnownAssignedXids ka1 = maxKnownAssignedXids ka"
    using Compress_ok [OF ok] ok by (simp_all add: ka1_def)
  have count: "full \<Longrightarrow> headKnownAssignedXids ka1 = length (valid_xids ka)"
    using Compress_no_space(1) [OF ok, of t] ok by (simp add: ka1_def known_ok_def)
  define order where "order \<longleftrightarrow> tailKnownAssignedXids ka < headKnownAssignedXids ka \<and>
    TransactionIdFollowsOrEquals ?last x"
  have window: "tailKnownAssignedXids ka < headKnownAssignedXids ka \<Longrightarrow> xid_window b ?last"
    using ok by (auto simp: known_ok_def entries_ascend_def)
  have eq: "KnownAssignedXidsAdd x y t ka =
      (if order then Inl (OutOfOrderInsertion, ka)
       else if full \<and> headKnownAssignedXids ka1 + n > maxKnownAssignedXids ka1
       then Inl (TooManyKnownAssignedXids, ka1)
       else Inr (ka1\<lparr> KnownAssignedXids := xids, KnownAssignedXidsValid := valids,
              numKnownAssignedXids := numKnownAssignedXids ka1 + int n, headKnownAssignedXids := h \<rparr>))"
    unfolding KnownAssignedXidsAdd_def Let_def n_def [symmetric] order_def full_def [symmetric]
      ka1_def [symmetric] loop by simp
  consider (order) "order" | (many) "\<not> order" "full" "headKnownAssignedXids ka1 + n > maxKnownAssignedXids ka1"
    | (room) "\<not> order" "headKnownAssignedXids ka1 + n \<le> maxKnownAssignedXids ka1"
    using ok1(3) by (cases full; cases "headKnownAssignedXids ka1 + n > maxKnownAssignedXids ka1")
      (auto simp: full_def ka1_def not_less)
  then show ?thesis
  proof cases
    case order
    then show ?thesis using eq window args by (auto simp: order_def)
  next
    case many
    then show ?thesis using eq ok1 count by (auto simp: n_def)
  next
    case room
    have last_entry: "xid_dist b (KnownAssignedXids ka1 ! (headKnownAssignedXids ka1 - 1)) < xid_dist b x"
      if "tailKnownAssignedXids ka1 < headKnownAssignedXids ka1"
    proof (cases full)
      case False
      then show ?thesis using that room(1) window args by (auto simp: ka1_def order_def)
    next
      case True
      then have "KnownAssignedXids ka1 ! (headKnownAssignedXids ka1 - 1) \<in> set (valid_xids ka)"
        using Compress_no_space(2) [OF ok] that by (simp add: ka1_def)
      from valid_before_last [OF ok this] show ?thesis
        using room(1) window args by (auto simp: order_def)
    qed
    show ?thesis using eq room add_checked [OF ok1(1) range room(2) last_entry loop refl] ok1
      by (auto simp: n_def)
  qed
qed

section \<open>Search and removal\<close>

lemma skip_invalid_correct:
  "i \<le> h \<Longrightarrow> i \<le> skip_invalid i h valids \<and> skip_invalid i h valids \<le> h \<and>
     (skip_invalid i h valids < h \<longrightarrow> valids ! skip_invalid i h valids) \<and>
     valid_between xids valids i h = valid_between xids valids (skip_invalid i h valids) h"
proof (induction i h valids rule: skip_invalid.induct)
  case (1 i h valids)
  show ?case
  proof (cases "i < h \<and> \<not> valids ! i")
    case True
    then show ?thesis using "1.IH" by (simp add: skip_invalid.simps [of i] valid_between_Cons)
  next
    case False
    then show ?thesis using "1.prems" by (auto simp: skip_invalid.simps [of i])
  qed
qed

text \<open>The invariant without the condition on the entry at the tail.\<close>

definition known_pre :: "TransactionId \<Rightarrow> known_assigned \<Rightarrow> bool" where
  "known_pre b ka \<longleftrightarrow>
     length (KnownAssignedXids ka) = maxKnownAssignedXids ka \<and>
     length (KnownAssignedXidsValid ka) = maxKnownAssignedXids ka \<and>
     headKnownAssignedXids ka \<le> maxKnownAssignedXids ka \<and>
     tailKnownAssignedXids ka \<le> headKnownAssignedXids ka \<and>
     entries_ascend b (KnownAssignedXids ka) (tailKnownAssignedXids ka) (headKnownAssignedXids ka) \<and>
     numKnownAssignedXids ka = int (length (valid_xids ka))"

lemma known_ok_pre: "known_ok b ka \<Longrightarrow> known_pre b ka"
  by (auto simp: known_ok_def known_pre_def split: if_splits)

lemma reset_tail_ok:
  assumes "known_pre b ka"
  defines "i \<equiv> skip_invalid (tailKnownAssignedXids ka) (headKnownAssignedXids ka) (KnownAssignedXidsValid ka)"
  shows "known_ok b (reset_tail i ka)" "valid_xids (reset_tail i ka) = valid_xids ka"
proof -
  have i: "tailKnownAssignedXids ka \<le> i" "i \<le> headKnownAssignedXids ka"
      "i < headKnownAssignedXids ka \<Longrightarrow> KnownAssignedXidsValid ka ! i"
      "valid_xids ka = valid_between (KnownAssignedXids ka) (KnownAssignedXidsValid ka) i
         (headKnownAssignedXids ka)"
    using skip_invalid_correct assms(1) by (auto simp: i_def known_pre_def valid_xids_def)
  then show valid: "valid_xids (reset_tail i ka) = valid_xids ka"
    by (auto simp: reset_tail_def valid_xids_def)
  have "entries_ascend b (KnownAssignedXids ka) i (headKnownAssignedXids ka)"
    using assms(1) i(1) by (auto simp: known_pre_def intro: entries_ascend_mono)
  then show "known_ok b (reset_tail i ka)"
    using assms(1) i(2,3) valid by (auto simp: known_pre_def known_ok_def reset_tail_def entries_ascend_def)
qed

lemma entries_unique:
  assumes "entries_ascend b xids i j" "i \<le> k" "k < j" "i \<le> l" "l < j" "xids ! k = xids ! l"
  shows "k = l"
  using assms by (cases k l rule: linorder_cases) (fastforce simp: entries_ascend_def)+

lemma valid_between_distinct:
  assumes "entries_ascend b xids i j" "i \<le> r" "r < j" "v \<in> set (valid_between xids valids k l)"
    "i \<le> k" "l \<le> j" "r < k \<or> l \<le> r"
  shows "v \<noteq> xids ! r"
proof
  assume "v = xids ! r"
  moreover obtain m where m: "v = xids ! m" "k \<le> m" "m < l"
    using assms(4) by (auto simp: set_valid_between)
  ultimately have "m = r" using assms by (intro entries_unique [OF assms(1)]) auto
  then show False using m assms(7) by linarith
qed

lemma valid_between_clear:
  assumes "entries_ascend b xids i j" "i \<le> r" "r < j" "valids ! r" "r < length valids"
  shows "valid_between xids (valids[r := False]) i j =
           filter (\<lambda>v. v \<noteq> xids ! r) (valid_between xids valids i j)"
    and "length (valid_between xids valids i j) =
           Suc (length (valid_between xids (valids[r := False]) i j))"
proof -
  have split: "valid_between xids vs i j =
      valid_between xids vs i r @ (if vs ! r then [xids ! r] else []) @ valid_between xids vs (Suc r) j" for vs
    using valid_between_append [of i r j] valid_between_Cons [of r j] assms(2,3) by simp
  have same: "valid_between xids (valids[r := False]) i r = valid_between xids valids i r"
      "valid_between xids (valids[r := False]) (Suc r) j = valid_between xids valids (Suc r) j"
    by (auto intro!: valid_between_cong)
  have "filter (\<lambda>v. v \<noteq> xids ! r) (valid_between xids valids i r) = valid_between xids valids i r"
    "filter (\<lambda>v. v \<noteq> xids ! r) (valid_between xids valids (Suc r) j) = valid_between xids valids (Suc r) j"
    using valid_between_distinct [OF assms(1-3)] assms(2,3) by (auto intro!: filter_True)
  then show "valid_between xids (valids[r := False]) i j =
      filter (\<lambda>v. v \<noteq> xids ! r) (valid_between xids valids i j)"
    using assms(4,5) by (simp add: split [of valids] split [of "valids[r := False]"] same)
  show "length (valid_between xids valids i j) =
      Suc (length (valid_between xids (valids[r := False]) i j))"
    using assms(4,5) by (simp add: split [of valids] split [of "valids[r := False]"] same)
qed

lemma known_order_less:
  "xid_window b x \<Longrightarrow> xid_window b y \<Longrightarrow> known_order x y < 0 \<longleftrightarrow> xid_dist b x < xid_dist b y"
  by (auto simp: known_order_def)

lemma known_search:
  assumes ok: "known_ok b ka"
  shows "bsearch_between known_order xid (KnownAssignedXids ka)
           (int (tailKnownAssignedXids ka)) (int (headKnownAssignedXids ka) - 1) = Some r \<longleftrightarrow>
         tailKnownAssignedXids ka \<le> r \<and> r < headKnownAssignedXids ka \<and> KnownAssignedXids ka ! r = xid"
proof (cases "xid_window b xid")
  case True
  have "xid_known.ascending_on b (KnownAssignedXids ka) (int (tailKnownAssignedXids ka))
      (int (headKnownAssignedXids ka) - 1)"
    using ok by (auto simp: xid_known.ascending_on_def known_ok_def entries_ascend_def
        known_order_less [of b])
  from xid_known.bsearch_between_iff [OF this] show ?thesis using True by auto
next
  case False
  then have "KnownAssignedXids ka ! r \<noteq> xid"
    if "tailKnownAssignedXids ka \<le> r" "r < headKnownAssignedXids ka"
    using that ok by (auto simp: known_ok_def entries_ascend_def)
  then show ?thesis
    using bsearch_between_found [of known_order xid "KnownAssignedXids ka"
        "int (tailKnownAssignedXids ka)" "int (headKnownAssignedXids ka) - 1" r]
    by (auto simp: known_order_def split: if_splits)
qed

end
