(* ===== verification/Known_Assigned_Refine.thy ===== *)
theory Known_Assigned_Refine
  imports Known_Assigned_Props
begin

text \<open>
  The operations of the known-assigned array as operations on the list of its valid xids: the
  laws of removal as an interface, the removal of trees and prefixes, the reads, and the
  simulation of whole runs of the startup process.
\<close>

section \<open>Removal\<close>

lemma KnownAssignedXidsRemove_ok:
  assumes ok: "known_ok b ka"
  shows "known_ok b (KnownAssignedXidsRemove xid ka)"
    and "valid_xids (KnownAssignedXidsRemove xid ka) = filter (\<lambda>v. v \<noteq> xid) (valid_xids ka)"
proof -
  let ?t = "tailKnownAssignedXids ka" and ?h = "headKnownAssignedXids ka"
  let ?xids = "KnownAssignedXids ka" and ?valids = "KnownAssignedXidsValid ka"
  define found where "found = bsearch_between known_order xid ?xids (int ?t) (int ?h - 1)"
  have asc: "entries_ascend b ?xids ?t ?h" using ok by (simp add: known_ok_def)
  have no_index: "found = None \<Longrightarrow> \<not> (?t \<le> r \<and> r < ?h \<and> ?xids ! r = xid)" for r
    using known_search [OF ok, of xid r] by (auto simp: found_def)
  have at: "found = Some r \<Longrightarrow> ?t \<le> r \<and> r < ?h \<and> ?xids ! r = xid" for r
    using known_search [OF ok, of xid r] by (auto simp: found_def)
  consider (absent) "found = None" | (gap) r where "found = Some r" "\<not> ?valids ! r"
    | (valid) r where "found = Some r" "?valids ! r" by (cases found) auto
  then have "known_ok b (KnownAssignedXidsRemove xid ka) \<and>
      valid_xids (KnownAssignedXidsRemove xid ka) = filter (\<lambda>v. v \<noteq> xid) (valid_xids ka)"
  proof cases
    case absent
    then have "xid \<notin> set (valid_xids ka)"
      using no_index by (auto simp: valid_xids_def set_valid_between)
    then have "filter (\<lambda>v. v \<noteq> xid) (valid_xids ka) = valid_xids ka" by (auto intro: filter_True)
    then show ?thesis using absent ok
      by (simp add: KnownAssignedXidsRemove_def KnownAssignedXidsSearch_def found_def [symmetric])
  next
    case gap
    have "xid \<notin> set (valid_xids ka)"
    proof
      assume "xid \<in> set (valid_xids ka)"
      then obtain k where k: "?t \<le> k" "k < ?h" "?valids ! k" "xid = ?xids ! k"
        by (auto simp: valid_xids_def set_valid_between)
      then have "k = r" using at [OF gap(1)] by (intro entries_unique [OF asc]) auto
      then show False using gap(2) k by simp
    qed
    then have "filter (\<lambda>v. v \<noteq> xid) (valid_xids ka) = valid_xids ka" by (auto intro: filter_True)
    then show ?thesis using gap ok
      by (simp add: KnownAssignedXidsRemove_def KnownAssignedXidsSearch_def found_def [symmetric])
  next
    case valid
    let ?ka = "ka\<lparr> KnownAssignedXidsValid := ?valids[r := False],
                   numKnownAssignedXids := numKnownAssignedXids ka - 1 \<rparr>"
    have r: "?t \<le> r" "r < ?h" "?xids ! r = xid" "r < length ?valids"
      using at [OF valid(1)] ok by (auto simp: known_ok_def)
    have xids: "valid_xids ?ka = filter (\<lambda>v. v \<noteq> xid) (valid_xids ka)"
        "length (valid_xids ka) = Suc (length (valid_xids ?ka))"
      using valid_between_clear [OF asc r(1,2) valid(2) r(4)] r(3) by (simp_all add: valid_xids_def)
    have pre: "known_pre b ?ka"
      using known_ok_pre [OF ok] xids(2) by (simp add: known_pre_def)
    have eq: "KnownAssignedXidsRemove xid ka =
        (if r = ?t then reset_tail (skip_invalid (?t + 1) ?h (?valids[r := False])) ?ka else ?ka)"
      using valid by (simp add: KnownAssignedXidsRemove_def KnownAssignedXidsSearch_def
          found_def [symmetric])
    show ?thesis
    proof (cases "r = ?t")
      case True
      have "skip_invalid (?t + 1) ?h (?valids[r := False]) = skip_invalid ?t ?h (?valids[r := False])"
        using True r by (simp add: skip_invalid.simps [of ?t])
      then show ?thesis using reset_tail_ok [OF pre] xids(1) True by (simp add: eq)
    next
      case False
      then show ?thesis using pre ok xids(1) r
        by (auto simp: eq known_ok_def known_pre_def split: if_splits)
    qed
  qed
  then show "known_ok b (KnownAssignedXidsRemove xid ka)"
    and "valid_xids (KnownAssignedXidsRemove xid ka) = filter (\<lambda>v. v \<noteq> xid) (valid_xids ka)" by auto
qed

lemma KnownAssignedXidExists_iff:
  assumes ok: "known_ok b ka"
  shows "KnownAssignedXidExists xid ka \<longleftrightarrow> xid \<in> set (valid_xids ka)"
proof -
  have "KnownAssignedXidExists xid ka \<longleftrightarrow>
      (\<exists>r. bsearch_between known_order xid (KnownAssignedXids ka) (int (tailKnownAssignedXids ka))
             (int (headKnownAssignedXids ka) - 1) = Some r \<and> KnownAssignedXidsValid ka ! r)"
    by (auto simp: KnownAssignedXidExists_def KnownAssignedXidsSearch_def split: option.split)
  then show ?thesis
    unfolding known_search [OF ok] by (auto simp: valid_xids_def set_valid_between)
qed

text \<open>What the removal of many xids needs of the removal of one.\<close>

locale xid_removal =
  fixes ok :: "'s \<Rightarrow> bool"
    and xids :: "'s \<Rightarrow> TransactionId list"
    and remove :: "TransactionId \<Rightarrow> 's \<Rightarrow> 's"
    and has :: "TransactionId \<Rightarrow> 's \<Rightarrow> bool"
  assumes remove_ok: "ok s \<Longrightarrow> ok (remove x s)"
    and xids_remove: "ok s \<Longrightarrow> xids (remove x s) = filter (\<lambda>v. v \<noteq> x) (xids s)"
    and has_iff: "ok s \<Longrightarrow> has x s \<longleftrightarrow> x \<in> set (xids s)"
begin

lemma fold_remove:
  "ok s \<Longrightarrow> ok (fold remove xs s) \<and> xids (fold remove xs s) = filter (\<lambda>v. v \<notin> set xs) (xids s)"
  by (induction xs arbitrary: s) (auto simp: remove_ok xids_remove intro!: filter_cong)

lemma remove_idem: "ok s \<Longrightarrow> xids (remove x (remove x s)) = xids (remove x s)"
  by (simp add: remove_ok xids_remove)

lemma has_remove: "ok s \<Longrightarrow> has y (remove x s) \<longleftrightarrow> has y s \<and> y \<noteq> x"
  by (auto simp: has_iff remove_ok xids_remove)

end

interpretation kax: xid_removal "known_ok b" valid_xids KnownAssignedXidsRemove KnownAssignedXidExists
  for b
  by unfold_locales (simp_all add: KnownAssignedXidsRemove_ok KnownAssignedXidExists_iff)

lemma RemoveTree_ok:
  assumes "known_ok b ka" "TransactionIdIsValid xid"
  shows "known_ok b (KnownAssignedXidsRemoveTree xid subxids t ka)"
    and "valid_xids (KnownAssignedXidsRemoveTree xid subxids t ka) =
           filter (\<lambda>v. v \<notin> set (xid # subxids)) (valid_xids ka)"
proof -
  have "KnownAssignedXidsRemoveTree xid subxids t ka =
      KnownAssignedXidsCompress KAX_TRANSACTION_END t (fold KnownAssignedXidsRemove (xid # subxids) ka)"
    using assms(2) by (simp add: KnownAssignedXidsRemoveTree_def)
  then show "known_ok b (KnownAssignedXidsRemoveTree xid subxids t ka)"
    and "valid_xids (KnownAssignedXidsRemoveTree xid subxids t ka) =
           filter (\<lambda>v. v \<notin> set (xid # subxids)) (valid_xids ka)"
    using kax.fold_remove [OF assms(1), of "xid # subxids"] Compress_ok [of b] by metis+
qed

lemma RemoveTree_invalid_ok:
  assumes "known_ok b ka"
  shows "known_ok b (KnownAssignedXidsRemoveTree InvalidTransactionId subxids t ka)"
    and "valid_xids (KnownAssignedXidsRemoveTree InvalidTransactionId subxids t ka) =
           filter (\<lambda>v. v \<notin> set subxids) (valid_xids ka)"
  using kax.fold_remove [OF assms, of subxids] Compress_ok [of b]
  by (simp_all add: KnownAssignedXidsRemoveTree_def TransactionIdIsValid_def)

section \<open>Pruning\<close>

lemma prune_loop_correct:
  "xid_window b removeXid \<Longrightarrow> entries_ascend b xids i h \<Longrightarrow> h \<le> length valids \<Longrightarrow>
   prune_loop is_prepared removeXid i h xids valids count = (valids', count') \<Longrightarrow>
     length valids' = length valids \<and> (\<forall>k < i. valids' ! k = valids ! k) \<and>
     valid_between xids valids' i h =
       filter (\<lambda>v. is_prepared v \<or> \<not> TransactionIdPrecedes v removeXid) (valid_between xids valids i h) \<and>
     count' = count + int (length (valid_between xids valids i h)) -
       int (length (valid_between xids valids' i h))"
proof (induction is_prepared removeXid i h xids valids count rule: prune_loop.induct)
  case (1 is_prepared removeXid i h xids valids count)
  note w = "1.prems"(1) and asc = "1.prems"(2) and len = "1.prems"(3) and loop = "1.prems"(4)
  have tail: "entries_ascend b xids (i + 1) h" using asc by (auto intro: entries_ascend_mono)
  consider (finished) "\<not> i < h" | (gap) "i < h" "\<not> valids ! i"
    | (stop) "i < h" "valids ! i" "TransactionIdFollowsOrEquals (xids ! i) removeXid"
    | (mark) "i < h" "valids ! i" "\<not> TransactionIdFollowsOrEquals (xids ! i) removeXid" "\<not> is_prepared (xids ! i)"
    | (keep) "i < h" "valids ! i" "\<not> TransactionIdFollowsOrEquals (xids ! i) removeXid" "is_prepared (xids ! i)"
    by blast
  then show ?case
  proof cases
    case finished
    then show ?thesis using loop by (simp add: prune_loop.simps [of _ _ i])
  next
    case gap
    then have "prune_loop is_prepared removeXid (i + 1) h xids valids count = (valids', count')"
      using loop by (simp add: prune_loop.simps [of _ _ i])
    from "1.IH"(3) [OF gap w tail len this] show ?thesis
      using gap by (simp add: valid_between_Cons)
  next
    case keep
    then have "prune_loop is_prepared removeXid (i + 1) h xids valids count = (valids', count')"
      using loop by (simp add: prune_loop.simps [of _ _ i] Let_def)
    from "1.IH"(2) [OF keep(1,2) refl keep(3) _ w tail len this] show ?thesis
      using keep by (simp add: valid_between_Cons)
  next
    case stop
    have "\<not> TransactionIdPrecedes v removeXid" if "v \<in> set (valid_between xids valids i h)" for v
    proof -
      obtain k where k: "v = xids ! k" "i \<le> k" "k < h" using \<open>v \<in> _\<close> by (auto simp: set_valid_between)
      have "xid_window b (xids ! i)" "xid_window b v"
        using stop(1) asc k by (auto simp: entries_ascend_def)
      moreover from this have "xid_dist b removeXid \<le> xid_dist b (xids ! i)"
        using stop(3) w window_precedes(4) [of b "xids ! i" removeXid] by blast
      moreover have "xid_dist b (xids ! i) \<le> xid_dist b v"
        using k asc by (cases "k = i") (auto simp: entries_ascend_def intro!: less_imp_le)
      ultimately show ?thesis using w by simp
    qed
    then have "filter (\<lambda>v. is_prepared v \<or> \<not> TransactionIdPrecedes v removeXid)
        (valid_between xids valids i h) = valid_between xids valids i h"
      by (auto intro: filter_True)
    then show ?thesis using stop loop by (simp add: prune_loop.simps [of _ _ i] Let_def)
  next
    case mark
    have "prune_loop is_prepared removeXid (i + 1) h xids (valids[i := False]) (count + 1) = (valids', count')"
      using mark loop by (simp add: prune_loop.simps [of _ _ i] Let_def)
    from "1.IH"(1) [OF mark(1,2) refl mark(3,4) w tail _ this] len
    have IH: "length valids' = length valids" "\<forall>k < i + 1. valids' ! k = valids[i := False] ! k"
      "valid_between xids valids' (i + 1) h =
        filter (\<lambda>v. is_prepared v \<or> \<not> TransactionIdPrecedes v removeXid)
          (valid_between xids (valids[i := False]) (i + 1) h)"
      "count' = count + 1 + int (length (valid_between xids (valids[i := False]) (i + 1) h)) -
        int (length (valid_between xids valids' (i + 1) h))"
      by simp_all
    have same: "valid_between xids (valids[i := False]) (i + 1) h = valid_between xids valids (i + 1) h"
      by (intro valid_between_cong) auto
    have "xid_window b (xids ! i)" using asc mark(1) by (simp add: entries_ascend_def)
    then have "TransactionIdPrecedes (xids ! i) removeXid" using mark(3) w by simp
    moreover have "\<not> valids' ! i" using IH(2) mark(1) len by simp
    ultimately show ?thesis
      using IH mark same by (simp add: valid_between_Cons)
  qed
qed

lemma RemovePreceding_ok:
  assumes ok: "known_ok b ka" and w: "xid_window b removeXid"
  shows "known_ok b (KnownAssignedXidsRemovePreceding is_prepared removeXid t ka)"
    and "valid_xids (KnownAssignedXidsRemovePreceding is_prepared removeXid t ka) =
           filter (\<lambda>v. is_prepared v \<or> \<not> TransactionIdPrecedes v removeXid) (valid_xids ka)"
proof -
  obtain valids count where loop: "prune_loop is_prepared removeXid (tailKnownAssignedXids ka)
      (headKnownAssignedXids ka) (KnownAssignedXids ka) (KnownAssignedXidsValid ka) 0 = (valids, count)"
    by fastforce
  let ?ka = "ka\<lparr> KnownAssignedXidsValid := valids,
                 numKnownAssignedXids := numKnownAssignedXids ka - count \<rparr>"
  have res: "length valids = maxKnownAssignedXids ka"
      "valid_xids ?ka = filter (\<lambda>v. is_prepared v \<or> \<not> TransactionIdPrecedes v removeXid) (valid_xids ka)"
      "count = int (length (valid_xids ka)) - int (length (valid_xids ?ka))"
    using prune_loop_correct [OF w _ _ loop] ok by (auto simp: known_ok_def valid_xids_def)
  have "known_pre b ?ka" using known_ok_pre [OF ok] res(1,3) by (simp add: known_pre_def)
  note tail = reset_tail_ok [OF this]
  have valid: "TransactionIdIsValid removeXid"
    using w by (auto simp: xid_window_def TransactionIdIsNormal_def TransactionIdIsValid_def xid_consts)
  have "KnownAssignedXidsRemovePreceding is_prepared removeXid t ka =
      KnownAssignedXidsCompress KAX_PRUNE t (reset_tail (skip_invalid (tailKnownAssignedXids ka)
        (headKnownAssignedXids ka) valids) ?ka)"
    using valid by (simp add: KnownAssignedXidsRemovePreceding_def loop)
  then show "known_ok b (KnownAssignedXidsRemovePreceding is_prepared removeXid t ka)"
    and "valid_xids (KnownAssignedXidsRemovePreceding is_prepared removeXid t ka) =
           filter (\<lambda>v. is_prepared v \<or> \<not> TransactionIdPrecedes v removeXid) (valid_xids ka)"
    using tail res(2) Compress_ok [of b] by simp_all
qed

lemma RemovePreceding_all_ok:
  assumes "known_ok b ka"
  shows "known_ok b (KnownAssignedXidsRemovePreceding is_prepared InvalidTransactionId t ka)"
    and "valid_xids (KnownAssignedXidsRemovePreceding is_prepared InvalidTransactionId t ka) = []"
  using assms by (simp_all add: KnownAssignedXidsRemovePreceding_def TransactionIdIsValid_def
      known_ok_def valid_xids_def entries_ascend_def)

lemma Reset_ok:
  assumes "known_ok b ka"
  shows "known_ok b (KnownAssignedXidsReset ka)" and "valid_xids (KnownAssignedXidsReset ka) = []"
  using assms by (simp_all add: KnownAssignedXidsReset_def known_ok_def valid_xids_def entries_ascend_def)

section \<open>Reading\<close>

lemma get_loop_correct:
  "entries_ascend b xids i h \<Longrightarrow> (TransactionIdIsValid xmax \<Longrightarrow> xid_window b xmax) \<Longrightarrow>
   get_loop i h xids valids xmax xarray xmin =
     (xarray @ filter (\<lambda>v. TransactionIdIsValid xmax \<longrightarrow> TransactionIdPrecedes v xmax)
        (valid_between xids valids i h),
      case valid_between xids valids i h of
        [] \<Rightarrow> xmin
      | v # _ \<Rightarrow> if xarray = [] \<and> TransactionIdPrecedes v xmin then v else xmin)"
proof (induction i h xids valids xmax xarray xmin rule: get_loop.induct)
  case (1 i h xids valids xmax xarray xmin)
  note asc = "1.prems"(1) and w = "1.prems"(2)
  have tail: "entries_ascend b xids (i + 1) h" using asc by (auto intro: entries_ascend_mono)
  consider (finished) "\<not> i < h" | (gap) "i < h" "\<not> valids ! i"
    | (stop) "i < h" "valids ! i" "TransactionIdIsValid xmax \<and> TransactionIdFollowsOrEquals (xids ! i) xmax"
    | (go) "i < h" "valids ! i" "\<not> (TransactionIdIsValid xmax \<and> TransactionIdFollowsOrEquals (xids ! i) xmax)"
    by blast
  then show ?case
  proof cases
    case finished
    then show ?thesis by (simp add: get_loop.simps [of i])
  next
    case gap
    then show ?thesis using "1.IH"(2) [OF gap tail w]
      by (simp add: get_loop.simps [of i] valid_between_Cons)
  next
    case stop
    have "\<not> TransactionIdPrecedes v xmax" if "v \<in> set (valid_between xids valids i h)" for v
    proof -
      obtain k where k: "v = xids ! k" "i \<le> k" "k < h" using \<open>v \<in> _\<close> by (auto simp: set_valid_between)
      have "xid_window b (xids ! i)" "xid_window b v" "xid_window b xmax"
        using stop(1,3) asc w k by (auto simp: entries_ascend_def)
      moreover from this have "xid_dist b xmax \<le> xid_dist b (xids ! i)"
        using stop(3) by simp
      moreover have "xid_dist b (xids ! i) \<le> xid_dist b v"
        using k asc by (cases "k = i") (auto simp: entries_ascend_def intro!: less_imp_le)
      ultimately show ?thesis by simp
    qed
    then have "filter (\<lambda>v. TransactionIdIsValid xmax \<longrightarrow> TransactionIdPrecedes v xmax)
        (valid_between xids valids i h) = []"
      using stop by (auto simp: filter_empty_conv)
    then show ?thesis using stop by (simp add: get_loop.simps [of i] valid_between_Cons Let_def)
  next
    case go
    have "xid_window b (xids ! i)" using asc go(1) by (simp add: entries_ascend_def)
    then have "TransactionIdIsValid xmax \<longrightarrow> TransactionIdPrecedes (xids ! i) xmax"
      using go(3) w by auto
    moreover note "1.IH"(1) [OF go(1,2) refl refl go(3) tail w]
    ultimately show ?thesis using go
      by (simp add: get_loop.simps [of i] valid_between_Cons Let_def split: list.split) auto
  qed
qed

lemma GetAndSetXmin_ok:
  assumes "known_ok b ka" "TransactionIdIsValid xmax \<Longrightarrow> xid_window b xmax"
  shows "KnownAssignedXidsGetAndSetXmin ka xmin xmax =
     (filter (\<lambda>v. TransactionIdIsValid xmax \<longrightarrow> TransactionIdPrecedes v xmax) (valid_xids ka),
      case valid_xids ka of
        [] \<Rightarrow> xmin
      | v # _ \<Rightarrow> if TransactionIdPrecedes v xmin then v else xmin)"
  using get_loop_correct [OF _ assms(2)] assms(1)
  by (simp add: KnownAssignedXidsGetAndSetXmin_def valid_xids_def known_ok_def split: list.split)

lemma GetOldestXmin_ok:
  assumes "known_ok b ka"
  shows "KnownAssignedXidsGetOldestXmin ka =
    (case valid_xids ka of [] \<Rightarrow> InvalidTransactionId | v # _ \<Rightarrow> v)"
proof -
  let ?i = "skip_invalid (tailKnownAssignedXids ka) (headKnownAssignedXids ka) (KnownAssignedXidsValid ka)"
  have i: "?i < headKnownAssignedXids ka \<longrightarrow> KnownAssignedXidsValid ka ! ?i"
      "valid_xids ka = valid_between (KnownAssignedXids ka) (KnownAssignedXidsValid ka) ?i
         (headKnownAssignedXids ka)"
    using skip_invalid_correct assms by (auto simp: known_ok_def valid_xids_def split: if_splits)
  then show ?thesis
    by (auto simp: KnownAssignedXidsGetOldestXmin_def Let_def valid_between_Cons)
qed

lemma ascending_from_distinct: "ascending_from b xs \<Longrightarrow> distinct xs"
  by (induction xs) (auto simp: ascending_from_def)

lemma valid_xids_fit:
  assumes "known_ok b ka"
  shows "length (valid_xids ka) \<le> maxKnownAssignedXids ka"
proof -
  have "length (valid_xids ka) \<le> length [tailKnownAssignedXids ka..<headKnownAssignedXids ka]"
    by (simp add: valid_xids_def valid_between_def del: length_upt)
  moreover have "headKnownAssignedXids ka \<le> maxKnownAssignedXids ka"
    using assms by (simp add: known_ok_def)
  ultimately show ?thesis by simp
qed

text \<open>The xids an insertion adds.\<close>

definition xids_from_to :: "TransactionId \<Rightarrow> TransactionId \<Rightarrow> TransactionId \<Rightarrow> TransactionId set" where
  "xids_from_to b x y =
     {z. xid_window b z \<and> TransactionIdPrecedesOrEquals x z \<and> TransactionIdPrecedesOrEquals z y}"

lemma xid_range_set:
  assumes "xid_window b x" "xid_window b y" "xid_dist b x \<le> xid_dist b y"
  shows "set (xid_range x (xids_between x y)) = xids_from_to b x y"
    and "distinct (xid_range x (xids_between x y))"
    and "card (xids_from_to b x y) = xids_between x y"
proof -
  obtain n where n: "xids_between x y = n" "ascending_from b (xid_range x n)"
      "set (xid_range x n) = {z. xid_window b z \<and> xid_dist b x \<le> xid_dist b z \<and> xid_dist b z \<le> xid_dist b y}"
    using xid_range_exact [OF assms] by auto
  show set: "set (xid_range x (xids_between x y)) = xids_from_to b x y"
    using assms by (auto simp: n xids_from_to_def)
  show dist: "distinct (xid_range x (xids_between x y))"
    using n ascending_from_distinct by simp
  show "card (xids_from_to b x y) = xids_between x y"
    using distinct_card [OF dist] by (simp add: set)
qed

lemma Add_max:
  "KnownAssignedXidsAdd x y t ka = Inr ka' \<Longrightarrow> known_ok b ka \<Longrightarrow>
     maxKnownAssignedXids ka' = maxKnownAssignedXids ka"
  using Compress_ok(3) [of b ka KAX_NO_SPACE t]
  by (auto simp: KnownAssignedXidsAdd_def Let_def split: if_splits prod.splits)

section \<open>Runs of the startup process\<close>

datatype startup_op =
    Add_Xids TransactionId TransactionId
  | Remove_Tree TransactionId "TransactionId list"
  | Remove_Preceding TransactionId
  | Compress_Array KAXCompressReason
  | Reset_Array

definition startup_step ::
  "(TransactionId \<Rightarrow> bool) \<Rightarrow> clock \<Rightarrow> startup_op \<Rightarrow> known_assigned \<Rightarrow>
   (known_error \<times> known_assigned) + known_assigned" where
  "startup_step is_prepared t op ka =
     (case op of
        Add_Xids from_xid to_xid \<Rightarrow> KnownAssignedXidsAdd from_xid to_xid t ka
      | Remove_Tree xid subxids \<Rightarrow> Inr (KnownAssignedXidsRemoveTree xid subxids t ka)
      | Remove_Preceding xid \<Rightarrow> Inr (KnownAssignedXidsRemovePreceding is_prepared xid t ka)
      | Compress_Array reason \<Rightarrow> Inr (KnownAssignedXidsCompress reason t ka)
      | Reset_Array \<Rightarrow> Inr (KnownAssignedXidsReset ka))"

fun startup_run ::
  "(TransactionId \<Rightarrow> bool) \<Rightarrow> (clock \<times> startup_op) list \<Rightarrow> known_assigned \<Rightarrow>
   (known_error \<times> known_assigned) + known_assigned" where
  "startup_run is_prepared [] ka = Inr ka"
| "startup_run is_prepared ((t, op) # ops) ka =
     (case startup_step is_prepared t op ka of
        Inl e \<Rightarrow> Inl e
      | Inr ka \<Rightarrow> startup_run is_prepared ops ka)"

text \<open>What the operations mean: the list of running xids, in the order of assignment.\<close>

definition running_step ::
  "(TransactionId \<Rightarrow> bool) \<Rightarrow> startup_op \<Rightarrow> TransactionId list \<Rightarrow> TransactionId list" where
  "running_step is_prepared op xs =
     (case op of
        Add_Xids from_xid to_xid \<Rightarrow> xs @ xid_range from_xid (xids_between from_xid to_xid)
      | Remove_Tree xid subxids \<Rightarrow> filter (\<lambda>v. v \<noteq> xid \<and> v \<notin> set subxids) xs
      | Remove_Preceding xid \<Rightarrow>
          (if TransactionIdIsValid xid
           then filter (\<lambda>v. is_prepared v \<or> \<not> TransactionIdPrecedes v xid) xs else [])
      | Compress_Array reason \<Rightarrow> xs
      | Reset_Array \<Rightarrow> [])"

definition startup_op_ok :: "TransactionId \<Rightarrow> startup_op \<Rightarrow> bool" where
  "startup_op_ok b op =
     (case op of
        Add_Xids from_xid to_xid \<Rightarrow>
          xid_window b from_xid \<and> xid_window b to_xid \<and> xid_dist b from_xid \<le> xid_dist b to_xid
      | Remove_Preceding xid \<Rightarrow> xid = InvalidTransactionId \<or> xid_window b xid
      | _ \<Rightarrow> True)"

lemma invalid_not_in_window: "xid_window b v \<Longrightarrow> v \<noteq> InvalidTransactionId"
  by (auto simp: xid_window_def TransactionIdIsNormal_def xid_consts)

lemma startup_step_ok:
  assumes ok: "known_ok b ka" and op: "startup_op_ok b op"
    and step: "startup_step is_prepared t op ka = Inr ka'"
  shows "known_ok b ka' \<and> valid_xids ka' = running_step is_prepared op (valid_xids ka)"
proof (cases op)
  case (Add_Xids from_xid to_xid)
  then show ?thesis
    using KnownAssignedXidsAdd_ok [OF ok, of from_xid to_xid t] op step
    by (simp add: startup_step_def startup_op_ok_def running_step_def)
next
  case (Remove_Tree xid subxids)
  have "\<forall>v \<in> set (valid_xids ka). v \<noteq> InvalidTransactionId"
    using valid_xids_ascending [OF ok] invalid_not_in_window
    by (auto simp: ascending_from_def list_all_iff)
  then have "filter (\<lambda>v. v \<noteq> InvalidTransactionId \<and> v \<notin> set subxids) (valid_xids ka) =
      filter (\<lambda>v. v \<notin> set subxids) (valid_xids ka)"
    by (auto intro: filter_cong)
  then show ?thesis
    using Remove_Tree step RemoveTree_ok [OF ok, of xid subxids t] RemoveTree_invalid_ok [OF ok, of subxids t]
    by (cases "xid = InvalidTransactionId")
      (auto simp: startup_step_def running_step_def TransactionIdIsValid_def)
next
  case (Remove_Preceding xid)
  then show ?thesis
    using op step RemovePreceding_ok [OF ok, of xid is_prepared t] RemovePreceding_all_ok [OF ok]
      invalid_not_in_window [of b xid]
    by (auto simp: startup_step_def running_step_def startup_op_ok_def TransactionIdIsValid_def)
next
  case (Compress_Array reason)
  then show ?thesis using Compress_ok [OF ok] step by (auto simp: startup_step_def running_step_def)
next
  case Reset_Array
  then show ?thesis using Reset_ok [OF ok] step by (auto simp: startup_step_def running_step_def)
qed

lemma startup_run_ok:
  "known_ok b ka \<Longrightarrow> list_all (startup_op_ok b \<circ> snd) ops \<Longrightarrow>
   startup_run is_prepared ops ka = Inr ka' \<Longrightarrow>
     known_ok b ka' \<and> valid_xids ka' = fold (running_step is_prepared \<circ> snd) ops (valid_xids ka)"
proof (induction ops arbitrary: ka)
  case (Cons a ops)
  obtain t op where a: "a = (t, op)" by force
  then obtain ka1 where step: "startup_step is_prepared t op ka = Inr ka1"
    and run: "startup_run is_prepared ops ka1 = Inr ka'"
    using Cons.prems(3) by (auto split: sum.splits)
  have "known_ok b ka1 \<and> valid_xids ka1 = running_step is_prepared op (valid_xids ka)"
    using startup_step_ok [OF Cons.prems(1) _ step] Cons.prems(2) a by simp
  then show ?case using Cons.IH [OF _ _ run] Cons.prems(2) a by simp
qed simp

section \<open>Properties\<close>

text \<open>
  C25: The known-assigned array refines the list of running xids: after any run of the startup
  process that raises no error (insertions, removal of transaction trees, pruning,
  compression at any time, reset) the array is well formed and the xids it holds are those of
  the same run on lists; a backend's lookup is then membership, the xids copied into a
  snapshot are the running ones before its \<open>xmax\<close>, and the oldest is the first. The clock, and
  so the heuristics that compress the array, have no influence.
\<close>

theorem known_assigned_refines_list:
  assumes "known_ok b ka" and "list_all (startup_op_ok b \<circ> snd) ops"
    and "startup_run is_prepared ops ka = Inr ka'" and "xid_window b xmax"
  shows "known_ok b ka' \<and>
    (let running = fold (running_step is_prepared \<circ> snd) ops (valid_xids ka) in
      (KnownAssignedXidExists xid ka' \<longleftrightarrow> xid \<in> set running) \<and>
      KnownAssignedXidsGet ka' xmax = filter (\<lambda>v. TransactionIdPrecedes v xmax) running \<and>
      KnownAssignedXidsGetOldestXmin ka' =
        (if running = [] then InvalidTransactionId else hd running) \<and>
      numKnownAssignedXids ka' = int (length running))"
proof -
  have run: "known_ok b ka'"
      "valid_xids ka' = fold (running_step is_prepared \<circ> snd) ops (valid_xids ka)"
    using startup_run_ok [OF assms(1-3)] by auto
  have "TransactionIdIsValid xmax"
    using invalid_not_in_window [OF assms(4)] by (simp add: TransactionIdIsValid_def)
  then have "KnownAssignedXidsGet ka' xmax = filter (\<lambda>v. TransactionIdPrecedes v xmax) (valid_xids ka')"
    using GetAndSetXmin_ok [OF run(1)] assms(4) by (simp add: KnownAssignedXidsGet_def)
  moreover have "KnownAssignedXidsGetOldestXmin ka' =
      (if valid_xids ka' = [] then InvalidTransactionId else hd (valid_xids ka'))"
    using GetOldestXmin_ok [OF run(1)] by (simp split: list.split)
  moreover have "numKnownAssignedXids ka' = int (length (valid_xids ka'))"
    using run(1) by (simp add: known_ok_def)
  ultimately show ?thesis
    using run KnownAssignedXidExists_iff [OF run(1)] by (simp add: Let_def)
qed

definition empty_known :: "nat \<Rightarrow> known_assigned" where
  "empty_known n =
     \<lparr> KnownAssignedXids = replicate n 0, KnownAssignedXidsValid = replicate n False,
       tailKnownAssignedXids = 0, headKnownAssignedXids = 0, numKnownAssignedXids = 0,
       maxKnownAssignedXids = n, transactionEndsCounter = 0, lastCompressTs = 0 \<rparr>"

lemma empty_known_ok: "known_ok b (empty_known n)" "valid_xids (empty_known n) = []"
  by (simp_all add: empty_known_def known_ok_def entries_ascend_def valid_xids_def)

lemma empty_known_fields:
  "headKnownAssignedXids (empty_known n) = 0" "maxKnownAssignedXids (empty_known n) = n"
  by (simp_all add: empty_known_def)

text \<open>An insertion across the wrap point into an array of four, then the end of one transaction.\<close>

definition sample_ops :: "(clock \<times> startup_op) list" where
  "sample_ops =
     [(\<lparr> clock_before = 1, clock_after = 2 \<rparr>, Add_Xids 0xFFFFFFFE 4),
      (\<lparr> clock_before = 3, clock_after = 4 \<rparr>, Remove_Tree 0xFFFFFFFF [3])]"

lemma sample_between: "xids_between 0xFFFFFFFE 4 = 4"
  by (simp add: xids_between_def count_xids.simps TransactionIdPrecedes_def TransactionIdAdvance_def
      TransactionIdIsNormal_def xid_consts)

lemma sample_window:
  "xid_window 0xFFFFFFF0 0xFFFFFFFE" "xid_window 0xFFFFFFF0 4" "xid_window 0xFFFFFFF0 7"
  "xid_dist 0xFFFFFFF0 0xFFFFFFFE \<le> xid_dist 0xFFFFFFF0 4"
  by (simp_all add: xid_window_def xid_dist_def TransactionIdIsNormal_def xid_consts)

lemma sample_run: "\<exists>ka'. startup_run (\<lambda>_. False) sample_ops (empty_known 4) = Inr ka'"
proof -
  have "\<exists>ka. KnownAssignedXidsAdd 0xFFFFFFFE 4 t (empty_known 4) = Inr ka" for t
    using KnownAssignedXidsAdd_ok [OF empty_known_ok(1) sample_window(1,2,4), of 4 t]
    by (auto simp: sample_between empty_known_ok(2) empty_known_fields
        split: sum.splits prod.splits known_error.splits)
  then obtain ka where "KnownAssignedXidsAdd 0xFFFFFFFE 4
      \<lparr> clock_before = 1, clock_after = 2 \<rparr> (empty_known 4) = Inr ka" by blast
  then show ?thesis by (simp add: sample_ops_def startup_step_def)
qed

theorem known_assigned_refines_list_witness:
  "\<exists>ka'. startup_run (\<lambda>_. False) sample_ops (empty_known 4) = Inr ka' \<and>
     KnownAssignedXidExists 4 ka' \<and> \<not> KnownAssignedXidExists 3 ka'"
proof -
  obtain ka' where run: "startup_run (\<lambda>_. False) sample_ops (empty_known 4) = Inr ka'"
    using sample_run by blast
  have ops: "list_all (startup_op_ok 0xFFFFFFF0 \<circ> snd) sample_ops"
    using sample_window by (simp add: sample_ops_def startup_op_ok_def)
  have "xid_range 0xFFFFFFFE (Suc (Suc (Suc (Suc 0)))) = [0xFFFFFFFE, 0xFFFFFFFF, 3, 4]"
    unfolding xid_range_Suc by (simp add: xid_range_def TransactionIdAdvance_def xid_consts)
  then have "xid_range 0xFFFFFFFE 4 = [0xFFFFFFFE, 0xFFFFFFFF, 3, 4]"
    by (simp only: Suc_1 [symmetric] eval_nat_numeral BitM.simps One_nat_def)
  then have running: "fold (running_step (\<lambda>_. False) \<circ> snd) sample_ops [] = [0xFFFFFFFE, 4]"
    by (simp add: sample_ops_def running_step_def sample_between)
  show ?thesis
    using known_assigned_refines_list [OF empty_known_ok(1) ops run sample_window(3)] run running
    by (simp add: empty_known_ok(2) Let_def)
qed

text \<open>
  C39: Insertion fails only for the two reasons it reports. It appends exactly the xids from
  \<open>from_xid\<close> to \<open>to_xid\<close>, across the wrap point if need be; it reports too many xids exactly when the
  valid ones and the new ones do not fit the array, even after compression, and then has lost
  none; and it reports an order violation only when the last entry, valid or not, does not
  precede \<open>from_xid\<close>.
\<close>

theorem KnownAssignedXidsAdd_exact:
  assumes "known_ok b ka" "xid_window b from_xid" "xid_window b to_xid"
    and "xid_dist b from_xid \<le> xid_dist b to_xid"
  shows "(case KnownAssignedXidsAdd from_xid to_xid t ka of
            Inr ka' \<Rightarrow> known_ok b ka' \<and>
              (\<exists>added. valid_xids ka' = valid_xids ka @ added \<and> distinct added \<and>
                 set added = xids_from_to b from_xid to_xid) \<and>
              length (valid_xids ka) + card (xids_from_to b from_xid to_xid) \<le> maxKnownAssignedXids ka
          | Inl (TooManyKnownAssignedXids, ka') \<Rightarrow>
              known_ok b ka' \<and> valid_xids ka' = valid_xids ka \<and>
              length (valid_xids ka) + card (xids_from_to b from_xid to_xid) > maxKnownAssignedXids ka
          | Inl (OutOfOrderInsertion, ka') \<Rightarrow>
              ka' = ka \<and> headKnownAssignedXids ka > 0 \<and>
              TransactionIdPrecedesOrEquals from_xid
                (KnownAssignedXids ka ! (headKnownAssignedXids ka - 1)))"
proof (cases "KnownAssignedXidsAdd from_xid to_xid t ka")
  case (Inl e)
  then show ?thesis
    using KnownAssignedXidsAdd_ok [OF assms, of t] xid_range_set(3) [OF assms(2-4)] assms(2)
    by (auto split: prod.splits known_error.splits)
next
  case (Inr ka')
  then have "known_ok b ka'"
      "valid_xids ka' = valid_xids ka @ xid_range from_xid (xids_between from_xid to_xid)"
    using KnownAssignedXidsAdd_ok [OF assms, of t] by simp_all
  moreover from this have "length (valid_xids ka) + xids_between from_xid to_xid \<le> maxKnownAssignedXids ka"
    using valid_xids_fit [of b ka'] Add_max [OF Inr assms(1)] by simp
  ultimately show ?thesis using Inr xid_range_set [OF assms(2-4)] by simp
qed

theorem KnownAssignedXidsAdd_exact_witness:
  "\<exists>ka'. KnownAssignedXidsAdd 0xFFFFFFFE 4 \<lparr> clock_before = 1, clock_after = 2 \<rparr> (empty_known 3) =
     Inl (TooManyKnownAssignedXids, ka') \<and> valid_xids ka' = []"
  using KnownAssignedXidsAdd_exact [OF empty_known_ok(1) sample_window(1,2,4),
      of 3 "\<lparr> clock_before = 1, clock_after = 2 \<rparr>"]
    xid_range_set(3) [OF sample_window(1,2,4)]
  by (auto simp: empty_known_ok(2) sample_between empty_known_fields
      split: sum.splits prod.splits known_error.splits)

end
