(* ===== verification/Proc_Array.thy ===== *)
theory Proc_Array
  imports Snapshot Sub_Trans Xact_State Known_Assigned
begin

text \<open>
  The array of running backends (\<^verbatim>\<open>src/backend/storage/ipc/procarray.c\<close>, with the structures
  of \<^verbatim>\<open>src/include/storage/proc.h\<close>) and the assignment of transaction ids
  (\<^verbatim>\<open>src/backend/access/transam/varsup.c\<close>). A backend is known by the number of its \<open>PGPROC\<close>;
  three dense arrays mirror fields of the \<open>PGPROC\<close>s in the array, which hold their own index
  there (\<open>pgxactoff\<close>). The dense arrays are lists of exactly \<open>numProcs\<close> elements.

  Every section that the code runs under its locks is one step. The group clearing of xids
  performs the same internal routine for each member. Signals, warnings, commit timestamps
  and the "snapshot too old" fields are left out.
\<close>

section \<open>Shared state\<close>

definition PGPROC_MAX_CACHED_SUBXIDS :: nat where "PGPROC_MAX_CACHED_SUBXIDS = 64"

record XidCacheStatus =
  xc_count :: nat
  xc_overflowed :: bool

record PGPROC =
  proc_xid :: TransactionId
  proc_xmin :: TransactionId
  proc_lxid :: uint32
  pgxactoff :: nat
  proc_pid :: nat
  proc_backendId :: int
  proc_databaseId :: uint32
  recoveryConflictPending :: bool
  delayChkptFlags :: nat
  proc_statusFlags :: uint8
  subxidStatus :: XidCacheStatus
  cached_subxids :: "TransactionId list"

definition PROC_IN_VACUUM :: uint8 where "PROC_IN_VACUUM = 0x02"
definition PROC_IN_SAFE_IC :: uint8 where "PROC_IN_SAFE_IC = 0x04"
definition PROC_VACUUM_FOR_WRAPAROUND :: uint8 where "PROC_VACUUM_FOR_WRAPAROUND = 0x08"
definition PROC_IN_LOGICAL_DECODING :: uint8 where "PROC_IN_LOGICAL_DECODING = 0x10"
definition PROC_AFFECTS_ALL_HORIZONS :: uint8 where "PROC_AFFECTS_ALL_HORIZONS = 0x20"
definition PROC_VACUUM_STATE_MASK :: uint8 where
  "PROC_VACUUM_STATE_MASK = PROC_IN_VACUUM OR PROC_IN_SAFE_IC OR PROC_VACUUM_FOR_WRAPAROUND"

text \<open>The process array, the dense arrays, the variable cache and the transaction logs.\<close>

record proc_array =
  allProcs :: "nat \<Rightarrow> PGPROC"
  pgprocnos :: "nat list"
  dense_xids :: "TransactionId list"
  dense_subxidStates :: "XidCacheStatus list"
  dense_statusFlags :: "uint8 list"
  maxProcs :: nat
  lastOverflowedXid :: TransactionId
  replication_slot_xmin :: TransactionId
  replication_slot_catalog_xmin :: TransactionId
  known_xids :: known_assigned
  nextXid :: FullTransactionId
  oldestXid :: TransactionId
  xidVacLimit :: TransactionId
  xidStopLimit :: TransactionId
  latestCompletedXid :: FullTransactionId
  xactCompletionCount :: uint64
  log_clog :: clog_state
  log_subtrans :: subtrans_state
  RecoveryInProgress :: bool

abbreviation numProcs :: "proc_array \<Rightarrow> nat" where
  "numProcs st \<equiv> length (pgprocnos st)"

abbreviation update_proc :: "nat \<Rightarrow> (PGPROC \<Rightarrow> PGPROC) \<Rightarrow> proc_array \<Rightarrow> proc_array" where
  "update_proc procno f st \<equiv> st\<lparr> allProcs := (allProcs st)(procno := f (allProcs st procno)) \<rparr>"

section \<open>Joining and leaving the array\<close>

definition insert_at :: "nat \<Rightarrow> 'a \<Rightarrow> 'a list \<Rightarrow> 'a list" where
  "insert_at i x xs = take i xs @ x # drop i xs"

definition delete_at :: "nat \<Rightarrow> 'a list \<Rightarrow> 'a list" where
  "delete_at i xs = take i xs @ drop (Suc i) xs"

text \<open>The loops that adjust \<open>pgxactoff\<close> of the \<open>PGPROC\<close>s from index \<open>i\<close> on.\<close>

definition set_pgxactoff :: "nat \<Rightarrow> proc_array \<Rightarrow> proc_array" where
  "set_pgxactoff index st = update_proc (pgprocnos st ! index) (pgxactoff_update (\<lambda>_. index)) st"

definition renumber_from :: "nat \<Rightarrow> proc_array \<Rightarrow> proc_array" where
  "renumber_from i st = fold set_pgxactoff [i..<numProcs st] st"

datatype proc_error =
    TooManyClients
  | AssignDuringParallel
  | AssignDuringRecovery
  | WraparoundLimit

definition ProcArrayAdd :: "nat \<Rightarrow> proc_array \<Rightarrow> proc_error + proc_array" where
  "ProcArrayAdd procno st =
     (if numProcs st \<ge> maxProcs st then Inl TooManyClients
      else
        let index = length (takeWhile (\<lambda>p. \<not> p > procno) (pgprocnos st));
            proc = allProcs st procno;
            st = st\<lparr> pgprocnos := insert_at index procno (pgprocnos st),
                     allProcs := (allProcs st)(procno := proc\<lparr> pgxactoff := index \<rparr>),
                     dense_xids := insert_at index (proc_xid proc) (dense_xids st),
                     dense_subxidStates := insert_at index (subxidStatus proc) (dense_subxidStates st),
                     dense_statusFlags := insert_at index (proc_statusFlags proc) (dense_statusFlags st) \<rparr>
        in Inr (renumber_from (index + 1) st))"

definition MaintainLatestCompletedXid :: "TransactionId \<Rightarrow> proc_array \<Rightarrow> proc_array" where
  "MaintainLatestCompletedXid latestXid st =
     (let cur_latest = latestCompletedXid st in
      if TransactionIdPrecedes (XidFromFullTransactionId cur_latest) latestXid
      then st\<lparr> latestCompletedXid := FullXidRelativeTo cur_latest latestXid \<rparr>
      else st)"

text \<open>\<open>latestXid\<close> is valid for a prepared transaction that is removed while it still runs.\<close>

definition ProcArrayRemove :: "nat \<Rightarrow> TransactionId \<Rightarrow> proc_array \<Rightarrow> proc_array" where
  "ProcArrayRemove procno latestXid st =
     (let myoff = pgxactoff (allProcs st procno);
          st = (if TransactionIdIsValid latestXid
                then let st = MaintainLatestCompletedXid latestXid st in
                     st\<lparr> xactCompletionCount := xactCompletionCount st + 1,
                         dense_xids := (dense_xids st)[myoff := InvalidTransactionId],
                         dense_subxidStates := (dense_subxidStates st)
                           [myoff := \<lparr> xc_count = 0, xc_overflowed = False \<rparr>] \<rparr>
                else st);
          st = st\<lparr> dense_statusFlags := (dense_statusFlags st)[myoff := 0] \<rparr>;
          st = st\<lparr> pgprocnos := delete_at myoff (pgprocnos st),
                   dense_xids := delete_at myoff (dense_xids st),
                   dense_subxidStates := delete_at myoff (dense_subxidStates st),
                   dense_statusFlags := delete_at myoff (dense_statusFlags st) \<rparr>
      in renumber_from myoff st)"

section \<open>The end of a transaction\<close>

text \<open>Clearing the vacuum flags, in the \<open>PGPROC\<close> and in the mirror.\<close>

definition clear_vacuum_flags :: "nat \<Rightarrow> proc_array \<Rightarrow> proc_array" where
  "clear_vacuum_flags procno st =
     (let proc = allProcs st procno in
      if proc_statusFlags proc AND PROC_VACUUM_STATE_MASK \<noteq> 0
      then let flags = proc_statusFlags proc AND NOT PROC_VACUUM_STATE_MASK in
           (update_proc procno (proc_statusFlags_update (\<lambda>_. flags)) st)
             \<lparr> dense_statusFlags := (dense_statusFlags st)[pgxactoff proc := flags] \<rparr>
      else st)"

definition clear_subxid_cache :: "nat \<Rightarrow> proc_array \<Rightarrow> proc_array" where
  "clear_subxid_cache procno st =
     (let proc = allProcs st procno; status = subxidStatus proc in
      if xc_count status > 0 \<or> xc_overflowed status
      then (update_proc procno (subxidStatus_update (\<lambda>_. \<lparr> xc_count = 0, xc_overflowed = False \<rparr>)) st)
             \<lparr> dense_subxidStates := (dense_subxidStates st)
                 [pgxactoff proc := \<lparr> xc_count = 0, xc_overflowed = False \<rparr>] \<rparr>
      else st)"

definition ProcArrayEndTransactionInternal :: "nat \<Rightarrow> TransactionId \<Rightarrow> proc_array \<Rightarrow> proc_array" where
  "ProcArrayEndTransactionInternal procno latestXid st =
     (let off = pgxactoff (allProcs st procno);
          st = st\<lparr> dense_xids := (dense_xids st)[off := InvalidTransactionId] \<rparr>;
          st = update_proc procno (\<lambda>proc. proc\<lparr> proc_xid := InvalidTransactionId, proc_lxid := 0,
                 proc_xmin := InvalidTransactionId, delayChkptFlags := 0,
                 recoveryConflictPending := False \<rparr>) st;
          st = clear_vacuum_flags procno st;
          st = clear_subxid_cache procno st;
          st = MaintainLatestCompletedXid latestXid st
      in st\<lparr> xactCompletionCount := xactCompletionCount st + 1 \<rparr>)"

definition ProcArrayEndTransaction :: "nat \<Rightarrow> TransactionId \<Rightarrow> proc_array \<Rightarrow> proc_array" where
  "ProcArrayEndTransaction procno latestXid st =
     (if TransactionIdIsValid latestXid then ProcArrayEndTransactionInternal procno latestXid st
      else let st = update_proc procno (\<lambda>proc. proc\<lparr> proc_lxid := 0,
                      proc_xmin := InvalidTransactionId, delayChkptFlags := 0,
                      recoveryConflictPending := False \<rparr>) st
           in clear_vacuum_flags procno st)"

definition ProcArrayClearTransaction :: "nat \<Rightarrow> proc_array \<Rightarrow> proc_array" where
  "ProcArrayClearTransaction procno st =
     (let off = pgxactoff (allProcs st procno);
          st = st\<lparr> dense_xids := (dense_xids st)[off := InvalidTransactionId] \<rparr>;
          st = update_proc procno (\<lambda>proc. proc\<lparr> proc_xid := InvalidTransactionId, proc_lxid := 0,
                 proc_xmin := InvalidTransactionId, recoveryConflictPending := False \<rparr>) st;
          st = st\<lparr> xactCompletionCount := xactCompletionCount st + 1 \<rparr>
      in clear_subxid_cache procno st)"

section \<open>Aborted subtransactions\<close>

text \<open>The search from the end of the cache, among the first \<open>n\<close> entries.\<close>

fun find_cached :: "TransactionId list \<Rightarrow> TransactionId \<Rightarrow> nat \<Rightarrow> nat option" where
  "find_cached cache x 0 = None"
| "find_cached cache x (Suc j) = (if cache ! j = x then Some j else find_cached cache x j)"

definition remove_cached :: "nat \<Rightarrow> TransactionId \<Rightarrow> proc_array \<Rightarrow> proc_array" where
  "remove_cached procno anxid st =
     (let proc = allProcs st procno; count = xc_count (subxidStatus proc) in
      case find_cached (cached_subxids proc) anxid count of
        None \<Rightarrow> st
      | Some j \<Rightarrow>
          let off = pgxactoff proc; mine = dense_subxidStates st ! off in
          (update_proc procno (\<lambda>proc. proc\<lparr>
             cached_subxids := (cached_subxids proc)[j := cached_subxids proc ! (count - 1)],
             subxidStatus := (subxidStatus proc)\<lparr> xc_count := count - 1 \<rparr> \<rparr>) st)
            \<lparr> dense_subxidStates := (dense_subxidStates st)
                [off := mine\<lparr> xc_count := xc_count mine - 1 \<rparr>] \<rparr>)"

definition XidCacheRemoveRunningXids ::
  "nat \<Rightarrow> TransactionId \<Rightarrow> TransactionId list \<Rightarrow> TransactionId \<Rightarrow> proc_array \<Rightarrow> proc_array" where
  "XidCacheRemoveRunningXids procno xid xids latestXid st =
     (let st = fold (remove_cached procno) (rev xids) st;
          st = remove_cached procno xid st;
          st = MaintainLatestCompletedXid latestXid st
      in st\<lparr> xactCompletionCount := xactCompletionCount st + 1 \<rparr>)"

section \<open>Assigning a transaction id\<close>

definition GetNewTransactionId ::
  "bool \<Rightarrow> bool \<Rightarrow> bool \<Rightarrow> bool \<Rightarrow> nat \<Rightarrow> proc_array \<Rightarrow> proc_error + (FullTransactionId \<times> proc_array)" where
  "GetNewTransactionId IsInParallelMode IsBootstrapProcessingMode IsUnderPostmaster isSubXact procno st =
     (if IsInParallelMode then Inl AssignDuringParallel
      else if IsBootstrapProcessingMode
      then Inr (FullTransactionIdFromEpochAndXid 0 BootstrapTransactionId,
                (update_proc procno (proc_xid_update (\<lambda>_. BootstrapTransactionId)) st)
                  \<lparr> dense_xids := (dense_xids st)
                      [pgxactoff (allProcs st procno) := BootstrapTransactionId] \<rparr>)
      else if RecoveryInProgress st then Inl AssignDuringRecovery
      else
        let full_xid = nextXid st; xid = XidFromFullTransactionId full_xid in
        if TransactionIdFollowsOrEquals xid (xidVacLimit st) \<and> IsUnderPostmaster \<and>
           TransactionIdFollowsOrEquals xid (xidStopLimit st)
        then Inl WraparoundLimit
        else
          let st = st\<lparr> log_clog := ExtendCLOG xid (log_clog st),
                       log_subtrans := ExtendSUBTRANS xid (log_subtrans st),
                       nextXid := FullTransactionIdAdvance (nextXid st) \<rparr>;
              off = pgxactoff (allProcs st procno);
              nxids = xc_count (subxidStatus (allProcs st procno)) in
          if \<not> isSubXact
          then Inr (full_xid, (update_proc procno (proc_xid_update (\<lambda>_. xid)) st)
                     \<lparr> dense_xids := (dense_xids st)[off := xid] \<rparr>)
          else if nxids < PGPROC_MAX_CACHED_SUBXIDS
          then Inr (full_xid, (update_proc procno (\<lambda>proc. proc\<lparr>
                       cached_subxids := (cached_subxids proc)[nxids := xid],
                       subxidStatus := (subxidStatus proc)\<lparr> xc_count := nxids + 1 \<rparr> \<rparr>) st)
                     \<lparr> dense_subxidStates := (dense_subxidStates st)
                         [off := (dense_subxidStates st ! off)\<lparr> xc_count := nxids + 1 \<rparr>] \<rparr>)
          else Inr (full_xid, (update_proc procno (\<lambda>proc. proc\<lparr>
                       subxidStatus := (subxidStatus proc)\<lparr> xc_overflowed := True \<rparr> \<rparr>) st)
                     \<lparr> dense_subxidStates := (dense_subxidStates st)
                         [off := (dense_subxidStates st ! off)\<lparr> xc_overflowed := True \<rparr>] \<rparr>))"

end
