(* ===== verification/Proc_Snapshot.thy ===== *)
theory Proc_Snapshot
  imports Proc_Array
begin

text \<open>
  What a backend reads from the process array: whether a transaction is in progress, and the
  snapshot of all running transactions (\<open>TransactionIdIsInProgress\<close>, \<open>GetSnapshotData\<close> and
  their helpers in \<^verbatim>\<open>src/backend/storage/ipc/procarray.c\<close>), with the backend's own variables.
\<close>

section \<open>The backend\<close>

text \<open>\<open>my_TransactionXmin\<close> is the variable \<open>TransactionXmin\<close>; \<open>xact_logs\<close> has a component of that name.\<close>

record backend =
  MyProc :: nat
  RecentXmin :: TransactionId
  my_TransactionXmin :: TransactionId
  cachedXidIsNotInProgress :: TransactionId
  my_xact :: xact_state
  my_cache :: fetch_cache
  my_vis :: global_vis

definition backend_logs :: "proc_array \<Rightarrow> backend \<Rightarrow> xact_logs" where
  "backend_logs st be =
     \<lparr> clog = log_clog st, subtrans = log_subtrans st, TransactionXmin = my_TransactionXmin be \<rparr>"

section \<open>TransactionIdIsInProgress\<close>

text \<open>
  The loop over the array: \<open>None\<close> when it finds the xid, else the main xids of the backends
  whose cache of children has overflowed.
\<close>

fun in_progress_scan ::
  "proc_array \<Rightarrow> nat \<Rightarrow> TransactionId \<Rightarrow> nat list \<Rightarrow> TransactionId list \<Rightarrow> TransactionId list option" where
  "in_progress_scan st mypgxactoff xid [] xids = Some xids"
| "in_progress_scan st mypgxactoff xid (off # offs) xids =
     (if off = mypgxactoff then in_progress_scan st mypgxactoff xid offs xids
      else let pxid = dense_xids st ! off in
           if \<not> TransactionIdIsValid pxid then in_progress_scan st mypgxactoff xid offs xids
           else if pxid = xid then None
           else if TransactionIdPrecedes xid pxid then in_progress_scan st mypgxactoff xid offs xids
           else let pxids = xc_count (dense_subxidStates st ! off);
                    proc = allProcs st (pgprocnos st ! off) in
                if find_cached (cached_subxids proc) xid pxids \<noteq> None then None
                else if xc_overflowed (dense_subxidStates st ! off)
                then in_progress_scan st mypgxactoff xid offs (xids @ [pxid])
                else in_progress_scan st mypgxactoff xid offs xids)"

text \<open>
  Step 4, after the lock has been released. \<open>None\<close> would be a search that does not end, \<open>Inl\<close> is
  the error of a corrupted subtransaction log.
\<close>

definition in_progress_by_parent ::
  "proc_array \<Rightarrow> backend \<Rightarrow> TransactionId \<Rightarrow> TransactionId list \<Rightarrow>
   ((xact_error + bool) \<times> backend) option" where
  "in_progress_by_parent st be xid xids =
     (case TransactionIdDidAbort (backend_logs st be) xid (my_cache be) of
        None \<Rightarrow> None
      | Some (aborted, cache) \<Rightarrow>
          let be = be\<lparr> my_cache := cache \<rparr> in
          if aborted then Some (Inr False, be\<lparr> cachedXidIsNotInProgress := xid \<rparr>)
          else (case SubTransGetTopmostTransaction (my_TransactionXmin be) (log_subtrans st) xid of
                 None \<Rightarrow> None
               | Some (Inl e) \<Rightarrow> Some (Inl e, be)
               | Some (Inr topxid) \<Rightarrow>
                   if topxid \<noteq> xid \<and> topxid \<in> set xids then Some (Inr True, be)
                   else Some (Inr False, be\<lparr> cachedXidIsNotInProgress := xid \<rparr>)))"

definition TransactionIdIsInProgress ::
  "proc_array \<Rightarrow> backend \<Rightarrow> TransactionId \<Rightarrow> ((xact_error + bool) \<times> backend) option" where
  "TransactionIdIsInProgress st be xid =
     (if TransactionIdPrecedes xid (RecentXmin be) then Some (Inr False, be)
      else if cachedXidIsNotInProgress be = xid then Some (Inr False, be)
      else if TransactionIdIsCurrentTransactionId (my_xact be) xid then Some (Inr True, be)
      else if TransactionIdPrecedes (XidFromFullTransactionId (latestCompletedXid st)) xid
      then Some (Inr True, be)
      else
        let mypgxactoff = pgxactoff (allProcs st (MyProc be)) in
        case in_progress_scan st mypgxactoff xid [0..<numProcs st] [] of
          None \<Rightarrow> Some (Inr True, be)
        | Some xids \<Rightarrow>
            if RecoveryInProgress st \<and> KnownAssignedXidExists xid (known_xids st)
            then Some (Inr True, be)
            else
              let xids = (if RecoveryInProgress st \<and>
                             TransactionIdPrecedesOrEquals xid (lastOverflowedXid st)
                          then KnownAssignedXidsGet (known_xids st) xid else xids) in
              if xids = [] then Some (Inr False, be\<lparr> cachedXidIsNotInProgress := xid \<rparr>)
              else in_progress_by_parent st be xid xids)"

section \<open>GetSnapshotData\<close>

definition NormalTransactionIdPrecedes :: "TransactionId \<Rightarrow> TransactionId \<Rightarrow> bool" where
  "NormalTransactionIdPrecedes id1 id2 \<longleftrightarrow> sint (id1 - id2) < 0"

text \<open>What the loop over the process array collects.\<close>

record snapshot_scan =
  scan_xmin :: TransactionId
  scan_xip :: "TransactionId list"
  scan_subxip :: "TransactionId list"
  scan_overflowed :: bool

definition scan_proc :: "proc_array \<Rightarrow> nat \<Rightarrow> TransactionId \<Rightarrow> nat \<Rightarrow> snapshot_scan \<Rightarrow> snapshot_scan" where
  "scan_proc st mypgxactoff xmax off acc =
     (let xid = dense_xids st ! off in
      if xid = InvalidTransactionId then acc
      else if off = mypgxactoff then acc
      else if \<not> NormalTransactionIdPrecedes xid xmax then acc
      else if dense_statusFlags st ! off AND (PROC_IN_LOGICAL_DECODING OR PROC_IN_VACUUM) \<noteq> 0 then acc
      else
        let acc = (if NormalTransactionIdPrecedes xid (scan_xmin acc)
                   then acc\<lparr> scan_xmin := xid \<rparr> else acc);
            acc = acc\<lparr> scan_xip := scan_xip acc @ [xid] \<rparr>;
            status = dense_subxidStates st ! off in
        if scan_overflowed acc then acc
        else if xc_overflowed status then acc\<lparr> scan_overflowed := True \<rparr>
        else let proc = allProcs st (pgprocnos st ! off) in
             acc\<lparr> scan_subxip := scan_subxip acc @ take (xc_count status) (cached_subxids proc) \<rparr>)"

definition GetSnapshotDataReuse ::
  "CommandId \<Rightarrow> SnapshotData \<Rightarrow> proc_array \<Rightarrow> backend \<Rightarrow> (SnapshotData \<times> proc_array \<times> backend) option" where
  "GetSnapshotDataReuse cid snapshot st be =
     (if snapXactCompletionCount snapshot = 0 then None
      else if xactCompletionCount st \<noteq> snapXactCompletionCount snapshot then None
      else
        let install = \<not> TransactionIdIsValid (proc_xmin (allProcs st (MyProc be)));
            st = (if install
                  then update_proc (MyProc be) (proc_xmin_update (\<lambda>_. snap_xmin snapshot)) st else st);
            be = (if install then be\<lparr> my_TransactionXmin := snap_xmin snapshot \<rparr> else be)
        in Some (snapshot\<lparr> curcid := cid \<rparr>, st, be\<lparr> RecentXmin := snap_xmin snapshot \<rparr>))"

definition TransactionIdRetreatedBy :: "TransactionId \<Rightarrow> uint32 \<Rightarrow> TransactionId" where
  "TransactionIdRetreatedBy xid amount = retreat_loop (xid - amount)"

definition TransactionIdRetreatSafely ::
  "TransactionId \<Rightarrow> nat \<Rightarrow> FullTransactionId \<Rightarrow> TransactionId" where
  "TransactionIdRetreatSafely original_xid retreat_by rel =
     (if retreat_by = 0 then original_xid
      else let fxid_i = full_value (FullXidRelativeTo rel original_xid) in
           if fxid_i - ucast FirstNormalTransactionId \<le> of_nat retreat_by
           then FirstNormalTransactionId
           else TransactionIdRetreatedBy original_xid (of_nat retreat_by))"

definition TransactionIdOlder :: "TransactionId \<Rightarrow> TransactionId \<Rightarrow> TransactionId" where
  "TransactionIdOlder a b =
     (if \<not> TransactionIdIsValid a then b
      else if \<not> TransactionIdIsValid b then a
      else if TransactionIdPrecedes a b then a
      else b)"

text \<open>The part that maintains the bounds of the visibility horizons.\<close>

definition maintain_global_vis ::
  "nat \<Rightarrow> proc_array \<Rightarrow> TransactionId \<Rightarrow> TransactionId \<Rightarrow> global_vis \<Rightarrow> global_vis" where
  "maintain_global_vis vacuum_defer_cleanup_age st myxid xmin g =
     (let latest_done = latestCompletedXid st;
          oldestfxid = FullXidRelativeTo latest_done (oldestXid st);
          def_vis_xid_data = TransactionIdRetreatSafely xmin vacuum_defer_cleanup_age oldestfxid;
          def_vis_xid_data = TransactionIdOlder def_vis_xid_data (replication_slot_xmin st);
          def_vis_xid = TransactionIdOlder (replication_slot_catalog_xmin st) def_vis_xid_data;
          def_vis_fxid = FullXidRelativeTo latest_done def_vis_xid;
          def_vis_fxid_data = FullXidRelativeTo latest_done def_vis_xid_data;
          temp = (if TransactionIdIsNormal myxid then FullXidRelativeTo latest_done myxid
                  else FullTransactionIdAdvance latest_done);
          bounds = (\<lambda>def old.
            \<lparr> definitely_needed = FullTransactionIdNewer def (definitely_needed old),
              maybe_needed = FullTransactionIdNewer (maybe_needed old) oldestfxid \<rparr>)
      in g\<lparr> GlobalVisSharedRels := bounds def_vis_fxid (GlobalVisSharedRels g),
            GlobalVisCatalogRels := bounds def_vis_fxid (GlobalVisCatalogRels g),
            GlobalVisDataRels := bounds def_vis_fxid_data (GlobalVisDataRels g),
            GlobalVisTempRels := \<lparr> definitely_needed = temp, maybe_needed = temp \<rparr> \<rparr>)"

text \<open>The snapshot when the previous one cannot be reused.\<close>

definition build_snapshot ::
  "CommandId \<Rightarrow> nat \<Rightarrow> SnapshotData \<Rightarrow> proc_array \<Rightarrow> backend \<Rightarrow> SnapshotData \<times> proc_array \<times> backend" where
  "build_snapshot cid vacuum_defer_cleanup_age snapshot st be =
     (let mypgxactoff = pgxactoff (allProcs st (MyProc be));
          myxid = dense_xids st ! mypgxactoff;
          xmax = TransactionIdAdvance (XidFromFullTransactionId (latestCompletedXid st));
          xmin = (if TransactionIdIsNormal myxid \<and> NormalTransactionIdPrecedes myxid xmax
                  then myxid else xmax);
          acc = (if \<not> RecoveryInProgress st
                 then fold (scan_proc st mypgxactoff xmax) [0..<numProcs st]
                        \<lparr> scan_xmin = xmin, scan_xip = [], scan_subxip = [], scan_overflowed = False \<rparr>
                 else let (subxids, xmin) = KnownAssignedXidsGetAndSetXmin (known_xids st) xmin xmax
                      in \<lparr> scan_xmin = xmin, scan_xip = [], scan_subxip = subxids,
                           scan_overflowed = TransactionIdPrecedesOrEquals xmin (lastOverflowedXid st) \<rparr>);
          xmin = scan_xmin acc;
          install = \<not> TransactionIdIsValid (proc_xmin (allProcs st (MyProc be)));
          st' = (if install then update_proc (MyProc be) (proc_xmin_update (\<lambda>_. xmin)) st else st);
          be = (if install then be\<lparr> my_TransactionXmin := xmin \<rparr> else be);
          be = be\<lparr> my_vis := maintain_global_vis vacuum_defer_cleanup_age st myxid xmin (my_vis be),
                   RecentXmin := xmin \<rparr>;
          snapshot = snapshot\<lparr> takenDuringRecovery := RecoveryInProgress st,
            snap_xmin := xmin, snap_xmax := xmax, xip := scan_xip acc, subxip := scan_subxip acc,
            suboverflowed := scan_overflowed acc,
            snapXactCompletionCount := xactCompletionCount st, curcid := cid \<rparr>
      in (snapshot, st', be))"

definition GetSnapshotData ::
  "CommandId \<Rightarrow> nat \<Rightarrow> SnapshotData \<Rightarrow> proc_array \<Rightarrow> backend \<Rightarrow> SnapshotData \<times> proc_array \<times> backend" where
  "GetSnapshotData cid vacuum_defer_cleanup_age snapshot st be =
     (case GetSnapshotDataReuse cid snapshot st be of
        Some r \<Rightarrow> r
      | None \<Rightarrow> build_snapshot cid vacuum_defer_cleanup_age snapshot st be)"

end
