(* ===== verification/Proc_Array_Inv.thy ===== *)
theory Proc_Array_Inv
  imports Proc_Array "HOL-Library.Multiset"
begin

text \<open>
  The dense arrays mirror the \<open>PGPROC\<close>s. \<open>mirror_ok\<close> is the invariant, \<open>proc_step\<close> the steps of
  the backends on the array; every step keeps the invariant, and each operation is shown to be
  an update of one member (\<open>update_member\<close>), of which the mirrors follow.
\<close>

section \<open>The invariant\<close>

text \<open>The cache of children is an array of fixed size; a process without xid has no children.\<close>

definition proc_ok :: "PGPROC \<Rightarrow> bool" where
  "proc_ok p \<longleftrightarrow>
     length (cached_subxids p) = PGPROC_MAX_CACHED_SUBXIDS \<and>
     xc_count (subxidStatus p) \<le> PGPROC_MAX_CACHED_SUBXIDS \<and>
     (\<not> TransactionIdIsValid (proc_xid p) \<longrightarrow>
        xc_count (subxidStatus p) = 0 \<and> \<not> xc_overflowed (subxidStatus p))"

definition mirrors :: "proc_array \<Rightarrow> nat \<Rightarrow> PGPROC \<Rightarrow> bool" where
  "mirrors st i p \<longleftrightarrow>
     pgxactoff p = i \<and> dense_xids st ! i = proc_xid p \<and>
     dense_subxidStates st ! i = subxidStatus p \<and> dense_statusFlags st ! i = proc_statusFlags p"

definition mirror_ok :: "proc_array \<Rightarrow> bool" where
  "mirror_ok st \<longleftrightarrow>
     length (dense_xids st) = numProcs st \<and> length (dense_subxidStates st) = numProcs st \<and>
     length (dense_statusFlags st) = numProcs st \<and> numProcs st \<le> maxProcs st \<and>
     sorted_wrt (<) (pgprocnos st) \<and>
     (\<forall>i < numProcs st. mirrors st i (allProcs st (pgprocnos st ! i)) \<and>
        proc_ok (allProcs st (pgprocnos st ! i)))"

lemma mirror_ok_other_fields [simp]:
  "mirror_ok (st\<lparr> latestCompletedXid := x \<rparr>) = mirror_ok st"
  "mirror_ok (st\<lparr> xactCompletionCount := c \<rparr>) = mirror_ok st"
  "mirror_ok (st\<lparr> nextXid := x \<rparr>) = mirror_ok st"
  "mirror_ok (st\<lparr> log_clog := l \<rparr>) = mirror_ok st"
  "mirror_ok (st\<lparr> log_subtrans := l' \<rparr>) = mirror_ok st"
  by (simp_all add: mirror_ok_def mirrors_def)

lemma mirror_distinct: "mirror_ok st \<Longrightarrow> distinct (pgprocnos st)"
  by (auto simp: mirror_ok_def strict_sorted_iff)

lemma mirror_member:
  assumes "mirror_ok st" "procno \<in> set (pgprocnos st)"
  shows "pgxactoff (allProcs st procno) < numProcs st"
    and "pgprocnos st ! pgxactoff (allProcs st procno) = procno"
    and "mirrors st (pgxactoff (allProcs st procno)) (allProcs st procno)"
    and "proc_ok (allProcs st procno)"
proof -
  obtain i where i: "i < numProcs st" "pgprocnos st ! i = procno"
    using assms(2) by (auto simp: in_set_conv_nth)
  then have "mirrors st i (allProcs st procno)" "proc_ok (allProcs st procno)"
    using assms(1) by (auto simp: mirror_ok_def)
  moreover from this have "pgxactoff (allProcs st procno) = i" by (simp add: mirrors_def)
  ultimately show "pgxactoff (allProcs st procno) < numProcs st"
    "pgprocnos st ! pgxactoff (allProcs st procno) = procno"
    "mirrors st (pgxactoff (allProcs st procno)) (allProcs st procno)"
    "proc_ok (allProcs st procno)" using i by auto
qed

lemma mirror_lengths:
  assumes "mirror_ok st" "procno \<in> set (pgprocnos st)"
  shows "pgxactoff (allProcs st procno) < length (dense_xids st)"
    and "pgxactoff (allProcs st procno) < length (dense_subxidStates st)"
    and "pgxactoff (allProcs st procno) < length (dense_statusFlags st)"
  using mirror_member [OF assms] assms(1) by (auto simp: mirror_ok_def)

section \<open>Updating a member\<close>

definition update_member :: "nat \<Rightarrow> (PGPROC \<Rightarrow> PGPROC) \<Rightarrow> proc_array \<Rightarrow> proc_array" where
  "update_member procno f st =
     (let p = allProcs st procno; p' = f p; off = pgxactoff p in
      st\<lparr> allProcs := (allProcs st)(procno := p'),
          dense_xids := (dense_xids st)[off := proc_xid p'],
          dense_subxidStates := (dense_subxidStates st)[off := subxidStatus p'],
          dense_statusFlags := (dense_statusFlags st)[off := proc_statusFlags p'] \<rparr>)"

lemma update_member_ok:
  assumes ok: "mirror_ok st" and mem: "procno \<in> set (pgprocnos st)"
    and f: "pgxactoff (f (allProcs st procno)) = pgxactoff (allProcs st procno)"
      "proc_ok (f (allProcs st procno))"
  shows "mirror_ok (update_member procno f st)"
proof -
  let ?off = "pgxactoff (allProcs st procno)"
  have off: "?off < numProcs st" "pgprocnos st ! ?off = procno" using mirror_member [OF ok mem] by auto
  have other: "pgprocnos st ! i \<noteq> procno" if "i < numProcs st" "i \<noteq> ?off" for i
    using mirror_distinct [OF ok] that off nth_eq_iff_index_eq by metis
  show ?thesis
    using ok off f other mirror_lengths [OF ok mem]
    unfolding mirror_ok_def update_member_def Let_def mirrors_def
    by (auto simp: nth_list_update)
qed

lemma update_member_fields [simp]:
  "allProcs (update_member procno f st) = (allProcs st)(procno := f (allProcs st procno))"
  "pgprocnos (update_member procno f st) = pgprocnos st"
  "maxProcs (update_member procno f st) = maxProcs st"
  "latestCompletedXid (update_member procno f st) = latestCompletedXid st"
  "xactCompletionCount (update_member procno f st) = xactCompletionCount st"
  "nextXid (update_member procno f st) = nextXid st"
  by (simp_all add: update_member_def Let_def)

section \<open>The operations as updates\<close>

lemma MaintainLatestCompletedXid_fields [simp]:
  "mirror_ok (MaintainLatestCompletedXid x st) = mirror_ok st"
  "allProcs (MaintainLatestCompletedXid x st) = allProcs st"
  "pgprocnos (MaintainLatestCompletedXid x st) = pgprocnos st"
  "xactCompletionCount (MaintainLatestCompletedXid x st) = xactCompletionCount st"
  "nextXid (MaintainLatestCompletedXid x st) = nextXid st"
  by (simp_all add: MaintainLatestCompletedXid_def Let_def)

definition ended_proc :: "PGPROC \<Rightarrow> PGPROC" where
  "ended_proc p = p\<lparr> proc_xid := InvalidTransactionId, proc_lxid := 0,
     proc_xmin := InvalidTransactionId, delayChkptFlags := 0, recoveryConflictPending := False,
     proc_statusFlags := proc_statusFlags p AND NOT PROC_VACUUM_STATE_MASK,
     subxidStatus := \<lparr> xc_count = 0, xc_overflowed = False \<rparr> \<rparr>"

lemma ended_proc_fields [simp]: "pgxactoff (ended_proc p) = pgxactoff p"
  by (simp add: ended_proc_def)

lemma flags_no_vacuum:
  fixes flags :: uint8
  assumes "flags AND m = 0"
  shows "flags AND NOT m = flags"
proof -
  have "flags = (flags AND m) OR (flags AND NOT m)"
    by (rule bit_word_eqI) (auto simp: bit_simps)
  then show ?thesis using assms by simp
qed

lemma update_member_compose:
  "pgxactoff (g (allProcs st procno)) = pgxactoff (allProcs st procno) \<Longrightarrow>
     update_member procno f (update_member procno g st) = update_member procno (f \<circ> g) st"
  by (simp add: update_member_def Let_def)

text \<open>\<open>procno\<close>'s own entries mirror it; this is all the pieces of an operation need.\<close>

definition self_mirrors :: "nat \<Rightarrow> proc_array \<Rightarrow> bool" where
  "self_mirrors procno st \<longleftrightarrow>
     (let p = allProcs st procno; off = pgxactoff p in
      mirrors st off p \<and> off < length (dense_xids st) \<and> off < length (dense_subxidStates st) \<and>
      off < length (dense_statusFlags st))"

lemma mirror_self: "mirror_ok st \<Longrightarrow> procno \<in> set (pgprocnos st) \<Longrightarrow> self_mirrors procno st"
  using mirror_member(3) mirror_lengths by (simp add: self_mirrors_def)

lemma self_mirrors_update:
  "self_mirrors procno st \<Longrightarrow> pgxactoff (f (allProcs st procno)) = pgxactoff (allProcs st procno) \<Longrightarrow>
     self_mirrors procno (update_member procno f st)"
  by (simp add: self_mirrors_def update_member_def mirrors_def Let_def)

lemma self_update_id:
  assumes "self_mirrors procno st"
  shows "(dense_xids st)[pgxactoff (allProcs st procno) := proc_xid (allProcs st procno)] = dense_xids st"
    and "(dense_subxidStates st)[pgxactoff (allProcs st procno) := subxidStatus (allProcs st procno)] =
           dense_subxidStates st"
    and "(dense_statusFlags st)[pgxactoff (allProcs st procno) := proc_statusFlags (allProcs st procno)] =
           dense_statusFlags st"
  using assms by (auto simp: self_mirrors_def mirrors_def Let_def list_update_same_conv)

lemma update_member_id: "self_mirrors procno st \<Longrightarrow> f (allProcs st procno) = allProcs st procno \<Longrightarrow>
    update_member procno f st = st"
  by (simp add: update_member_def Let_def self_update_id)

lemma clear_vacuum_flags_eq:
  assumes "self_mirrors procno st"
  shows "clear_vacuum_flags procno st =
    update_member procno (\<lambda>p. p\<lparr> proc_statusFlags := proc_statusFlags p AND NOT PROC_VACUUM_STATE_MASK \<rparr>) st"
proof (cases "proc_statusFlags (allProcs st procno) AND PROC_VACUUM_STATE_MASK = 0")
  case True
  then show ?thesis
    using update_member_id [OF assms] flags_no_vacuum [OF True] by (simp add: clear_vacuum_flags_def Let_def)
next
  case False
  then show ?thesis
    using self_update_id [OF assms] by (simp add: clear_vacuum_flags_def update_member_def Let_def)
qed

lemma clear_subxid_cache_eq:
  assumes "self_mirrors procno st"
  shows "clear_subxid_cache procno st =
    update_member procno (\<lambda>p. p\<lparr> subxidStatus := \<lparr> xc_count = 0, xc_overflowed = False \<rparr> \<rparr>) st"
proof (cases "xc_count (subxidStatus (allProcs st procno)) > 0 \<or> xc_overflowed (subxidStatus (allProcs st procno))")
  case True
  then show ?thesis
    using self_update_id [OF assms] by (simp add: clear_subxid_cache_def update_member_def Let_def)
next
  case False
  then have "subxidStatus (allProcs st procno) = \<lparr> xc_count = 0, xc_overflowed = False \<rparr>"
    by (cases "subxidStatus (allProcs st procno)") simp
  then have "(allProcs st procno)\<lparr> subxidStatus := \<lparr> xc_count = 0, xc_overflowed = False \<rparr> \<rparr> =
      allProcs st procno"
    by (cases "allProcs st procno") simp
  then show ?thesis using False update_member_id [OF assms] by (simp add: clear_subxid_cache_def Let_def)
qed

lemma update_proc_eq:
  assumes "self_mirrors procno st" "subxidStatus (f (allProcs st procno)) = subxidStatus (allProcs st procno)"
    "proc_statusFlags (f (allProcs st procno)) = proc_statusFlags (allProcs st procno)"
  shows "update_member procno f st =
    (update_proc procno f st)\<lparr> dense_xids :=
       (dense_xids st)[pgxactoff (allProcs st procno) := proc_xid (f (allProcs st procno))] \<rparr>"
  using assms self_update_id [OF assms(1)] by (simp add: update_member_def Let_def)

lemma updates_commute:
  "st\<lparr> dense_xids := d, allProcs := a \<rparr> = st\<lparr> allProcs := a, dense_xids := d \<rparr>"
  by (cases st) simp

lemma EndTransactionInternal_eq:
  assumes "mirror_ok st" "procno \<in> set (pgprocnos st)"
  shows "ProcArrayEndTransactionInternal procno latestXid st =
    (let st' = MaintainLatestCompletedXid latestXid (update_member procno ended_proc st) in
     st'\<lparr> xactCompletionCount := xactCompletionCount st + 1 \<rparr>)"
proof -
  let ?p = "allProcs st procno"
  let ?f = "\<lambda>proc. proc\<lparr> proc_xid := InvalidTransactionId, proc_lxid := 0,
    proc_xmin := InvalidTransactionId, delayChkptFlags := 0, recoveryConflictPending := False \<rparr>"
  let ?g = "\<lambda>p. p\<lparr> proc_statusFlags := proc_statusFlags p AND NOT PROC_VACUUM_STATE_MASK \<rparr>"
  let ?h = "\<lambda>p. p\<lparr> subxidStatus := \<lparr> xc_count = 0, xc_overflowed = False \<rparr> \<rparr>"
  note self = mirror_self [OF assms]
  have first: "(update_proc procno ?f st)\<lparr> dense_xids := (dense_xids st)[pgxactoff ?p := InvalidTransactionId] \<rparr>
      = update_member procno ?f st"
    using update_proc_eq [OF self, of ?f] by simp
  have "clear_subxid_cache procno (clear_vacuum_flags procno (update_member procno ?f st)) =
      update_member procno (?h \<circ> (?g \<circ> ?f)) st"
    using self by (simp add: clear_vacuum_flags_eq clear_subxid_cache_eq self_mirrors_update
        update_member_compose)
  also have "?h \<circ> (?g \<circ> ?f) = ended_proc" by (auto simp: ended_proc_def)
  finally show ?thesis
    using first by (simp add: ProcArrayEndTransactionInternal_def Let_def updates_commute)
qed

lemma ProcArrayEndTransaction_idle_eq:
  assumes "mirror_ok st" "procno \<in> set (pgprocnos st)" "\<not> TransactionIdIsValid latestXid"
  shows "ProcArrayEndTransaction procno latestXid st =
    update_member procno (\<lambda>p. p\<lparr> proc_lxid := 0, proc_xmin := InvalidTransactionId, delayChkptFlags := 0,
      recoveryConflictPending := False,
      proc_statusFlags := proc_statusFlags p AND NOT PROC_VACUUM_STATE_MASK \<rparr>) st"
proof -
  let ?p = "allProcs st procno"
  let ?f = "\<lambda>proc. proc\<lparr> proc_lxid := 0, proc_xmin := InvalidTransactionId, delayChkptFlags := 0,
    recoveryConflictPending := False \<rparr>"
  let ?g = "\<lambda>p. p\<lparr> proc_statusFlags := proc_statusFlags p AND NOT PROC_VACUUM_STATE_MASK \<rparr>"
  note self = mirror_self [OF assms(1,2)]
  have first: "update_proc procno ?f st = update_member procno ?f st"
    using update_proc_eq [OF self, of ?f] self_update_id [OF self] by simp
  have "clear_vacuum_flags procno (update_member procno ?f st) = update_member procno (?g \<circ> ?f) st"
    using self by (simp add: clear_vacuum_flags_eq self_mirrors_update update_member_compose)
  also have "?g \<circ> ?f = (\<lambda>p. p\<lparr> proc_lxid := 0, proc_xmin := InvalidTransactionId, delayChkptFlags := 0,
      recoveryConflictPending := False,
      proc_statusFlags := proc_statusFlags p AND NOT PROC_VACUUM_STATE_MASK \<rparr>)"
    by auto
  finally show ?thesis using first assms(3) by (simp add: ProcArrayEndTransaction_def Let_def)
qed

lemma ClearTransaction_eq:
  assumes "mirror_ok st" "procno \<in> set (pgprocnos st)"
  shows "ProcArrayClearTransaction procno st =
    (update_member procno (\<lambda>p. p\<lparr> proc_xid := InvalidTransactionId, proc_lxid := 0,
       proc_xmin := InvalidTransactionId, recoveryConflictPending := False,
       subxidStatus := \<lparr> xc_count = 0, xc_overflowed = False \<rparr> \<rparr>) st)
      \<lparr> xactCompletionCount := xactCompletionCount st + 1 \<rparr>"
proof -
  let ?f = "\<lambda>proc. proc\<lparr> proc_xid := InvalidTransactionId, proc_lxid := 0,
    proc_xmin := InvalidTransactionId, recoveryConflictPending := False \<rparr>"
  let ?h = "\<lambda>p. p\<lparr> subxidStatus := \<lparr> xc_count = 0, xc_overflowed = False \<rparr> \<rparr>"
  let ?st = "update_member procno ?f st"
  note self = mirror_self [OF assms]
  have first: "(update_proc procno ?f st)\<lparr> dense_xids :=
      (dense_xids st)[pgxactoff (allProcs st procno) := InvalidTransactionId] \<rparr> = ?st"
    using update_proc_eq [OF self, of ?f] by simp
  have counted: "clear_subxid_cache procno (?st\<lparr> xactCompletionCount := c \<rparr>) =
      (clear_subxid_cache procno ?st)\<lparr> xactCompletionCount := c \<rparr>" for c
    by (simp add: clear_subxid_cache_def Let_def update_member_def)
  have "clear_subxid_cache procno ?st = update_member procno (?h \<circ> ?f) st"
    using self by (simp add: clear_subxid_cache_eq self_mirrors_update update_member_compose)
  also have "?h \<circ> ?f = (\<lambda>p. p\<lparr> proc_xid := InvalidTransactionId, proc_lxid := 0,
       proc_xmin := InvalidTransactionId, recoveryConflictPending := False,
       subxidStatus := \<lparr> xc_count = 0, xc_overflowed = False \<rparr> \<rparr>)"
    by auto
  finally show ?thesis
    using first counted by (simp add: ProcArrayClearTransaction_def Let_def updates_commute)
qed

section \<open>The cache of children\<close>

lemma find_cached_Some: "find_cached cache x n = Some j \<Longrightarrow> j < n \<and> cache ! j = x"
  by (induction n) (auto split: if_splits)

lemma find_cached_None: "find_cached cache x n = None \<longleftrightarrow> (\<forall>j < n. cache ! j \<noteq> x)"
  by (induction n) (auto simp: less_Suc_eq)

definition cached :: "PGPROC \<Rightarrow> TransactionId list" where
  "cached p = take (xc_count (subxidStatus p)) (cached_subxids p)"

lemma find_cached_iff:
  "proc_ok p \<Longrightarrow> find_cached (cached_subxids p) x (xc_count (subxidStatus p)) \<noteq> None \<longleftrightarrow> x \<in> set (cached p)"
  by (auto simp: find_cached_None cached_def in_set_conv_nth proc_ok_def)

text \<open>Removing an entry moves the last one into its place.\<close>

definition without_cached :: "TransactionId \<Rightarrow> PGPROC \<Rightarrow> PGPROC" where
  "without_cached x p =
     (let count = xc_count (subxidStatus p) in
      case find_cached (cached_subxids p) x count of
        None \<Rightarrow> p
      | Some j \<Rightarrow> p\<lparr> cached_subxids := (cached_subxids p)[j := cached_subxids p ! (count - 1)],
                      subxidStatus := (subxidStatus p)\<lparr> xc_count := count - 1 \<rparr> \<rparr>)"

lemma remove_cached_eq:
  assumes "self_mirrors procno st"
  shows "remove_cached procno x st = update_member procno (without_cached x) st"
proof -
  let ?p = "allProcs st procno"
  show ?thesis
  proof (cases "find_cached (cached_subxids ?p) x (xc_count (subxidStatus ?p))")
    case None
    then have "without_cached x ?p = ?p" by (simp add: without_cached_def)
    then show ?thesis using None update_member_id [OF assms] by (simp add: remove_cached_def Let_def)
  next
    case (Some j)
    have "dense_subxidStates st ! pgxactoff ?p = subxidStatus ?p"
      using assms by (simp add: self_mirrors_def mirrors_def Let_def)
    then show ?thesis using Some self_update_id [OF assms]
      by (simp add: remove_cached_def without_cached_def update_member_def Let_def)
  qed
qed

lemma without_cached_fields [simp]:
  "pgxactoff (without_cached x p) = pgxactoff p" "proc_xid (without_cached x p) = proc_xid p"
  "proc_statusFlags (without_cached x p) = proc_statusFlags p"
  "xc_overflowed (subxidStatus (without_cached x p)) = xc_overflowed (subxidStatus p)"
  by (simp_all add: without_cached_def Let_def split: option.split)

lemma mset_take_replace:
  assumes "j < n" "n \<le> length xs"
  shows "mset (take (n - 1) (xs[j := xs ! (n - 1)])) = mset (take n xs) - {# xs ! j #}"
proof -
  obtain m where m: "n = Suc m" using assms(1) by (cases n) auto
  have split: "take n xs = take m xs @ [xs ! m]" using assms m by (simp add: take_Suc_conv_app_nth)
  show ?thesis
  proof (cases "j = m")
    case True
    then show ?thesis using split m by simp
  next
    case False
    then have "j < length (take m xs)" using assms m by simp
    then have "mset ((take m xs)[j := xs ! m]) = add_mset (xs ! m) (mset (take m xs) - {# take m xs ! j #})"
      by (rule mset_update)
    moreover have "xs ! j \<in># mset (take m xs)"
      using \<open>j < length (take m xs)\<close> nth_mem [of j "take m xs"] by simp
    ultimately show ?thesis using split m False assms
      by (simp add: take_update_swap)
  qed
qed

lemma without_cached_ok:
  assumes "proc_ok p"
  shows "proc_ok (without_cached x p)" "mset (cached (without_cached x p)) = mset (cached p) - {# x #}"
proof -
  show "proc_ok (without_cached x p)"
    using assms by (auto simp: proc_ok_def without_cached_def Let_def split: option.split)
  show "mset (cached (without_cached x p)) = mset (cached p) - {# x #}"
  proof (cases "find_cached (cached_subxids p) x (xc_count (subxidStatus p))")
    case None
    then have "x \<notin> set (cached p)" using find_cached_iff [OF assms, of x] by auto
    then show ?thesis using None by (simp add: without_cached_def diff_single_trivial)
  next
    case (Some j)
    then show ?thesis
      using find_cached_Some [OF Some] mset_take_replace [of j "xc_count (subxidStatus p)" "cached_subxids p"]
        assms by (simp add: without_cached_def cached_def proc_ok_def Let_def)
  qed
qed

lemma without_all_cached:
  assumes "proc_ok p"
  shows "proc_ok (fold without_cached xs p) \<and>
    mset (cached (fold without_cached xs p)) = mset (cached p) - mset xs \<and>
    pgxactoff (fold without_cached xs p) = pgxactoff p \<and> proc_xid (fold without_cached xs p) = proc_xid p \<and>
    proc_statusFlags (fold without_cached xs p) = proc_statusFlags p"
  using assms
  by (induction xs arbitrary: p) (simp_all add: without_cached_ok diff_diff_add)

lemma fold_remove_cached:
  "self_mirrors procno st \<Longrightarrow>
     fold (remove_cached procno) xs st = update_member procno (fold without_cached xs) st"
proof (induction xs arbitrary: st)
  case Nil
  then show ?case by (simp add: update_member_id)
next
  case (Cons x xs)
  then show ?case
    using Cons.IH [of "update_member procno (without_cached x) st"]
    by (simp add: remove_cached_eq self_mirrors_update update_member_compose comp_def)
qed

lemma XidCacheRemove_eq:
  assumes "mirror_ok st" "procno \<in> set (pgprocnos st)"
  shows "XidCacheRemoveRunningXids procno xid xids latestXid st =
    (let st' = MaintainLatestCompletedXid latestXid
                 (update_member procno (fold without_cached (rev xids @ [xid])) st) in
     st'\<lparr> xactCompletionCount := xactCompletionCount st + 1 \<rparr>)"
proof -
  have "remove_cached procno xid (fold (remove_cached procno) (rev xids) st) =
      fold (remove_cached procno) (rev xids @ [xid]) st" by simp
  then show ?thesis
    using fold_remove_cached [OF mirror_self [OF assms], of "rev xids @ [xid]"]
    by (simp add: XidCacheRemoveRunningXids_def Let_def del: fold_append)
qed

section \<open>Assigning an xid\<close>

definition with_child :: "TransactionId \<Rightarrow> PGPROC \<Rightarrow> PGPROC" where
  "with_child xid p =
     (let n = xc_count (subxidStatus p) in
      if n < PGPROC_MAX_CACHED_SUBXIDS
      then p\<lparr> cached_subxids := (cached_subxids p)[n := xid],
              subxidStatus := (subxidStatus p)\<lparr> xc_count := n + 1 \<rparr> \<rparr>
      else p\<lparr> subxidStatus := (subxidStatus p)\<lparr> xc_overflowed := True \<rparr> \<rparr>)"

definition with_logs_extended :: "proc_array \<Rightarrow> proc_array" where
  "with_logs_extended st =
     (let xid = XidFromFullTransactionId (nextXid st) in
      st\<lparr> log_clog := ExtendCLOG xid (log_clog st), log_subtrans := ExtendSUBTRANS xid (log_subtrans st),
          nextXid := FullTransactionIdAdvance (nextXid st) \<rparr>)"

lemma with_logs_extended_fields [simp]:
  "mirror_ok (with_logs_extended st) = mirror_ok st"
  "self_mirrors procno (with_logs_extended st) = self_mirrors procno st"
  "allProcs (with_logs_extended st) = allProcs st"
  "pgprocnos (with_logs_extended st) = pgprocnos st"
  "latestCompletedXid (with_logs_extended st) = latestCompletedXid st"
  "xactCompletionCount (with_logs_extended st) = xactCompletionCount st"
  "nextXid (with_logs_extended st) = FullTransactionIdAdvance (nextXid st)"
  by (simp_all add: with_logs_extended_def Let_def self_mirrors_def mirrors_def)

lemma GetNewTransactionId_eq:
  assumes "mirror_ok st" "procno \<in> set (pgprocnos st)"
    and "GetNewTransactionId False False under_postmaster isSubXact procno st = Inr (fxid, st')"
  shows "fxid = nextXid st \<and> \<not> RecoveryInProgress st \<and>
    st' = update_member procno
            (if isSubXact then with_child (XidFromFullTransactionId (nextXid st))
             else proc_xid_update (\<lambda>_. XidFromFullTransactionId (nextXid st)))
            (with_logs_extended st)"
proof -
  let ?p = "allProcs st procno" and ?st = "with_logs_extended st"
  have self: "self_mirrors procno ?st" using mirror_self [OF assms(1,2)] by simp
  have own: "dense_subxidStates ?st ! pgxactoff ?p = subxidStatus ?p"
    using self by (simp add: self_mirrors_def mirrors_def Let_def)
  have result: "fxid = nextXid st \<and> \<not> RecoveryInProgress st \<and> st' =
      (if \<not> isSubXact
       then (update_proc procno (proc_xid_update (\<lambda>_. XidFromFullTransactionId (nextXid st))) ?st)
              \<lparr> dense_xids := (dense_xids ?st)[pgxactoff ?p := XidFromFullTransactionId (nextXid st)] \<rparr>
       else if xc_count (subxidStatus ?p) < PGPROC_MAX_CACHED_SUBXIDS
       then (update_proc procno (with_child (XidFromFullTransactionId (nextXid st))) ?st)
              \<lparr> dense_subxidStates := (dense_subxidStates ?st)[pgxactoff ?p :=
                  (dense_subxidStates ?st ! pgxactoff ?p)\<lparr> xc_count := xc_count (subxidStatus ?p) + 1 \<rparr>] \<rparr>
       else (update_proc procno (with_child (XidFromFullTransactionId (nextXid st))) ?st)
              \<lparr> dense_subxidStates := (dense_subxidStates ?st)[pgxactoff ?p :=
                  (dense_subxidStates ?st ! pgxactoff ?p)\<lparr> xc_overflowed := True \<rparr>] \<rparr>)"
    using assms(3)
    by (auto simp: GetNewTransactionId_def Let_def with_logs_extended_def with_child_def split: if_splits)
  have updated: "update_member procno (with_child x) ?st =
      (update_proc procno (with_child x) ?st)
        \<lparr> dense_subxidStates := (dense_subxidStates ?st)[pgxactoff ?p := subxidStatus (with_child x ?p)] \<rparr>" for x
    using self_update_id [OF self] by (simp add: update_member_def Let_def with_child_def)
  show ?thesis
    using result updated own update_proc_eq [OF self, of "proc_xid_update (\<lambda>_. XidFromFullTransactionId (nextXid st))"]
    by (cases isSubXact) (simp_all add: with_child_def Let_def)
qed

section \<open>Joining and leaving\<close>

lemma renumber_prefix:
  "distinct (pgprocnos st) \<Longrightarrow> n \<le> numProcs st \<Longrightarrow>
   (let st' = fold set_pgxactoff [i..<n] st in
    st' = st\<lparr> allProcs := allProcs st' \<rparr> \<and>
    (\<forall>k < numProcs st. allProcs st' (pgprocnos st ! k) =
       (if i \<le> k \<and> k < n then (allProcs st (pgprocnos st ! k))\<lparr> pgxactoff := k \<rparr>
        else allProcs st (pgprocnos st ! k))) \<and>
    (\<forall>q. q \<notin> set (pgprocnos st) \<longrightarrow> allProcs st' q = allProcs st q))"
proof (induction n)
  case (Suc n)
  show ?case
  proof (cases "i \<le> n")
    case True
    define st1 where "st1 = fold set_pgxactoff [i..<n] st"
    have IH: "st1 = st\<lparr> allProcs := allProcs st1 \<rparr>"
        "\<And>k. k < numProcs st \<Longrightarrow> allProcs st1 (pgprocnos st ! k) =
           (if i \<le> k \<and> k < n then (allProcs st (pgprocnos st ! k))\<lparr> pgxactoff := k \<rparr>
            else allProcs st (pgprocnos st ! k))"
        "\<And>q. q \<notin> set (pgprocnos st) \<Longrightarrow> allProcs st1 q = allProcs st q"
      using Suc by (simp_all add: st1_def Let_def)
    have same: "pgprocnos st1 = pgprocnos st" using arg_cong [OF IH(1), of pgprocnos] by simp
    have last_one: "fold set_pgxactoff [i..<Suc n] st = set_pgxactoff n st1"
      using True by (simp add: st1_def)
    have step: "set_pgxactoff n st1 = st1\<lparr> allProcs := allProcs (set_pgxactoff n st1) \<rparr>"
        "allProcs (set_pgxactoff n st1) q =
           (if q = pgprocnos st ! n then (allProcs st1 q)\<lparr> pgxactoff := n \<rparr> else allProcs st1 q)" for q
      using same by (simp_all add: set_pgxactoff_def)
    have other: "pgprocnos st ! k = pgprocnos st ! n \<longleftrightarrow> k = n" if "k < numProcs st" for k
      using that Suc.prems nth_eq_iff_index_eq by (metis Suc_le_lessD)
    have mem: "pgprocnos st ! n \<in> set (pgprocnos st)" using Suc.prems by simp
    show ?thesis unfolding last_one Let_def
    proof (intro conjI allI impI)
      show "set_pgxactoff n st1 = st\<lparr> allProcs := allProcs (set_pgxactoff n st1) \<rparr>"
        by (subst step(1), subst IH(1)) simp
    next
      fix k
      assume "k < numProcs st"
      then show "allProcs (set_pgxactoff n st1) (pgprocnos st ! k) =
          (if i \<le> k \<and> k < Suc n then (allProcs st (pgprocnos st ! k))\<lparr> pgxactoff := k \<rparr>
           else allProcs st (pgprocnos st ! k))"
        using IH(2) [of k] other [of k] True Suc.prems by (auto simp: step(2))
    next
      fix q
      assume "q \<notin> set (pgprocnos st)"
      then show "allProcs (set_pgxactoff n st1) q = allProcs st q"
        using IH(3) mem by (auto simp: step(2))
    qed
  qed (use Suc in simp)
qed simp

lemma renumber_from_fields:
  assumes "distinct (pgprocnos st)"
  shows "renumber_from i st = st\<lparr> allProcs := allProcs (renumber_from i st) \<rparr>"
    and "k < numProcs st \<Longrightarrow> allProcs (renumber_from i st) (pgprocnos st ! k) =
       (if i \<le> k then (allProcs st (pgprocnos st ! k))\<lparr> pgxactoff := k \<rparr> else allProcs st (pgprocnos st ! k))"
    and "q \<notin> set (pgprocnos st) \<Longrightarrow> allProcs (renumber_from i st) q = allProcs st q"
  using renumber_prefix [OF assms order_refl, of i] by (auto simp: renumber_from_def Let_def)

end
