(* ===== verification/Proc_Steps.thy ===== *)
theory Proc_Steps
  imports Proc_Array_Inv
begin

text \<open>
  The steps of the backends on the process array, and the invariant that the dense arrays
  mirror the \<open>PGPROC\<close>s in every state they can reach.
\<close>

section \<open>Joining the array\<close>

lemma nth_insert_at:
  "i \<le> length xs \<Longrightarrow> insert_at i x xs ! k = (if k < i then xs ! k else if k = i then x else xs ! (k - 1))"
  by (auto simp: insert_at_def nth_append nth_Cons' min_def)

lemma length_insert_at [simp]: "i \<le> length xs \<Longrightarrow> length (insert_at i x xs) = Suc (length xs)"
  by (simp add: insert_at_def)

lemma set_insert_at: "set (insert_at i x xs) = insert x (set xs)"
proof -
  have "set (insert_at i x xs) = insert x (set (take i xs) \<union> set (drop i xs))" by (auto simp: insert_at_def)
  also have "set (take i xs) \<union> set (drop i xs) = set xs" by (metis append_take_drop_id set_append)
  finally show ?thesis .
qed

lemma takeWhile_before:
  assumes "sorted_wrt (<) xs" "x \<notin> set xs"
  defines "i \<equiv> length (takeWhile (\<lambda>p. \<not> p > x) xs)"
  shows "k < i \<Longrightarrow> xs ! k < (x :: nat)" and "i \<le> k \<Longrightarrow> k < length xs \<Longrightarrow> x < xs ! k"
proof -
  have le: "i \<le> length xs" by (simp add: i_def length_takeWhile_le)
  show "xs ! k < x" if "k < i"
  proof -
    have "xs ! k \<in> set (takeWhile (\<lambda>p. \<not> p > x) xs)"
      using that takeWhile_nth [of k] nth_mem by (metis i_def)
    then have "\<not> xs ! k > x" by (auto dest: set_takeWhileD)
    moreover have "xs ! k \<noteq> x" using assms(2) that le by (metis nth_mem order_less_le_trans)
    ultimately show ?thesis by simp
  qed
  show "x < xs ! k" if "i \<le> k" "k < length xs"
  proof -
    have "i < length xs" using that by simp
    then have "x < xs ! i" using nth_length_takeWhile [of "\<lambda>p. \<not> p > x" xs] by (simp add: i_def)
    also have "xs ! i \<le> xs ! k"
      using assms(1) that by (cases "i = k") (auto simp: sorted_wrt_iff_nth_less intro: less_imp_le)
    finally show ?thesis .
  qed
qed

lemma sorted_insert_at:
  assumes "sorted_wrt (<) xs" "x \<notin> set xs"
  shows "sorted_wrt (<) (insert_at (length (takeWhile (\<lambda>p. \<not> p > (x :: nat)) xs)) x xs)"
proof -
  let ?i = "length (takeWhile (\<lambda>p. \<not> p > x) xs)"
  have le: "?i \<le> length xs" by (rule length_takeWhile_le)
  have mono: "xs ! k < xs ! l" if "k < l" "l < length xs" for k l
    using sorted_wrt_nth_less [OF assms(1) that] .
  have "insert_at ?i x xs ! k < insert_at ?i x xs ! l" if "k < l" "l < Suc (length xs)" for k l
  proof -
    consider "l < ?i" | "k < ?i" "l = ?i" | "k < ?i" "?i < l" | "k = ?i" "?i < l" | "?i < k"
      using \<open>k < l\<close> by linarith
    then show ?thesis
      using that le mono [of k l] mono [of k "l - 1"] mono [of "k - 1" "l - 1"]
        takeWhile_before [OF assms, of k] takeWhile_before [OF assms, of "l - 1"]
      by cases (simp_all add: nth_insert_at [OF le])
  qed
  then show ?thesis by (simp add: sorted_wrt_iff_nth_less le)
qed

text \<open>What two states have in common when only the places in the array have changed.\<close>

definition same_procs :: "proc_array \<Rightarrow> proc_array \<Rightarrow> bool" where
  "same_procs st st' \<longleftrightarrow>
     (\<forall>q. \<exists>off. allProcs st' q = (allProcs st q)\<lparr> pgxactoff := off \<rparr>)"

lemma proc_ok_pgxactoff [simp]: "proc_ok (p\<lparr> pgxactoff := i \<rparr>) = proc_ok p"
  by (simp add: proc_ok_def)

lemma pgxactoff_same: "\<exists>off. (p :: PGPROC) = p\<lparr> pgxactoff := off \<rparr>"
  by (rule exI [of _ "pgxactoff p"]) simp

lemma ProcArrayAdd_ok:
  assumes ok: "mirror_ok st" and new: "procno \<notin> set (pgprocnos st)" "proc_ok (allProcs st procno)"
    and add: "ProcArrayAdd procno st = Inr st'"
  shows "mirror_ok st' \<and> set (pgprocnos st') = insert procno (set (pgprocnos st)) \<and> same_procs st st' \<and>
    latestCompletedXid st' = latestCompletedXid st \<and> xactCompletionCount st' = xactCompletionCount st \<and>
    nextXid st' = nextXid st"
proof -
  define index where "index = length (takeWhile (\<lambda>p. \<not> p > procno) (pgprocnos st))"
  let ?proc = "allProcs st procno"
  define st1 where "st1 = st\<lparr> pgprocnos := insert_at index procno (pgprocnos st),
     allProcs := (allProcs st)(procno := ?proc\<lparr> pgxactoff := index \<rparr>),
     dense_xids := insert_at index (proc_xid ?proc) (dense_xids st),
     dense_subxidStates := insert_at index (subxidStatus ?proc) (dense_subxidStates st),
     dense_statusFlags := insert_at index (proc_statusFlags ?proc) (dense_statusFlags st) \<rparr>"
  have st': "st' = renumber_from (index + 1) st1" and room: "numProcs st < maxProcs st"
    using add by (auto simp: ProcArrayAdd_def Let_def index_def st1_def split: if_splits)
  have le: "index \<le> numProcs st" by (simp add: index_def length_takeWhile_le)
  have lens: "length (dense_xids st) = numProcs st" "length (dense_subxidStates st) = numProcs st"
      "length (dense_statusFlags st) = numProcs st" "sorted_wrt (<) (pgprocnos st)"
    using ok by (auto simp: mirror_ok_def)
  have sorted: "sorted_wrt (<) (pgprocnos st1)"
    using sorted_insert_at [OF lens(4) new(1)] by (simp add: st1_def index_def)
  then have dist: "distinct (pgprocnos st1)" by (simp add: strict_sorted_iff)
  note re = renumber_from_fields [OF dist, where i = "index + 1"]
  have n1: "numProcs st1 = Suc (numProcs st)" using le by (simp add: st1_def)
  have members: "mirrors st' k (allProcs st' (pgprocnos st' ! k)) \<and> proc_ok (allProcs st' (pgprocnos st' ! k))"
    if "k < Suc (numProcs st)" for k
  proof -
    have pg: "pgprocnos st' ! k = pgprocnos st1 ! k" using arg_cong [OF re(1), of pgprocnos] by (simp add: st')
    have dense: "dense_xids st' = dense_xids st1" "dense_subxidStates st' = dense_subxidStates st1"
        "dense_statusFlags st' = dense_statusFlags st1"
      using arg_cong [OF re(1), of dense_xids] arg_cong [OF re(1), of dense_subxidStates]
        arg_cong [OF re(1), of dense_statusFlags] by (simp_all add: st')
    have proc: "allProcs st' (pgprocnos st1 ! k) =
        (if index + 1 \<le> k then (allProcs st1 (pgprocnos st1 ! k))\<lparr> pgxactoff := k \<rparr>
         else allProcs st1 (pgprocnos st1 ! k))"
      using re(2) [of k] that n1 by (simp add: st')
    consider "k < index" | "k = index" | "index < k" by linarith
    then show ?thesis
    proof cases
      case 1
      then have "pgprocnos st ! k \<noteq> procno" using new(1) le by (metis nth_mem order_less_le_trans)
      then show ?thesis using 1 ok le lens proc
        by (simp add: pg dense mirrors_def st1_def nth_insert_at mirror_ok_def)
    next
      case 2
      then have "pgprocnos st' ! k = procno" using pg le by (simp add: st1_def nth_insert_at)
      then show ?thesis using 2 new(2) le lens proc pg
        by (simp add: dense mirrors_def st1_def nth_insert_at)
    next
      case 3
      then have k: "k - 1 < numProcs st" using that by simp
      then have "pgprocnos st ! (k - 1) \<noteq> procno" using new(1) by (metis nth_mem)
      then show ?thesis using 3 k ok le lens proc
        by (simp add: pg dense mirrors_def st1_def nth_insert_at mirror_ok_def)
    qed
  qed
  have fields: "st' = st1\<lparr> allProcs := allProcs st' \<rparr>" using re(1) by (simp add: st')
  have "same_procs st st'"
    unfolding same_procs_def
  proof
    fix q
    show "\<exists>off. allProcs st' q = (allProcs st q)\<lparr> pgxactoff := off \<rparr>"
    proof (cases "q \<in> set (pgprocnos st1)")
      case True
      then obtain k where "k < numProcs st1" "q = pgprocnos st1 ! k" by (auto simp: in_set_conv_nth)
      then show ?thesis using re(2) [of k] pgxactoff_same [of "allProcs st q"]
        by (auto simp: st' st1_def)
    next
      case False
      then show ?thesis using re(3) [of q] pgxactoff_same [of "allProcs st q"] by (auto simp: st' st1_def)
    qed
  qed
  moreover have "numProcs st' = Suc (numProcs st)" "pgprocnos st' = pgprocnos st1" "maxProcs st' = maxProcs st"
    using arg_cong [OF fields, of pgprocnos] arg_cong [OF fields, of maxProcs] n1 by (simp_all add: st1_def)
  moreover have "length (dense_xids st') = Suc (numProcs st)" "length (dense_subxidStates st') = Suc (numProcs st)"
      "length (dense_statusFlags st') = Suc (numProcs st)"
    using arg_cong [OF fields, of dense_xids] arg_cong [OF fields, of dense_subxidStates]
      arg_cong [OF fields, of dense_statusFlags] lens le by (simp_all add: st1_def)
  moreover have "set (pgprocnos st1) = insert procno (set (pgprocnos st))"
    by (simp add: st1_def set_insert_at)
  moreover have "latestCompletedXid st' = latestCompletedXid st" "xactCompletionCount st' = xactCompletionCount st"
      "nextXid st' = nextXid st"
    using arg_cong [OF fields, of latestCompletedXid] arg_cong [OF fields, of xactCompletionCount]
      arg_cong [OF fields, of nextXid] by (simp_all add: st1_def)
  ultimately show ?thesis using members sorted room unfolding mirror_ok_def by simp
qed

section \<open>Leaving the array\<close>

lemma nth_delete_at:
  "i < length xs \<Longrightarrow> delete_at i xs ! k = (if k < i then xs ! k else xs ! Suc k)"
  by (auto simp: delete_at_def nth_append min_def)

lemma length_delete_at [simp]: "i < length xs \<Longrightarrow> length (delete_at i xs) = length xs - 1"
  by (simp add: delete_at_def)

lemma delete_at_update [simp]: "delete_at i (xs[i := x]) = delete_at i xs"
  by (simp add: delete_at_def)

lemma set_delete_at:
  assumes "distinct xs" "i < length xs"
  shows "set (delete_at i xs) = set xs - {xs ! i}"
proof -
  have "xs = take i xs @ xs ! i # drop (Suc i) xs" using assms(2) by (rule id_take_nth_drop)
  moreover from this assms(1) have "distinct (take i xs @ xs ! i # drop (Suc i) xs)" by simp
  ultimately show ?thesis
    by (metis (no_types, lifting) Diff_insert_absorb Un_insert_right delete_at_def distinct.simps(2)
        distinct_append list.simps(15) set_append Un_iff disjoint_insert(1))
qed

lemma sorted_delete_at:
  assumes "sorted_wrt (<) (xs :: nat list)" "i < length xs"
  shows "sorted_wrt (<) (delete_at i xs)"
proof -
  have "delete_at i xs ! k < delete_at i xs ! l" if "k < l" "l < length xs - 1" for k l
    using that assms(2) sorted_wrt_nth_less [OF assms(1), of k l] sorted_wrt_nth_less [OF assms(1), of k "Suc l"]
      sorted_wrt_nth_less [OF assms(1), of "Suc k" "Suc l"]
    by (auto simp: nth_delete_at)
  then show ?thesis using assms(2) by (simp add: sorted_wrt_iff_nth_less)
qed

lemma ProcArrayRemove_ok:
  assumes ok: "mirror_ok st" and mem: "procno \<in> set (pgprocnos st)"
    and st'_def: "st' = ProcArrayRemove procno latestXid st"
  shows "mirror_ok st'" "set (pgprocnos st') = set (pgprocnos st) - {procno}" "same_procs st st'"
    and "latestCompletedXid st' = (if TransactionIdIsValid latestXid
           then latestCompletedXid (MaintainLatestCompletedXid latestXid st) else latestCompletedXid st)"
    and "xactCompletionCount st' = xactCompletionCount st + (if TransactionIdIsValid latestXid then 1 else 0)"
    and "nextXid st' = nextXid st"
proof -
  define off where "off = pgxactoff (allProcs st procno)"
  define st0 where "st0 = (if TransactionIdIsValid latestXid
    then (MaintainLatestCompletedXid latestXid st)\<lparr> xactCompletionCount := xactCompletionCount st + 1 \<rparr> else st)"
  define st1 where "st1 = st0\<lparr> pgprocnos := delete_at off (pgprocnos st),
     dense_xids := delete_at off (dense_xids st), dense_subxidStates := delete_at off (dense_subxidStates st),
     dense_statusFlags := delete_at off (dense_statusFlags st) \<rparr>"
  have off: "off < numProcs st" "pgprocnos st ! off = procno"
    using mirror_member [OF ok mem] by (simp_all add: off_def)
  have lens: "length (dense_xids st) = numProcs st" "length (dense_subxidStates st) = numProcs st"
      "length (dense_statusFlags st) = numProcs st" "sorted_wrt (<) (pgprocnos st)" "numProcs st \<le> maxProcs st"
    using ok by (auto simp: mirror_ok_def)
  have st0: "allProcs st0 = allProcs st" "pgprocnos st0 = pgprocnos st" "dense_xids st0 = dense_xids st"
      "dense_subxidStates st0 = dense_subxidStates st" "dense_statusFlags st0 = dense_statusFlags st"
      "maxProcs st0 = maxProcs st" "nextXid st0 = nextXid st"
    by (simp_all add: st0_def MaintainLatestCompletedXid_def Let_def)
  have st': "st' = renumber_from off st1"
    by (simp add: st'_def ProcArrayRemove_def Let_def off_def [symmetric] st1_def st0_def
        MaintainLatestCompletedXid_def)
  have sorted: "sorted_wrt (<) (pgprocnos st1)"
    using sorted_delete_at [OF lens(4) off(1)] by (simp add: st1_def)
  then have dist: "distinct (pgprocnos st1)" by (simp add: strict_sorted_iff)
  note re = renumber_from_fields [OF dist, where i = off]
  have fields: "st' = st1\<lparr> allProcs := allProcs st' \<rparr>" using re(1) by (simp add: st')
  have dense: "pgprocnos st' = pgprocnos st1" "dense_xids st' = dense_xids st1"
      "dense_subxidStates st' = dense_subxidStates st1" "dense_statusFlags st' = dense_statusFlags st1"
      "maxProcs st' = maxProcs st1" "latestCompletedXid st' = latestCompletedXid st1"
      "xactCompletionCount st' = xactCompletionCount st1" "nextXid st' = nextXid st1"
    by (subst fields, simp)+
  have members: "mirrors st' k (allProcs st' (pgprocnos st' ! k)) \<and> proc_ok (allProcs st' (pgprocnos st' ! k))"
    if "k < numProcs st - 1" for k
  proof -
    have proc: "allProcs st' (pgprocnos st1 ! k) =
        (if off \<le> k then (allProcs st1 (pgprocnos st1 ! k))\<lparr> pgxactoff := k \<rparr> else allProcs st1 (pgprocnos st1 ! k))"
      using re(2) [of k] that off by (simp add: st' st1_def)
    show ?thesis
      using ok off lens that proc
      by (cases "off \<le> k") (simp_all add: dense mirrors_def st1_def st0 nth_delete_at mirror_ok_def)
  qed
  show "mirror_ok st'"
    using members sorted lens off unfolding mirror_ok_def dense by (simp add: st1_def st0)
  show "set (pgprocnos st') = set (pgprocnos st) - {procno}"
    using set_delete_at [OF mirror_distinct [OF ok] off(1)] off(2) by (simp add: dense st1_def)
  show "same_procs st st'"
    unfolding same_procs_def
  proof
    fix q
    show "\<exists>off. allProcs st' q = (allProcs st q)\<lparr> pgxactoff := off \<rparr>"
    proof (cases "q \<in> set (pgprocnos st1)")
      case True
      then obtain k where "k < numProcs st1" "q = pgprocnos st1 ! k" by (auto simp: in_set_conv_nth)
      then show ?thesis using re(2) [of k] pgxactoff_same [of "allProcs st q"]
        by (auto simp: st' st1_def st0)
    next
      case False
      then show ?thesis using re(3) [of q] pgxactoff_same [of "allProcs st q"] by (auto simp: st' st1_def st0)
    qed
  qed
  show "latestCompletedXid st' = (if TransactionIdIsValid latestXid
        then latestCompletedXid (MaintainLatestCompletedXid latestXid st) else latestCompletedXid st)"
    "xactCompletionCount st' = xactCompletionCount st + (if TransactionIdIsValid latestXid then 1 else 0)"
    "nextXid st' = nextXid st"
    by (simp_all add: dense st1_def st0_def)
qed

section \<open>Steps\<close>

text \<open>
  What the backends do to the array: start and exit, assign xids, end their transactions. The
  conditions are those the callers keep: a process joins once, with a clean cache; a process
  leaves without xid, or is a prepared transaction that ends; \<open>latestXid\<close> is given iff there
  is an xid.
\<close>

inductive proc_step :: "proc_array \<Rightarrow> proc_array \<Rightarrow> bool" where
  join: "procno \<notin> set (pgprocnos st) \<Longrightarrow> proc_ok (allProcs st procno) \<Longrightarrow>
    ProcArrayAdd procno st = Inr st' \<Longrightarrow> proc_step st st'"
| leave: "procno \<in> set (pgprocnos st) \<Longrightarrow>
    (TransactionIdIsValid latestXid \<longleftrightarrow> TransactionIdIsValid (proc_xid (allProcs st procno))) \<Longrightarrow>
    proc_step st (ProcArrayRemove procno latestXid st)"
| end_xact: "procno \<in> set (pgprocnos st) \<Longrightarrow>
    (TransactionIdIsValid latestXid \<longleftrightarrow> TransactionIdIsValid (proc_xid (allProcs st procno))) \<Longrightarrow>
    proc_step st (ProcArrayEndTransaction procno latestXid st)"
| clear: "procno \<in> set (pgprocnos st) \<Longrightarrow> proc_step st (ProcArrayClearTransaction procno st)"
| abort_subs: "procno \<in> set (pgprocnos st) \<Longrightarrow> TransactionIdIsValid (proc_xid (allProcs st procno)) \<Longrightarrow>
    proc_step st (XidCacheRemoveRunningXids procno xid xids latestXid st)"
| assign: "procno \<in> set (pgprocnos st) \<Longrightarrow>
    (isSubXact \<longleftrightarrow> TransactionIdIsValid (proc_xid (allProcs st procno))) \<Longrightarrow>
    GetNewTransactionId False False under_postmaster isSubXact procno st = Inr (fxid, st') \<Longrightarrow>
    proc_step st st'"

inductive_cases proc_step_cases: "proc_step st st'"

inductive proc_reachable :: "proc_array \<Rightarrow> proc_array \<Rightarrow> bool" for st where
  reach_start: "proc_reachable st st"
| reach_step: "proc_reachable st st' \<Longrightarrow> proc_step st' st'' \<Longrightarrow> proc_reachable st st''"

lemma with_child_ok:
  "proc_ok p \<Longrightarrow> TransactionIdIsValid (proc_xid p) \<Longrightarrow> proc_ok (with_child x p)"
  by (auto simp: proc_ok_def with_child_def Let_def)

lemma with_child_fields [simp]:
  "pgxactoff (with_child x p) = pgxactoff p" "proc_xid (with_child x p) = proc_xid p"
  "proc_statusFlags (with_child x p) = proc_statusFlags p"
  by (simp_all add: with_child_def Let_def)

lemma cleared_ok:
  "proc_ok p \<Longrightarrow> proc_ok (ended_proc p)"
  "proc_ok p \<Longrightarrow> proc_ok (p\<lparr> proc_lxid := l, proc_xmin := xmin, delayChkptFlags := d,
     recoveryConflictPending := r, proc_statusFlags := f \<rparr>)"
  "proc_ok p \<Longrightarrow> proc_ok (p\<lparr> proc_xid := x, proc_lxid := l, proc_xmin := xmin, recoveryConflictPending := r,
     subxidStatus := \<lparr> xc_count = 0, xc_overflowed = False \<rparr> \<rparr>)"
  by (simp_all add: proc_ok_def ended_proc_def)

lemma proc_step_mirror_ok: "proc_step st st' \<Longrightarrow> mirror_ok st \<Longrightarrow> mirror_ok st'"
proof (induction rule: proc_step.induct)
  case (join procno st st')
  then show ?case using ProcArrayAdd_ok by blast
next
  case (leave procno st latestXid)
  then show ?case using ProcArrayRemove_ok(1) by blast
next
  case (end_xact procno st latestXid)
  note member = mirror_member(4) [OF end_xact.prems end_xact.hyps(1)]
  show ?case
  proof (cases "TransactionIdIsValid latestXid")
    case True
    then show ?thesis using end_xact member
      by (simp add: ProcArrayEndTransaction_def EndTransactionInternal_eq Let_def update_member_ok
          cleared_ok)
  next
    case False
    then show ?thesis using end_xact member
      by (simp add: ProcArrayEndTransaction_idle_eq update_member_ok cleared_ok)
  qed
next
  case (clear procno st)
  note member = mirror_member(4) [OF clear.prems clear.hyps]
  then show ?case using clear
    by (simp add: ClearTransaction_eq update_member_ok cleared_ok)
next
  case (abort_subs procno st xid xids latestXid)
  note member = mirror_member(4) [OF abort_subs.prems abort_subs.hyps(1)]
  show ?case using abort_subs without_all_cached [OF member, of "rev xids @ [xid]"]
    by (simp add: XidCacheRemove_eq Let_def update_member_ok del: fold_append)
next
  case (assign procno st isSubXact under_postmaster fxid st')
  note member = mirror_member(4) [OF assign.prems assign.hyps(1)]
  have idle: "proc_ok (proc_xid_update (\<lambda>_. x) (allProcs st procno))" if "\<not> isSubXact" for x
    using member that assign.hyps(2) by (simp add: proc_ok_def)
  show ?case
    using GetNewTransactionId_eq [OF assign.prems assign.hyps(1,3)] assign member idle with_child_ok
    by (cases isSubXact) (auto intro!: update_member_ok)
qed

end
