(* ===== verification/Backend_View.thy ===== *)
theory Backend_View
  imports Proc_Snapshot Proc_Steps Sub_Trans_Props Known_Assigned_Refine Visibility_Correct
begin

text \<open>
  The view a backend has of the transaction system, made of the modelled parts: the process
  array, the two transaction logs, the known-assigned xids and the backend's own transaction
  state. It interprets the interface \<open>transaction_manager\<close>, so that the results about tuple
  visibility hold for it.
\<close>

section \<open>The functions of the view\<close>

text \<open>What the view takes from elsewhere: multixacts, the write-ahead log, decoding, horizons.\<close>

record view_rest =
  rest_multixact_members :: "MultiXactId \<Rightarrow> bool \<Rightarrow> MultiXactMember list option"
  rest_xlog_needs_flush :: "uint64 \<Rightarrow> bool"
  rest_combo_state :: combocid_state
  rest_decoding_cids :: "ItemPointerData \<Rightarrow> (CommandId \<times> CommandId) option"
  rest_horizons :: ComputeXidHorizonsResult

definition in_progress_of :: "proc_array \<Rightarrow> backend \<Rightarrow> TransactionId \<Rightarrow> bool option" where
  "in_progress_of st be x =
     (case TransactionIdIsInProgress st be x of Some (Inr r, be') \<Rightarrow> Some r | _ \<Rightarrow> None)"

definition did_commit_of :: "proc_array \<Rightarrow> backend \<Rightarrow> TransactionId \<Rightarrow> bool option" where
  "did_commit_of st be x = map_option fst (TransactionIdDidCommit (backend_logs st be) x (my_cache be))"

definition topmost_of :: "proc_array \<Rightarrow> backend \<Rightarrow> TransactionId \<Rightarrow> TransactionId option" where
  "topmost_of st be x =
     (case SubTransGetTopmostTransaction (my_TransactionXmin be) (log_subtrans st) x of
        Some (Inr t) \<Rightarrow> Some t | _ \<Rightarrow> None)"

definition backend_env :: "view_rest \<Rightarrow> proc_array \<Rightarrow> backend \<Rightarrow> xact_env" where
  "backend_env rest st be =
     \<lparr> is_current = TransactionIdIsCurrentTransactionId (my_xact be),
       in_progress = in_progress_of st be,
       did_commit = did_commit_of st be,
       topmost_xact = topmost_of st be,
       multixact_members = rest_multixact_members rest,
       commit_lsn = TransactionIdGetCommitLSN (backend_logs st be) (my_cache be),
       xlog_needs_flush = rest_xlog_needs_flush rest,
       combo_state = rest_combo_state rest,
       decoding_cids = rest_decoding_cids rest,
       recent_xmin = RecentXmin be,
       current_horizons = rest_horizons rest \<rparr>"

section \<open>Well-formed backends\<close>

text \<open>
  The logs point backwards, the status cache is right, and the backend's own xids are not
  older than its \<open>RecentXmin\<close>, not cached as finished and not committed.
\<close>

definition backend_ok :: "proc_array \<Rightarrow> backend \<Rightarrow> bool" where
  "backend_ok st be \<longleftrightarrow>
     TransactionIdIsNormal (RecentXmin be) \<and>
     logs_ok (backend_logs st be) \<and> cache_ok (backend_logs st be) (my_cache be) \<and>
     (\<forall>x. TransactionIdIsCurrentTransactionId (my_xact be) x \<longrightarrow>
        \<not> TransactionIdPrecedes x (RecentXmin be) \<and> cachedXidIsNotInProgress be \<noteq> x \<and>
        \<not> tree_committed (backend_logs st be) x)"

lemma current_is_valid:
  "TransactionIdIsCurrentTransactionId s x \<Longrightarrow> TransactionIdIsValid x"
  by (auto simp: TransactionIdIsCurrentTransactionId_def TransactionIdIsValid_def
      TransactionIdIsNormal_def xid_consts split: if_splits)

lemma DidCommit_total:
  assumes "logs_ok logs" "cache_ok logs c"
  shows "\<exists>c'. TransactionIdDidCommit logs x c =
           Some (TransactionIdIsValid x \<and> tree_committed logs x, c') \<and> cache_ok logs c'"
proof (cases "TransactionIdIsValid x")
  case True
  then show ?thesis using TransactionIdDidCommit_result [OF assms(1) True assms(2)] by simp
next
  case False
  then obtain s c' where "TransactionLogFetch logs x c = (s, c')" "cache_ok logs c'"
      "s \<in> {TRANSACTION_STATUS_IN_PROGRESS, TRANSACTION_STATUS_ABORTED}"
    using TransactionLogFetch_ok [OF assms(2), of x] by metis
  then show ?thesis using False by (subst TransactionIdDidCommit.simps) auto
qed

lemma DidAbort_total:
  assumes "logs_ok logs" "cache_ok logs c"
  obtains r c' where "TransactionIdDidAbort logs x c = Some (r, c')" "cache_ok logs c'"
    "TransactionIdIsValid x \<Longrightarrow> r = tree_aborted logs x"
proof (cases "TransactionIdIsValid x")
  case True
  then show thesis using TransactionIdDidAbort_result [OF assms(1) True assms(2)] that by blast
next
  case False
  then obtain s c' where "TransactionLogFetch logs x c = (s, c')" "cache_ok logs c'"
      "s \<in> {TRANSACTION_STATUS_IN_PROGRESS, TRANSACTION_STATUS_ABORTED}"
    using TransactionLogFetch_ok [OF assms(2), of x] by metis
  then show thesis using False that by (subst (asm) (1) TransactionIdDidAbort.simps) auto
qed

lemma topmost_total:
  assumes "logs_ok (backend_logs st be)"
  shows "\<exists>t. topmost_of st be x = Some t \<and>
     SubTransGetTopmostTransaction (my_TransactionXmin be) (log_subtrans st) x = Some (Inr t)"
proof (cases "TransactionIdIsValid x")
  case True
  have "TransactionIdIsNormal (my_TransactionXmin be)" "subtrans_wf (my_TransactionXmin be) (log_subtrans st)"
    using assms by (auto simp: logs_ok_def backend_logs_def)
  then show ?thesis
    using topmost_loop_result [OF _ True, of "my_TransactionXmin be" "log_subtrans st" x]
    by (fastforce simp: topmost_of_def SubTransGetTopmostTransaction_def split: sum.splits)
next
  case False
  then have "SubTransGetTopmostTransaction (my_TransactionXmin be) (log_subtrans st) x = Some (Inr x)"
    unfolding SubTransGetTopmostTransaction_def by (subst topmost_loop.simps) simp
  then show ?thesis by (simp add: topmost_of_def)
qed

text \<open>Step 4 for a transaction that is not itself one of \<open>xids\<close>.\<close>

definition child_of_running :: "proc_array \<Rightarrow> backend \<Rightarrow> TransactionId \<Rightarrow> TransactionId list \<Rightarrow> bool" where
  "child_of_running st be x xids \<longleftrightarrow>
     \<not> tree_aborted (backend_logs st be) x \<and>
     (\<exists>t. topmost_of st be x = Some t \<and> t \<noteq> x \<and> t \<in> set xids)"

lemma by_parent_total:
  assumes "backend_ok st be" "TransactionIdIsValid x"
  shows "\<exists>be'. in_progress_by_parent st be x xids = Some (Inr (child_of_running st be x xids), be')"
proof -
  have ok: "logs_ok (backend_logs st be)" "cache_ok (backend_logs st be) (my_cache be)"
    using assms by (auto simp: backend_ok_def)
  obtain c' where a: "TransactionIdDidAbort (backend_logs st be) x (my_cache be) =
      Some (tree_aborted (backend_logs st be) x, c')"
    using TransactionIdDidAbort_result [OF ok(1) assms(2) ok(2)] by blast
  obtain t where t: "topmost_of st be x = Some t"
      "SubTransGetTopmostTransaction (my_TransactionXmin be) (log_subtrans st) x = Some (Inr t)"
    using topmost_total [OF ok(1)] by blast
  then show ?thesis using a
    by (simp add: in_progress_by_parent_def child_of_running_def Let_def)
qed

text \<open>What the shared state says once the backend's shortcuts have been tried.\<close>

definition shared_in_progress :: "proc_array \<Rightarrow> backend \<Rightarrow> TransactionId \<Rightarrow> bool" where
  "shared_in_progress st be x \<longleftrightarrow>
     (case in_progress_scan st (pgxactoff (allProcs st (MyProc be))) x [0..<numProcs st] [] of
        None \<Rightarrow> True
      | Some xids \<Rightarrow>
          RecoveryInProgress st \<and> KnownAssignedXidExists x (known_xids st) \<or>
          child_of_running st be x
            (if RecoveryInProgress st \<and> TransactionIdPrecedesOrEquals x (lastOverflowedXid st)
             then KnownAssignedXidsGet (known_xids st) x else xids))"

lemma in_progress_of_eq:
  assumes "backend_ok st be"
  shows "in_progress_of st be x = Some
    (\<not> TransactionIdPrecedes x (RecentXmin be) \<and> cachedXidIsNotInProgress be \<noteq> x \<and>
     (TransactionIdIsCurrentTransactionId (my_xact be) x \<or>
      TransactionIdPrecedes (XidFromFullTransactionId (latestCompletedXid st)) x \<or>
      shared_in_progress st be x))"
proof (cases "TransactionIdPrecedes x (RecentXmin be)")
  case True
  then show ?thesis by (simp add: in_progress_of_def TransactionIdIsInProgress_def)
next
  case False
  have "TransactionIdIsNormal (RecentXmin be)" using assms by (simp add: backend_ok_def)
  then have "TransactionIdIsValid x"
    using False by (auto simp: TransactionIdPrecedes_def TransactionIdIsValid_def
        TransactionIdIsNormal_def xid_consts not_le word_le_nat_alt word_less_nat_alt)
  note parent = by_parent_total [OF assms this]
  let ?scan = "in_progress_scan st (pgxactoff (allProcs st (MyProc be))) x [0..<numProcs st] []"
  consider "cachedXidIsNotInProgress be = x \<or> TransactionIdIsCurrentTransactionId (my_xact be) x \<or>
      TransactionIdPrecedes (XidFromFullTransactionId (latestCompletedXid st)) x \<or> ?scan = None"
    | xids where "cachedXidIsNotInProgress be \<noteq> x" "\<not> TransactionIdIsCurrentTransactionId (my_xact be) x"
        "\<not> TransactionIdPrecedes (XidFromFullTransactionId (latestCompletedXid st)) x" "?scan = Some xids"
    by blast
  then show ?thesis
  proof cases
    case 1
    then show ?thesis using False
      by (auto simp: in_progress_of_def TransactionIdIsInProgress_def shared_in_progress_def)
  next
    case (2 xids)
    define xids' where "xids' = (if RecoveryInProgress st \<and> TransactionIdPrecedesOrEquals x (lastOverflowedXid st)
      then KnownAssignedXidsGet (known_xids st) x else xids)"
    obtain be' where by_parent: "in_progress_by_parent st be x xids' =
        Some (Inr (child_of_running st be x xids'), be')"
      using parent by blast
    have "\<not> child_of_running st be x []" by (simp add: child_of_running_def)
    then show ?thesis using 2 False by_parent
      by (cases "xids' = []")
        (auto simp: in_progress_of_def TransactionIdIsInProgress_def shared_in_progress_def
          xids'_def [symmetric] Let_def)
  qed
qed

section \<open>The interface\<close>

interpretation backend: transaction_manager
  "\<lambda>s. backend_env (fst s) (fst (snd s)) (snd (snd s))"
  "\<lambda>s. backend_ok (fst (snd s)) (snd (snd s))"
proof unfold_locales
  fix s :: "view_rest \<times> proc_array \<times> backend" and x
  assume ok: "backend_ok (fst (snd s)) (snd (snd s))"
  let ?env = "backend_env (fst s) (fst (snd s)) (snd (snd s))"
  have commit: "did_commit_of (fst (snd s)) (snd (snd s)) x =
      Some (TransactionIdIsValid x \<and> tree_committed (backend_logs (fst (snd s)) (snd (snd s))) x)"
    using DidCommit_total [of "backend_logs (fst (snd s)) (snd (snd s))" "my_cache (snd (snd s))" x] ok
    by (auto simp: did_commit_of_def backend_ok_def)
  show "in_progress ?env x \<noteq> None" using in_progress_of_eq [OF ok] by (simp add: backend_env_def)
  show "did_commit ?env x \<noteq> None" using commit by (simp add: backend_env_def)
  assume "is_current ?env x"
  then have cur: "TransactionIdIsCurrentTransactionId (my_xact (snd (snd s))) x"
    by (simp add: backend_env_def)
  show "in_progress ?env x = Some True"
    using in_progress_of_eq [OF ok, of x] ok cur by (simp add: backend_env_def backend_ok_def)
  show "did_commit ?env x = Some False"
    using commit ok cur by (simp add: backend_env_def backend_ok_def)
  show "TransactionIdIsValid x" using cur by (rule current_is_valid)
qed

end
