(* ===== verification/Snapshot_Props.thy ===== *)
theory Snapshot_Props
  imports Backend_View
begin

text \<open>
  What a snapshot is worth: every transaction it does not list as running has finished when it
  is taken (\<open>GetSnapshotData\<close> against \<open>TransactionIdIsInProgress\<close>), and a snapshot that is
  reused because no transaction has ended answers like a freshly built one.
\<close>

section \<open>The states in which snapshots are taken\<close>

text \<open>
  All xids in use lie in one window, and children are younger than their parents.
\<close>

definition xids_ok :: "TransactionId \<Rightarrow> proc_array \<Rightarrow> bool" where
  "xids_ok b st \<longleftrightarrow>
     xid_window b (XidFromFullTransactionId (latestCompletedXid st)) \<and>
     xid_window b (TransactionIdAdvance (XidFromFullTransactionId (latestCompletedXid st))) \<and>
     (\<forall>procno \<in> set (pgprocnos st). let p = allProcs st procno in
        TransactionIdIsValid (proc_xid p) \<longrightarrow>
        xid_window b (proc_xid p) \<and>
        (\<forall>c \<in> set (cached p). xid_window b c \<and> xid_dist b (proc_xid p) < xid_dist b c)) \<and>
     (if RecoveryInProgress st
      then known_ok b (known_xids st) \<and>
           (\<forall>procno \<in> set (pgprocnos st). \<not> TransactionIdIsValid (proc_xid (allProcs st procno))) \<and>
           (lastOverflowedXid st = InvalidTransactionId \<or> xid_window b (lastOverflowedXid st))
      else True)"

text \<open>No other backend is in a lazy VACUUM or in logical decoding with an xid.\<close>

definition none_skipped :: "proc_array \<Rightarrow> backend \<Rightarrow> bool" where
  "none_skipped st be \<longleftrightarrow>
     (\<forall>procno \<in> set (pgprocnos st). procno \<noteq> MyProc be \<longrightarrow>
        TransactionIdIsValid (proc_xid (allProcs st procno)) \<longrightarrow>
        proc_statusFlags (allProcs st procno) AND (PROC_IN_LOGICAL_DECODING OR PROC_IN_VACUUM) = 0)"

lemma Normal_precedes_window:
  "xid_window b x \<Longrightarrow> xid_window b y \<Longrightarrow> NormalTransactionIdPrecedes x y \<longleftrightarrow> xid_dist b x < xid_dist b y"
  by (simp add: NormalTransactionIdPrecedes_def sint_diff_window)

section \<open>The loop over the array\<close>

text \<open>The members whose xids go into the snapshot.\<close>

definition listed :: "proc_array \<Rightarrow> nat \<Rightarrow> TransactionId \<Rightarrow> nat \<Rightarrow> bool" where
  "listed st my xmax off \<longleftrightarrow>
     dense_xids st ! off \<noteq> InvalidTransactionId \<and> off \<noteq> my \<and>
     NormalTransactionIdPrecedes (dense_xids st ! off) xmax \<and>
     dense_statusFlags st ! off AND (PROC_IN_LOGICAL_DECODING OR PROC_IN_VACUUM) = 0"

definition children_at :: "proc_array \<Rightarrow> nat \<Rightarrow> TransactionId set" where
  "children_at st off =
     set (take (xc_count (dense_subxidStates st ! off)) (cached_subxids (allProcs st (pgprocnos st ! off))))"

lemma scan_fold:
  assumes "\<forall>off \<in> set offs. listed st my xmax off \<longrightarrow> xid_window b (dense_xids st ! off)"
    "xid_window b (scan_xmin acc)"
  shows "let acc' = fold (scan_proc st my xmax) offs acc; L = {off \<in> set offs. listed st my xmax off} in
    set (scan_xip acc') = set (scan_xip acc) \<union> (!) (dense_xids st) ` L \<and>
    (scan_overflowed acc' \<longleftrightarrow> scan_overflowed acc \<or> (\<exists>off \<in> L. xc_overflowed (dense_subxidStates st ! off))) \<and>
    (\<not> scan_overflowed acc' \<longrightarrow>
       set (scan_subxip acc') = set (scan_subxip acc) \<union> (\<Union>off \<in> L. children_at st off)) \<and>
    xid_window b (scan_xmin acc') \<and> xid_dist b (scan_xmin acc') \<le> xid_dist b (scan_xmin acc) \<and>
    (\<forall>off \<in> L. xid_dist b (scan_xmin acc') \<le> xid_dist b (dense_xids st ! off))"
  using assms
proof (induction offs arbitrary: acc)
  case (Cons off offs)
  show ?case
  proof (cases "listed st my xmax off")
    case False
    then have "scan_proc st my xmax off acc = acc"
      by (auto simp: scan_proc_def listed_def Let_def)
    moreover have "{o' \<in> set (off # offs). listed st my xmax o'} = {o' \<in> set offs. listed st my xmax o'}"
      using False by auto
    ultimately show ?thesis using Cons by simp
  next
    case True
    let ?x = "dense_xids st ! off" and ?acc = "scan_proc st my xmax off acc"
    have w: "xid_window b ?x" using Cons.prems True by simp
    have acc: "scan_xip ?acc = scan_xip acc @ [?x]"
        "scan_xmin ?acc = (if xid_dist b ?x < xid_dist b (scan_xmin acc) then ?x else scan_xmin acc)"
        "scan_overflowed ?acc \<longleftrightarrow> scan_overflowed acc \<or> xc_overflowed (dense_subxidStates st ! off)"
        "\<not> scan_overflowed ?acc \<longrightarrow> set (scan_subxip ?acc) = set (scan_subxip acc) \<union> children_at st off"
      using True Cons.prems(2) w
      by (auto simp: scan_proc_def listed_def Let_def Normal_precedes_window children_at_def)
    have "xid_window b (scan_xmin ?acc)" using acc(2) w Cons.prems(2) by simp
    note IH = Cons.IH [OF _ this]
    have L: "{o' \<in> set (off # offs). listed st my xmax o'} = insert off {o' \<in> set offs. listed st my xmax o'}"
      using True by auto
    show ?thesis
      unfolding L fold.simps comp_def using IH Cons.prems(1) acc
      by (auto simp: Let_def split: if_splits)
  qed
qed simp

section \<open>The scan of \<open>TransactionIdIsInProgress\<close>\<close>

text \<open>A member in which the scan finds \<open>x\<close>, and one it remembers for the last step.\<close>

definition hit :: "proc_array \<Rightarrow> nat \<Rightarrow> TransactionId \<Rightarrow> nat \<Rightarrow> bool" where
  "hit st my x off \<longleftrightarrow>
     off \<noteq> my \<and> TransactionIdIsValid (dense_xids st ! off) \<and>
     (dense_xids st ! off = x \<or>
      \<not> TransactionIdPrecedes x (dense_xids st ! off) \<and>
      find_cached (cached_subxids (allProcs st (pgprocnos st ! off))) x
        (xc_count (dense_subxidStates st ! off)) \<noteq> None)"

definition remembered :: "proc_array \<Rightarrow> nat \<Rightarrow> TransactionId \<Rightarrow> nat \<Rightarrow> bool" where
  "remembered st my x off \<longleftrightarrow>
     off \<noteq> my \<and> TransactionIdIsValid (dense_xids st ! off) \<and>
     \<not> TransactionIdPrecedes x (dense_xids st ! off) \<and> xc_overflowed (dense_subxidStates st ! off)"

lemma in_progress_scan_result:
  "case in_progress_scan st my x offs xids of
     None \<Rightarrow> \<exists>off \<in> set offs. hit st my x off
   | Some xids' \<Rightarrow> (\<forall>off \<in> set offs. \<not> hit st my x off) \<and>
       set xids' = set xids \<union> (!) (dense_xids st) ` {off \<in> set offs. remembered st my x off}"
proof (induction offs arbitrary: xids)
  case (Cons off offs)
  show ?case
  proof (cases "hit st my x off")
    case True
    then show ?thesis by (auto simp: hit_def Let_def split: option.split)
  next
    case False
    then have step: "in_progress_scan st my x (off # offs) xids =
        in_progress_scan st my x offs (if remembered st my x off then xids @ [dense_xids st ! off] else xids)"
      by (auto simp: hit_def remembered_def Let_def)
    show ?thesis
      unfolding step using False Cons.IH [of "if remembered st my x off then xids @ [dense_xids st ! off] else xids"]
      by (auto split: option.splits if_splits)
  qed
qed simp

lemma in_progress_scan_cong:
  assumes "dense_xids st' = dense_xids st" "dense_subxidStates st' = dense_subxidStates st"
    "pgprocnos st' = pgprocnos st" "\<And>p. cached_subxids (allProcs st' p) = cached_subxids (allProcs st p)"
  shows "in_progress_scan st' my x offs xids = in_progress_scan st my x offs xids"
  by (induction offs arbitrary: xids) (simp_all add: assms Let_def)

section \<open>Between xmin and xmax\<close>

lemma between_window:
  assumes lo: "xid_window b lo" and hi: "xid_window b hi" "xid_dist b lo \<le> xid_dist b hi"
    and x: "TransactionIdIsNormal x" "\<not> TransactionIdPrecedes x lo" "\<not> TransactionIdFollowsOrEquals x hi"
  shows "xid_window b x \<and> xid_dist b lo \<le> xid_dist b x \<and> xid_dist b x < xid_dist b hi"
proof -
  have "xid_window lo x" using lo x by (simp add: xid_window_iff xid_window_def [of b])
  then have small: "unat (x - lo) < 2 ^ 31" by (simp add: xid_window_def xid_dist_def)
  have lo': "unat (lo - b) < 2 ^ 31" "unat (hi - b) < 2 ^ 31"
    using lo hi by (simp_all add: xid_window_def xid_dist_def)
  have "unat (lo - b + (x - lo)) = unat (lo - b) + unat (x - lo)"
    using small lo' by (intro unat_add_lem [THEN iffD1]) simp
  then have sum: "xid_dist b x = xid_dist b lo + unat (x - lo)" by (simp add: xid_dist_def)
  have neg: "sint (x - hi) < 0"
    using x hi by (simp add: TransactionIdFollowsOrEquals_def xid_window_def Let_def not_le)
  have "xid_dist b x < xid_dist b hi"
  proof (rule ccontr)
    assume ge: "\<not> xid_dist b x < xid_dist b hi"
    then have "hi - b \<le> x - b" by (simp add: xid_dist_def word_le_nat_alt)
    then have "unat ((x - b) - (hi - b)) = unat (x - b) - unat (hi - b)" by (rule unat_sub)
    then have "unat (x - hi) = xid_dist b x - xid_dist b hi" by (simp add: xid_dist_def)
    also have "\<dots> < 2 ^ 31" using sum small hi(2) by linarith
    finally show False using neg by (simp add: sint_neg_iff)
  qed
  then show ?thesis using sum hi x(1) by (simp add: xid_window_def)
qed

section \<open>Building a snapshot\<close>

text \<open>Taking a snapshot changes one \<open>xmin\<close> in the shared state.\<close>

definition same_but_xmin :: "proc_array \<Rightarrow> proc_array \<Rightarrow> bool" where
  "same_but_xmin st st' \<longleftrightarrow>
     dense_xids st' = dense_xids st \<and> dense_subxidStates st' = dense_subxidStates st \<and>
     dense_statusFlags st' = dense_statusFlags st \<and> pgprocnos st' = pgprocnos st \<and>
     log_subtrans st' = log_subtrans st \<and> log_clog st' = log_clog st \<and>
     known_xids st' = known_xids st \<and> latestCompletedXid st' = latestCompletedXid st \<and>
     RecoveryInProgress st' = RecoveryInProgress st \<and> lastOverflowedXid st' = lastOverflowedXid st \<and>
     (\<forall>p. pgxactoff (allProcs st' p) = pgxactoff (allProcs st p) \<and>
          proc_xid (allProcs st' p) = proc_xid (allProcs st p) \<and>
          subxidStatus (allProcs st' p) = subxidStatus (allProcs st p) \<and>
          cached_subxids (allProcs st' p) = cached_subxids (allProcs st p))"

lemma same_but_xmin_update [simp]:
  "same_but_xmin st (update_proc m (proc_xmin_update f) st)" "same_but_xmin st st"
  by (auto simp: same_but_xmin_def)

lemma build_snapshot_result:
  assumes "build_snapshot cid defer_age snapshot st be = (snapshot', st', be')"
  defines "my \<equiv> pgxactoff (allProcs st (MyProc be))"
    and "xmax \<equiv> TransactionIdAdvance (XidFromFullTransactionId (latestCompletedXid st))"
  obtains acc xmin0 where
    "xmin0 = xmax \<or> (TransactionIdIsNormal xmin0 \<and> xmin0 = dense_xids st ! my \<and> NormalTransactionIdPrecedes xmin0 xmax)"
    "acc = (if \<not> RecoveryInProgress st
       then fold (scan_proc st my xmax) [0..<numProcs st]
              \<lparr> scan_xmin = xmin0, scan_xip = [], scan_subxip = [], scan_overflowed = False \<rparr>
       else let (subxids, xmin) = KnownAssignedXidsGetAndSetXmin (known_xids st) xmin0 xmax
            in \<lparr> scan_xmin = xmin, scan_xip = [], scan_subxip = subxids,
                 scan_overflowed = TransactionIdPrecedesOrEquals xmin (lastOverflowedXid st) \<rparr>)"
    "takenDuringRecovery snapshot' = RecoveryInProgress st" "snap_xmin snapshot' = scan_xmin acc"
    "snap_xmax snapshot' = xmax" "xip snapshot' = scan_xip acc" "subxip snapshot' = scan_subxip acc"
    "suboverflowed snapshot' = scan_overflowed acc" "RecentXmin be' = scan_xmin acc"
    "same_but_xmin st st'" "MyProc be' = MyProc be"
proof -
  define xmin0 where "xmin0 =
    (if TransactionIdIsNormal (dense_xids st ! my) \<and> NormalTransactionIdPrecedes (dense_xids st ! my) xmax
     then dense_xids st ! my else xmax)"
  define acc where "acc = (if \<not> RecoveryInProgress st
    then fold (scan_proc st my xmax) [0..<numProcs st]
           \<lparr> scan_xmin = xmin0, scan_xip = [], scan_subxip = [], scan_overflowed = False \<rparr>
    else let (subxids, xmin) = KnownAssignedXidsGetAndSetXmin (known_xids st) xmin0 xmax
         in \<lparr> scan_xmin = xmin, scan_xip = [], scan_subxip = subxids,
              scan_overflowed = TransactionIdPrecedesOrEquals xmin (lastOverflowedXid st) \<rparr>)"
  have res: "snapshot' = snapshot\<lparr> takenDuringRecovery := RecoveryInProgress st,
        snap_xmin := scan_xmin acc, snap_xmax := xmax, xip := scan_xip acc, subxip := scan_subxip acc,
        suboverflowed := scan_overflowed acc,
        snapXactCompletionCount := xactCompletionCount st, curcid := cid \<rparr>"
      "st' = st \<or> st' = update_proc (MyProc be) (proc_xmin_update (\<lambda>_. scan_xmin acc)) st"
      "RecentXmin be' = scan_xmin acc" "MyProc be' = MyProc be"
    using assms(1) unfolding build_snapshot_def my_def [symmetric] xmax_def [symmetric]
      xmin0_def [symmetric] Let_def acc_def [unfolded Let_def, symmetric]
    by (auto split: if_splits)
  show thesis
  proof (rule that [of xmin0 acc])
    show "xmin0 = xmax \<or> (TransactionIdIsNormal xmin0 \<and> xmin0 = dense_xids st ! my \<and>
        NormalTransactionIdPrecedes xmin0 xmax)"
      by (auto simp: xmin0_def)
  qed (use res in \<open>auto simp: acc_def\<close>)
qed

end
