(* ===== verification/Snapshot_Safe.thy ===== *)
theory Snapshot_Safe
  imports Snapshot_Props
begin

text \<open>
  The snapshots that \<open>build_snapshot\<close> takes satisfy \<open>snapshot_ok\<close>, the condition under which the
  visibility routines are correct: a transaction the snapshot does not consider running is not
  in progress. In normal running and in recovery the argument is the same: whatever
  \<open>TransactionIdIsInProgress\<close> finds, directly or through the topmost parent, is listed.
\<close>

section \<open>Families\<close>

text \<open>The subtransaction log leads from every running child to its top-level transaction.\<close>

definition families_ok :: "proc_array \<Rightarrow> backend \<Rightarrow> bool" where
  "families_ok st be \<longleftrightarrow>
     (\<forall>procno \<in> set (pgprocnos st). let p = allProcs st procno in
        procno \<noteq> MyProc be \<longrightarrow> TransactionIdIsValid (proc_xid p) \<longrightarrow>
        (\<forall>x \<in> set (proc_xid p # cached p). topmost_of st be x = Some (proc_xid p))) \<and>
     (RecoveryInProgress st \<longrightarrow>
        (\<forall>x \<in> set (valid_xids (known_xids st)). \<exists>t \<in> set (valid_xids (known_xids st)).
           topmost_of st be x = Some t \<and> \<not> TransactionIdPrecedes x t))"

lemma member_at:
  assumes "mirror_ok st" "MyProc be \<in> set (pgprocnos st)" "off < numProcs st"
    "off \<noteq> pgxactoff (allProcs st (MyProc be))"
  defines "p \<equiv> allProcs st (pgprocnos st ! off)"
  shows "dense_xids st ! off = proc_xid p" "dense_subxidStates st ! off = subxidStatus p"
    "dense_statusFlags st ! off = proc_statusFlags p" "proc_ok p"
    "pgprocnos st ! off \<in> set (pgprocnos st)" "pgprocnos st ! off \<noteq> MyProc be"
    "children_at st off = set (cached p)"
proof -
  have "mirrors st off p" "proc_ok p"
    using assms(1,3) by (auto simp: mirror_ok_def p_def)
  then show "dense_xids st ! off = proc_xid p" "dense_subxidStates st ! off = subxidStatus p"
    "dense_statusFlags st ! off = proc_statusFlags p" "proc_ok p"
    "pgprocnos st ! off \<in> set (pgprocnos st)" "children_at st off = set (cached p)"
    using assms(3) by (auto simp: mirrors_def children_at_def cached_def p_def)
  show "pgprocnos st ! off \<noteq> MyProc be"
    using assms(4) \<open>mirrors st off p\<close> by (auto simp: mirrors_def p_def)
qed

lemma below_next:
  assumes "xid_window b l" "xid_window b x" "xid_dist b x < xid_dist b (TransactionIdAdvance l)"
  shows "\<not> TransactionIdPrecedes l x"
proof
  assume "TransactionIdPrecedes l x"
  then have "xid_dist b l < xid_dist b x" using assms by simp
  then show False using advance_next [OF assms(1,2)] assms(3) by simp
qed

lemma member_window:
  assumes "mirror_ok st" "MyProc be \<in> set (pgprocnos st)" "xids_ok b st"
    "off < numProcs st" "TransactionIdIsValid (dense_xids st ! off)"
  shows "xid_window b (dense_xids st ! off)" "\<not> RecoveryInProgress st"
proof -
  have "dense_xids st ! off = proc_xid (allProcs st (pgprocnos st ! off))"
    using assms(1,4) by (simp add: mirror_ok_def mirrors_def)
  then show "xid_window b (dense_xids st ! off)" "\<not> RecoveryInProgress st"
    using assms(3-5) by (auto simp: xids_ok_def Let_def)
qed

lemma normal_is_valid: "TransactionIdIsNormal x \<Longrightarrow> TransactionIdIsValid x"
  by (auto simp: TransactionIdIsNormal_def TransactionIdIsValid_def xid_consts)

lemma first_xmin:
  assumes "mirror_ok st" "MyProc be \<in> set (pgprocnos st)" "xids_ok b st"
  defines "xmax \<equiv> TransactionIdAdvance (XidFromFullTransactionId (latestCompletedXid st))"
  assumes "xmin0 = xmax \<or> (TransactionIdIsNormal xmin0 \<and>
      xmin0 = dense_xids st ! pgxactoff (allProcs st (MyProc be)) \<and> NormalTransactionIdPrecedes xmin0 xmax)"
  shows "xid_window b xmin0 \<and> xid_dist b xmin0 \<le> xid_dist b xmax"
    and "RecoveryInProgress st \<Longrightarrow> xmin0 = xmax"
proof -
  have w: "xid_window b xmax" using assms(3) by (simp add: xids_ok_def xmax_def)
  note own = member_window [OF assms(1-3) mirror_member(1) [OF assms(1,2)]]
  show "xid_window b xmin0 \<and> xid_dist b xmin0 \<le> xid_dist b xmax"
    using assms(5) own(1) w normal_is_valid [of xmin0] by (auto simp: Normal_precedes_window)
  show "RecoveryInProgress st \<Longrightarrow> xmin0 = xmax"
    using assms(5) own(2) normal_is_valid [of xmin0] by auto
qed

lemma recovery_xids:
  assumes "xids_ok b st" "RecoveryInProgress st" "xid_window b xmax"
    and "KnownAssignedXidsGetAndSetXmin (known_xids st) xmax xmax = (subxids, xmin)"
  shows "subxids = filter (\<lambda>v. TransactionIdPrecedes v xmax) (valid_xids (known_xids st))"
    and "xid_window b xmin" "xid_dist b xmin \<le> xid_dist b xmax"
    and "\<And>v. v \<in> set (valid_xids (known_xids st)) \<Longrightarrow> xid_dist b v < xid_dist b xmax \<Longrightarrow>
           xid_dist b xmin \<le> xid_dist b v"
    and "\<And>v. v \<in> set (valid_xids (known_xids st)) \<Longrightarrow> xid_window b v"
proof -
  let ?V = "valid_xids (known_xids st)"
  have known: "known_ok b (known_xids st)" using assms(1,2) by (simp add: xids_ok_def)
  have asc: "ascending_from b ?V" using known by (rule valid_xids_ascending)
  show inw: "xid_window b v" if "v \<in> set ?V" for v
    using asc that by (auto simp: ascending_from_def list_all_iff)
  have valid: "TransactionIdIsValid xmax" using assms(3) normal_is_valid by (simp add: xid_window_def)
  have xmin: "xmin = (case ?V of [] \<Rightarrow> xmax | v # _ \<Rightarrow> if TransactionIdPrecedes v xmax then v else xmax)"
    using assms(4) valid GetAndSetXmin_ok [OF known, of xmax xmax] assms(3) by simp
  show "subxids = filter (\<lambda>v. TransactionIdPrecedes v xmax) ?V"
    using assms(4) valid GetAndSetXmin_ok [OF known, of xmax xmax] assms(3) by simp
  have "\<forall>v \<in> set ?V. xid_window b v" using inw by blast
  then show "xid_window b xmin" "xid_dist b xmin \<le> xid_dist b xmax"
    using xmin assms(3) by (auto split: list.splits if_splits)
  show "xid_dist b xmin \<le> xid_dist b v" if "v \<in> set ?V" "xid_dist b v < xid_dist b xmax" for v
  proof (cases ?V)
    case (Cons a vs)
    then have "xid_dist b a \<le> xid_dist b v" "xid_window b a"
      using that(1) asc inw by (auto simp: ascending_from_def)
    then show ?thesis using xmin Cons that(2) assms(3) by auto
  qed (use that in simp)
qed

section \<open>Outside recovery\<close>

lemma snapshot_lists_running:
  assumes ok: "mirror_ok st" "MyProc be \<in> set (pgprocnos st)" "xids_ok b st" "none_skipped st be"
    and not_rec: "\<not> RecoveryInProgress st"
    and fam: "families_ok st be"
  defines "my \<equiv> pgxactoff (allProcs st (MyProc be))"
  defines "xmax \<equiv> TransactionIdAdvance (XidFromFullTransactionId (latestCompletedXid st))"
  assumes acc: "acc = fold (scan_proc st my xmax) [0..<numProcs st]
      \<lparr> scan_xmin = xmin0, scan_xip = [], scan_subxip = [], scan_overflowed = False \<rparr>"
    and xmin0: "xid_window b xmin0"
    and x: "xid_window b x" "xid_dist b x < xid_dist b xmax"
    and sh: "shared_in_progress st be x"
    and top: "topmost_of st be x = Some t"
  shows "(\<not> scan_overflowed acc \<and> (x \<in> set (scan_xip acc) \<or> x \<in> set (scan_subxip acc))) \<or>
    (scan_overflowed acc \<and> t \<in> set (scan_xip acc) \<and> \<not> TransactionIdPrecedes t (scan_xmin acc))"
proof -
  let ?L = "{off \<in> set [0..<numProcs st]. listed st my xmax off}"
  have xmax: "xid_window b xmax" using ok(3) by (simp add: xids_ok_def xmax_def)
  note member = member_at [OF ok(1,2), folded my_def]
  have window: "xid_window b (dense_xids st ! off)"
    if "off < numProcs st" "off \<noteq> my" "TransactionIdIsValid (dense_xids st ! off)" for off
    using member_window(1) [OF ok(1-3) that(1,3)] .
  have listedI: "off \<in> ?L"
    if off: "off < numProcs st" "off \<noteq> my" "TransactionIdIsValid (dense_xids st ! off)"
      "\<not> TransactionIdPrecedes x (dense_xids st ! off)" for off
  proof -
    have "xid_dist b (dense_xids st ! off) < xid_dist b xmax"
      using window [OF off(1-3)] off(4) x by simp
    then show ?thesis
      using off window [OF off(1-3)] xmax member [OF off(1,2)] ok(4)
      by (auto simp: listed_def Normal_precedes_window none_skipped_def TransactionIdIsValid_def)
  qed
  have res: "set (scan_xip acc) = (!) (dense_xids st) ` ?L"
      "scan_overflowed acc \<longleftrightarrow> (\<exists>off \<in> ?L. xc_overflowed (dense_subxidStates st ! off))"
      "\<not> scan_overflowed acc \<Longrightarrow> set (scan_subxip acc) = (\<Union>off \<in> ?L. children_at st off)"
      "xid_window b (scan_xmin acc)" "\<forall>off \<in> ?L. xid_dist b (scan_xmin acc) \<le> xid_dist b (dense_xids st ! off)"
    using scan_fold [where offs = "[0..<numProcs st]" and st = st and my = my and xmax = xmax and b = b
        and acc = "\<lparr> scan_xmin = xmin0, scan_xip = [], scan_subxip = [], scan_overflowed = False \<rparr>"]
      xmin0 window
    by (auto simp: acc Let_def listed_def TransactionIdIsValid_def)
  have parent_listed: "t \<in> set (scan_xip acc) \<and> \<not> TransactionIdPrecedes t (scan_xmin acc)"
    if "off \<in> ?L" "t = dense_xids st ! off" for off
  proof -
    have "xid_window b t" using that window [of off] by (auto simp: listed_def TransactionIdIsValid_def)
    then show ?thesis using that res by (auto simp: not_less)
  qed
  from sh obtain r where scan: "in_progress_scan st my x [0..<numProcs st] [] = r"
      "case r of None \<Rightarrow> True | Some xids \<Rightarrow> child_of_running st be x xids"
    using not_rec by (auto simp: shared_in_progress_def my_def split: option.splits)
  show ?thesis
  proof (cases r)
    case None
    then obtain off where off: "off < numProcs st" "hit st my x off"
      using in_progress_scan_result [where st = st and my = my and x = x
          and offs = "[0..<numProcs st]" and xids = "[]"] scan(1) by auto
    have not_me: "off \<noteq> my" using off by (simp add: hit_def)
    note m = member [OF off(1) not_me]
    let ?p = "allProcs st (pgprocnos st ! off)"
    have "x = dense_xids st ! off \<or> x \<in> set (cached ?p) \<and> \<not> TransactionIdPrecedes x (dense_xids st ! off)"
      using off(2) m find_cached_iff [OF m(4), of x] by (auto simp: hit_def)
    moreover have "off \<in> ?L"
      using listedI [OF off(1) not_me] off(2) calculation x window [OF off(1) not_me]
      by (auto simp: hit_def)
    moreover have "t = dense_xids st ! off"
      using calculation fam m(1,5,6) top off(2) by (auto simp: families_ok_def Let_def hit_def)
    ultimately show ?thesis
      using parent_listed [of off] res(1,3) m(7) by (cases "scan_overflowed acc") auto
  next
    case (Some xids)
    then have xids: "set xids = (!) (dense_xids st) ` {off \<in> set [0..<numProcs st]. remembered st my x off}"
      using in_progress_scan_result [where st = st and my = my and x = x
          and offs = "[0..<numProcs st]" and xids = "[]"] scan(1) by auto
    from scan(2) Some top have "t \<in> set xids" by (auto simp: child_of_running_def)
    then obtain off where off: "off < numProcs st" "remembered st my x off" "t = dense_xids st ! off"
      using xids by auto
    have "off \<in> ?L" using listedI [OF off(1)] off(2) by (auto simp: remembered_def)
    then show ?thesis using parent_listed [of off] off res(2) by (auto simp: remembered_def)
  qed
qed

section \<open>In recovery\<close>

lemma in_progress_scan_no_xids:
  "(\<And>off. off \<in> set offs \<Longrightarrow> off \<noteq> my \<Longrightarrow> \<not> TransactionIdIsValid (dense_xids st ! off)) \<Longrightarrow>
     in_progress_scan st my x offs xids = Some xids"
  by (induction offs arbitrary: xids) (auto simp: Let_def)

lemma recovery_snapshot_lists_running:
  assumes ok: "mirror_ok st" "MyProc be \<in> set (pgprocnos st)" "xids_ok b st"
    and rec: "RecoveryInProgress st"
    and fam: "families_ok st be"
  defines "xmax \<equiv> TransactionIdAdvance (XidFromFullTransactionId (latestCompletedXid st))"
  assumes acc: "KnownAssignedXidsGetAndSetXmin (known_xids st) xmax xmax = (subxids, xmin)"
    and x: "xid_window b x" "xid_dist b xmin \<le> xid_dist b x" "xid_dist b x < xid_dist b xmax"
    and sh: "shared_in_progress st be x"
    and top: "topmost_of st be x = Some t"
  shows "(\<not> TransactionIdPrecedesOrEquals xmin (lastOverflowedXid st) \<longrightarrow> x \<in> set subxids) \<and>
    (TransactionIdPrecedesOrEquals xmin (lastOverflowedXid st) \<longrightarrow>
       t \<in> set subxids \<and> \<not> TransactionIdPrecedes t xmin)"
proof -
  have known: "known_ok b (known_xids st)" using ok(3) rec by (simp add: xids_ok_def)
  have xmax: "xid_window b xmax" using ok(3) by (simp add: xids_ok_def xmax_def)
  have valid: "TransactionIdIsValid y" if "xid_window b y" for y
    using that normal_is_valid by (simp add: xid_window_def)
  let ?V = "valid_xids (known_xids st)"
  note sub = recovery_xids [OF ok(3) rec xmax acc]
  have listedI: "v \<in> set subxids \<and> \<not> TransactionIdPrecedes v xmin"
    if "v \<in> set ?V" "\<not> TransactionIdPrecedes x v" for v
    using that x sub(1,2) sub(5) [OF that(1)] xmax sub(4) [OF that(1)] by auto
  have no_xid: "\<not> TransactionIdIsValid (dense_xids st ! off)" if "off < numProcs st" for off
    using member_window(2) [OF ok that] rec by blast
  have scan: "in_progress_scan st (pgxactoff (allProcs st (MyProc be))) x [0..<numProcs st] [] = Some []"
    using no_xid by (intro in_progress_scan_no_xids) auto
  have "x \<in> set ?V \<or> TransactionIdPrecedesOrEquals x (lastOverflowedXid st) \<and>
      child_of_running st be x (KnownAssignedXidsGet (known_xids st) x)"
  proof -
    have "\<not> child_of_running st be x []" by (simp add: child_of_running_def)
    then show ?thesis
      using sh scan rec KnownAssignedXidExists_iff [OF known, of x]
      unfolding shared_in_progress_def by (auto split: if_splits)
  qed
  then show ?thesis
  proof
    assume "x \<in> set ?V"
    moreover from this obtain t' where "t' \<in> set ?V" "topmost_of st be x = Some t'" "\<not> TransactionIdPrecedes x t'"
      using fam rec unfolding families_ok_def by blast
    moreover have "\<not> TransactionIdPrecedes x x" using x(1) by simp
    ultimately show ?thesis using listedI top by auto
  next
    assume *: "TransactionIdPrecedesOrEquals x (lastOverflowedXid st) \<and>
      child_of_running st be x (KnownAssignedXidsGet (known_xids st) x)"
    then have lo: "xid_window b (lastOverflowedXid st)"
      using ok(3) rec x(1)
      by (auto simp: xids_ok_def TransactionIdPrecedesOrEquals_def xid_window_def TransactionIdIsNormal_def
          xid_consts word_le_nat_alt)
    then have over: "TransactionIdPrecedesOrEquals xmin (lastOverflowedXid st)" using * x sub(2) by auto
    from * top have "t \<in> set (KnownAssignedXidsGet (known_xids st) x)" by (auto simp: child_of_running_def)
    then have "t \<in> set ?V" "TransactionIdPrecedes t x"
      using GetAndSetXmin_ok [OF known, of x InvalidTransactionId] valid [OF x(1)] x(1)
      by (auto simp: KnownAssignedXidsGet_def)
    moreover from this have "\<not> TransactionIdPrecedes x t" using sub(5) [of t] x(1) by simp
    ultimately show ?thesis using listedI over by blast
  qed
qed

section \<open>The snapshot\<close>

lemma same_views:
  assumes "same_but_xmin st st'"
  shows "shared_in_progress st' be x = shared_in_progress st be x"
    and "families_ok st' be = families_ok st be"
    and "topmost_of st' be x = topmost_of st be x"
proof -
  note eqs = assms [unfolded same_but_xmin_def]
  have top: "topmost_of st' be = topmost_of st be" using eqs by (auto simp: topmost_of_def)
  have child: "child_of_running st' be = child_of_running st be"
    using eqs top by (intro ext) (simp add: child_of_running_def backend_logs_def)
  have scan: "in_progress_scan st' my x offs xids = in_progress_scan st my x offs xids" for my x offs xids
    using eqs in_progress_scan_cong [of st' st] by simp
  show "shared_in_progress st' be x = shared_in_progress st be x"
    unfolding shared_in_progress_def child scan using eqs by (simp cong: option.case_cong)
  show "families_ok st' be = families_ok st be"
    unfolding families_ok_def top using eqs by (simp add: cached_def Let_def)
  show "topmost_of st' be x = topmost_of st be x" using top by simp
qed

lemma build_snapshot_safe:
  assumes ok: "mirror_ok st" "MyProc be \<in> set (pgprocnos st)" "xids_ok b st" "none_skipped st be"
    and build: "build_snapshot cid defer_age snapshot st be = (snapshot', st', be')"
    and after: "families_ok st' be'" "backend_ok st' be'"
  shows "snapshot_ok (backend_env rest st' be') snapshot'"
  unfolding snapshot_ok_def
proof (intro allI impI)
  fix x assume "\<not> is_current (backend_env rest st' be') x"
  then have foreign: "\<not> TransactionIdIsCurrentTransactionId (my_xact be') x" by (simp add: backend_env_def)
  let ?my = "pgxactoff (allProcs st (MyProc be))"
  let ?xmax = "TransactionIdAdvance (XidFromFullTransactionId (latestCompletedXid st))"
  from build obtain acc xmin0 where
    xmin0: "xmin0 = ?xmax \<or> TransactionIdIsNormal xmin0 \<and> xmin0 = dense_xids st ! ?my \<and> NormalTransactionIdPrecedes xmin0 ?xmax"
    and acc: "acc = (if \<not> RecoveryInProgress st
       then fold (scan_proc st ?my ?xmax) [0..<numProcs st]
              \<lparr> scan_xmin = xmin0, scan_xip = [], scan_subxip = [], scan_overflowed = False \<rparr>
       else let (subxids, xmin) = KnownAssignedXidsGetAndSetXmin (known_xids st) xmin0 ?xmax
            in \<lparr> scan_xmin = xmin, scan_xip = [], scan_subxip = subxids,
                 scan_overflowed = TransactionIdPrecedesOrEquals xmin (lastOverflowedXid st) \<rparr>)"
    and snap: "takenDuringRecovery snapshot' = RecoveryInProgress st" "snap_xmin snapshot' = scan_xmin acc"
      "snap_xmax snapshot' = ?xmax" "xip snapshot' = scan_xip acc" "subxip snapshot' = scan_subxip acc"
      "suboverflowed snapshot' = scan_overflowed acc"
    and be': "RecentXmin be' = scan_xmin acc" "MyProc be' = MyProc be"
    and same: "same_but_xmin st st'"
    by (rule build_snapshot_result)
  note same_fields = same [unfolded same_but_xmin_def]
  have fam: "families_ok st be'" using after(1) same_views(2) [OF same] by simp
  obtain t where top: "topmost_of st' be' x = Some t" "topmost_of st be' x = Some t"
    using topmost_total [of st' be' x] after(2) same_views(3) [OF same] by (auto simp: backend_ok_def)
  have ok': "MyProc be' \<in> set (pgprocnos st)" "none_skipped st be'"
    using ok(2,4) be'(2) by (simp_all add: none_skipped_def)
  have prog: "in_progress (backend_env rest st' be') x = Some
     (\<not> TransactionIdPrecedes x (scan_xmin acc) \<and> cachedXidIsNotInProgress be' \<noteq> x \<and>
      (TransactionIdPrecedes (XidFromFullTransactionId (latestCompletedXid st)) x \<or> shared_in_progress st be' x))"
    using in_progress_of_eq [OF after(2), of x] foreign be'(1) same_views(1) [OF same] same_fields
    by (simp add: backend_env_def)
  have env: "topmost_xact (backend_env rest st' be') x = Some t" using top by (simp add: backend_env_def)
  have now: "xid_window b (XidFromFullTransactionId (latestCompletedXid st))" "xid_window b ?xmax"
    using ok(3) by (simp_all add: xids_ok_def)
  note start = first_xmin [OF ok(1-3) xmin0]
  have lo: "xid_window b (scan_xmin acc) \<and> xid_dist b (scan_xmin acc) \<le> xid_dist b ?xmax"
  proof (cases "RecoveryInProgress st")
    case True
    obtain subxids xmin where get: "KnownAssignedXidsGetAndSetXmin (known_xids st) ?xmax ?xmax = (subxids, xmin)"
      by fastforce
    then have "scan_xmin acc = xmin" using acc True start(2) by simp
    then show ?thesis using recovery_xids(2,3) [OF ok(3) True now(2) get] by simp
  next
    case False
    then have "acc = fold (scan_proc st ?my ?xmax) [0..<numProcs st]
        \<lparr> scan_xmin = xmin0, scan_xip = [], scan_subxip = [], scan_overflowed = False \<rparr>"
      using acc by simp
    then show ?thesis
      using scan_fold [where offs = "[0..<numProcs st]" and st = st and my = ?my and xmax = ?xmax and b = b
          and acc = "\<lparr> scan_xmin = xmin0, scan_xip = [], scan_subxip = [], scan_overflowed = False \<rparr>"]
        start(1) member_window(1) [OF ok(1-3)]
      by (auto simp: Let_def listed_def TransactionIdIsValid_def)
  qed
  have listed: "\<not> scan_overflowed acc \<and>
        x \<in> (if RecoveryInProgress st then set (scan_subxip acc) else set (scan_xip acc) \<union> set (scan_subxip acc)) \<or>
      scan_overflowed acc \<and> \<not> TransactionIdPrecedes t (scan_xmin acc) \<and>
        t \<in> (if RecoveryInProgress st then set (scan_subxip acc) else set (scan_xip acc))"
    if x: "xid_window b x" "xid_dist b (scan_xmin acc) \<le> xid_dist b x" "xid_dist b x < xid_dist b ?xmax"
      "shared_in_progress st be' x"
  proof (cases "RecoveryInProgress st")
    case False
    from snapshot_lists_running [OF ok(1) ok'(1) ok(3) ok'(2) False fam _ conjunct1 [OF start(1)]
        x(1,3,4) top(2), of acc]
    show ?thesis using acc False be'(2) by auto
  next
    case True
    obtain subxids xmin where get: "KnownAssignedXidsGetAndSetXmin (known_xids st) ?xmax ?xmax = (subxids, xmin)"
      by fastforce
    then have "acc = \<lparr> scan_xmin = xmin, scan_xip = [], scan_subxip = subxids,
        scan_overflowed = TransactionIdPrecedesOrEquals xmin (lastOverflowedXid st) \<rparr>"
      using acc True start(2) by simp
    then show ?thesis
      using recovery_snapshot_lists_running [OF ok(1) ok'(1) ok(3) True fam get x(1) _ x(3,4) top(2)] x(2) True
      by auto
  qed
  consider (old) "TransactionIdPrecedes x (scan_xmin acc)" | (new) "\<not> TransactionIdPrecedes x (scan_xmin acc)" "TransactionIdFollowsOrEquals x ?xmax"
    | (mid) "\<not> TransactionIdPrecedes x (scan_xmin acc)" "\<not> TransactionIdFollowsOrEquals x ?xmax"
    by blast
  then show "XidInMVCCSnapshot (backend_env rest st' be') x snapshot' = Some True \<or>
      XidInMVCCSnapshot (backend_env rest st' be') x snapshot' = Some False \<and>
      in_progress (backend_env rest st' be') x = Some False"
  proof cases
    case old
    then show ?thesis using prog by (simp add: XidInMVCCSnapshot_def snap)
  next
    case new
    then show ?thesis by (auto simp: XidInMVCCSnapshot_def snap)
  next
    case mid
    have "TransactionIdIsNormal x" 
      using mid(1) special_precedes lo by (auto simp: xid_window_def)
    from between_window [OF conjunct1 [OF lo] now(2) conjunct2 [OF lo] this mid]
    have x: "xid_window b x" "xid_dist b (scan_xmin acc) \<le> xid_dist b x" "xid_dist b x < xid_dist b ?xmax"
      by auto
    then have "\<not> TransactionIdPrecedes (XidFromFullTransactionId (latestCompletedXid st)) x"
      using below_next now(1) by blast
    then show ?thesis
      using prog listed [OF x] mid env by (auto simp: XidInMVCCSnapshot_def snap split: if_splits)
  qed
qed

end
