(* ===== verification/Proc_Props.thy ===== *)
theory Proc_Props
  imports Snapshot_Safe Visibility_Props
begin

text \<open>
  The properties of the process array: the dense arrays mirror the processes at all times, the
  removal of aborted subtransactions, what \<open>TransactionIdIsInProgress\<close> decides, and the safety
  of the snapshots taken from it, alone and together with the visibility routines.
\<close>

section \<open>What is in progress\<close>

text \<open>
  A transaction runs in another process: as its main transaction, as a child in its cache, or,
  when the cache has overflowed, as a child that the subtransaction log leads to it.
\<close>

definition runs_in :: "proc_array \<Rightarrow> backend \<Rightarrow> TransactionId \<Rightarrow> PGPROC \<Rightarrow> bool" where
  "runs_in st be x p \<longleftrightarrow>
     TransactionIdIsValid (proc_xid p) \<and>
     (x = proc_xid p \<or> x \<in> set (cached p) \<or>
      xc_overflowed (subxidStatus p) \<and> TransactionIdPrecedes (proc_xid p) x \<and>
      topmost_of st be x = Some (proc_xid p) \<and> \<not> tree_aborted (backend_logs st be) x)"

definition runs_on_primary :: "proc_array \<Rightarrow> backend \<Rightarrow> TransactionId \<Rightarrow> bool" where
  "runs_on_primary st be x \<longleftrightarrow>
     x \<in> set (valid_xids (known_xids st)) \<or>
     TransactionIdPrecedesOrEquals x (lastOverflowedXid st) \<and>
     (\<exists>t \<in> set (valid_xids (known_xids st)). TransactionIdPrecedes t x \<and>
        topmost_of st be x = Some t \<and> \<not> tree_aborted (backend_logs st be) x)"

definition runs_elsewhere :: "proc_array \<Rightarrow> backend \<Rightarrow> TransactionId \<Rightarrow> bool" where
  "runs_elsewhere st be x \<longleftrightarrow>
     (if RecoveryInProgress st then runs_on_primary st be x
      else \<exists>procno \<in> set (pgprocnos st) - {MyProc be}. runs_in st be x (allProcs st procno))"

lemma shared_in_progress_elsewhere:
  assumes ok: "mirror_ok st" "MyProc be \<in> set (pgprocnos st)" "xids_ok b st" and x: "xid_window b x"
    and not_rec: "\<not> RecoveryInProgress st"
  shows "shared_in_progress st be x \<longleftrightarrow> runs_elsewhere st be x"
proof -
  define my where "my = pgxactoff (allProcs st (MyProc be))"
  note member = member_at [OF ok(1,2), folded my_def]
  note window = member_window(1) [OF ok]
  have others: "(\<exists>procno \<in> set (pgprocnos st) - {MyProc be}. P (allProcs st procno)) \<longleftrightarrow>
      (\<exists>off < numProcs st. off \<noteq> my \<and> P (allProcs st (pgprocnos st ! off)))" for P
  proof
    assume "\<exists>procno \<in> set (pgprocnos st) - {MyProc be}. P (allProcs st procno)"
    then obtain procno where procno: "procno \<in> set (pgprocnos st)" "procno \<noteq> MyProc be" "P (allProcs st procno)"
      by auto
    obtain off where "off < numProcs st" "pgprocnos st ! off = procno"
      using procno(1) by (auto simp: in_set_conv_nth)
    then show "\<exists>off < numProcs st. off \<noteq> my \<and> P (allProcs st (pgprocnos st ! off))"
      using procno(2,3) mirror_member(2) [OF ok(1,2)] by (auto simp: my_def)
  next
    assume "\<exists>off < numProcs st. off \<noteq> my \<and> P (allProcs st (pgprocnos st ! off))"
    then show "\<exists>procno \<in> set (pgprocnos st) - {MyProc be}. P (allProcs st procno)"
      using member(5,6) by blast
  qed
  have child_older: "\<not> TransactionIdPrecedes x (proc_xid (allProcs st (pgprocnos st ! off)))"
    if "off < numProcs st" "off \<noteq> my" "TransactionIdIsValid (proc_xid (allProcs st (pgprocnos st ! off)))"
      "x \<in> set (cached (allProcs st (pgprocnos st ! off)))" for off
  proof -
    have "xid_window b (proc_xid (allProcs st (pgprocnos st ! off)))"
        "xid_dist b (proc_xid (allProcs st (pgprocnos st ! off))) < xid_dist b x"
      using member(5) [OF that(1,2)] that(3,4) ok(3) by (auto simp: xids_ok_def Let_def)
    then show ?thesis using x by simp
  qed
  have hits: "(\<exists>off \<in> set [0..<numProcs st]. hit st my x off) \<longleftrightarrow>
      (\<exists>off < numProcs st. off \<noteq> my \<and> TransactionIdIsValid (proc_xid (allProcs st (pgprocnos st ! off))) \<and>
         (x = proc_xid (allProcs st (pgprocnos st ! off)) \<or> x \<in> set (cached (allProcs st (pgprocnos st ! off)))))"
  proof -
    have "hit st my x off \<longleftrightarrow> off \<noteq> my \<and> TransactionIdIsValid (proc_xid (allProcs st (pgprocnos st ! off))) \<and>
         (x = proc_xid (allProcs st (pgprocnos st ! off)) \<or> x \<in> set (cached (allProcs st (pgprocnos st ! off))))"
      if "off < numProcs st" for off
    proof (cases "off = my")
      case False
      note m = member [OF that False]
      show ?thesis
        unfolding hit_def m(1,2) find_cached_iff [OF m(4)] using child_older [OF that False] by auto
    qed (simp add: hit_def)
    then show ?thesis by (simp add: Bex_def)
  qed
  have rem: "(\<exists>off \<in> set [0..<numProcs st]. remembered st my x off \<and> topmost_of st be x = Some (dense_xids st ! off) \<and>
        dense_xids st ! off \<noteq> x \<and> \<not> tree_aborted (backend_logs st be) x) \<longleftrightarrow>
      (\<exists>off < numProcs st. off \<noteq> my \<and> TransactionIdIsValid (proc_xid (allProcs st (pgprocnos st ! off))) \<and>
         (let p = allProcs st (pgprocnos st ! off) in
          xc_overflowed (subxidStatus p) \<and> TransactionIdPrecedes (proc_xid p) x \<and>
          topmost_of st be x = Some (proc_xid p) \<and> \<not> tree_aborted (backend_logs st be) x))"
  proof -
    have "\<not> TransactionIdPrecedes x (dense_xids st ! off) \<and> dense_xids st ! off \<noteq> x \<longleftrightarrow>
        TransactionIdPrecedes (dense_xids st ! off) x"
      if "off < numProcs st" "TransactionIdIsValid (dense_xids st ! off)" for off
      using window [OF that] x by (auto simp: not_less le_less)
    note older = this
    have "remembered st my x off \<and> topmost_of st be x = Some (dense_xids st ! off) \<and>
        dense_xids st ! off \<noteq> x \<and> \<not> tree_aborted (backend_logs st be) x \<longleftrightarrow>
        off \<noteq> my \<and> TransactionIdIsValid (proc_xid (allProcs st (pgprocnos st ! off))) \<and>
         (let p = allProcs st (pgprocnos st ! off) in
          xc_overflowed (subxidStatus p) \<and> TransactionIdPrecedes (proc_xid p) x \<and>
          topmost_of st be x = Some (proc_xid p) \<and> \<not> tree_aborted (backend_logs st be) x)"
      if "off < numProcs st" for off
    proof (cases "off = my")
      case False
      note m = member [OF that False]
      show ?thesis using older [OF that] unfolding remembered_def Let_def m(1,2) by blast
    qed (simp add: remembered_def)
    then show ?thesis by (simp add: Bex_def)
  qed
  show ?thesis
  proof (cases "\<exists>off \<in> set [0..<numProcs st]. hit st my x off")
    case True
    then have "in_progress_scan st my x [0..<numProcs st] [] = None"
      using in_progress_scan_result [where st = st and my = my and x = x
          and offs = "[0..<numProcs st]" and xids = "[]"] by (auto split: option.splits)
    then have "shared_in_progress st be x" by (simp add: shared_in_progress_def my_def)
    moreover have "runs_elsewhere st be x"
      using True not_rec unfolding hits runs_elsewhere_def others by (auto simp: runs_in_def)
    ultimately show ?thesis by simp
  next
    case False
    then obtain xids where scan: "in_progress_scan st my x [0..<numProcs st] [] = Some xids"
        "set xids = (!) (dense_xids st) ` {off \<in> set [0..<numProcs st]. remembered st my x off}"
      using in_progress_scan_result [where st = st and my = my and x = x
          and offs = "[0..<numProcs st]" and xids = "[]"] by (auto split: option.splits)
    have "shared_in_progress st be x \<longleftrightarrow> child_of_running st be x xids"
      using not_rec scan(1) by (simp add: shared_in_progress_def my_def)
    also have "\<dots> \<longleftrightarrow> (\<exists>off \<in> set [0..<numProcs st]. remembered st my x off \<and>
        topmost_of st be x = Some (dense_xids st ! off) \<and>
        dense_xids st ! off \<noteq> x \<and> \<not> tree_aborted (backend_logs st be) x)"
      by (auto simp: child_of_running_def scan(2))
    also have "\<dots> \<longleftrightarrow> runs_elsewhere st be x"
      using False not_rec unfolding rem hits runs_elsewhere_def others by (auto simp: runs_in_def Let_def)
    finally show ?thesis .
  qed
qed

lemma shared_in_progress_recovery:
  assumes ok: "mirror_ok st" "MyProc be \<in> set (pgprocnos st)" "xids_ok b st" and x: "xid_window b x"
    and rec: "RecoveryInProgress st"
  shows "shared_in_progress st be x \<longleftrightarrow> runs_elsewhere st be x"
proof -
  have known: "known_ok b (known_xids st)" using ok(3) rec by (simp add: xids_ok_def)
  have valid: "TransactionIdIsValid x" using x normal_is_valid by (simp add: xid_window_def)
  have scan: "in_progress_scan st (pgxactoff (allProcs st (MyProc be))) x [0..<numProcs st] [] = Some []"
    using member_window(2) [OF ok] rec by (intro in_progress_scan_no_xids) auto
  have get: "set (KnownAssignedXidsGet (known_xids st) x) =
      {t \<in> set (valid_xids (known_xids st)). TransactionIdPrecedes t x}"
    using GetAndSetXmin_ok [OF known, of x InvalidTransactionId] valid x
    by (auto simp: KnownAssignedXidsGet_def)
  have irrefl: "TransactionIdPrecedes t x \<Longrightarrow> t \<noteq> x" for t using x by auto
  have child: "child_of_running st be x (KnownAssignedXidsGet (known_xids st) x) \<longleftrightarrow>
      (\<exists>t \<in> set (valid_xids (known_xids st)). TransactionIdPrecedes t x \<and>
         topmost_of st be x = Some t \<and> \<not> tree_aborted (backend_logs st be) x)"
    unfolding child_of_running_def get using irrefl by blast
  have none: "\<not> child_of_running st be x []" by (simp add: child_of_running_def)
  show ?thesis
    using rec none KnownAssignedXidExists_iff [OF known, of x]
    unfolding shared_in_progress_def scan runs_elsewhere_def runs_on_primary_def child [symmetric]
    by simp
qed

section \<open>An example\<close>

text \<open>
  Process 4 is the backend itself, idle; process 7 runs transaction 32760 with its children
  32765, 32770 and 65540, whose parents are in \<open>sample_logs\<close>.
\<close>

definition idle_proc :: PGPROC where
  "idle_proc =
     \<lparr> proc_xid = 0, proc_xmin = 0, proc_lxid = 5, pgxactoff = 0, proc_pid = 100, proc_backendId = 1,
       proc_databaseId = 5, recoveryConflictPending = False,
       delayChkptFlags = 0, proc_statusFlags = 0, subxidStatus = \<lparr> xc_count = 0, xc_overflowed = False \<rparr>,
       cached_subxids = replicate 64 0 \<rparr>"

definition busy_proc :: PGPROC where
  "busy_proc = idle_proc\<lparr> proc_xid := 32760, proc_lxid := 6, pgxactoff := 1,
     subxidStatus := \<lparr> xc_count = 3, xc_overflowed = False \<rparr>,
     cached_subxids := [32765, 32770, 65540] @ replicate 61 0 \<rparr>"

definition sample_array :: proc_array where
  "sample_array =
     \<lparr> allProcs = (\<lambda>p. if p = 7 then busy_proc else idle_proc), pgprocnos = [4, 7],
       dense_xids = [0, 32760],
       dense_subxidStates = [\<lparr> xc_count = 0, xc_overflowed = False \<rparr>, \<lparr> xc_count = 3, xc_overflowed = False \<rparr>],
       dense_statusFlags = [0, 0], maxProcs = 10, lastOverflowedXid = 0, replication_slot_xmin = 0,
       replication_slot_catalog_xmin = 0, known_xids = empty_known 0,
       nextXid = \<lparr> full_value = 70002 \<rparr>, oldestXid = 700, xidVacLimit = 200000000,
       xidStopLimit = 2000000000, latestCompletedXid = \<lparr> full_value = 70000 \<rparr>,
       xactCompletionCount = 9, log_clog = clog sample_logs, log_subtrans = subtrans sample_logs,
       RecoveryInProgress = False \<rparr>"

definition idle_backend :: "TransactionId \<Rightarrow> TransactionId \<Rightarrow> global_vis \<Rightarrow> backend" where
  "idle_backend recent xmin g =
     \<lparr> MyProc = 4, RecentXmin = recent, my_TransactionXmin = xmin, cachedXidIsNotInProgress = 0,
       my_xact = \<lparr> XactTopFullTransactionId = \<lparr> full_value = 0 \<rparr>, ParallelCurrentXids = [], state_stack = [] \<rparr>,
       my_cache = empty_cache, my_vis = g \<rparr>"

definition sample_vis :: global_vis where
  "sample_vis =
     (let bounds = \<lparr> definitely_needed = \<lparr> full_value = 700 \<rparr>, maybe_needed = \<lparr> full_value = 700 \<rparr> \<rparr> in
      \<lparr> GlobalVisSharedRels = bounds, GlobalVisCatalogRels = bounds, GlobalVisDataRels = bounds,
        GlobalVisTempRels = bounds, horizons_last_xmin = 700 \<rparr>)"

definition sample_rest :: view_rest where
  "sample_rest =
     \<lparr> rest_multixact_members = (\<lambda>m only. None), rest_xlog_needs_flush = (\<lambda>lsn. False),
       rest_combo_state = \<lparr> comboHash = None, comboCids = [], sizeComboCids = 0 \<rparr>,
       rest_decoding_cids = (\<lambda>p. None),
       rest_horizons = \<lparr> latest_completed = \<lparr> full_value = 70000 \<rparr>, slot_xmin = 0, slot_catalog_xmin = 0,
         oldest_considered_running = 700, shared_oldest_nonremovable = 700,
         shared_oldest_nonremovable_raw = 700,
         catalog_oldest_nonremovable = 700, data_oldest_nonremovable = 700,
         temp_oldest_nonremovable = 70001 \<rparr> \<rparr>"

lemma sample_array_fields [simp]:
  "allProcs sample_array = (\<lambda>p. if p = 7 then busy_proc else idle_proc)"
  "pgprocnos sample_array = [4, 7]" "dense_xids sample_array = [0, 32760]"
  "latestCompletedXid sample_array = \<lparr> full_value = 70000 \<rparr>"
  "log_subtrans sample_array = subtrans sample_logs" "log_clog sample_array = clog sample_logs"
  "RecoveryInProgress sample_array = False"
  by (simp_all add: sample_array_def)

lemma sample_mirror_ok: "mirror_ok sample_array"
  by (auto simp: mirror_ok_def sample_array_def mirrors_def proc_ok_def idle_proc_def busy_proc_def
      less_Suc_eq PGPROC_MAX_CACHED_SUBXIDS_def TransactionIdIsValid_def xid_consts nth_Cons')

lemma sample_cached: "cached busy_proc = [32765, 32770, 65540]" "cached idle_proc = []"
    "proc_xid busy_proc = 32760" "proc_xid idle_proc = 0" "proc_statusFlags busy_proc = 0"
  by (simp_all add: cached_def busy_proc_def idle_proc_def)

lemma sample_xids_ok: "xids_ok 32000 sample_array"
  by (simp add: xids_ok_def sample_cached Let_def xid_window_def xid_dist_def
      TransactionIdIsNormal_def TransactionIdIsValid_def xid_consts XidFromFullTransactionId_def
      TransactionIdAdvance_def)

lemma sample_logs_ok_at:
  assumes "TransactionIdIsNormal xmin"
  shows "logs_ok (sample_logs\<lparr> TransactionXmin := xmin \<rparr>)"
proof -
  have "TransactionIdPrecedes 32760 32765" "TransactionIdPrecedes 32765 32770"
      "TransactionIdPrecedes 32760 65540"
    by (simp_all add: TransactionIdPrecedes_def TransactionIdIsNormal_def xid_consts)
  then show ?thesis
    using precedes_0 assms by (auto simp: logs_ok_def subtrans_wf_def sample_parents)
qed

lemma idle_not_current: "\<not> TransactionIdIsCurrentTransactionId (my_xact (idle_backend r xm g)) x"
  by (auto simp: idle_backend_def TransactionIdIsCurrentTransactionId_def GetTopTransactionIdIfAny_def
      XidFromFullTransactionId_def TransactionIdIsNormal_def xid_consts word_le_nat_alt)

lemma idle_backend_fields [simp]:
  "MyProc (idle_backend r xm g) = 4" "RecentXmin (idle_backend r xm g) = r"
  "my_TransactionXmin (idle_backend r xm g) = xm" "my_cache (idle_backend r xm g) = empty_cache"
  "cachedXidIsNotInProgress (idle_backend r xm g) = 0"
  by (simp_all add: idle_backend_def)

lemma idle_backend_ok:
  assumes "TransactionIdIsNormal r" "TransactionIdIsNormal xm" "log_clog st = clog sample_logs"
    "log_subtrans st = subtrans sample_logs"
  shows "backend_ok st (idle_backend r xm g)"
proof -
  have "backend_logs st (idle_backend r xm g) = sample_logs\<lparr> TransactionXmin := xm \<rparr>"
    by (simp add: backend_logs_def assms sample_logs_def)
  then show ?thesis
    using assms sample_logs_ok_at empty_cache_ok by (simp add: backend_ok_def idle_not_current)
qed

lemma sample_topmost:
  assumes "log_subtrans st = subtrans sample_logs" "my_TransactionXmin be = 32760"
    "x \<in> {32760, 32765, 32770, 65540}"
  shows "topmost_of st be x = Some 32760"
proof -
  have loop: "topmost_loop 32760 (subtrans sample_logs) 0 32760 = Some (Inr 32760)"
    by (subst topmost_loop.simps) (simp add: TransactionIdIsValid_def xid_consts)
  have "topmost_loop 32760 (subtrans sample_logs) 32760 q = Some (Inr 32760)" for q
    by (subst topmost_loop.simps) (simp add: sample_parents TransactionIdIsValid_def xid_consts
        TransactionIdPrecedes_def TransactionIdIsNormal_def loop)
  note l = this
  have "topmost_loop 32760 (subtrans sample_logs) 32765 q = Some (Inr 32760)" for q
    by (subst topmost_loop.simps) (simp add: sample_parents TransactionIdIsValid_def xid_consts
        TransactionIdPrecedes_def TransactionIdIsNormal_def l)
  note l' = this
  have "topmost_loop 32760 (subtrans sample_logs) 32770 q = Some (Inr 32760)"
      "topmost_loop 32760 (subtrans sample_logs) 65540 q = Some (Inr 32760)" for q
    by (subst topmost_loop.simps, simp add: sample_parents TransactionIdIsValid_def xid_consts
        TransactionIdPrecedes_def TransactionIdIsNormal_def l l')+
  then show ?thesis using assms l l' by (auto simp: topmost_of_def SubTransGetTopmostTransaction_def)
qed

lemma sample_snapshot_taken:
  "\<exists>g. build_snapshot 3 0 sample_snapshot sample_array (idle_backend 700 0 g0) =
    (sample_snapshot\<lparr> snap_xmin := 32760, snap_xmax := 70001, xip := [32760],
       subxip := [32765, 32770, 65540], snapXactCompletionCount := 9 \<rparr>,
     update_proc 4 (proc_xmin_update (\<lambda>_. 32760)) sample_array, idle_backend 32760 32760 g)"
proof -
  have xmax: "TransactionIdAdvance (XidFromFullTransactionId \<lparr> full_value = 70000 \<rparr>) = 70001"
    by (simp add: TransactionIdAdvance_def XidFromFullTransactionId_def xid_consts)
  have offs: "pgxactoff idle_proc = 0" "proc_xmin idle_proc = 0" by (simp_all add: idle_proc_def)
  have range: "[0..<numProcs sample_array] = [0, 1]" by (simp add: upt_rec)
  have me: "scan_proc sample_array 0 70001 0 acc = acc" for acc
    by (simp add: scan_proc_def xid_consts)
  have other: "scan_proc sample_array 0 70001 1 \<lparr> scan_xmin = 70001, scan_xip = [], scan_subxip = [],
        scan_overflowed = False \<rparr> =
      \<lparr> scan_xmin = 32760, scan_xip = [32760], scan_subxip = [32765, 32770, 65540], scan_overflowed = False \<rparr>"
    unfolding scan_proc_def Let_def
    by (simp add: sample_array_def busy_proc_def NormalTransactionIdPrecedes_def xid_consts)
  show ?thesis
    unfolding build_snapshot_def Let_def range
    by (simp add: xmax offs me other [unfolded One_nat_def] TransactionIdIsNormal_def TransactionIdIsValid_def xid_consts)
      (simp add: idle_backend_def sample_snapshot_def sample_array_def)
qed

lemma sample_families_ok:
  "families_ok (update_proc 4 (proc_xmin_update f) sample_array) (idle_backend r 32760 g)"
  using sample_topmost [of sample_array "idle_backend r 32760 g"]
  by (auto simp: families_ok_def Let_def sample_cached topmost_of_def)

lemma sample_none_skipped: "none_skipped sample_array (idle_backend 700 0 g)"
  by (simp add: none_skipped_def sample_cached)

lemma sample_GetSnapshotData:
  "\<exists>snapshot' st' be'.
     GetSnapshotData 3 0 sample_snapshot sample_array (idle_backend 700 0 sample_vis) = (snapshot', st', be') \<and>
     families_ok st' be' \<and> backend_ok st' be' \<and>
     (\<forall>x. \<not> TransactionIdIsCurrentTransactionId (my_xact be') x)"
proof -
  obtain g' where "build_snapshot 3 0 sample_snapshot sample_array (idle_backend 700 0 sample_vis) =
    (sample_snapshot\<lparr> snap_xmin := 32760, snap_xmax := 70001, xip := [32760],
       subxip := [32765, 32770, 65540], snapXactCompletionCount := 9 \<rparr>,
     update_proc 4 (proc_xmin_update (\<lambda>_. 32760)) sample_array, idle_backend 32760 32760 g')"
    using sample_snapshot_taken [of sample_vis] by blast
  moreover have "backend_ok (update_proc 4 (proc_xmin_update (\<lambda>_. 32760)) sample_array) (idle_backend 32760 32760 g')"
    by (rule idle_backend_ok) (simp_all add: TransactionIdIsNormal_def xid_consts)
  ultimately show ?thesis
    using sample_families_ok idle_not_current
    by (auto simp: GetSnapshotData_def GetSnapshotDataReuse_def sample_snapshot_def)
qed

lemma MaintainLatest_not_older:
  "\<not> TransactionIdPrecedes (XidFromFullTransactionId (latestCompletedXid (MaintainLatestCompletedXid x st))) x"
  by (simp add: MaintainLatestCompletedXid_def Xid_of_relative Let_def TransactionIdPrecedes_def)

section \<open>Properties\<close>

text \<open>
  C16: The dense arrays are a true copy at all times. In every state the backends reach by joining
  and leaving the array, by assigning xids, by ending and clearing transactions and by aborting
  subtransactions, each dense array has one element per process and equals the fields of the
  processes, every process knows its own index, the array is sorted by process number and
  within its capacity, and no process without an xid keeps children.
\<close>

theorem proc_array_mirrored:
  assumes "mirror_ok st" "proc_reachable st st'"
  shows "mirror_ok st'"
  using assms(2,1) by (induction rule: proc_reachable.induct) (auto intro: proc_step_mirror_ok)

theorem proc_array_mirrored_witness:
  "mirror_ok (ProcArrayEndTransaction 7 65540
     (XidCacheRemoveRunningXids 7 32770 [] 32770 sample_array))"
proof -
  let ?st = "XidCacheRemoveRunningXids 7 32770 [] 32770 sample_array"
  have member: "7 \<in> set (pgprocnos sample_array)" by simp
  have s1: "proc_step sample_array ?st"
    by (rule proc_step.abort_subs) (simp_all add: sample_cached TransactionIdIsValid_def xid_consts)
  have eq: "allProcs ?st 7 = fold without_cached (rev [] @ [32770]) busy_proc" "pgprocnos ?st = [4, 7]"
    unfolding XidCacheRemove_eq [OF sample_mirror_ok member] by (simp_all add: Let_def)
  have "proc_xid (allProcs ?st 7) = 32760"
    unfolding eq using without_all_cached [of busy_proc] by (simp add: sample_cached)
  then have s2: "proc_step ?st (ProcArrayEndTransaction 7 65540 ?st)"
    using eq(2) by (intro proc_step.end_xact) (simp_all add: TransactionIdIsValid_def xid_consts)
  show ?thesis
    by (rule proc_array_mirrored [OF sample_mirror_ok reach_step [OF reach_step [OF reach_start s1] s2]])
qed







text \<open>
  C38: An aborted subtransaction leaves no trace. \<open>XidCacheRemoveRunningXids\<close> takes exactly the
  given xids, once each, out of the process's cache of children and touches nothing else of any
  process; the mirrors follow, the completion counter advances, so that no older snapshot is
  reused, and the latest completed xid is not older than the one given.
\<close>

theorem XidCacheRemoveRunningXids_exact:
  assumes "mirror_ok st" "procno \<in> set (pgprocnos st)"
    and "st' = XidCacheRemoveRunningXids procno xid xids latestXid st"
  shows "mset (cached (allProcs st' procno)) = mset (cached (allProcs st procno)) - mset (xid # xids) \<and>
         (\<forall>q. q \<noteq> procno \<longrightarrow> allProcs st' q = allProcs st q) \<and>
         proc_xid (allProcs st' procno) = proc_xid (allProcs st procno) \<and>
         xc_overflowed (subxidStatus (allProcs st' procno)) = xc_overflowed (subxidStatus (allProcs st procno)) \<and>
         mirror_ok st' \<and> xactCompletionCount st' = xactCompletionCount st + 1 \<and>
         \<not> TransactionIdPrecedes (XidFromFullTransactionId (latestCompletedXid st')) latestXid"
proof -
  have ok: "proc_ok (allProcs st procno)" using mirror_member(4) [OF assms(1,2)] .
  let ?xs = "rev xids @ [xid]"
  have all: "proc_ok (fold without_cached ?xs (allProcs st procno))"
      "mset (cached (fold without_cached ?xs (allProcs st procno))) = mset (cached (allProcs st procno)) - mset (xid # xids)"
      "pgxactoff (fold without_cached ?xs (allProcs st procno)) = pgxactoff (allProcs st procno)"
      "proc_xid (fold without_cached ?xs (allProcs st procno)) = proc_xid (allProcs st procno)"
    using without_all_cached [OF ok, of ?xs] by simp_all
  have over: "xc_overflowed (subxidStatus (fold without_cached ys p)) = xc_overflowed (subxidStatus p)" for ys p
    by (induction ys arbitrary: p) simp_all
  have st': "st' = (MaintainLatestCompletedXid latestXid (update_member procno (fold without_cached ?xs) st))
      \<lparr> xactCompletionCount := xactCompletionCount st + 1 \<rparr>"
    using assms(3) XidCacheRemove_eq [OF assms(1,2)] by (simp add: Let_def)
  have "mirror_ok st'"
    using update_member_ok [OF assms(1,2), of "fold without_cached ?xs"] all(1,3) by (simp add: st')
  then show ?thesis
    using all(2,4) over MaintainLatest_not_older by (simp add: st' del: fold_append)
qed

theorem XidCacheRemoveRunningXids_exact_witness:
  "mset (cached (allProcs (XidCacheRemoveRunningXids 7 32765 [32770] 32770 sample_array) 7)) = {# 65540 #}"
  using XidCacheRemoveRunningXids_exact [OF sample_mirror_ok _ refl, of 7 32765 "[32770]" 32770]
  by (simp add: sample_cached)

end
