(* ===== verification/Xact_Block.thy ===== *)
theory Xact_Block
  imports Heap_Tuple Sub_Trans Xact_State
begin

text \<open>
  The transaction block state machine, first part (\<^verbatim>\<open>src/backend/access/transam/xact.c\<close>): the
  stack of transaction states of a backend and the routines that start, commit, abort and clean
  up one of its levels.

  The head of the stack is \<open>CurrentTransactionState\<close>, its last element
  \<open>TopTransactionStateData\<close>. A routine returns the new state, or an error together with the state
  it leaves behind. The routines call many other modules; those calls change nothing kept here,
  but may raise an ERROR. Where they may, the model consults the list \<open>faults\<close>, one entry for each
  such point: \<open>True\<close> raises an error there. Memory contexts, resource owners, callbacks and the
  actions of other modules are left out, as are errors after the commit record has been written,
  which are PANICs.
\<close>

section \<open>Block states\<close>

datatype TBlockState =
    TBLOCK_DEFAULT
  | TBLOCK_STARTED
  | TBLOCK_BEGIN
  | TBLOCK_INPROGRESS
  | TBLOCK_IMPLICIT_INPROGRESS
  | TBLOCK_PARALLEL_INPROGRESS
  | TBLOCK_END
  | TBLOCK_ABORT
  | TBLOCK_ABORT_END
  | TBLOCK_ABORT_PENDING
  | TBLOCK_PREPARE
  | TBLOCK_SUBBEGIN
  | TBLOCK_SUBINPROGRESS
  | TBLOCK_SUBRELEASE
  | TBLOCK_SUBCOMMIT
  | TBLOCK_SUBABORT
  | TBLOCK_SUBABORT_END
  | TBLOCK_SUBABORT_PENDING
  | TBLOCK_SUBRESTART
  | TBLOCK_SUBABORT_RESTART

type_synonym SubTransactionId = uint32

definition InvalidSubTransactionId :: SubTransactionId where "InvalidSubTransactionId = 0"
definition TopSubTransactionId :: SubTransactionId where "TopSubTransactionId = 1"
definition FirstCommandId :: CommandId where "FirstCommandId = 0"

record xact_level =
  lv_xact :: TransactionStateData
  subTransactionId :: SubTransactionId
  savepoint_name :: "string option"
  savepointLevel :: nat
  blockState :: TBlockState
  nestingLevel :: nat
  prevXactReadOnly :: bool
  parallelModeLevel :: nat
  xact_chain :: bool

record xact_characteristics =
  XactIsoLevel :: nat
  XactReadOnly :: bool
  XactDeferrable :: bool

record xact_session =
  xact_levels :: "xact_level list"
  top_fxid :: FullTransactionId
  currentSubTransactionId :: SubTransactionId
  currentCommandId :: CommandId
  currentCommandIdUsed :: bool
  characteristics :: xact_characteristics
  default_characteristics :: xact_characteristics
  in_recovery :: bool
  is_worker :: bool
  next_fxid :: FullTransactionId
  parent_log :: subtrans_state
  xact_started :: bool
  faults :: "bool list"

section \<open>Errors and sequencing\<close>

text \<open>\<open>Fatal_State\<close> and the two errors after it end the session, the others only the statement.\<close>

datatype xact_block_error =
    Fatal_State TBlockState
  | Fatal_TransState TransState
  | Fatal_PopWithoutParent
  | Unexpected_State TBlockState
  | Not_In_Block
  | No_Such_Savepoint
  | Other_Savepoint_Level
  | In_Parallel_Operation
  | Too_Many_Subtransaction_Ids
  | Too_Many_Commands
  | Child_Xids childxids_error
  | Transaction_Aborted
  | Raised

type_synonym xact_outcome = "(xact_block_error \<times> xact_session) + xact_session"
type_synonym xact_op = "xact_session \<Rightarrow> xact_outcome"

text \<open>The operations in order, up to the first error.\<close>

fun run_steps :: "xact_op list \<Rightarrow> xact_op" where
  "run_steps [] st = Inr st"
| "run_steps (f # fs) st = (case f st of Inl e \<Rightarrow> Inl e | Inr st' \<Rightarrow> run_steps fs st')"

abbreviation cur_level :: "xact_session \<Rightarrow> xact_level" where
  "cur_level st \<equiv> hd (xact_levels st)"

definition update_level :: "(xact_level \<Rightarrow> xact_level) \<Rightarrow> xact_op" where
  "update_level f st = Inr (st\<lparr> xact_levels := f (hd (xact_levels st)) # tl (xact_levels st) \<rparr>)"

definition set_block :: "TBlockState \<Rightarrow> xact_op" where
  "set_block b = update_level (blockState_update (\<lambda>_. b))"

definition set_state :: "TransState \<Rightarrow> xact_op" where
  "set_state s = update_level (lv_xact_update (ts_state_update (\<lambda>_. s)))"

definition possible_fault :: xact_op where
  "possible_fault st =
     (case faults st of
        [] \<Rightarrow> Inr st
      | f # fs \<Rightarrow> let st = st\<lparr> faults := fs \<rparr> in if f then Inl (Raised, st) else Inr st)"

definition IsInParallelMode :: "xact_session \<Rightarrow> bool" where
  "IsInParallelMode st \<longleftrightarrow> parallelModeLevel (cur_level st) \<noteq> 0"

definition CommandCounterIncrement :: xact_op where
  "CommandCounterIncrement st =
     (if currentCommandIdUsed st
      then if IsInParallelMode st \<or> is_worker st then Inl (In_Parallel_Operation, st)
           else if currentCommandId st + 1 = InvalidCommandId then Inl (Too_Many_Commands, st)
           else Inr (st\<lparr> currentCommandId := currentCommandId st + 1, currentCommandIdUsed := False \<rparr>)
      else Inr st)"

definition GetCurrentCommandId :: "bool \<Rightarrow> xact_session \<Rightarrow> CommandId \<times> xact_session" where
  "GetCurrentCommandId used st =
     (currentCommandId st, if used then st\<lparr> currentCommandIdUsed := True \<rparr> else st)"

section \<open>Assigning transaction ids\<close>

text \<open>
  The levels from the given one up, those above it without an xid first. The id itself is the
  next one of the cluster; its assignment may fail.
\<close>

fun assign_levels ::
  "xact_level list \<Rightarrow> xact_session \<Rightarrow> ((xact_block_error \<times> xact_session) + xact_session) \<times> xact_level list" where
  "assign_levels [] st = (Inr st, [])"
| "assign_levels (s # parents) st =
     (let (r, parents) =
            (if parents \<noteq> [] \<and> \<not> FullTransactionIdIsValid (fullTransactionId (lv_xact (hd parents)))
             then assign_levels parents st else (Inr st, parents)) in
      case r of
        Inl e \<Rightarrow> (Inl e, s # parents)
      | Inr st \<Rightarrow>
          (case possible_fault st of
             Inl e \<Rightarrow> (Inl e, s # parents)
           | Inr st \<Rightarrow>
               let fxid = next_fxid st;
                   st = st\<lparr> next_fxid := FullTransactionIdAdvance fxid \<rparr>;
                   st = (if parents = [] then st\<lparr> top_fxid := fxid \<rparr>
                         else st\<lparr> parent_log := SubTransSetParent (XidFromFullTransactionId fxid)
                                (XidFromFullTransactionId (fullTransactionId (lv_xact (hd parents))))
                                (parent_log st) \<rparr>)
               in (Inr st, lv_xact_update (fullTransactionId_update (\<lambda>_. fxid)) s # parents)))"

definition AssignTransactionId :: xact_op where
  "AssignTransactionId st =
     (if IsInParallelMode st \<or> is_worker st then Inl (In_Parallel_Operation, st)
      else (case assign_levels (xact_levels st) st of
              (Inl (e, st), levels) \<Rightarrow> Inl (e, st\<lparr> xact_levels := levels \<rparr>)
            | (Inr st, levels) \<Rightarrow> Inr (st\<lparr> xact_levels := levels \<rparr>)))"

text \<open>\<open>GetCurrentTransactionId\<close>, for its effect.\<close>

definition GetCurrentTransactionId :: xact_op where
  "GetCurrentTransactionId st =
     (if FullTransactionIdIsValid (fullTransactionId (lv_xact (cur_level st))) then Inr st
      else AssignTransactionId st)"

section \<open>The top-level transaction\<close>

definition InvalidFullTransactionId :: FullTransactionId where
  "InvalidFullTransactionId = \<lparr> full_value = 0 \<rparr>"

definition StartTransaction :: xact_op where
  "StartTransaction st =
     (let s = last (xact_levels st);
          s = s\<lparr> lv_xact := \<lparr> fullTransactionId = InvalidFullTransactionId, ts_state = TRANS_START,
                              childXids = [], maxChildXids = 0 \<rparr>,
                 subTransactionId := TopSubTransactionId, nestingLevel := 1 \<rparr>;
          chars = default_characteristics st;
          st = st\<lparr> xact_levels := [s],
                   characteristics := (if in_recovery st then chars\<lparr> XactReadOnly := True \<rparr> else chars),
                   currentSubTransactionId := TopSubTransactionId, currentCommandId := FirstCommandId,
                   currentCommandIdUsed := False \<rparr>
      in run_steps [possible_fault, set_state TRANS_INPROGRESS] st)"

text \<open>The last part of \<open>CommitTransaction\<close>, \<open>PrepareTransaction\<close> and \<open>CleanupTransaction\<close>.\<close>

definition end_of_transaction :: xact_op where
  "end_of_transaction st =
     update_level (\<lambda>s. s\<lparr> lv_xact := \<lparr> fullTransactionId = InvalidFullTransactionId,
         ts_state = TRANS_DEFAULT, childXids = [], maxChildXids = 0 \<rparr>,
       subTransactionId := InvalidSubTransactionId, nestingLevel := 0 \<rparr>)
       (st\<lparr> top_fxid := InvalidFullTransactionId \<rparr>)"

definition CommitTransaction :: xact_op where
  "CommitTransaction st =
     run_steps
       [(if blockState (cur_level st) = TBLOCK_PARALLEL_INPROGRESS
         then update_level (\<lambda>s. s\<lparr> parallelModeLevel := parallelModeLevel s + 1 \<rparr>) else Inr),
        possible_fault,
        set_state TRANS_COMMIT,
        update_level (parallelModeLevel_update (\<lambda>_. 0)),
        end_of_transaction] st"

definition PrepareTransaction :: xact_op where
  "PrepareTransaction =
     run_steps
       [GetCurrentTransactionId,
        possible_fault,
        set_state TRANS_PREPARE,
        possible_fault,
        end_of_transaction]"

definition AbortTransaction :: xact_op where
  "AbortTransaction =
     run_steps [set_state TRANS_ABORT, update_level (parallelModeLevel_update (\<lambda>_. 0))]"

definition CleanupTransaction :: xact_op where
  "CleanupTransaction st =
     (if ts_state (lv_xact (cur_level st)) \<noteq> TRANS_ABORT
      then Inl (Fatal_TransState (ts_state (lv_xact (cur_level st))), st)
      else run_steps [update_level (parallelModeLevel_update (\<lambda>_. 0)), end_of_transaction] st)"

section \<open>Subtransactions\<close>

definition PushTransaction :: xact_op where
  "PushTransaction st =
     (let p = cur_level st; subid = currentSubTransactionId st + 1 in
      if subid = InvalidSubTransactionId then Inl (Too_Many_Subtransaction_Ids, st)
      else
        let s = \<lparr> lv_xact = \<lparr> fullTransactionId = InvalidFullTransactionId, ts_state = TRANS_DEFAULT,
                              childXids = [], maxChildXids = 0 \<rparr>,
                  subTransactionId = subid, savepoint_name = None, savepointLevel = savepointLevel p,
                  blockState = TBLOCK_SUBBEGIN, nestingLevel = nestingLevel p + 1,
                  prevXactReadOnly = XactReadOnly (characteristics st), parallelModeLevel = 0,
                  xact_chain = False \<rparr>
        in Inr (st\<lparr> currentSubTransactionId := subid, xact_levels := s # xact_levels st \<rparr>))"

definition PopTransaction :: xact_op where
  "PopTransaction st =
     (if tl (xact_levels st) = [] then Inl (Fatal_PopWithoutParent, st)
      else Inr (st\<lparr> xact_levels := tl (xact_levels st) \<rparr>))"

definition StartSubTransaction :: xact_op where
  "StartSubTransaction =
     run_steps [set_state TRANS_START, possible_fault, set_state TRANS_INPROGRESS]"

text \<open>\<open>AtSubCommit_childXids\<close> and \<open>AtSubAbort_childXids\<close> on the stack.\<close>

definition subcommit_child_xids :: xact_op where
  "subcommit_child_xids st =
     (if FullTransactionIdIsValid (fullTransactionId (lv_xact (cur_level st)))
      then (case AtSubCommit_childXids (map lv_xact (xact_levels st)) of
              None \<Rightarrow> Inl (Fatal_PopWithoutParent, st)
            | Some (Inl e) \<Rightarrow> Inl (Child_Xids e, st)
            | Some (Inr xs) \<Rightarrow>
                Inr (st\<lparr> xact_levels := map2 (\<lambda>s x. s\<lparr> lv_xact := x \<rparr>) (xact_levels st) xs \<rparr>))
      else Inr st)"

definition subabort_child_xids :: xact_op where
  "subabort_child_xids st =
     (if FullTransactionIdIsValid (fullTransactionId (lv_xact (cur_level st)))
      then Inr (st\<lparr> xact_levels := map2 (\<lambda>s x. s\<lparr> lv_xact := x \<rparr>) (xact_levels st)
                     (AtSubAbort_childXids (map lv_xact (xact_levels st))) \<rparr>)
      else Inr st)"

definition restore_read_only :: xact_op where
  "restore_read_only st =
     Inr (st\<lparr> characteristics := (characteristics st)\<lparr> XactReadOnly := prevXactReadOnly (cur_level st) \<rparr> \<rparr>)"

definition CommitSubTransaction :: xact_op where
  "CommitSubTransaction =
     run_steps
       [possible_fault,
        update_level (parallelModeLevel_update (\<lambda>_. 0)),
        set_state TRANS_COMMIT,
        CommandCounterIncrement,
        subcommit_child_xids,
        restore_read_only,
        set_state TRANS_DEFAULT,
        PopTransaction]"

definition AbortSubTransaction :: xact_op where
  "AbortSubTransaction =
     run_steps
       [set_state TRANS_ABORT,
        update_level (parallelModeLevel_update (\<lambda>_. 0)),
        subabort_child_xids,
        restore_read_only]"

definition CleanupSubTransaction :: xact_op where
  "CleanupSubTransaction = run_steps [set_state TRANS_DEFAULT, PopTransaction]"

end
