(* ===== verification/Xact_Command.thy ===== *)
theory Xact_Command
  imports Xact_Block
begin

text \<open>
  The transaction block state machine, second part (\<^verbatim>\<open>src/backend/access/transam/xact.c\<close>): the
  commands that only change block states, and the three routines that act on the states when a
  command ends, when it fails and when the backend exits.
\<close>

section \<open>Where we are\<close>

definition IsTransactionState :: "xact_session \<Rightarrow> bool" where
  "IsTransactionState st \<longleftrightarrow> ts_state (lv_xact (cur_level st)) = TRANS_INPROGRESS"

definition IsAbortedTransactionBlockState :: "xact_session \<Rightarrow> bool" where
  "IsAbortedTransactionBlockState st \<longleftrightarrow>
     blockState (cur_level st) = TBLOCK_ABORT \<or> blockState (cur_level st) = TBLOCK_SUBABORT"

definition IsTransactionBlock :: "xact_session \<Rightarrow> bool" where
  "IsTransactionBlock st \<longleftrightarrow>
     \<not> (blockState (cur_level st) = TBLOCK_DEFAULT \<or> blockState (cur_level st) = TBLOCK_STARTED)"

definition IsTransactionOrTransactionBlock :: "xact_session \<Rightarrow> bool" where
  "IsTransactionOrTransactionBlock st \<longleftrightarrow> blockState (cur_level st) \<noteq> TBLOCK_DEFAULT"

definition IsSubTransaction :: "xact_session \<Rightarrow> bool" where
  "IsSubTransaction st \<longleftrightarrow> nestingLevel (cur_level st) \<ge> 2"

definition TransactionBlockStatusCode :: "xact_session \<Rightarrow> char" where
  "TransactionBlockStatusCode st =
     (if blockState (cur_level st) \<in> {TBLOCK_DEFAULT, TBLOCK_STARTED} then CHR ''I''
      else if blockState (cur_level st) \<in> {TBLOCK_BEGIN, TBLOCK_SUBBEGIN, TBLOCK_INPROGRESS,
                TBLOCK_IMPLICIT_INPROGRESS, TBLOCK_PARALLEL_INPROGRESS, TBLOCK_SUBINPROGRESS, TBLOCK_END,
                TBLOCK_SUBRELEASE, TBLOCK_SUBCOMMIT, TBLOCK_PREPARE} then CHR ''T''
      else CHR ''E'')"

definition RequireTransactionBlock :: "bool \<Rightarrow> xact_op" where
  "RequireTransactionBlock isTopLevel st =
     (if IsTransactionBlock st then Inr st
      else if IsSubTransaction st then Inr st
      else if \<not> isTopLevel then Inr st
      else Inl (Not_In_Block, st))"

section \<open>Commands\<close>

definition StartTransactionCommand :: xact_op where
  "StartTransactionCommand st =
     (case blockState (cur_level st) of
        TBLOCK_DEFAULT \<Rightarrow> run_steps [StartTransaction, set_block TBLOCK_STARTED] st
      | TBLOCK_INPROGRESS \<Rightarrow> Inr st
      | TBLOCK_IMPLICIT_INPROGRESS \<Rightarrow> Inr st
      | TBLOCK_SUBINPROGRESS \<Rightarrow> Inr st
      | TBLOCK_ABORT \<Rightarrow> Inr st
      | TBLOCK_SUBABORT \<Rightarrow> Inr st
      | b \<Rightarrow> Inl (Unexpected_State b, st))"

definition BeginTransactionBlock :: xact_op where
  "BeginTransactionBlock st =
     (case blockState (cur_level st) of
        TBLOCK_STARTED \<Rightarrow> set_block TBLOCK_BEGIN st
      | TBLOCK_IMPLICIT_INPROGRESS \<Rightarrow> set_block TBLOCK_BEGIN st
      | TBLOCK_INPROGRESS \<Rightarrow> Inr st
      | TBLOCK_PARALLEL_INPROGRESS \<Rightarrow> Inr st
      | TBLOCK_SUBINPROGRESS \<Rightarrow> Inr st
      | TBLOCK_ABORT \<Rightarrow> Inr st
      | TBLOCK_SUBABORT \<Rightarrow> Inr st
      | b \<Rightarrow> Inl (Fatal_State b, st))"

text \<open>
  The loops over the levels up to a last one: \<open>sub\<close> gives the new block state of a level on the
  way, \<open>top_of\<close> that of the last; \<open>None\<close> is an unexpected state, with the marks made so far.
\<close>

fun mark_levels ::
  "(TBlockState \<Rightarrow> TBlockState option) \<Rightarrow> (TBlockState \<Rightarrow> TBlockState option) \<Rightarrow> xact_level list \<Rightarrow>
   TBlockState option \<times> xact_level list" where
  "mark_levels sub top_of [] = (None, [])"
| "mark_levels sub top_of (s # parents) =
     (case (if parents = [] then top_of else sub) (blockState s) of
        None \<Rightarrow> (Some (blockState s), s # parents)
      | Some b \<Rightarrow>
          let (err, parents) = mark_levels sub top_of parents in
          (err, blockState_update (\<lambda>_. b) s # parents))"

definition mark_all ::
  "(TBlockState \<Rightarrow> TBlockState option) \<Rightarrow> (TBlockState \<Rightarrow> TBlockState option) \<Rightarrow> xact_op" where
  "mark_all sub top_of st =
     (case mark_levels sub top_of (xact_levels st) of
        (Some b, levels) \<Rightarrow> Inl (Fatal_State b, st\<lparr> xact_levels := levels \<rparr>)
      | (None, levels) \<Rightarrow> Inr (st\<lparr> xact_levels := levels \<rparr>))"

definition commit_sub :: "TBlockState \<Rightarrow> TBlockState option" where
  "commit_sub b = (if b = TBLOCK_SUBINPROGRESS then Some TBLOCK_SUBCOMMIT else None)"

definition commit_top :: "TBlockState \<Rightarrow> TBlockState option" where
  "commit_top b = (if b = TBLOCK_INPROGRESS then Some TBLOCK_END else None)"

definition abort_sub :: "TBlockState \<Rightarrow> TBlockState option" where
  "abort_sub b =
     (if b = TBLOCK_SUBINPROGRESS then Some TBLOCK_SUBABORT_PENDING
      else if b = TBLOCK_SUBABORT then Some TBLOCK_SUBABORT_END
      else None)"

definition abort_top :: "TBlockState \<Rightarrow> TBlockState option" where
  "abort_top b =
     (if b = TBLOCK_INPROGRESS then Some TBLOCK_ABORT_PENDING
      else if b = TBLOCK_ABORT then Some TBLOCK_ABORT_END
      else None)"

text \<open>The chain flag of the level the code's pointer is at: the last one.\<close>

definition set_chain :: "bool \<Rightarrow> xact_op" where
  "set_chain chain st =
     Inr (st\<lparr> xact_levels := (xact_levels st)[length (xact_levels st) - 1 :=
                (last (xact_levels st))\<lparr> xact_chain := chain \<rparr>] \<rparr>)"

text \<open>The result tells COMMIT (\<open>True\<close>) from ROLLBACK.\<close>

definition EndTransactionBlock ::
  "bool \<Rightarrow> xact_session \<Rightarrow> (xact_block_error \<times> xact_session) + (bool \<times> xact_session)" where
  "EndTransactionBlock chain st =
     (let finish = (\<lambda>result ops. case run_steps (ops @ [set_chain chain]) st of
                       Inl e \<Rightarrow> Inl e | Inr st \<Rightarrow> Inr (result, st)) in
      case blockState (cur_level st) of
        TBLOCK_INPROGRESS \<Rightarrow> finish True [set_block TBLOCK_END]
      | TBLOCK_IMPLICIT_INPROGRESS \<Rightarrow>
          (if chain then Inl (Not_In_Block, st) else finish True [set_block TBLOCK_END])
      | TBLOCK_ABORT \<Rightarrow> finish False [set_block TBLOCK_ABORT_END]
      | TBLOCK_SUBINPROGRESS \<Rightarrow> finish True [mark_all commit_sub commit_top]
      | TBLOCK_SUBABORT \<Rightarrow> finish False [mark_all abort_sub abort_top]
      | TBLOCK_STARTED \<Rightarrow> (if chain then Inl (Not_In_Block, st) else finish True [])
      | b \<Rightarrow> Inl (Fatal_State b, st))"

definition PrepareTransactionBlock ::
  "xact_session \<Rightarrow> (xact_block_error \<times> xact_session) + (bool \<times> xact_session)" where
  "PrepareTransactionBlock st =
     (case EndTransactionBlock False st of
        Inl e \<Rightarrow> Inl e
      | Inr (result, st) \<Rightarrow>
          if result \<and> blockState (last (xact_levels st)) = TBLOCK_END
          then Inr (True, st\<lparr> xact_levels := (xact_levels st)[length (xact_levels st) - 1 :=
                 (last (xact_levels st))\<lparr> blockState := TBLOCK_PREPARE \<rparr>] \<rparr>)
          else Inr (False, st))"

definition UserAbortTransactionBlock :: "bool \<Rightarrow> xact_op" where
  "UserAbortTransactionBlock chain st =
     (let finish = (\<lambda>ops. run_steps (ops @ [set_chain chain]) st) in
      case blockState (cur_level st) of
        TBLOCK_INPROGRESS \<Rightarrow> finish [set_block TBLOCK_ABORT_PENDING]
      | TBLOCK_ABORT \<Rightarrow> finish [set_block TBLOCK_ABORT_END]
      | TBLOCK_SUBINPROGRESS \<Rightarrow> finish [mark_all abort_sub abort_top]
      | TBLOCK_SUBABORT \<Rightarrow> finish [mark_all abort_sub abort_top]
      | TBLOCK_STARTED \<Rightarrow>
          (if chain then Inl (Not_In_Block, st) else finish [set_block TBLOCK_ABORT_PENDING])
      | TBLOCK_IMPLICIT_INPROGRESS \<Rightarrow>
          (if chain then Inl (Not_In_Block, st) else finish [set_block TBLOCK_ABORT_PENDING])
      | b \<Rightarrow> Inl (Fatal_State b, st))"

definition BeginImplicitTransactionBlock :: xact_op where
  "BeginImplicitTransactionBlock st =
     (if blockState (cur_level st) = TBLOCK_STARTED then set_block TBLOCK_IMPLICIT_INPROGRESS st
      else Inr st)"

definition EndImplicitTransactionBlock :: xact_op where
  "EndImplicitTransactionBlock st =
     (if blockState (cur_level st) = TBLOCK_IMPLICIT_INPROGRESS then set_block TBLOCK_STARTED st
      else Inr st)"

section \<open>Savepoints\<close>

definition name_level :: "string option \<Rightarrow> xact_op" where
  "name_level name = (if name = None then Inr else update_level (savepoint_name_update (\<lambda>_. name)))"

definition DefineSavepoint :: "string option \<Rightarrow> xact_op" where
  "DefineSavepoint name st =
     (if IsInParallelMode st then Inl (In_Parallel_Operation, st)
      else case blockState (cur_level st) of
             TBLOCK_INPROGRESS \<Rightarrow> run_steps [PushTransaction, name_level name] st
           | TBLOCK_SUBINPROGRESS \<Rightarrow> run_steps [PushTransaction, name_level name] st
           | TBLOCK_IMPLICIT_INPROGRESS \<Rightarrow> Inl (Not_In_Block, st)
           | b \<Rightarrow> Inl (Fatal_State b, st))"

text \<open>The innermost level of that name.\<close>

definition find_savepoint :: "string \<Rightarrow> xact_level list \<Rightarrow> nat option" where
  "find_savepoint name levels =
     (let i = length (takeWhile (\<lambda>s. savepoint_name s \<noteq> Some name) levels) in
      if i < length levels then Some i else None)"

definition ReleaseSavepoint :: "string \<Rightarrow> xact_op" where
  "ReleaseSavepoint name st =
     (if IsInParallelMode st then Inl (In_Parallel_Operation, st)
      else case blockState (cur_level st) of
             TBLOCK_INPROGRESS \<Rightarrow> Inl (No_Such_Savepoint, st)
           | TBLOCK_IMPLICIT_INPROGRESS \<Rightarrow> Inl (Not_In_Block, st)
           | TBLOCK_SUBINPROGRESS \<Rightarrow>
               (case find_savepoint name (xact_levels st) of
                  None \<Rightarrow> Inl (No_Such_Savepoint, st)
                | Some target \<Rightarrow>
                    if savepointLevel (xact_levels st ! target) \<noteq> savepointLevel (cur_level st)
                    then Inl (Other_Savepoint_Level, st)
                    else Inr (st\<lparr> xact_levels :=
                           map (blockState_update (\<lambda>_. TBLOCK_SUBRELEASE)) (take (target + 1) (xact_levels st)) @
                           drop (target + 1) (xact_levels st) \<rparr>))
           | b \<Rightarrow> Inl (Fatal_State b, st))"

definition restart_target :: "TBlockState \<Rightarrow> TBlockState option" where
  "restart_target b =
     (if b = TBLOCK_SUBINPROGRESS then Some TBLOCK_SUBRESTART
      else if b = TBLOCK_SUBABORT then Some TBLOCK_SUBABORT_RESTART
      else None)"

definition RollbackToSavepoint :: "string \<Rightarrow> xact_op" where
  "RollbackToSavepoint name st =
     (let proceed =
        (case find_savepoint name (xact_levels st) of
           None \<Rightarrow> Inl (No_Such_Savepoint, st)
         | Some target \<Rightarrow>
             if savepointLevel (xact_levels st ! target) \<noteq> savepointLevel (cur_level st)
             then Inl (Other_Savepoint_Level, st)
             else (case mark_levels abort_sub restart_target (take (target + 1) (xact_levels st)) of
                     (err, levels) \<Rightarrow>
                       let st = st\<lparr> xact_levels := levels @ drop (target + 1) (xact_levels st) \<rparr> in
                       (case err of Some b \<Rightarrow> Inl (Fatal_State b, st) | None \<Rightarrow> Inr st)))
      in if IsInParallelMode st then Inl (In_Parallel_Operation, st)
         else case blockState (cur_level st) of
                TBLOCK_INPROGRESS \<Rightarrow> Inl (No_Such_Savepoint, st)
              | TBLOCK_ABORT \<Rightarrow> Inl (No_Such_Savepoint, st)
              | TBLOCK_IMPLICIT_INPROGRESS \<Rightarrow> Inl (Not_In_Block, st)
              | TBLOCK_SUBINPROGRESS \<Rightarrow> proceed
              | TBLOCK_SUBABORT \<Rightarrow> proceed
              | b \<Rightarrow> Inl (Fatal_State b, st))"

section \<open>The size of the stack\<close>

text \<open>What the recursions below descend on.\<close>

lemma update_level_Inr: "update_level f st = Inr st' \<longleftrightarrow>
    st' = st\<lparr> xact_levels := f (hd (xact_levels st)) # tl (xact_levels st) \<rparr>"
  by (auto simp: update_level_def)

lemma tl_update_level: "update_level f st = Inr st' \<Longrightarrow> tl (xact_levels st') = tl (xact_levels st)"
  by (auto simp: update_level_def)

lemma quiet_steps:
  "possible_fault st = Inr st' \<Longrightarrow> xact_levels st' = xact_levels st"
  "CommandCounterIncrement st = Inr st' \<Longrightarrow> xact_levels st' = xact_levels st"
  "restore_read_only st = Inr st' \<Longrightarrow> xact_levels st' = xact_levels st"
  by (auto simp: possible_fault_def CommandCounterIncrement_def restore_read_only_def Let_def
      split: if_splits list.splits)

lemma length_tl_map2: "length xs = length ys \<Longrightarrow> length (tl (map2 f xs ys)) = length (tl xs)"
  by simp

lemma child_xids_length:
  "AtSubCommit_childXids xs = Some (Inr ys) \<Longrightarrow> length ys = length xs"
  "length (AtSubAbort_childXids xs) = length xs"
  by (auto simp: AtSubCommit_childXids_def AtSubAbort_childXids_def Let_def split: list.splits if_splits)

lemma child_xids_steps:
  "subcommit_child_xids st = Inr st' \<Longrightarrow> length (tl (xact_levels st')) = length (tl (xact_levels st))"
  "subabort_child_xids st = Inr st' \<Longrightarrow> length (tl (xact_levels st')) = length (tl (xact_levels st))"
  by (auto simp: subcommit_child_xids_def subabort_child_xids_def child_xids_length
      split: if_splits option.splits sum.splits dest!: child_xids_length(1))

lemma Pop_length: "PopTransaction st = Inr st' \<Longrightarrow> xact_levels st' = tl (xact_levels st) \<and> xact_levels st' \<noteq> []"
  by (auto simp: PopTransaction_def split: if_splits)

lemma run_steps_Cons_Inr:
  "run_steps (f # fs) st = Inr st' \<longleftrightarrow> (\<exists>st1. f st = Inr st1 \<and> run_steps fs st1 = Inr st')"
  by (auto split: sum.splits)

text \<open>One level less, and one is left.\<close>

definition popped :: "xact_session \<Rightarrow> xact_session \<Rightarrow> bool" where
  "popped st st' \<longleftrightarrow> length (xact_levels st') = length (tl (xact_levels st)) \<and> xact_levels st' \<noteq> []"

lemma popped_less: "popped st st' \<Longrightarrow> length (xact_levels st') < length (xact_levels st)"
  by (cases "xact_levels st") (auto simp: popped_def)

lemma sub_ends_length:
  "CleanupSubTransaction st = Inr st' \<Longrightarrow> popped st st'"
  "CommitSubTransaction st = Inr st' \<Longrightarrow> popped st st'"
  "AbortSubTransaction st = Inr st' \<Longrightarrow> length (tl (xact_levels st')) = length (tl (xact_levels st))"
  unfolding CleanupSubTransaction_def CommitSubTransaction_def AbortSubTransaction_def set_state_def popped_def
  by (auto simp: run_steps_Cons_Inr simp del: run_steps.simps(2)
      dest!: Pop_length tl_update_level quiet_steps child_xids_steps)

definition abort_and_cleanup :: xact_op where
  "abort_and_cleanup = run_steps [AbortSubTransaction, CleanupSubTransaction]"

lemma abort_and_cleanup_length: "abort_and_cleanup st = Inr st' \<Longrightarrow> popped st st'"
  unfolding abort_and_cleanup_def
  by (auto simp: run_steps_Cons_Inr popped_def simp del: run_steps.simps(2) dest!: sub_ends_length)

section \<open>The end of a command\<close>

definition start_chained :: "xact_characteristics \<Rightarrow> xact_op" where
  "start_chained savetc st =
     (if xact_chain (cur_level st)
      then run_steps
             [StartTransaction,
              set_block TBLOCK_INPROGRESS,
              update_level (xact_chain_update (\<lambda>_. False)),
              (\<lambda>st. Inr (st\<lparr> characteristics := savetc \<rparr>))] st
      else Inr st)"

text \<open>The loop of \<open>TBLOCK_SUBRELEASE\<close> and \<open>TBLOCK_SUBCOMMIT\<close>.\<close>

function commit_subs :: "TBlockState \<Rightarrow> xact_op" where
  "commit_subs b st =
     (case CommitSubTransaction st of
        Inl e \<Rightarrow> Inl e
      | Inr st' \<Rightarrow> if blockState (cur_level st') = b then commit_subs b st' else Inr st')"
  by pat_completeness auto
termination
  by (relation "measure (\<lambda>(b, st). length (xact_levels st))")
    (auto dest!: sub_ends_length(2) intro: popped_less)

declare commit_subs.simps [simp del]

text \<open>The start of the subtransaction that takes the place of the one rolled back to.\<close>

definition restart_savepoint :: "string option \<Rightarrow> nat \<Rightarrow> xact_op" where
  "restart_savepoint name level =
     run_steps
       [DefineSavepoint None,
        update_level (\<lambda>s. s\<lparr> savepoint_name := name, savepointLevel := level \<rparr>),
        StartSubTransaction,
        set_block TBLOCK_SUBINPROGRESS]"

function CommitTransactionCommand :: xact_op where
  "CommitTransactionCommand st =
     (let s = cur_level st; savetc = characteristics st; forget_name = update_level (savepoint_name_update (\<lambda>_. None)) in
      case blockState s of
        TBLOCK_DEFAULT \<Rightarrow> Inl (Fatal_State TBLOCK_DEFAULT, st)
      | TBLOCK_PARALLEL_INPROGRESS \<Rightarrow> Inl (Fatal_State TBLOCK_PARALLEL_INPROGRESS, st)
      | TBLOCK_STARTED \<Rightarrow> run_steps [CommitTransaction, set_block TBLOCK_DEFAULT] st
      | TBLOCK_BEGIN \<Rightarrow> set_block TBLOCK_INPROGRESS st
      | TBLOCK_INPROGRESS \<Rightarrow> CommandCounterIncrement st
      | TBLOCK_IMPLICIT_INPROGRESS \<Rightarrow> CommandCounterIncrement st
      | TBLOCK_SUBINPROGRESS \<Rightarrow> CommandCounterIncrement st
      | TBLOCK_END \<Rightarrow>
          run_steps [CommitTransaction, set_block TBLOCK_DEFAULT, start_chained savetc] st
      | TBLOCK_ABORT \<Rightarrow> Inr st
      | TBLOCK_SUBABORT \<Rightarrow> Inr st
      | TBLOCK_ABORT_END \<Rightarrow>
          run_steps [CleanupTransaction, set_block TBLOCK_DEFAULT, start_chained savetc] st
      | TBLOCK_ABORT_PENDING \<Rightarrow>
          run_steps [AbortTransaction, CleanupTransaction, set_block TBLOCK_DEFAULT, start_chained savetc] st
      | TBLOCK_PREPARE \<Rightarrow> run_steps [PrepareTransaction, set_block TBLOCK_DEFAULT] st
      | TBLOCK_SUBBEGIN \<Rightarrow> run_steps [StartSubTransaction, set_block TBLOCK_SUBINPROGRESS] st
      | TBLOCK_SUBRELEASE \<Rightarrow> commit_subs TBLOCK_SUBRELEASE st
      | TBLOCK_SUBCOMMIT \<Rightarrow>
          (case commit_subs TBLOCK_SUBCOMMIT st of
             Inl e \<Rightarrow> Inl e
           | Inr st \<Rightarrow>
               if blockState (cur_level st) = TBLOCK_END
               then run_steps [CommitTransaction, set_block TBLOCK_DEFAULT, start_chained savetc] st
               else if blockState (cur_level st) = TBLOCK_PREPARE
               then run_steps [PrepareTransaction, set_block TBLOCK_DEFAULT] st
               else Inl (Unexpected_State (blockState (cur_level st)), st))
      | TBLOCK_SUBABORT_END \<Rightarrow>
          (case CleanupSubTransaction st of Inl e \<Rightarrow> Inl e | Inr st \<Rightarrow> CommitTransactionCommand st)
      | TBLOCK_SUBABORT_PENDING \<Rightarrow>
          (case abort_and_cleanup st of Inl e \<Rightarrow> Inl e | Inr st \<Rightarrow> CommitTransactionCommand st)
      | TBLOCK_SUBRESTART \<Rightarrow>
          run_steps [forget_name, AbortSubTransaction, CleanupSubTransaction,
            restart_savepoint (savepoint_name s) (savepointLevel s)] st
      | TBLOCK_SUBABORT_RESTART \<Rightarrow>
          run_steps [forget_name, CleanupSubTransaction,
            restart_savepoint (savepoint_name s) (savepointLevel s)] st)"
  by pat_completeness auto
termination
  by (relation "measure (\<lambda>st. length (xact_levels st))")
    (auto dest!: sub_ends_length(1) abort_and_cleanup_length intro: popped_less)

declare CommitTransactionCommand.simps [simp del]

section \<open>Errors\<close>

definition abort_now :: xact_op where
  "abort_now = run_steps [AbortTransaction, CleanupTransaction, set_block TBLOCK_DEFAULT]"

text \<open>An error during the start of a transaction leaves \<open>TRANS_START\<close> behind.\<close>

definition abort_start :: xact_op where
  "abort_start st =
     (if ts_state (lv_xact (cur_level st)) = TRANS_DEFAULT then Inr st
      else run_steps
             [(if ts_state (lv_xact (cur_level st)) = TRANS_START then set_state TRANS_INPROGRESS else Inr),
              AbortTransaction, CleanupTransaction] st)"

function AbortCurrentTransaction :: xact_op where
  "AbortCurrentTransaction st =
     (case blockState (cur_level st) of
        TBLOCK_DEFAULT \<Rightarrow> abort_start st
      | TBLOCK_STARTED \<Rightarrow> abort_now st
      | TBLOCK_IMPLICIT_INPROGRESS \<Rightarrow> abort_now st
      | TBLOCK_BEGIN \<Rightarrow> abort_now st
      | TBLOCK_INPROGRESS \<Rightarrow> run_steps [AbortTransaction, set_block TBLOCK_ABORT] st
      | TBLOCK_PARALLEL_INPROGRESS \<Rightarrow> run_steps [AbortTransaction, set_block TBLOCK_ABORT] st
      | TBLOCK_END \<Rightarrow> abort_now st
      | TBLOCK_ABORT \<Rightarrow> Inr st
      | TBLOCK_SUBABORT \<Rightarrow> Inr st
      | TBLOCK_ABORT_END \<Rightarrow> run_steps [CleanupTransaction, set_block TBLOCK_DEFAULT] st
      | TBLOCK_ABORT_PENDING \<Rightarrow> abort_now st
      | TBLOCK_PREPARE \<Rightarrow> abort_now st
      | TBLOCK_SUBINPROGRESS \<Rightarrow> run_steps [AbortSubTransaction, set_block TBLOCK_SUBABORT] st
      | TBLOCK_SUBABORT_END \<Rightarrow>
          (case CleanupSubTransaction st of Inl e \<Rightarrow> Inl e | Inr st \<Rightarrow> AbortCurrentTransaction st)
      | TBLOCK_SUBABORT_RESTART \<Rightarrow>
          (case CleanupSubTransaction st of Inl e \<Rightarrow> Inl e | Inr st \<Rightarrow> AbortCurrentTransaction st)
      | _ \<Rightarrow>
          (case abort_and_cleanup st of Inl e \<Rightarrow> Inl e | Inr st \<Rightarrow> AbortCurrentTransaction st))"
  by pat_completeness auto
termination
  by (relation "measure (\<lambda>st. length (xact_levels st))")
    (auto dest!: sub_ends_length(1) abort_and_cleanup_length intro: popped_less)

declare AbortCurrentTransaction.simps [simp del]

text \<open>The body of the loop of \<open>AbortOutOfAnyTransaction\<close>, and the loop.\<close>

definition abort_out_once :: xact_op where
  "abort_out_once st =
     (case blockState (cur_level st) of
        TBLOCK_DEFAULT \<Rightarrow> abort_start st
      | TBLOCK_STARTED \<Rightarrow> abort_now st
      | TBLOCK_BEGIN \<Rightarrow> abort_now st
      | TBLOCK_INPROGRESS \<Rightarrow> abort_now st
      | TBLOCK_IMPLICIT_INPROGRESS \<Rightarrow> abort_now st
      | TBLOCK_PARALLEL_INPROGRESS \<Rightarrow> abort_now st
      | TBLOCK_END \<Rightarrow> abort_now st
      | TBLOCK_ABORT_PENDING \<Rightarrow> abort_now st
      | TBLOCK_PREPARE \<Rightarrow> abort_now st
      | TBLOCK_ABORT \<Rightarrow> run_steps [CleanupTransaction, set_block TBLOCK_DEFAULT] st
      | TBLOCK_ABORT_END \<Rightarrow> run_steps [CleanupTransaction, set_block TBLOCK_DEFAULT] st
      | TBLOCK_SUBABORT \<Rightarrow> CleanupSubTransaction st
      | TBLOCK_SUBABORT_END \<Rightarrow> CleanupSubTransaction st
      | TBLOCK_SUBABORT_RESTART \<Rightarrow> CleanupSubTransaction st
      | _ \<Rightarrow> abort_and_cleanup st)"

lemma ends_default:
  "run_steps (fs @ [set_block TBLOCK_DEFAULT]) st = Inr st' \<Longrightarrow> blockState (cur_level st') = TBLOCK_DEFAULT"
  by (induction fs arbitrary: st) (auto simp: set_block_def update_level_def split: sum.splits)

lemma abort_now_default: "abort_now st = Inr st' \<Longrightarrow> blockState (cur_level st') = TBLOCK_DEFAULT"
  using ends_default [of "[AbortTransaction, CleanupTransaction]"] by (simp add: abort_now_def)

lemma cleanup_default:
  "run_steps [CleanupTransaction, set_block TBLOCK_DEFAULT] st = Inr st' \<Longrightarrow>
     blockState (cur_level st') = TBLOCK_DEFAULT"
  using ends_default [of "[CleanupTransaction]"] by simp

lemma abort_start_block: "abort_start st = Inr st' \<Longrightarrow> blockState (cur_level st') = blockState (cur_level st)"
  by (auto simp: abort_start_def AbortTransaction_def CleanupTransaction_def end_of_transaction_def
      set_state_def update_level_def split: if_splits)

lemma abort_out_once_result:
  "abort_out_once st = Inr st' \<Longrightarrow> blockState (cur_level st') = TBLOCK_DEFAULT \<or> popped st st'"
  using abort_now_default [of st st'] cleanup_default [of st st'] abort_start_block [of st st']
    sub_ends_length(1) [of st st'] abort_and_cleanup_length [of st st']
  by (auto simp: abort_out_once_def simp del: run_steps.simps split: TBlockState.splits)

function AbortOutOfAnyTransaction :: xact_op where
  "AbortOutOfAnyTransaction st =
     (case abort_out_once st of
        Inl e \<Rightarrow> Inl e
      | Inr st' \<Rightarrow> if blockState (cur_level st') \<noteq> TBLOCK_DEFAULT then AbortOutOfAnyTransaction st' else Inr st')"
  by pat_completeness auto
termination
  by (relation "measure (\<lambda>st. length (xact_levels st))") (auto dest!: abort_out_once_result intro: popped_less)

declare AbortOutOfAnyTransaction.simps [simp del]

section \<open>Subtransactions of functions\<close>

definition BeginInternalSubTransaction :: "string option \<Rightarrow> xact_op" where
  "BeginInternalSubTransaction name st =
     (if IsInParallelMode st then Inl (In_Parallel_Operation, st)
      else if blockState (cur_level st) \<in> {TBLOCK_STARTED, TBLOCK_INPROGRESS, TBLOCK_IMPLICIT_INPROGRESS,
                TBLOCK_END, TBLOCK_PREPARE, TBLOCK_SUBINPROGRESS}
      then run_steps [PushTransaction, name_level name, CommitTransactionCommand, StartTransactionCommand] st
      else Inl (Fatal_State (blockState (cur_level st)), st))"

definition ReleaseCurrentSubTransaction :: xact_op where
  "ReleaseCurrentSubTransaction st =
     (if IsInParallelMode st then Inl (In_Parallel_Operation, st)
      else if blockState (cur_level st) \<noteq> TBLOCK_SUBINPROGRESS
      then Inl (Unexpected_State (blockState (cur_level st)), st)
      else CommitSubTransaction st)"

definition RollbackAndReleaseCurrentSubTransaction :: xact_op where
  "RollbackAndReleaseCurrentSubTransaction st =
     (if blockState (cur_level st) \<notin> {TBLOCK_SUBINPROGRESS, TBLOCK_SUBABORT}
      then Inl (Fatal_State (blockState (cur_level st)), st)
      else run_steps
             [(if blockState (cur_level st) = TBLOCK_SUBINPROGRESS then AbortSubTransaction else Inr),
              CleanupSubTransaction] st)"

end
