(* ===== verification/Xact_Session.thy ===== *)
theory Xact_Session
  imports Xact_Command
begin

text \<open>
  A client session as the block state machine sees it: the transaction commands of
  \<^verbatim>\<open>src/backend/tcop/utility.c\<close>, the loop over the statements of one query message and the
  recovery after an error (\<^verbatim>\<open>src/backend/tcop/postgres.c\<close>). What other statements do is a list of
  the actions they take on the transaction state.
\<close>

section \<open>Statements\<close>

datatype stmt_action =
    Assign_Xid
  | Use_Command_Id
  | Set_Characteristics xact_characteristics
  | Raise_Error

datatype sql_command =
    Begin_Command "xact_characteristics option"
  | Commit_Command bool
  | Rollback_Command bool
  | Prepare_Command
  | Savepoint_Command string
  | Release_Command string
  | Rollback_To_Command string
  | Other_Command "stmt_action list"

definition is_transaction_stmt :: "sql_command \<Rightarrow> bool" where
  "is_transaction_stmt c \<longleftrightarrow> (case c of Other_Command _ \<Rightarrow> False | _ \<Rightarrow> True)"

definition IsTransactionExitStmt :: "sql_command \<Rightarrow> bool" where
  "IsTransactionExitStmt c \<longleftrightarrow>
     (case c of
        Commit_Command _ \<Rightarrow> True
      | Prepare_Command \<Rightarrow> True
      | Rollback_Command _ \<Rightarrow> True
      | Rollback_To_Command _ \<Rightarrow> True
      | _ \<Rightarrow> False)"

definition run_action :: "stmt_action \<Rightarrow> xact_op" where
  "run_action a st =
     (case a of
        Assign_Xid \<Rightarrow> GetCurrentTransactionId st
      | Use_Command_Id \<Rightarrow> Inr (snd (GetCurrentCommandId True st))
      | Set_Characteristics c \<Rightarrow> Inr (st\<lparr> characteristics := c \<rparr>)
      | Raise_Error \<Rightarrow> Inl (Raised, st))"

text \<open>The cases of \<open>standard_ProcessUtility\<close>; the result of COMMIT only names the completion tag.\<close>

definition forget_result ::
  "(xact_block_error \<times> xact_session) + (bool \<times> xact_session) \<Rightarrow> xact_outcome" where
  "forget_result r = (case r of Inl e \<Rightarrow> Inl e | Inr (b, st) \<Rightarrow> Inr st)"

definition run_command :: "sql_command \<Rightarrow> xact_op" where
  "run_command c =
     (case c of
        Begin_Command options \<Rightarrow>
          run_steps (BeginTransactionBlock #
            (case options of
               None \<Rightarrow> []
             | Some chars \<Rightarrow> [possible_fault, (\<lambda>st. Inr (st\<lparr> characteristics := chars \<rparr>))]))
      | Commit_Command chain \<Rightarrow> (\<lambda>st. forget_result (EndTransactionBlock chain st))
      | Prepare_Command \<Rightarrow> (\<lambda>st. forget_result (PrepareTransactionBlock st))
      | Rollback_Command chain \<Rightarrow> UserAbortTransactionBlock chain
      | Savepoint_Command name \<Rightarrow> run_steps [RequireTransactionBlock True, DefineSavepoint (Some name)]
      | Release_Command name \<Rightarrow> run_steps [RequireTransactionBlock True, ReleaseSavepoint name]
      | Rollback_To_Command name \<Rightarrow> run_steps [RequireTransactionBlock True, RollbackToSavepoint name]
      | Other_Command actions \<Rightarrow> run_steps (map run_action actions))"

section \<open>Query messages\<close>

definition start_xact_command :: xact_op where
  "start_xact_command st =
     (if \<not> xact_started st
      then run_steps [StartTransactionCommand, (\<lambda>st. Inr (st\<lparr> xact_started := True \<rparr>))] st
      else Inr st)"

definition finish_xact_command :: xact_op where
  "finish_xact_command st =
     (if xact_started st
      then run_steps [CommitTransactionCommand, (\<lambda>st. Inr (st\<lparr> xact_started := False \<rparr>))] st
      else Inr st)"

definition reject_if_aborted :: "sql_command \<Rightarrow> xact_op" where
  "reject_if_aborted c st =
     (if IsAbortedTransactionBlockState st \<and> \<not> IsTransactionExitStmt c then Inl (Transaction_Aborted, st)
      else Inr st)"

text \<open>The loop over the parse trees.\<close>

fun exec_statements :: "bool \<Rightarrow> sql_command list \<Rightarrow> xact_op" where
  "exec_statements use_implicit_block [] st = Inr st"
| "exec_statements use_implicit_block (c # cs) st =
     run_steps
       [reject_if_aborted c,
        start_xact_command,
        (if use_implicit_block then BeginImplicitTransactionBlock else Inr),
        run_command c,
        (if cs = []
         then run_steps [if use_implicit_block then EndImplicitTransactionBlock else Inr, finish_xact_command]
         else if is_transaction_stmt c then finish_xact_command
         else CommandCounterIncrement),
        exec_statements use_implicit_block cs] st"

definition exec_simple_query :: "sql_command list \<Rightarrow> xact_op" where
  "exec_simple_query cs =
     run_steps [start_xact_command, exec_statements (length cs > 1) cs, finish_xact_command]"

text \<open>
  One turn of the main loop: an ERROR is caught and the transaction aborted; a FATAL error ends the
  session.
\<close>

definition is_fatal :: "xact_block_error \<Rightarrow> bool" where
  "is_fatal e \<longleftrightarrow>
     (case e of Fatal_State _ \<Rightarrow> True | Fatal_TransState _ \<Rightarrow> True | Fatal_PopWithoutParent \<Rightarrow> True | _ \<Rightarrow> False)"

definition recover :: xact_op where
  "recover = run_steps [AbortCurrentTransaction, (\<lambda>st. Inr (st\<lparr> xact_started := False \<rparr>))]"

definition process_query :: "sql_command list \<Rightarrow> xact_op" where
  "process_query cs st =
     (case exec_simple_query cs st of
        Inr st' \<Rightarrow> Inr st'
      | Inl (e, st') \<Rightarrow> if is_fatal e then Inl (e, st') else recover st')"

text \<open>A whole session.\<close>

fun run_session :: "sql_command list list \<Rightarrow> xact_op" where
  "run_session [] st = Inr st"
| "run_session (q # qs) st = (case process_query q st of Inl e \<Rightarrow> Inl e | Inr st' \<Rightarrow> run_session qs st')"

end
