(* ===== verification/Xact_Shape.thy ===== *)
theory Xact_Shape
  imports Xact_Session
begin

text \<open>
  The transaction block state machine on the part of the stack that decides its course: the
  \<open>shape\<close> of a session. Each routine is described by what it makes of the shape, and by the shape it
  leaves behind when an error is raised in the middle of it.
\<close>

section \<open>Shapes\<close>

datatype level_face =
  Face TBlockState TransState "string option" nat nat bool

definition face :: "xact_level \<Rightarrow> level_face" where
  "face l = Face (blockState l) (ts_state (lv_xact l)) (savepoint_name l) (savepointLevel l)
              (nestingLevel l) (xact_chain l)"

definition shape :: "xact_session \<Rightarrow> level_face list" where
  "shape st = map face (xact_levels st)"

fun fc_block :: "level_face \<Rightarrow> TBlockState" where
  "fc_block (Face b s nm sl k ch) = b"

fun with_block :: "TBlockState \<Rightarrow> level_face \<Rightarrow> level_face" where
  "with_block b' (Face b s nm sl k ch) = Face b' s nm sl k ch"

lemma face_block [simp]: "fc_block (face l) = blockState l"
  by (simp add: face_def)

lemma face_fxid [simp]: "face (lv_xact_update (fullTransactionId_update f) l) = face l"
  by (simp add: face_def)

lemma shape_simps [simp]:
  "shape (st\<lparr> xact_levels := ls \<rparr>) = map face ls"
  "shape (st\<lparr> faults := f \<rparr>) = shape st" "shape (st\<lparr> characteristics := c \<rparr>) = shape st"
  "shape (st\<lparr> top_fxid := x \<rparr>) = shape st" "shape (st\<lparr> currentCommandId := i \<rparr>) = shape st"
  "shape (st\<lparr> currentCommandIdUsed := u \<rparr>) = shape st" "shape (st\<lparr> next_fxid := y \<rparr>) = shape st"
  "shape (st\<lparr> currentSubTransactionId := j \<rparr>) = shape st" "shape (st\<lparr> parent_log := pl \<rparr>) = shape st"
  "shape (st\<lparr> xact_started := b \<rparr>) = shape st"
  by (simp_all add: shape_def)

lemma shape_ConsE:
  assumes "shape st = Face b s nm sl k ch # ps"
  obtains l ls where "xact_levels st = l # ls" "blockState l = b" "ts_state (lv_xact l) = s"
    "savepoint_name l = nm" "savepointLevel l = sl" "nestingLevel l = k" "xact_chain l = ch"
    "map face ls = ps"
  using assms by (cases "xact_levels st") (auto simp: shape_def face_def)

lemma cur_block: "shape st = F # ps \<Longrightarrow> blockState (cur_level st) = fc_block F"
  by (cases "xact_levels st") (auto simp: shape_def)

section \<open>Outcomes\<close>

text \<open>\<open>Q\<close> after success, \<open>R\<close> after an error.\<close>

definition yields :: "(xact_session \<Rightarrow> bool) \<Rightarrow> (xact_block_error \<Rightarrow> xact_session \<Rightarrow> bool) \<Rightarrow>
    xact_op \<Rightarrow> xact_session \<Rightarrow> bool" where
  "yields Q R f st \<longleftrightarrow> (case f st of Inr st' \<Rightarrow> Q st' | Inl (err, st') \<Rightarrow> R err st')"

lemma yields_nil [simp]: "yields Q R (run_steps []) st = Q st"
  by (simp add: yields_def)

lemma yields_Inr [simp]: "yields Q R Inr st = Q st"
  by (simp add: yields_def)

lemma yields_Cons: "yields Q R (run_steps (f # fs)) st = yields (yields Q R (run_steps fs)) R f st"
  by (auto simp: yields_def split: sum.splits)

lemma yields_one [simp]: "yields Q R (run_steps [f]) st = yields Q R f st"
  by (auto simp: yields_def split: sum.splits)

lemma yields_weaken:
  "yields P R f st \<Longrightarrow> (\<And>st'. P st' \<Longrightarrow> Q st') \<Longrightarrow> (\<And>e st'. R e st' \<Longrightarrow> S e st') \<Longrightarrow> yields Q S f st"
  by (auto simp: yields_def split: sum.splits)

lemma yields_seq:
  "yields P R f st \<Longrightarrow> (\<And>st'. P st' \<Longrightarrow> yields Q R (run_steps fs) st') \<Longrightarrow> yields Q R (run_steps (f # fs)) st"
  unfolding yields_Cons by (rule yields_weaken)

text \<open>No level is in parallel mode; a session of the model enters it only to commit a worker.\<close>

definition sequential :: "xact_session \<Rightarrow> bool" where
  "sequential st \<longleftrightarrow> (\<forall>l\<in>set (xact_levels st). parallelModeLevel l = 0)"

lemma sequential_simps [simp]:
  "sequential (st\<lparr> faults := f \<rparr>) = sequential st" "sequential (st\<lparr> characteristics := c \<rparr>) = sequential st"
  "sequential (st\<lparr> top_fxid := x \<rparr>) = sequential st" "sequential (st\<lparr> currentCommandId := i \<rparr>) = sequential st"
  "sequential (st\<lparr> currentCommandIdUsed := u \<rparr>) = sequential st"
  "sequential (st\<lparr> next_fxid := y \<rparr>) = sequential st"
  "sequential (st\<lparr> currentSubTransactionId := j \<rparr>) = sequential st"
  "sequential (st\<lparr> parent_log := pl \<rparr>) = sequential st" "sequential (st\<lparr> xact_started := b \<rparr>) = sequential st"
  "sequential (st\<lparr> xact_levels := ls \<rparr>) = (\<forall>l\<in>set ls. parallelModeLevel l = 0)"
  by (simp_all add: sequential_def)

lemma sequential_Cons: "xact_levels st = l # ls \<Longrightarrow>
    sequential st \<longleftrightarrow> parallelModeLevel l = 0 \<and> (\<forall>l\<in>set ls. parallelModeLevel l = 0)"
  by (simp add: sequential_def)

lemma sequential_mode: "sequential st \<Longrightarrow> shape st \<noteq> [] \<Longrightarrow> \<not> IsInParallelMode st"
  by (auto simp: sequential_def IsInParallelMode_def shape_def)

text \<open>The shape and whether a command is under way.\<close>

definition has :: "level_face list \<Rightarrow> bool \<Rightarrow> xact_session \<Rightarrow> bool" where
  "has ps b st \<longleftrightarrow> shape st = ps \<and> xact_started st = b \<and> sequential st"

lemma has_update [simp]: "has ps b (st\<lparr> characteristics := c \<rparr>) = has ps b st"
  by (simp add: has_def)

definition same :: "xact_session \<Rightarrow> xact_session \<Rightarrow> bool" where
  "same st st' \<longleftrightarrow> shape st' = shape st \<and> xact_started st' = xact_started st \<and> (sequential st \<longrightarrow> sequential st')"

text \<open>An error that is not the answer to a misplaced command.\<close>

definition hard :: "xact_block_error \<Rightarrow> bool" where
  "hard e \<longleftrightarrow>
     (case e of
        Raised \<Rightarrow> True | Too_Many_Subtransaction_Ids \<Rightarrow> True | Too_Many_Commands \<Rightarrow> True
      | In_Parallel_Operation \<Rightarrow> True | Child_Xids _ \<Rightarrow> True | _ \<Rightarrow> False)"

lemma hard_simps [simp]:
  "hard Raised" "hard Too_Many_Subtransaction_Ids" "hard Too_Many_Commands" "hard In_Parallel_Operation"
  "hard (Child_Xids c)"
  by (simp_all add: hard_def)

definition left :: "(level_face list \<Rightarrow> bool) \<Rightarrow> xact_block_error \<Rightarrow> xact_session \<Rightarrow> bool" where
  "left P err st \<longleftrightarrow> hard err \<and> P (shape st) \<and> sequential st"

section \<open>Routines that leave the shape alone\<close>

definition quiet :: "xact_op \<Rightarrow> bool" where
  "quiet f \<longleftrightarrow>
     (\<forall>st. case f st of
        Inr st' \<Rightarrow> same st st'
      | Inl (e, st') \<Rightarrow> hard e \<and> same st st')"

lemma quiet_yields: "quiet f \<Longrightarrow> has ps b st \<Longrightarrow> P ps \<Longrightarrow> yields (has ps b) (left P) f st"
  by (auto simp: quiet_def yields_def left_def has_def same_def split: sum.splits dest: spec [of _ st])

lemma quiet_run_steps: "(\<And>f. f \<in> set fs \<Longrightarrow> quiet f) \<Longrightarrow> quiet (run_steps fs)"
proof (induction fs)
  case Nil
  then show ?case by (simp add: quiet_def same_def)
next
  case (Cons f fs)
  have f: "quiet f" and fs: "quiet (run_steps fs)" using Cons by auto
  show ?case unfolding quiet_def
  proof
    fix st
    show "case run_steps (f # fs) st of
        Inr st' \<Rightarrow> same st st'
      | Inl (e, st') \<Rightarrow> hard e \<and> same st st'"
    proof (cases "f st")
      case (Inl es)
      then show ?thesis using f by (auto simp: quiet_def split: sum.splits dest: spec [of _ st])
    next
      case (Inr st1)
      then have "same st st1"
        using f by (auto simp: quiet_def split: sum.splits dest: spec [of _ st])
      then show ?thesis
        using Inr fs by (auto simp: quiet_def same_def has_def split: sum.splits dest: spec [of _ st1])
    qed
  qed
qed

lemma quiet_possible_fault: "quiet possible_fault"
  by (auto simp: quiet_def possible_fault_def same_def Let_def split: list.splits)

lemma quiet_CommandCounterIncrement: "quiet CommandCounterIncrement"
  by (auto simp: quiet_def CommandCounterIncrement_def same_def)

lemma quiet_Inr: "quiet Inr"
  by (simp add: quiet_def same_def)

lemma assign_levels_shape:
  "case assign_levels ls st of
     (r, ls') \<Rightarrow> map face ls' = map face ls \<and> map parallelModeLevel ls' = map parallelModeLevel ls \<and>
       (case r of Inr st' \<Rightarrow> same st st'
        | Inl (e, st') \<Rightarrow> hard e \<and> same st st')"
proof (induction ls arbitrary: st)
  case Nil
  then show ?case by (simp add: same_def)
next
  case (Cons s parents)
  define up where "up = (if parents \<noteq> [] \<and> \<not> FullTransactionIdIsValid (fullTransactionId (lv_xact (hd parents)))
             then assign_levels parents st else (Inr st, parents))"
  have up: "case up of (r, ls') \<Rightarrow> map face ls' = map face parents \<and>
       map parallelModeLevel ls' = map parallelModeLevel parents \<and>
       (case r of Inr st' \<Rightarrow> same st st'
        | Inl (e, st') \<Rightarrow> hard e \<and> same st st')"
    using Cons.IH [of st] by (simp add: up_def same_def)
  have fault: "case possible_fault st' of
        Inr st'' \<Rightarrow> same st' st''
      | Inl (e, st'') \<Rightarrow> hard e \<and> same st' st''" for st'
    using quiet_possible_fault unfolding quiet_def by blast
  obtain r ls' where r: "up = (r, ls')" by force
  show ?case
  proof (cases r)
    case (Inl es)
    then show ?thesis using up r by (auto simp flip: up_def)
  next
    case (Inr st1)
    have ls': "map face ls' = map face parents" "map parallelModeLevel ls' = map parallelModeLevel parents"
      "same st st1"
      using up r Inr by simp_all
    show ?thesis
    proof (cases "possible_fault st1")
      case (Inl es)
      then show ?thesis
        using ls' r Inr fault [of st1] by (auto simp: same_def simp flip: up_def split: prod.splits)
    next
      case (Inr st2)
      then show ?thesis
        using ls' r \<open>r = Inr st1\<close> fault [of st1]
        by (auto simp: Let_def same_def simp flip: up_def)
    qed
  qed
qed

lemma sequential_alt: "sequential st \<longleftrightarrow> set (map parallelModeLevel (xact_levels st)) \<subseteq> {0}"
  by (auto simp: sequential_def)

lemma quiet_GetCurrentTransactionId: "quiet GetCurrentTransactionId"
  unfolding quiet_def
proof
  fix st
  show "case GetCurrentTransactionId st of
        Inr st' \<Rightarrow> same st st'
      | Inl (e, st') \<Rightarrow> hard e \<and> same st st'"
    using assign_levels_shape [of "xact_levels st" st]
    by (auto simp: GetCurrentTransactionId_def AssignTransactionId_def same_def shape_def sequential_alt
        simp del: set_map split: prod.splits sum.splits)
qed

lemma quiet_run_action: "quiet (run_action a)"
  using quiet_GetCurrentTransactionId
  by (cases a) (simp_all add: run_action_def quiet_def GetCurrentCommandId_def same_def)

section \<open>Single steps\<close>

lemma y_set_block:
  "has (Face b0 s nm sl k ch # ps) d st \<Longrightarrow> yields (has (Face b s nm sl k ch # ps) d) R (set_block b) st"
  by (auto simp: has_def sequential_def yields_def set_block_def update_level_def face_def elim!: shape_ConsE)

lemma y_set_state:
  "has (Face b s0 nm sl k ch # ps) d st \<Longrightarrow> yields (has (Face b s nm sl k ch # ps) d) R (set_state s) st"
  by (auto simp: has_def sequential_def yields_def set_state_def update_level_def face_def elim!: shape_ConsE)

lemma y_parallel:
  "has ps d st \<Longrightarrow> ps \<noteq> [] \<Longrightarrow> yields (has ps d) R (update_level (parallelModeLevel_update (\<lambda>_. 0))) st"
  by (cases "xact_levels st") (auto simp: has_def sequential_def yields_def update_level_def shape_def face_def)

lemma y_name:
  "has (Face b s nm0 sl k ch # ps) d st \<Longrightarrow>
    yields (has (Face b s nm sl k ch # ps) d) R (update_level (savepoint_name_update (\<lambda>_. nm))) st"
  by (auto simp: has_def sequential_def yields_def update_level_def face_def elim!: shape_ConsE)

lemma y_name_level:
  "has (Face b s nm0 sl k ch # ps) d st \<Longrightarrow>
    yields (has (Face b s (if nm = None then nm0 else nm) sl k ch # ps) d) R (name_level nm) st"
  using y_name by (simp add: name_level_def)

lemma y_Pop: "has (F # ps) d st \<Longrightarrow> ps \<noteq> [] \<Longrightarrow> yields (has ps d) R PopTransaction st"
  by (cases "xact_levels st") (auto simp: has_def sequential_def yields_def PopTransaction_def shape_def)

lemma y_Push:
  assumes "has (Face b s nm sl k ch # ps) d st" "P (Face b s nm sl k ch # ps)"
  shows "yields (has (Face TBLOCK_SUBBEGIN TRANS_DEFAULT None sl (k + 1) False # Face b s nm sl k ch # ps) d)
           (left P) PushTransaction st"
  using assms
  by (auto simp: has_def sequential_def yields_def PushTransaction_def Let_def left_def face_def shape_def)

lemma y_end_of_transaction:
  "has (Face b s nm sl k ch # ps) d st \<Longrightarrow>
    yields (has (Face b TRANS_DEFAULT nm sl 0 ch # ps) d) R end_of_transaction st"
  by (auto simp: has_def sequential_def yields_def end_of_transaction_def update_level_def face_def shape_def)

section \<open>The top-level transaction\<close>

lemma y_StartTransaction:
  assumes "has [Face b s nm sl k ch] d st" "P [Face b TRANS_START nm sl 1 ch]"
  shows "yields (has [Face b TRANS_INPROGRESS nm sl 1 ch] d) (left P) StartTransaction st"
proof -
  define st0 where "st0 = (let s = last (xact_levels st);
          s = s\<lparr> lv_xact := \<lparr> fullTransactionId = InvalidFullTransactionId, ts_state = TRANS_START,
                              childXids = [], maxChildXids = 0 \<rparr>,
                 subTransactionId := TopSubTransactionId, nestingLevel := 1 \<rparr>;
          chars = default_characteristics st
      in st\<lparr> xact_levels := [s],
                   characteristics := (if in_recovery st then chars\<lparr> XactReadOnly := True \<rparr> else chars),
                   currentSubTransactionId := TopSubTransactionId, currentCommandId := FirstCommandId,
                   currentCommandIdUsed := False \<rparr>)"
  have 0: "has [Face b TRANS_START nm sl 1 ch] d st0"
    using assms(1) by (auto simp: st0_def has_def sequential_def Let_def shape_def face_def)
  have "yields (has [Face b TRANS_INPROGRESS nm sl 1 ch] d) (left P)
          (run_steps [possible_fault, set_state TRANS_INPROGRESS]) st0"
    by (rule yields_seq [where P = "has [Face b TRANS_START nm sl 1 ch] d"])
      (simp_all add: quiet_yields [OF quiet_possible_fault 0] assms(2) y_set_state del: One_nat_def)
  then show ?thesis
    by (simp add: yields_def StartTransaction_def st0_def Let_def del: run_steps.simps)
qed

lemma y_CommitTransaction:
  assumes 0: "has (Face b s nm sl k ch # ps) d st" and P: "P (Face b s nm sl k ch # ps)"
    and b: "b \<noteq> TBLOCK_PARALLEL_INPROGRESS"
  shows "yields (has (Face b TRANS_DEFAULT nm sl 0 ch # ps) d) (left P) CommitTransaction st"
proof -
  let ?ps = "Face b s nm sl k ch # ps"
  have "yields (has (Face b TRANS_DEFAULT nm sl 0 ch # ps) d) (left P)
     (run_steps [possible_fault, set_state TRANS_COMMIT,
        update_level (parallelModeLevel_update (\<lambda>_. 0)), end_of_transaction]) st'" if "has ?ps d st'" for st'
    by (rule yields_seq [OF quiet_yields [OF quiet_possible_fault that]], rule P,
        erule yields_seq [OF y_set_state], erule yields_seq [OF y_parallel], simp,
        simp add: y_end_of_transaction)
  moreover have "yields (has ?ps d) (left P)
      (if blockState (cur_level st) = TBLOCK_PARALLEL_INPROGRESS
       then update_level (\<lambda>s. s\<lparr> parallelModeLevel := parallelModeLevel s + 1 \<rparr>) else Inr) st"
    using 0 b cur_block [of st] by (simp add: has_def)
  ultimately have "yields (has (Face b TRANS_DEFAULT nm sl 0 ch # ps) d) (left P)
      (run_steps
       [(if blockState (cur_level st) = TBLOCK_PARALLEL_INPROGRESS
         then update_level (\<lambda>s. s\<lparr> parallelModeLevel := parallelModeLevel s + 1 \<rparr>) else Inr),
        possible_fault,
        set_state TRANS_COMMIT,
        update_level (parallelModeLevel_update (\<lambda>_. 0)),
        end_of_transaction]) st"
    by (rule yields_seq [rotated])
  then show ?thesis
    by (simp add: yields_def CommitTransaction_def del: run_steps.simps)
qed

lemma y_PrepareTransaction:
  assumes 0: "has (Face b s nm sl k ch # ps) d st"
    and P: "\<And>s'. P (Face b s' nm sl k ch # ps)"
  shows "yields (has (Face b TRANS_DEFAULT nm sl 0 ch # ps) d) (left P) PrepareTransaction st"
  unfolding PrepareTransaction_def
  by (rule yields_seq [OF quiet_yields [OF quiet_GetCurrentTransactionId 0]], rule P,
      erule yields_seq [OF quiet_yields [OF quiet_possible_fault]], rule P,
      erule yields_seq [OF y_set_state],
      erule yields_seq [OF quiet_yields [OF quiet_possible_fault]], rule P,
      simp add: y_end_of_transaction)

lemma y_AbortTransaction:
  "has (Face b s nm sl k ch # ps) d st \<Longrightarrow>
    yields (has (Face b TRANS_ABORT nm sl k ch # ps) d) R AbortTransaction st"
  unfolding AbortTransaction_def
  by (erule yields_seq [OF y_set_state]) (simp add: y_parallel)

lemma y_CleanupTransaction:
  assumes "has (Face b TRANS_ABORT nm sl k ch # ps) d st"
  shows "yields (has (Face b TRANS_DEFAULT nm sl 0 ch # ps) d) R CleanupTransaction st"
proof -
  have "ts_state (lv_xact (cur_level st)) = TRANS_ABORT"
    using assms by (auto simp: has_def elim!: shape_ConsE)
  moreover have "yields (has (Face b TRANS_DEFAULT nm sl 0 ch # ps) d) R
      (run_steps [update_level (parallelModeLevel_update (\<lambda>_. 0)), end_of_transaction]) st"
    by (rule yields_seq [OF y_parallel [OF assms]], simp, simp add: y_end_of_transaction)
  ultimately show ?thesis by (simp add: yields_def CleanupTransaction_def del: run_steps.simps)
qed

lemma y_abort_now:
  "has (Face b s nm sl k ch # ps) d st \<Longrightarrow>
    yields (has (Face TBLOCK_DEFAULT TRANS_DEFAULT nm sl 0 ch # ps) d) R abort_now st"
  unfolding abort_now_def
  by (erule yields_seq [OF y_AbortTransaction], erule yields_seq [OF y_CleanupTransaction])
    (simp add: y_set_block)

end
