(* ===== verification/Xact_Views.thy ===== *)
theory Xact_Views
  imports Xact_Shape
begin

text \<open>
  What a client sees of the block state machine: the view of a session. Which shapes represent
  which view, and the view that \<open>AbortCurrentTransaction\<close> brings a session to after an error.
\<close>

section \<open>Subtransactions and shapes\<close>

lemma face_children [simp]:
  "face (l\<lparr> lv_xact := (lv_xact l)\<lparr> childXids := c, maxChildXids := m \<rparr> \<rparr>) = face l"
  "face (l\<lparr> lv_xact := (lv_xact l)\<lparr> childXids := c \<rparr> \<rparr>) = face l"
  "face (l\<lparr> lv_xact := (lv_xact l)\<lparr> maxChildXids := m, childXids := c \<rparr> \<rparr>) = face l"
  by (simp_all add: face_def)

lemma map2_same: "map2 (\<lambda>s x. s\<lparr> lv_xact := x \<rparr>) ls (map lv_xact ls) = ls"
  by (induction ls) simp_all

lemma y_subabort: "has ps d st \<Longrightarrow> yields (has ps d) R subabort_child_xids st"
proof -
  have "map face (map2 (\<lambda>s x. s\<lparr> lv_xact := x \<rparr>) ls (AtSubAbort_childXids (map lv_xact ls))) = map face ls" for ls
    by (cases ls) (simp_all add: AtSubAbort_childXids_def map2_same)
  moreover have "parallelModeLevel ` set (map2 (\<lambda>s x. s\<lparr> lv_xact := x \<rparr>) ls xs) \<subseteq> parallelModeLevel ` set ls" for ls xs
    by (auto dest: set_zip_leftD)
  ultimately show "has ps d st \<Longrightarrow> ?thesis"
    by (auto simp: yields_def subabort_child_xids_def has_def shape_def sequential_def dest: set_zip_leftD)
qed

lemma y_restore_read_only: "has ps d st \<Longrightarrow> yields (has ps d) R restore_read_only st"
  by (simp add: yields_def restore_read_only_def has_def)

lemma y_subcommit:
  assumes "has (F # ps) d st" "ps \<noteq> []" "P (F # ps)"
  shows "yields (has (F # ps) d) (left P) subcommit_child_xids st"
proof -
  obtain l p ls where levels: "xact_levels st = l # p # ls"
    using assms by (cases "xact_levels st"; cases "tl (xact_levels st)") (auto simp: has_def shape_def)
  show ?thesis
  proof (cases "AtSubCommit_childXids (map lv_xact (xact_levels st))")
    case None
    then show ?thesis using levels by (auto simp: AtSubCommit_childXids_def Let_def split: if_splits)
  next
    case (Some r)
    then show ?thesis
      using assms levels
      by (auto simp: yields_def subcommit_child_xids_def has_def left_def shape_def sequential_def map2_same
          AtSubCommit_childXids_def Let_def split: if_splits)
  qed
qed

lemma y_AbortSub:
  "has (Face b s nm sl k ch # ps) d st \<Longrightarrow>
    yields (has (Face b TRANS_ABORT nm sl k ch # ps) d) R AbortSubTransaction st"
  unfolding AbortSubTransaction_def
  by (erule yields_seq [OF y_set_state], erule yields_seq [OF y_parallel], simp,
      erule yields_seq [OF y_subabort], simp add: y_restore_read_only)

lemma y_CleanupSub:
  "has (Face b s nm sl k ch # ps) d st \<Longrightarrow> ps \<noteq> [] \<Longrightarrow> yields (has ps d) R CleanupSubTransaction st"
  unfolding CleanupSubTransaction_def
  by (erule yields_seq [OF y_set_state], simp add: y_Pop)

lemma y_abort_and_cleanup:
  "has (Face b s nm sl k ch # ps) d st \<Longrightarrow> ps \<noteq> [] \<Longrightarrow> yields (has ps d) R abort_and_cleanup st"
  unfolding abort_and_cleanup_def
  by (erule yields_seq [OF y_AbortSub], simp add: y_CleanupSub)

lemma y_CommitSub:
  assumes "has (Face b s nm sl k ch # ps) d st" "ps \<noteq> []" "\<And>s'. P (Face b s' nm sl k ch # ps)"
  shows "yields (has ps d) (left P) CommitSubTransaction st"
  unfolding CommitSubTransaction_def
  by (rule yields_seq [OF quiet_yields [OF quiet_possible_fault assms(1)]], rule assms(3),
      erule yields_seq [OF y_parallel], simp,
      erule yields_seq [OF y_set_state],
      erule yields_seq [OF quiet_yields [OF quiet_CommandCounterIncrement]], rule assms(3),
      erule yields_seq [OF y_subcommit], rule assms(2), rule assms(3),
      erule yields_seq [OF y_restore_read_only],
      erule yields_seq [OF y_set_state], simp add: y_Pop assms(2))

lemma y_StartSub:
  assumes "has (Face b s nm sl k ch # ps) d st" "P (Face b TRANS_START nm sl k ch # ps)"
  shows "yields (has (Face b TRANS_INPROGRESS nm sl k ch # ps) d) (left P) StartSubTransaction st"
  unfolding StartSubTransaction_def
  by (rule yields_seq [OF y_set_state [OF assms(1)]],
      erule yields_seq [OF quiet_yields [OF quiet_possible_fault]], rule assms(2), simp add: y_set_state)

text \<open>Popping levels that were all marked alike.\<close>

lemma y_commit_subs:
  assumes "has (xs @ base) d st" "xs \<noteq> []" "\<forall>F\<in>set xs. fc_block F = b" "base \<noteq> []" "fc_block (hd base) \<noteq> b"
    and P: "\<And>ys. \<forall>F\<in>set ys. fc_block F = b \<Longrightarrow> P (ys @ base)"
  shows "yields (has base d) (left P) (commit_subs b) st"
  using assms(1-3)
proof (induction xs arbitrary: st)
  case (Cons F xs)
  obtain s nm sl k ch where F: "F = Face b s nm sl k ch" using Cons.prems by (cases F) auto
  have Pxs: "P (Face b s' nm sl k ch # xs @ base)" for s'
    using P [of "Face b s' nm sl k ch # xs"] Cons.prems by simp
  have sub: "yields (has (xs @ base) d) (left P) CommitSubTransaction st"
    using y_CommitSub [of b s nm sl k ch "xs @ base" d st P] Cons.prems assms(4) Pxs by (simp add: F)
  have rest: "yields (has base d) (left P)
      (\<lambda>st'. if blockState (cur_level st') = b then commit_subs b st' else Inr st') st'"
    if st': "has (xs @ base) d st'" for st'
  proof (cases xs)
    case Nil
    then show ?thesis
      using st' assms(4,5) by (cases base) (auto simp: has_def yields_def dest: cur_block)
  next
    case (Cons G ys)
    then have "blockState (cur_level st') = b"
      using st' Cons.prems(3) cur_block [of st' G "ys @ base"] by (simp add: has_def)
    then show ?thesis using Cons.IH [OF st'] Cons Cons.prems(3) by (simp add: yields_def)
  qed
  show ?case
  proof (cases "CommitSubTransaction st")
    case (Inl es)
    then show ?thesis using sub by (subst yields_def, subst commit_subs.simps) (auto simp: yields_def)
  next
    case (Inr st1)
    then have "has (xs @ base) d st1" using sub by (simp add: yields_def)
    then show ?thesis using rest [of st1] Inr
      by (subst yields_def, subst commit_subs.simps) (simp add: yields_def)
  qed
qed simp

section \<open>Views\<close>

text \<open>
  A session is idle, in a block with a list of savepoints (innermost first), or in a failed
  block. \<open>Single\<close> and \<open>Implicit\<close> occur within a query only: outside a block, before a statement, and
  when several statements form an implicit block.
\<close>

datatype xact_view =
    Idle
  | Single
  | Implicit
  | Active "string list"
  | Failed "string list"

definition is_face :: "TBlockState \<Rightarrow> TransState \<Rightarrow> string option \<Rightarrow> level_face \<Rightarrow> bool" where
  "is_face b s nm F \<longleftrightarrow> (\<exists>k ch. F = Face b s nm 0 k ch)"

fun live_stack :: "string list \<Rightarrow> level_face list \<Rightarrow> bool" where
  "live_stack [] [F] = is_face TBLOCK_INPROGRESS TRANS_INPROGRESS None F"
| "live_stack (n # ns) (F # ps) = (is_face TBLOCK_SUBINPROGRESS TRANS_INPROGRESS (Some n) F \<and> live_stack ns ps)"
| "live_stack ns ps = False"

fun represents :: "xact_view \<Rightarrow> level_face list \<Rightarrow> bool" where
  "represents Idle [F] = is_face TBLOCK_DEFAULT TRANS_DEFAULT None F"
| "represents Single [F] = (\<exists>ch. F = Face TBLOCK_STARTED TRANS_INPROGRESS None 0 1 ch)"
| "represents Implicit [F] = (\<exists>ch. F = Face TBLOCK_IMPLICIT_INPROGRESS TRANS_INPROGRESS None 0 1 ch)"
| "represents (Active ns) ps = live_stack ns ps"
| "represents (Failed []) [F] = is_face TBLOCK_ABORT TRANS_ABORT None F"
| "represents (Failed (n # ns)) (F # ps) =
     (is_face TBLOCK_SUBABORT TRANS_ABORT (Some n) F \<and> live_stack ns ps)"
| "represents v ps = False"

definition at_view :: "xact_view \<Rightarrow> bool \<Rightarrow> xact_session \<Rightarrow> bool" where
  "at_view v started st \<longleftrightarrow> represents v (shape st) \<and> xact_started st = started \<and> sequential st"

lemma is_face_simps [simp]:
  "is_face b s nm (Face b' s' nm' sl k ch) \<longleftrightarrow> b' = b \<and> s' = s \<and> nm' = nm \<and> sl = 0"
  by (auto simp: is_face_def)

lemma live_nonempty: "live_stack ns ps \<Longrightarrow> ps \<noteq> []"
  by (cases ns; cases ps) auto

section \<open>Recovery\<close>

text \<open>
  The view that \<open>AbortCurrentTransaction\<close> reaches from a shape; there is none where it would meet
  a state it does not expect.
\<close>

definition doomed_sub :: "TBlockState \<Rightarrow> bool" where
  "doomed_sub b \<longleftrightarrow> b \<in> {TBLOCK_SUBBEGIN, TBLOCK_SUBRELEASE, TBLOCK_SUBCOMMIT, TBLOCK_SUBABORT_PENDING,
     TBLOCK_SUBRESTART, TBLOCK_SUBABORT_END, TBLOCK_SUBABORT_RESTART}"

definition top_recovers :: "xact_view \<Rightarrow> TBlockState \<Rightarrow> TransState \<Rightarrow> bool" where
  "top_recovers v b s \<longleftrightarrow>
     (if b = TBLOCK_INPROGRESS then v = Failed []
      else if b = TBLOCK_ABORT then v = Failed [] \<and> s = TRANS_ABORT
      else if b = TBLOCK_ABORT_END then v = Idle \<and> s = TRANS_ABORT
      else v = Idle \<and> b \<in> {TBLOCK_DEFAULT, TBLOCK_STARTED, TBLOCK_IMPLICIT_INPROGRESS, TBLOCK_BEGIN,
              TBLOCK_END, TBLOCK_ABORT_PENDING, TBLOCK_PREPARE})"

fun recovers_to :: "xact_view \<Rightarrow> level_face list \<Rightarrow> bool" where
  "recovers_to v [] = False"
| "recovers_to v [Face b s nm sl k ch] = (nm = None \<and> sl = 0 \<and> top_recovers v b s)"
| "recovers_to v (Face b s nm sl k ch # F # ps) =
     (if b = TBLOCK_SUBINPROGRESS
      then (\<exists>n ns. v = Failed (n # ns) \<and> nm = Some n \<and> sl = 0 \<and> live_stack ns (F # ps))
      else if b = TBLOCK_SUBABORT then represents v (Face b s nm sl k ch # F # ps)
      else doomed_sub b \<and> recovers_to v (F # ps))"

lemma recovers_nonempty: "recovers_to v ps \<Longrightarrow> ps \<noteq> []"
  by auto

lemma recovers_doomed:
  "\<forall>F\<in>set xs. doomed_sub (fc_block F) \<Longrightarrow> recovers_to v base \<Longrightarrow> recovers_to v (xs @ base)"
proof (induction xs)
  case (Cons F xs)
  then have "recovers_to v (xs @ base)" by simp
  moreover from this obtain G ps where "xs @ base = G # ps" by (cases "xs @ base") auto
  ultimately show ?case using Cons.prems(1) by (cases F) (auto simp: doomed_sub_def)
qed simp

lemma live_recovers: "live_stack ns ps \<Longrightarrow> recovers_to (Failed ns) ps"
proof (induction ns ps rule: live_stack.induct)
  case (2 n ns F ps)
  then show ?case using live_nonempty [of ns ps] by (cases ps; cases F) auto
qed (auto simp: is_face_def top_recovers_def)

lemma cur_state: "has (Face b s nm sl k ch # ps) d st \<Longrightarrow> ts_state (lv_xact (cur_level st)) = s"
  by (auto simp: has_def elim: shape_ConsE)

lemma cur_block_has: "has (Face b s nm sl k ch # ps) d st \<Longrightarrow> blockState (cur_level st) = b"
  by (auto simp: has_def elim: shape_ConsE)

lemma yields_eq: "f st = g st \<Longrightarrow> yields Q R f st \<longleftrightarrow> yields Q R g st"
  by (simp add: yields_def)

lemma yields_then:
  assumes "f st = (case g st of Inl e \<Rightarrow> Inl e | Inr st' \<Rightarrow> h st')"
    and "yields P R g st" "\<And>st'. P st' \<Longrightarrow> yields Q R h st'"
  shows "yields Q R f st"
proof (cases "g st")
  case (Inr st1)
  then show ?thesis using assms(1,2) assms(3) [of st1] by (simp add: yields_def)
qed (use assms(1,2) in \<open>auto simp: yields_def\<close>)

lemma y_abort_start:
  assumes "has [Face b s None 0 k ch] d st"
  shows "yields (\<lambda>st'. \<exists>k'. has [Face b TRANS_DEFAULT None 0 k' ch] d st') R abort_start st"
proof (cases "s = TRANS_DEFAULT")
  case True
  then show ?thesis using assms cur_state [OF assms] by (auto simp: yields_def abort_start_def)
next
  case False
  let ?f = "if ts_state (lv_xact (cur_level st)) = TRANS_START then set_state TRANS_INPROGRESS else Inr"
  have f: "yields (\<lambda>st'. \<exists>s'. has [Face b s' None 0 k ch] d st') R ?f st"
    using y_set_state [OF assms, of TRANS_INPROGRESS R] assms
    by (auto elim!: yields_weaken)
  have "yields (\<lambda>st'. \<exists>k'. has [Face b TRANS_DEFAULT None 0 k' ch] d st') R
      (run_steps [?f, AbortTransaction, CleanupTransaction]) st"
    by (rule yields_seq [OF f], erule exE, erule yields_seq [OF y_AbortTransaction], simp)
      (erule yields_weaken [OF y_CleanupTransaction], auto)
  then show ?thesis
    using False cur_state [OF assms] by (simp add: yields_def abort_start_def del: run_steps.simps)
qed

text \<open>Its outcome at the last level.\<close>

lemma y_abort_top:
  assumes "has [Face b s None 0 k ch] d st" "top_recovers v b s"
  shows "yields (at_view v d) R AbortCurrentTransaction st"
proof -
  note b = cur_block_has [OF assms(1)]
  have now: "yields (at_view Idle d) R abort_now st"
    by (rule yields_weaken [OF y_abort_now [OF assms(1)]]) (auto simp: at_view_def has_def)
  have fail: "yields (at_view (Failed []) d) R (run_steps [AbortTransaction, set_block TBLOCK_ABORT]) st"
    by (rule yields_seq [OF y_AbortTransaction [OF assms(1)]], simp)
      (erule yields_weaken [OF y_set_block], auto simp: at_view_def has_def)
  have cleanup: "yields (at_view Idle d) R (run_steps [CleanupTransaction, set_block TBLOCK_DEFAULT]) st"
    if "s = TRANS_ABORT"
    by (rule yields_seq [OF y_CleanupTransaction [OF assms(1) [unfolded that]]], simp)
      (erule yields_weaken [OF y_set_block], auto simp: at_view_def has_def)
  have start: "yields (at_view Idle d) R abort_start st" if "b = TBLOCK_DEFAULT"
    by (rule yields_weaken [OF y_abort_start [OF assms(1)]]) (auto simp: at_view_def has_def that)
  have stay: "at_view (Failed []) d st" if "b = TBLOCK_ABORT" "s = TRANS_ABORT"
    using assms(1) that by (simp add: at_view_def has_def)
  show ?thesis
    using assms(2) b now fail cleanup start stay
    by (cases b) (simp_all add: top_recovers_def yields_def AbortCurrentTransaction.simps [of st] del: run_steps.simps)
qed

lemma y_AbortCurrentTransaction:
  "has ps d st \<Longrightarrow> recovers_to v ps \<Longrightarrow> yields (at_view v d) R AbortCurrentTransaction st"
proof (induction v ps arbitrary: st rule: recovers_to.induct)
  case (1 v)
  then show ?case by simp
next
  case (2 v b s nm sl k ch)
  then show ?case by (auto intro: y_abort_top)
next
  case (3 v b s nm sl k ch F ps)
  note b = cur_block_has [OF 3(2)]
  note step = AbortCurrentTransaction.simps [of st, unfolded b]
  show ?case
  proof (cases "b = TBLOCK_SUBINPROGRESS")
    case True
    then obtain n ns where v: "v = Failed (n # ns)" "nm = Some n" "sl = 0" "live_stack ns (F # ps)"
      using 3(3) by auto
    have "yields (at_view v d) R (run_steps [AbortSubTransaction, set_block TBLOCK_SUBABORT]) st"
      by (rule yields_seq [OF y_AbortSub [OF 3(2)]], simp)
        (erule yields_weaken [OF y_set_block], use v in \<open>auto simp: at_view_def has_def\<close>)
    then show ?thesis using True step by (simp add: yields_def del: run_steps.simps)
  next
    case False
    show ?thesis
    proof (cases "b = TBLOCK_SUBABORT")
      case True
      then show ?thesis using 3(2,3) step by (simp add: yields_def at_view_def has_def)
    next
      case not_failed: False
      then have doomed: "doomed_sub b" and rec: "recovers_to v (F # ps)" using 3(3) False by auto
      have IH: "yields (at_view v d) R AbortCurrentTransaction st'" if "has (F # ps) d st'" for st'
        using 3(1) False not_failed that rec by blast
      have pops: "yields (has (F # ps) d) R CleanupSubTransaction st"
        "yields (has (F # ps) d) R abort_and_cleanup st"
        using y_CleanupSub [OF 3(2)] y_abort_and_cleanup [OF 3(2)] by simp_all
      have "AbortCurrentTransaction st =
          (case (if b \<in> {TBLOCK_SUBABORT_END, TBLOCK_SUBABORT_RESTART} then CleanupSubTransaction
                 else abort_and_cleanup) st of
             Inl e \<Rightarrow> Inl e | Inr st' \<Rightarrow> AbortCurrentTransaction st')"
        using doomed step by (auto simp: doomed_sub_def)
      then show ?thesis
        by (rule yields_then [where P = "has (F # ps) d"]) (use pops IH in \<open>simp_all split: if_splits\<close>)
    qed
  qed
qed

end
