(* ===== verification/Xact_Moves.thy ===== *)
theory Xact_Moves
  imports Xact_Views
begin

text \<open>
  What \<open>CommitTransactionCommand\<close> makes of the block states that the transaction commands leave
  behind for it: the view reached when it succeeds, and the one that recovery reaches when an error
  is raised at any point of it.
\<close>

definition ready :: "xact_view \<Rightarrow> xact_view \<Rightarrow> bool \<Rightarrow> xact_session \<Rightarrow> bool" where
  "ready w e d st \<longleftrightarrow>
     blockState (cur_level st) \<noteq> TBLOCK_IMPLICIT_INPROGRESS \<and> xact_started st = d \<and>
     yields (at_view w d) (left (recovers_to e)) CommitTransactionCommand st"

lemma at_viewI: "has ps d st \<Longrightarrow> represents v ps \<Longrightarrow> at_view v d st"
  by (simp add: at_view_def has_def)

lemma readyI:
  assumes "has (F # ps) d st" "fc_block F \<noteq> TBLOCK_IMPLICIT_INPROGRESS"
    and "yields (at_view w d) (left (recovers_to e)) CommitTransactionCommand st"
  shows "ready w e d st"
  using assms by (simp add: ready_def has_def cur_block)

lemmas commit_step = CommitTransactionCommand.simps [unfolded Let_def]

section \<open>The end of the top-level transaction\<close>

fun after_end :: "bool \<Rightarrow> xact_view" where
  "after_end True = Active []"
| "after_end False = Idle"

lemma y_start_chained:
  assumes "has [Face TBLOCK_DEFAULT TRANS_DEFAULT None 0 k ch] d st"
  shows "yields (at_view (after_end ch) d) (left (recovers_to Idle)) (start_chained savetc) st"
proof (cases ch)
  case False
  have "\<not> xact_chain (cur_level st)" using assms False by (auto simp: has_def elim: shape_ConsE)
  then show ?thesis using assms False by (simp add: yields_def start_chained_def at_view_def has_def)
next
  case True
  have "xact_chain (cur_level st)" using assms True by (auto simp: has_def elim: shape_ConsE)
  moreover have chain: "yields (has [Face TBLOCK_INPROGRESS TRANS_INPROGRESS None 0 1 False] d) R
      (update_level (xact_chain_update (\<lambda>_. False))) st'"
    if "has [Face TBLOCK_INPROGRESS TRANS_INPROGRESS None 0 1 ch] d st'" for st' R
    using that by (auto simp: has_def sequential_def yields_def update_level_def face_def elim!: shape_ConsE)
  have "yields (at_view (after_end ch) d) (left (recovers_to Idle))
      (run_steps
             [StartTransaction,
              set_block TBLOCK_INPROGRESS,
              update_level (xact_chain_update (\<lambda>_. False)),
              (\<lambda>st. Inr (st\<lparr> characteristics := savetc \<rparr>))]) st"
    by (rule yields_seq [OF y_StartTransaction [OF assms]], simp add: top_recovers_def,
        erule yields_seq [OF y_set_block], erule yields_seq [OF chain], simp only: yields_one)
      (simp add: yields_def at_view_def has_def True)
  ultimately show ?thesis by (simp add: yields_def start_chained_def del: run_steps.simps)
qed

lemma y_end_chained:
  assumes "has [Face b TRANS_DEFAULT None 0 k ch] d st"
  shows "yields (at_view (after_end ch) d) (left (recovers_to Idle))
           (run_steps [set_block TBLOCK_DEFAULT, start_chained savetc]) st"
  by (rule yields_seq [OF y_set_block [OF assms]], simp add: y_start_chained)

lemma y_commit_end:
  assumes "has [Face TBLOCK_END s None 0 k ch] d st"
  shows "yields (at_view (after_end ch) d) (left (recovers_to Idle))
           (run_steps [CommitTransaction, set_block TBLOCK_DEFAULT, start_chained savetc]) st"
  by (rule yields_seq [OF y_CommitTransaction [OF assms]], simp add: top_recovers_def, simp, erule y_end_chained)

lemma y_prepare_end:
  assumes "has [Face TBLOCK_PREPARE s None 0 k ch] d st"
  shows "yields (at_view Idle d) (left (recovers_to Idle))
           (run_steps [PrepareTransaction, set_block TBLOCK_DEFAULT]) st"
  by (rule yields_seq [OF y_PrepareTransaction [OF assms]], simp add: top_recovers_def, simp)
    (erule yields_weaken [OF y_set_block], auto intro: at_viewI)

lemma ready_single:
  assumes "has [Face TBLOCK_STARTED s None 0 k ch] d st"
  shows "ready Idle Idle d st"
proof (rule readyI [OF assms])
  have "yields (at_view Idle d) (left (recovers_to Idle))
      (run_steps [CommitTransaction, set_block TBLOCK_DEFAULT]) st"
    by (rule yields_seq [OF y_CommitTransaction [OF assms]], simp add: top_recovers_def, simp, simp)
      (erule yields_weaken [OF y_set_block], auto intro: at_viewI)
  then show "yields (at_view Idle d) (left (recovers_to Idle)) CommitTransactionCommand st"
    using cur_block_has [OF assms] by (simp add: yields_def commit_step [of st] del: run_steps.simps)
qed simp

lemma ready_begin:
  assumes "has [Face TBLOCK_BEGIN TRANS_INPROGRESS None 0 k ch] d st"
  shows "ready (Active []) Idle d st"
proof (rule readyI [OF assms])
  have "yields (at_view (Active []) d) (left (recovers_to Idle)) (set_block TBLOCK_INPROGRESS) st"
    by (rule yields_weaken [OF y_set_block [OF assms]]) (auto intro: at_viewI)
  then show "yields (at_view (Active []) d) (left (recovers_to Idle)) CommitTransactionCommand st"
    using cur_block_has [OF assms] by (simp add: yields_def commit_step [of st] del: run_steps.simps)
qed simp

text \<open>COMMIT and PREPARE: the open subtransactions first.\<close>

lemma ready_commit:
  assumes "has (xs @ [Face b s None 0 k ch]) d st" "\<forall>F\<in>set xs. fc_block F = TBLOCK_SUBCOMMIT"
    and "b = TBLOCK_END \<and> w = after_end ch \<or> b = TBLOCK_PREPARE \<and> w = Idle"
  shows "ready w Idle d st"
proof -
  define fin where "fin = (\<lambda>st. if blockState (cur_level st) = TBLOCK_END
               then run_steps [CommitTransaction, set_block TBLOCK_DEFAULT, start_chained (characteristics st)] st
               else if blockState (cur_level st) = TBLOCK_PREPARE
               then run_steps [PrepareTransaction, set_block TBLOCK_DEFAULT] st
               else Inl (Unexpected_State (blockState (cur_level st)), st))"
  have fin: "yields (at_view w d) (left (recovers_to Idle)) (\<lambda>st'. if blockState (cur_level st') = TBLOCK_END
               then run_steps [CommitTransaction, set_block TBLOCK_DEFAULT, start_chained tc] st'
               else if blockState (cur_level st') = TBLOCK_PREPARE
               then run_steps [PrepareTransaction, set_block TBLOCK_DEFAULT] st'
               else Inl (Unexpected_State (blockState (cur_level st')), st')) st'"
    if "has [Face b s None 0 k ch] d st'" for st' tc
    using cur_block_has [OF that] assms(3) that y_commit_end [of s k ch d st' tc] y_prepare_end [of s k ch d st']
    by (auto simp: yields_def simp del: run_steps.simps)
  show ?thesis
  proof (cases xs)
    case Nil
    then have top: "has [Face b s None 0 k ch] d st" using assms(1) by simp
    have "yields (at_view w d) (left (recovers_to Idle)) CommitTransactionCommand st"
      using fin [OF top, of "characteristics st"] cur_block_has [OF top] assms(3)
      by (auto simp: yields_def commit_step [of st] simp del: run_steps.simps)
    then show ?thesis by (rule readyI [OF top, rotated]) (use assms(3) in auto)
  next
    case (Cons F ys)
    have first: "has (F # ys @ [Face b s None 0 k ch]) d st" using assms(1) Cons by simp
    have b: "blockState (cur_level st) = TBLOCK_SUBCOMMIT"
      using first cur_block [of st F] assms(2) Cons by (simp add: has_def)
    have subs: "yields (has [Face b s None 0 k ch] d) (left (recovers_to Idle)) (commit_subs TBLOCK_SUBCOMMIT) st"
      by (rule y_commit_subs [OF assms(1)])
        (use assms Cons in \<open>auto simp: doomed_sub_def top_recovers_def intro!: recovers_doomed\<close>)
    have "yields (at_view w d) (left (recovers_to Idle)) CommitTransactionCommand st"
      by (rule yields_then [OF _ subs fin], subst commit_step, simp only: b TBlockState.case)
    then show ?thesis by (rule readyI [OF first, rotated]) (use assms(2) Cons in auto)
  qed
qed

text \<open>ROLLBACK, and the levels above the target of ROLLBACK TO.\<close>

definition rolling :: "TBlockState \<Rightarrow> bool" where
  "rolling b \<longleftrightarrow> b = TBLOCK_SUBABORT_PENDING \<or> b = TBLOCK_SUBABORT_END"

lemma y_rolling:
  assumes "has (xs @ base) d st" "\<forall>F\<in>set xs. rolling (fc_block F)" "base \<noteq> []"
    and base: "\<And>st'. has base d st' \<Longrightarrow> yields Q R CommitTransactionCommand st'"
  shows "yields Q R CommitTransactionCommand st"
  using assms(1,2)
proof (induction xs arbitrary: st)
  case Nil
  then show ?case by (simp add: base)
next
  case (Cons F xs)
  obtain b s nm sl k ch where F: "F = Face b s nm sl k ch" by (cases F)
  have first: "has (Face b s nm sl k ch # xs @ base) d st" using Cons.prems F by simp
  have pops: "yields (has (xs @ base) d) R CleanupSubTransaction st"
    "yields (has (xs @ base) d) R abort_and_cleanup st"
    using y_CleanupSub [OF first] y_abort_and_cleanup [OF first] assms(3) by simp_all
  have "CommitTransactionCommand st =
      (case (if b = TBLOCK_SUBABORT_END then CleanupSubTransaction else abort_and_cleanup) st of
         Inl e \<Rightarrow> Inl e | Inr st' \<Rightarrow> CommitTransactionCommand st')"
    using Cons.prems(2) cur_block_has [OF first] by (auto simp: rolling_def F commit_step [of st])
  then show ?case
    by (rule yields_then [where P = "has (xs @ base) d"])
      (use pops Cons in \<open>simp_all split: if_splits\<close>)
qed

lemma y_rollback_top:
  assumes "has [Face b s None 0 k ch] d st" "b = TBLOCK_ABORT_PENDING \<or> b = TBLOCK_ABORT_END \<and> s = TRANS_ABORT"
  shows "yields (at_view (after_end ch) d) (left (recovers_to Idle)) CommitTransactionCommand st"
proof -
  have clean: "yields (at_view (after_end ch) d) (left (recovers_to Idle))
      (run_steps [CleanupTransaction, set_block TBLOCK_DEFAULT, start_chained tc]) st'"
    if "has [Face b TRANS_ABORT None 0 k ch] d st'" for st' tc
    by (rule yields_seq [OF y_CleanupTransaction [OF that]], erule y_end_chained)
  have "yields (at_view (after_end ch) d) (left (recovers_to Idle))
      (run_steps [AbortTransaction, CleanupTransaction, set_block TBLOCK_DEFAULT, start_chained tc]) st" for tc
    by (rule yields_seq [OF y_AbortTransaction [OF assms(1)]], erule clean)
  with clean [of st] show ?thesis
    using assms cur_block_has [OF assms(1)]
    by (auto simp: yields_def commit_step [of st] simp del: run_steps.simps)
qed

lemma ready_rollback:
  assumes "has (xs @ [Face b s None 0 k ch]) d st" "\<forall>F\<in>set xs. rolling (fc_block F)"
    and "b = TBLOCK_ABORT_PENDING \<or> b = TBLOCK_ABORT_END \<and> s = TRANS_ABORT"
  shows "ready (after_end ch) Idle d st"
proof -
  have "yields (at_view (after_end ch) d) (left (recovers_to Idle)) CommitTransactionCommand st"
    by (rule y_rolling [OF assms(1,2)]) (use assms(3) in \<open>auto intro: y_rollback_top\<close>)
  moreover obtain F ps where "xs @ [Face b s None 0 k ch] = F # ps" "fc_block F \<noteq> TBLOCK_IMPLICIT_INPROGRESS"
    using assms(2,3) by (cases xs) (auto simp: rolling_def)
  ultimately show ?thesis using assms(1) by (auto intro: readyI)
qed

section \<open>Savepoints\<close>

lemma ready_stay:
  assumes "has ps d st" "live_stack ns ps"
  shows "ready (Active ns) (Failed ns) d st"
proof -
  obtain F qs where ps: "ps = F # qs" using live_nonempty [OF assms(2)] by (cases ps) auto
  have b: "fc_block F = TBLOCK_INPROGRESS \<or> fc_block F = TBLOCK_SUBINPROGRESS"
    using assms(2) ps by (cases ns; cases qs) (auto simp: is_face_def)
  have "yields (at_view (Active ns) d) (left (recovers_to (Failed ns))) CommandCounterIncrement st"
    by (rule yields_weaken [OF quiet_yields [OF quiet_CommandCounterIncrement assms(1)]])
      (use assms(2) in \<open>auto intro: at_viewI live_recovers\<close>)
  moreover have "blockState (cur_level st) = fc_block F" using assms(1) ps cur_block by (simp add: has_def)
  ultimately have "yields (at_view (Active ns) d) (left (recovers_to (Failed ns))) CommitTransactionCommand st"
    using b by (auto simp: yields_def commit_step [of st])
  then show ?thesis by (rule readyI [OF assms(1) [unfolded ps], rotated]) (use b in auto)
qed

lemma y_start_sub:
  assumes "has (Face TBLOCK_SUBBEGIN s (Some n) 0 k ch # ps) d st" "live_stack ns ps"
  shows "yields (at_view (Active (n # ns)) d) (left (recovers_to (Failed ns)))
           (run_steps [StartSubTransaction, set_block TBLOCK_SUBINPROGRESS]) st"
proof (rule yields_seq [OF y_StartSub [OF assms(1)]])
  show "recovers_to (Failed ns) (Face TBLOCK_SUBBEGIN TRANS_START (Some n) 0 k ch # ps)"
    using recovers_doomed [of "[Face TBLOCK_SUBBEGIN TRANS_START (Some n) 0 k ch]", OF _ live_recovers [OF assms(2)]]
    by (simp add: doomed_sub_def)
qed (simp, erule yields_weaken [OF y_set_block], use assms(2) in \<open>auto intro: at_viewI\<close>)

lemma ready_savepoint:
  assumes "has (Face TBLOCK_SUBBEGIN s (Some n) 0 k ch # ps) d st" "live_stack ns ps"
  shows "ready (Active (n # ns)) (Failed ns) d st"
  by (rule readyI [OF assms(1)])
    (use y_start_sub [OF assms] cur_block_has [OF assms(1)] in
      \<open>simp_all add: yields_def commit_step [of st] del: run_steps.simps\<close>)

lemma ready_release:
  assumes "has (xs @ base) d st" "xs \<noteq> []" "\<forall>F\<in>set xs. fc_block F = TBLOCK_SUBRELEASE" "live_stack ns base"
  shows "ready (Active ns) (Failed ns) d st"
proof -
  obtain F ys where xs: "xs = F # ys" using assms(2) by (cases xs) auto
  have first: "has (F # ys @ base) d st" using assms(1) xs by simp
  have b: "blockState (cur_level st) = TBLOCK_SUBRELEASE"
    using first assms(3) xs cur_block by (simp add: has_def)
  have base: "base \<noteq> []" "fc_block (hd base) \<noteq> TBLOCK_SUBRELEASE"
    using assms(4) by (cases ns; cases base; auto simp: is_face_def; cases "tl base"; auto simp: is_face_def)+
  have "yields (has base d) (left (recovers_to (Failed ns))) (commit_subs TBLOCK_SUBRELEASE) st"
    by (rule y_commit_subs [OF assms(1-3) base])
      (rule recovers_doomed, simp_all add: doomed_sub_def live_recovers [OF assms(4)])
  then have "yields (at_view (Active ns) d) (left (recovers_to (Failed ns))) (commit_subs TBLOCK_SUBRELEASE) st"
    by (rule yields_weaken) (erule at_viewI, simp_all add: assms(4))
  then have "yields (at_view (Active ns) d) (left (recovers_to (Failed ns))) CommitTransactionCommand st"
    using b by (simp add: yields_def commit_step [of st])
  then show ?thesis by (rule readyI [OF first, rotated]) (use assms(3) xs in auto)
qed

lemma y_DefineSavepoint:
  assumes "has ps d st" "live_stack ns ps"
  shows "yields (\<lambda>st'. \<exists>k. has (Face TBLOCK_SUBBEGIN TRANS_DEFAULT nm 0 k False # ps) d st')
           (left (recovers_to (Failed ns))) (DefineSavepoint nm) st"
proof -
  obtain b s nm0 k0 ch0 qs where ps: "ps = Face b s nm0 0 k0 ch0 # qs"
    and b: "b = TBLOCK_INPROGRESS \<or> b = TBLOCK_SUBINPROGRESS"
    using assms(2) by (cases ns; cases ps; auto simp: is_face_def; cases "tl ps"; auto simp: is_face_def)
  have rec: "recovers_to (Failed ns) ps" by (rule live_recovers [OF assms(2)])
  have "yields (\<lambda>st'. \<exists>k. has (Face TBLOCK_SUBBEGIN TRANS_DEFAULT nm 0 k False # ps) d st')
      (left (recovers_to (Failed ns))) (run_steps [PushTransaction, name_level nm]) st"
    by (rule yields_seq [OF y_Push [where P = "recovers_to (Failed ns)", OF assms(1) [unfolded ps]]],
        rule rec [unfolded ps], simp only: yields_one)
      (erule yields_weaken [OF y_name_level], auto simp: ps)
  then show ?thesis
    using b assms(1) rec cur_block_has [OF assms(1) [unfolded ps]]
    by (auto simp: yields_def DefineSavepoint_def left_def has_def simp del: run_steps.simps)
qed

lemma y_restart_savepoint:
  assumes "has ps d st" "live_stack ns ps"
  shows "yields (at_view (Active (n # ns)) d) (left (recovers_to (Failed ns)))
           (restart_savepoint (Some n) 0) st"
proof -
  have name: "yields (\<lambda>st'. \<exists>k. has (Face TBLOCK_SUBBEGIN TRANS_DEFAULT (Some n) 0 k False # ps) d st') R
      (update_level (\<lambda>s. s\<lparr> savepoint_name := Some n, savepointLevel := 0 \<rparr>)) st'"
    if "\<exists>k. has (Face TBLOCK_SUBBEGIN TRANS_DEFAULT None 0 k False # ps) d st'" for st' R
    using that by (auto simp: has_def sequential_def yields_def update_level_def face_def elim!: shape_ConsE)
  show ?thesis
    unfolding restart_savepoint_def
    by (rule yields_seq [OF y_DefineSavepoint [OF assms]], erule yields_seq [OF name], erule exE,
        erule y_start_sub [OF _ assms(2)])
qed

lemma ready_restart:
  assumes "has (xs @ Face b s (Some n) 0 k ch # base) d st" "\<forall>F\<in>set xs. rolling (fc_block F)"
    and "b = TBLOCK_SUBRESTART \<or> b = TBLOCK_SUBABORT_RESTART" "live_stack ns base"
  shows "ready (Active (n # ns)) (Failed ns) d st"
proof -
  let ?Q = "at_view (Active (n # ns)) d" and ?R = "left (recovers_to (Failed ns))"
  note base = live_nonempty [OF assms(4)]
  have target: "yields ?Q ?R CommitTransactionCommand st'" if st': "has (Face b s (Some n) 0 k ch # base) d st'" for st'
  proof -
    let ?forget = "update_level (savepoint_name_update (\<lambda>_. None))"
    have "yields ?Q ?R (run_steps [?forget, AbortSubTransaction, CleanupSubTransaction, restart_savepoint (Some n) 0]) st'"
      by (rule yields_seq [OF y_name [OF st']], erule yields_seq [OF y_AbortSub],
          erule yields_seq [OF y_CleanupSub [OF _ base]], simp only: yields_one,
          erule y_restart_savepoint [OF _ assms(4)])
    moreover have "yields ?Q ?R (run_steps [?forget, CleanupSubTransaction, restart_savepoint (Some n) 0]) st'"
      by (rule yields_seq [OF y_name [OF st']], erule yields_seq [OF y_CleanupSub [OF _ base]],
          simp only: yields_one, erule y_restart_savepoint [OF _ assms(4)])
    moreover have "savepoint_name (cur_level st') = Some n" "savepointLevel (cur_level st') = 0"
      using st' by (auto simp: has_def elim: shape_ConsE)
    ultimately show ?thesis
      using assms(3) cur_block_has [OF st']
      by (auto simp: yields_def commit_step [of st'] simp del: run_steps.simps)
  qed
  have "yields ?Q ?R CommitTransactionCommand st"
    by (rule y_rolling [OF assms(1,2)]) (use target in auto)
  moreover obtain F ps where "xs @ Face b s (Some n) 0 k ch # base = F # ps"
      "fc_block F \<noteq> TBLOCK_IMPLICIT_INPROGRESS"
    using assms(2,3) by (cases xs) (auto simp: rolling_def)
  ultimately show ?thesis using assms(1) by (auto intro: readyI)
qed

end
