(* ===== verification/Xact_Views_Commands.thy ===== *)
theory Xact_Views_Commands
  imports Xact_Moves
begin

text \<open>
  The abstract specification of the transaction commands, as changes of the view, and the proof
  that each command leaves behind block states with which \<open>CommitTransactionCommand\<close> completes it.
\<close>

section \<open>What the commands promise\<close>

text \<open>The savepoints established before the innermost one of that name.\<close>

definition before :: "string \<Rightarrow> string list \<Rightarrow> string list" where
  "before n ns = tl (dropWhile (\<lambda>m. m \<noteq> n) ns)"

text \<open>The view after a statement that succeeds; \<open>None\<close>: it is always rejected.\<close>

definition after_ok :: "sql_command \<Rightarrow> xact_view \<Rightarrow> xact_view option" where
  "after_ok c v =
     (case c of
        Begin_Command _ \<Rightarrow>
          (case v of Failed _ \<Rightarrow> None | Active ns \<Rightarrow> Some (Active ns) | _ \<Rightarrow> Some (Active []))
      | Commit_Command chain \<Rightarrow>
          (case v of Failed _ \<Rightarrow> Some (after_end chain) | Active _ \<Rightarrow> Some (after_end chain)
           | _ \<Rightarrow> if chain then None else Some Idle)
      | Rollback_Command chain \<Rightarrow>
          (case v of Failed _ \<Rightarrow> Some (after_end chain) | Active _ \<Rightarrow> Some (after_end chain)
           | _ \<Rightarrow> if chain then None else Some Idle)
      | Prepare_Command \<Rightarrow> Some Idle
      | Savepoint_Command n \<Rightarrow> (case v of Active ns \<Rightarrow> Some (Active (n # ns)) | _ \<Rightarrow> None)
      | Release_Command n \<Rightarrow>
          (case v of Active ns \<Rightarrow> if n \<in> set ns then Some (Active (before n ns)) else None | _ \<Rightarrow> None)
      | Rollback_To_Command n \<Rightarrow>
          (case v of
             Active ns \<Rightarrow> if n \<in> set ns then Some (Active (n # before n ns)) else None
           | Failed ns \<Rightarrow> if n \<in> set ns then Some (Active (n # before n ns)) else None
           | _ \<Rightarrow> None)
      | Other_Command _ \<Rightarrow>
          (case v of Failed _ \<Rightarrow> None | Active ns \<Rightarrow> Some (Active ns) | _ \<Rightarrow> Some Idle))"

text \<open>The view after a statement that raises an error.\<close>

definition after_error :: "sql_command \<Rightarrow> xact_view \<Rightarrow> xact_view" where
  "after_error c v =
     (case v of
        Active ns \<Rightarrow>
          (case c of
             Commit_Command _ \<Rightarrow> Idle | Rollback_Command _ \<Rightarrow> Idle | Prepare_Command \<Rightarrow> Idle
           | Release_Command n \<Rightarrow> Failed (if n \<in> set ns then before n ns else ns)
           | Rollback_To_Command n \<Rightarrow> Failed (if n \<in> set ns then before n ns else ns)
           | _ \<Rightarrow> Failed ns)
      | Failed ns \<Rightarrow>
          (case c of
             Commit_Command _ \<Rightarrow> Idle | Rollback_Command _ \<Rightarrow> Idle | Prepare_Command \<Rightarrow> Idle
           | Rollback_To_Command n \<Rightarrow> Failed (if n \<in> set ns then before n ns else ns)
           | _ \<Rightarrow> Failed ns)
      | _ \<Rightarrow> Idle)"

definition refused :: "xact_block_error \<Rightarrow> bool" where
  "refused e \<longleftrightarrow> e = Not_In_Block \<or> e = No_Such_Savepoint \<or> e = Transaction_Aborted"

text \<open>The errors of a command, and what they leave behind.\<close>

definition stops :: "sql_command \<Rightarrow> xact_view \<Rightarrow> xact_block_error \<Rightarrow> xact_session \<Rightarrow> bool" where
  "stops c v e st \<longleftrightarrow>
     (hard e \<or> refused e \<and> after_ok c v = None) \<and> recovers_to (after_error c v) (shape st) \<and> sequential st"

definition completes :: "sql_command \<Rightarrow> xact_view \<Rightarrow> bool \<Rightarrow> xact_session \<Rightarrow> bool" where
  "completes c v d st \<longleftrightarrow> (\<exists>w. after_ok c v = Some w \<and> ready w (after_error c v) d st)"

lemma left_stops: "left (recovers_to (after_error c v)) e st \<Longrightarrow> stops c v e st"
  by (simp add: left_def stops_def)

lemma refusedI:
  "f st = Inl (e, st) \<Longrightarrow> refused e \<Longrightarrow> after_ok c v = None \<Longrightarrow> recovers_to (after_error c v) (shape st) \<Longrightarrow>
    sequential st \<Longrightarrow> yields Q (stops c v) f st"
  by (simp add: yields_def stops_def)

lemma yields_sure: "yields Q (\<lambda>e s. False) f st \<Longrightarrow> \<exists>st'. f st = Inr st' \<and> Q st'"
  by (auto simp: yields_def split: sum.splits)

lemma yields_returns: "f st = Inr st' \<Longrightarrow> Q st' \<Longrightarrow> yields Q R f st"
  by (simp add: yields_def)

section \<open>Marking levels\<close>

lemma face_with_block [simp]: "face (blockState_update (\<lambda>_. b) l) = with_block b (face l)"
  by (simp add: face_def)

lemma with_block_block [simp]: "fc_block (with_block b F) = b"
  by (cases F) simp

lemma mark_levels_face:
  assumes "map face ls = xs @ [T]" "\<forall>F\<in>set xs. sub (fc_block F) \<noteq> None" "top_of (fc_block T) = Some bt"
  shows "\<exists>ls'. mark_levels sub top_of ls = (None, ls') \<and>
           map face ls' = map (\<lambda>F. with_block (the (sub (fc_block F))) F) xs @ [with_block bt T]"
  using assms
proof (induction xs arbitrary: ls)
  case Nil
  then show ?case by (cases ls) auto
next
  case (Cons F xs)
  then obtain l ls1 where ls: "ls = l # ls1" "face l = F" "map face ls1 = xs @ [T]" by (cases ls) auto
  obtain ls1' where "mark_levels sub top_of ls1 = (None, ls1')"
      "map face ls1' = map (\<lambda>F. with_block (the (sub (fc_block F))) F) xs @ [with_block bt T]"
    using Cons.IH [OF ls(3)] Cons.prems by auto
  moreover have "ls1 \<noteq> []" using ls(3) by auto
  ultimately show ?case using Cons.prems(2) ls by auto
qed

lemma mark_levels_mode:
  "map parallelModeLevel (snd (mark_levels sub top_of ls)) = map parallelModeLevel ls"
  by (induction sub top_of ls rule: mark_levels.induct) (auto simp: Let_def split: option.splits prod.splits)

lemma mark_levels_sequential:
  "mark_levels sub top_of ls = (err, ls') \<Longrightarrow> \<forall>l\<in>set ls. parallelModeLevel l = 0 \<Longrightarrow> l \<in> set ls' \<Longrightarrow>
    parallelModeLevel l = 0"
  using mark_levels_mode [of sub top_of ls]
  by simp (metis (no_types, lifting) image_iff list.set_map)

lemma y_mark_all:
  assumes "has (xs @ [T]) d st" "\<forall>F\<in>set xs. sub (fc_block F) \<noteq> None" "top_of (fc_block T) = Some bt"
  shows "yields (has (map (\<lambda>F. with_block (the (sub (fc_block F))) F) xs @ [with_block bt T]) d) R
           (mark_all sub top_of) st"
  using mark_levels_face [of "xact_levels st" xs T sub top_of bt] assms
  by (auto simp: has_def shape_def sequential_def yields_def mark_all_def dest: mark_levels_sequential)

lemma y_set_chain:
  assumes "has (xs @ [Face b s nm sl k c0]) d st"
  shows "yields (has (xs @ [Face b s nm sl k ch]) d) R (set_chain ch) st"
proof -
  obtain ls l where ls: "xact_levels st = ls @ [l]" "map face ls = xs" "face l = Face b s nm sl k c0"
    using assms by (auto simp: has_def shape_def map_eq_append_conv)
  then have "face (l\<lparr> xact_chain := ch \<rparr>) = Face b s nm sl k ch" by (simp add: face_def)
  then show ?thesis using ls assms by (simp add: has_def sequential_def yields_def set_chain_def shape_def)
qed

section \<open>Blocks and their levels\<close>

lemma live_split:
  "live_stack ns ps \<Longrightarrow> \<exists>xs k ch. ps = xs @ [Face TBLOCK_INPROGRESS TRANS_INPROGRESS None 0 k ch] \<and>
     (\<forall>F\<in>set xs. fc_block F = TBLOCK_SUBINPROGRESS)"
proof (induction ns ps rule: live_stack.induct)
  case (1 F)
  then show ?case by (auto simp: is_face_def)
next
  case (2 n ns F ps)
  then obtain xs k ch where "ps = xs @ [Face TBLOCK_INPROGRESS TRANS_INPROGRESS None 0 k ch]"
    "\<forall>F\<in>set xs. fc_block F = TBLOCK_SUBINPROGRESS" "fc_block F = TBLOCK_SUBINPROGRESS"
    by (auto simp: is_face_def)
  then have "F # ps = (F # xs) @ [Face TBLOCK_INPROGRESS TRANS_INPROGRESS None 0 k ch]"
    "\<forall>F\<in>set (F # xs). fc_block F = TBLOCK_SUBINPROGRESS" by auto
  then show ?case by blast
qed auto

text \<open>The level of a savepoint.\<close>

fun fc_name :: "level_face \<Rightarrow> string option" where
  "fc_name (Face b s nm sl k ch) = nm"

lemma face_name [simp]: "fc_name (face l) = savepoint_name l"
  by (simp add: face_def)

lemma live_find:
  "live_stack ns ps \<Longrightarrow> n \<in> set ns \<Longrightarrow>
    \<exists>xs k ch base. ps = xs @ Face TBLOCK_SUBINPROGRESS TRANS_INPROGRESS (Some n) 0 k ch # base \<and>
      (\<forall>G\<in>set xs. fc_name G \<noteq> Some n \<and> fc_block G = TBLOCK_SUBINPROGRESS) \<and> live_stack (before n ns) base"
proof (induction ns ps rule: live_stack.induct)
  case (2 m ns F ps)
  obtain k ch where F: "F = Face TBLOCK_SUBINPROGRESS TRANS_INPROGRESS (Some m) 0 k ch"
    using 2(2) by (auto simp: is_face_def)
  show ?case
  proof (cases "m = n")
    case True
    then have "F # ps = [] @ Face TBLOCK_SUBINPROGRESS TRANS_INPROGRESS (Some n) 0 k ch # ps"
      "live_stack (before n (m # ns)) ps" using F 2(2) by (simp_all add: before_def)
    then show ?thesis by fastforce
  next
    case False
    obtain xs k' ch' base where *: "ps = xs @ Face TBLOCK_SUBINPROGRESS TRANS_INPROGRESS (Some n) 0 k' ch' # base"
      "\<forall>G\<in>set xs. fc_name G \<noteq> Some n \<and> fc_block G = TBLOCK_SUBINPROGRESS" "live_stack (before n ns) base"
      using 2 False by auto
    have "F # ps = (F # xs) @ Face TBLOCK_SUBINPROGRESS TRANS_INPROGRESS (Some n) 0 k' ch' # base"
      "\<forall>G\<in>set (F # xs). fc_name G \<noteq> Some n \<and> fc_block G = TBLOCK_SUBINPROGRESS"
      "live_stack (before n (m # ns)) base"
      using * False F by (simp_all add: before_def)
    then show ?thesis by blast
  qed
qed auto

lemma live_names: "live_stack ns ps \<Longrightarrow> n \<notin> set ns \<Longrightarrow> F \<in> set ps \<Longrightarrow> fc_name F \<noteq> Some n"
  by (induction ns ps rule: live_stack.induct) (auto simp: is_face_def)

lemma find_none: "(\<And>F. F \<in> face ` set ls \<Longrightarrow> fc_name F \<noteq> Some n) \<Longrightarrow> find_savepoint n ls = None"
proof -
  assume *: "\<And>F. F \<in> face ` set ls \<Longrightarrow> fc_name F \<noteq> Some n"
  have all: "takeWhile (\<lambda>s. savepoint_name s \<noteq> Some n) ls = ls"
    by (rule takeWhile_eq_all_conv [THEN iffD2]) (use * in force)
  show ?thesis unfolding find_savepoint_def Let_def all by simp
qed

lemma find_some:
  assumes "map face ls = xs @ F # base" "\<forall>G\<in>set xs. fc_name G \<noteq> Some n" "fc_name F = Some n"
  shows "find_savepoint n ls = Some (length xs)"
proof -
  obtain ls1 l ls2 where ls: "ls = ls1 @ l # ls2" "map face ls1 = xs" "face l = F"
    using assms(1) by (auto simp: map_eq_append_conv)
  have "savepoint_name l' \<noteq> Some n" if "l' \<in> set ls1" for l'
    using that assms(2) ls(2) by auto
  moreover have "savepoint_name l = Some n" using assms(3) ls(3) by auto
  ultimately have "takeWhile (\<lambda>s. savepoint_name s \<noteq> Some n) ls = ls1"
    using ls(1) by simp
  then show ?thesis using ls by (auto simp: find_savepoint_def)
qed

text \<open>The same in a failed block, whose innermost level is dead already.\<close>

definition open_view :: "xact_view \<Rightarrow> string list \<Rightarrow> bool" where
  "open_view v ns \<longleftrightarrow> v = Active ns \<or> v = Failed ns"

lemma view_find:
  assumes "represents v ps" "open_view v ns" "n \<in> set ns"
  obtains xs b s k ch base where "ps = xs @ Face b s (Some n) 0 k ch # base"
    "\<forall>G\<in>set xs. fc_name G \<noteq> Some n \<and> abort_sub (fc_block G) \<noteq> None"
    "v = Active ns \<longrightarrow> b = TBLOCK_SUBINPROGRESS \<and> (\<forall>G\<in>set xs. fc_block G = TBLOCK_SUBINPROGRESS)"
    "b = TBLOCK_SUBINPROGRESS \<or> b = TBLOCK_SUBABORT" "live_stack (before n ns) base"
proof (cases "v = Active ns")
  case True
  then show ?thesis using live_find [of ns ps n] assms that by (force simp: abort_sub_def)
next
  case False
  then have v: "v = Failed ns" using assms(2) by (auto simp: open_view_def)
  then obtain m ms F qs where ns: "ns = m # ms" and ps: "ps = F # qs"
    using assms by (cases ns; cases ps) auto
  obtain k ch where F: "F = Face TBLOCK_SUBABORT TRANS_ABORT (Some m) 0 k ch" and live: "live_stack ms qs"
    using assms(1) v ns ps by (auto simp: is_face_def)
  show ?thesis
  proof (cases "m = n")
    case True
    then show ?thesis
      using that [of "[]" TBLOCK_SUBABORT TRANS_ABORT k ch qs] F live ps ns v by (simp add: before_def)
  next
    case other: False
    obtain xs k' ch' base where *: "qs = xs @ Face TBLOCK_SUBINPROGRESS TRANS_INPROGRESS (Some n) 0 k' ch' # base"
      "\<forall>G\<in>set xs. fc_name G \<noteq> Some n \<and> fc_block G = TBLOCK_SUBINPROGRESS" "live_stack (before n ms) base"
      using live_find [OF live, of n] assms(3) other ns by auto
    show ?thesis
      using that [of "F # xs" TBLOCK_SUBINPROGRESS TRANS_INPROGRESS k' ch' base] * F ps ns other v
      by (auto simp: before_def abort_sub_def)
  qed
qed

lemma view_names:
  assumes "represents v ps" "open_view v ns" "n \<notin> set ns" "F \<in> set ps"
  shows "fc_name F \<noteq> Some n"
proof (cases "v = Active ns")
  case True
  then show ?thesis using assms live_names by simp
next
  case False
  then have "v = Failed ns" using assms(2) by (auto simp: open_view_def)
  then show ?thesis
    using assms live_names [of "tl ns" "tl ps" n F]
    by (cases ns; cases ps; cases "tl ps") (auto simp: is_face_def)
qed

lemma view_head:
  assumes "represents v ps" "open_view v ns"
  obtains b s nm k ch qs where "ps = Face b s nm 0 k ch # qs"
    "b = (if v = Active ns then if ns = [] then TBLOCK_INPROGRESS else TBLOCK_SUBINPROGRESS
          else if ns = [] then TBLOCK_ABORT else TBLOCK_SUBABORT)"
  using assms
  by (cases ns; cases ps; cases "tl ps") (auto simp: open_view_def is_face_def)

lemma view_recovers: "represents v ps \<Longrightarrow> open_view v ns \<Longrightarrow> recovers_to (Failed ns) ps"
  by (cases ns; cases ps; cases "tl ps") (auto simp: open_view_def live_recovers is_face_def top_recovers_def)

end
