(* ===== verification/Xact_Commands_Complete.thy ===== *)
theory Xact_Commands_Complete
  imports Xact_Views_Commands
begin

text \<open>Each transaction command, from each view, against the specification.\<close>

lemmas outside_faces = represents.simps(2,3)

definition outside :: "xact_view \<Rightarrow> bool" where
  "outside v \<longleftrightarrow> v = Single \<or> v = Implicit"

lemma outside_face:
  assumes "at_view v d st" "outside v"
  obtains b ch where "has [Face b TRANS_INPROGRESS None 0 1 ch] d st"
    "b = (if v = Single then TBLOCK_STARTED else TBLOCK_IMPLICIT_INPROGRESS)"
  using assms by (cases "shape st"; cases "tl (shape st)") (auto simp: at_view_def has_def outside_def)

lemma outside_recovers: "has [Face b s None 0 k ch] d st \<Longrightarrow> v' = v \<Longrightarrow>
    outside v \<Longrightarrow> b = (if v' = Single then TBLOCK_STARTED else TBLOCK_IMPLICIT_INPROGRESS) \<Longrightarrow>
    recovers_to Idle (shape st)"
  by (auto simp: has_def outside_def top_recovers_def)

lemma at_view_has: "at_view v d st \<Longrightarrow> has (shape st) d st \<and> represents v (shape st)"
  by (simp add: at_view_def has_def)

lemma view_cases:
  assumes "v \<noteq> Idle"
  obtains "outside v" | ns where "v = Active ns" | ns where "v = Failed ns"
  using assms by (cases v) (auto simp: outside_def)

section \<open>BEGIN\<close>

definition begin_options :: "xact_characteristics option \<Rightarrow> xact_op" where
  "begin_options options =
     run_steps (case options of
               None \<Rightarrow> []
             | Some chars \<Rightarrow> [possible_fault, (\<lambda>st. Inr (st\<lparr> characteristics := chars \<rparr>))])"

lemma quiet_begin_options: "quiet (begin_options options)"
  unfolding begin_options_def
  by (rule quiet_run_steps)
    (auto simp: quiet_possible_fault split: option.splits, simp add: quiet_def same_def)

lemma begin_run: "run_command (Begin_Command options) st =
    run_steps [BeginTransactionBlock, begin_options options] st"
  by (auto simp: run_command_def begin_options_def split: sum.splits)

lemma y_begin:
  assumes "at_view v d st" "outside v \<or> v = Active ns"
  shows "yields (completes (Begin_Command options) v d) (stops (Begin_Command options) v)
           (run_command (Begin_Command options)) st"
proof -
  let ?c = "Begin_Command options"
  have goal: "yields (completes ?c v d) (stops ?c v) (run_steps [BeginTransactionBlock, begin_options options]) st"
    if mid: "yields (has ps d) (stops ?c v) BeginTransactionBlock st"
      and rec: "recovers_to (after_error ?c v) ps"
      and fin: "\<And>st'. has ps d st' \<Longrightarrow> completes ?c v d st'" for ps
    by (rule yields_seq [OF mid], simp only: yields_one,
        rule yields_weaken [OF quiet_yields [OF quiet_begin_options]], assumption,
        rule rec, erule fin, erule left_stops)
  have "yields (completes ?c v d) (stops ?c v) (run_steps [BeginTransactionBlock, begin_options options]) st"
  proof (cases "outside v")
    case True
    obtain b ch where 0: "has [Face b TRANS_INPROGRESS None 0 1 ch] d st"
      "b = (if v = Single then TBLOCK_STARTED else TBLOCK_IMPLICIT_INPROGRESS)"
      using outside_face [OF assms(1) True] by blast
    have v: "after_ok ?c v = Some (Active [])" "after_error ?c v = Idle"
      using True by (auto simp: outside_def after_ok_def after_error_def)
    show ?thesis
    proof (rule goal [where ps = "[Face TBLOCK_BEGIN TRANS_INPROGRESS None 0 1 ch]"])
      show "yields (has [Face TBLOCK_BEGIN TRANS_INPROGRESS None 0 1 ch] d) (stops ?c v) BeginTransactionBlock st"
        using cur_block_has [OF 0(1)] 0(2) y_set_block [OF 0(1), where b = TBLOCK_BEGIN and R = "stops ?c v"]
        by (auto simp: yields_def BeginTransactionBlock_def split: if_splits)
    qed (auto simp: v completes_def top_recovers_def intro: ready_begin)
  next
    case False
    then have v: "v = Active ns" using assms(2) by simp
    have live: "live_stack ns (shape st)" using assms(1) by (simp add: at_view_def v)
    obtain b s nm k ch qs where ps: "shape st = Face b s nm 0 k ch # qs"
      "b = TBLOCK_INPROGRESS \<or> b = TBLOCK_SUBINPROGRESS"
      by (rule view_head [of v "shape st" ns]) (use live v in \<open>auto simp: open_view_def split: if_splits\<close>)
    show ?thesis
    proof (rule goal [where ps = "shape st"])
      show "yields (has (shape st) d) (stops ?c v) BeginTransactionBlock st"
        using ps cur_block [OF ps(1)] assms(1)
        by (auto simp: yields_def BeginTransactionBlock_def has_def at_view_def)
      show "recovers_to (after_error ?c v) (shape st)"
        using live_recovers [OF live] by (simp add: v after_error_def)
      show "completes ?c v d st'" if "has (shape st) d st'" for st'
        using ready_stay [OF that live] by (simp add: v completes_def after_ok_def after_error_def)
    qed
  qed
  then show ?thesis by (simp only: yields_def begin_run)
qed

section \<open>COMMIT, PREPARE and ROLLBACK\<close>

lemma yields_comp: "yields P (\<lambda>e s. False) f st \<Longrightarrow> (\<And>st'. P st' \<Longrightarrow> \<exists>st''. g st' = Inr st'' \<and> Q st'') \<Longrightarrow>
    \<exists>st''. run_steps [f, g] st = Inr st'' \<and> Q st''"
  by (fastforce simp: yields_def split: sum.splits)

lemma mark_and_chain:
  assumes "yields (has (xs @ [Face b s nm sl k c0]) d) (\<lambda>e s. False) f st"
  shows "\<exists>st'. run_steps [f, set_chain ch] st = Inr st' \<and> has (xs @ [Face b s nm sl k ch]) d st'"
  by (rule yields_comp [OF assms], erule yields_sure [OF y_set_chain])

lemma mark_top:
  assumes "has [Face b s nm sl k c0] d st"
  shows "\<exists>st'. run_steps [set_block b', set_chain ch] st = Inr st' \<and> has [Face b' s nm sl k ch] d st'"
  using mark_and_chain [of "[]" b' s nm sl k c0 d "set_block b'" st ch] y_set_block [OF assms] by simp

lemma commit_live:
  assumes "has ps d st" "live_stack ns ps"
  shows "\<exists>st' xs s k. EndTransactionBlock chain st = Inr (True, st') \<and>
           has (xs @ [Face TBLOCK_END s None 0 k chain]) d st' \<and> (\<forall>F\<in>set xs. fc_block F = TBLOCK_SUBCOMMIT)"
proof -
  obtain xs k ch where ps: "ps = xs @ [Face TBLOCK_INPROGRESS TRANS_INPROGRESS None 0 k ch]"
    and xs: "\<forall>F\<in>set xs. fc_block F = TBLOCK_SUBINPROGRESS"
    using live_split [OF assms(2)] by blast
  show ?thesis
  proof (cases xs)
    case Nil
    then have top: "has [Face TBLOCK_INPROGRESS TRANS_INPROGRESS None 0 k ch] d st" using assms(1) ps by simp
    obtain st' where "run_steps [set_block TBLOCK_END, set_chain chain] st = Inr st'"
      "has [Face TBLOCK_END TRANS_INPROGRESS None 0 k chain] d st'"
      using mark_top [OF top, of TBLOCK_END chain] by (auto simp del: run_steps.simps)
    moreover from this(1) have "EndTransactionBlock chain st = Inr (True, st')"
      using cur_block_has [OF top] by (simp add: EndTransactionBlock_def Let_def del: run_steps.simps)
    ultimately show ?thesis
      by (intro exI [of _ st'] exI [of _ "[]"] exI [of _ TRANS_INPROGRESS] exI [of _ k]) simp
  next
    case (Cons F ys)
    then have b: "blockState (cur_level st) = TBLOCK_SUBINPROGRESS"
      using assms(1) ps xs cur_block by (simp add: has_def)
    let ?xs = "map (\<lambda>F. with_block (the (commit_sub (fc_block F))) F) xs"
    have "yields (has (?xs @ [with_block TBLOCK_END (Face TBLOCK_INPROGRESS TRANS_INPROGRESS None 0 k ch)]) d)
        (\<lambda>e s. False) (mark_all commit_sub commit_top) st"
      by (rule y_mark_all) (use assms(1) ps xs in \<open>auto simp: commit_sub_def commit_top_def\<close>)
    then have "yields (has (?xs @ [Face TBLOCK_END TRANS_INPROGRESS None 0 k ch]) d)
        (\<lambda>e s. False) (mark_all commit_sub commit_top) st" by simp
    from mark_and_chain [OF this, of chain] obtain st'
      where "run_steps [mark_all commit_sub commit_top, set_chain chain] st = Inr st'"
        "has (?xs @ [Face TBLOCK_END TRANS_INPROGRESS None 0 k chain]) d st'" by blast
    moreover from this(1) have "EndTransactionBlock chain st = Inr (True, st')"
      using b by (simp add: EndTransactionBlock_def Let_def del: run_steps.simps)
    moreover have "\<forall>F\<in>set ?xs. fc_block F = TBLOCK_SUBCOMMIT" using xs by (simp add: commit_sub_def)
    ultimately show ?thesis
      by (intro exI [of _ st'] exI [of _ ?xs] exI [of _ TRANS_INPROGRESS] exI [of _ k]) blast
  qed
qed

text \<open>Levels marked for ROLLBACK; in a failed block COMMIT marks them the same way.\<close>

definition rolled_back :: "bool \<Rightarrow> bool \<Rightarrow> xact_session \<Rightarrow> bool" where
  "rolled_back chain d st \<longleftrightarrow>
     (\<exists>xs b s k. has (xs @ [Face b s None 0 k chain]) d st \<and> (\<forall>F\<in>set xs. rolling (fc_block F)) \<and>
        (b = TBLOCK_ABORT_PENDING \<or> b = TBLOCK_ABORT_END \<and> s = TRANS_ABORT))"

lemma rolled_back_ready: "rolled_back chain d st \<Longrightarrow> ready (after_end chain) Idle d st"
  by (auto simp: rolled_back_def intro: ready_rollback)

lemma open_split:
  assumes "represents v ps" "open_view v ns"
  obtains xs b s k ch where "ps = xs @ [Face b s None 0 k ch]"
    "\<forall>F\<in>set xs. abort_sub (fc_block F) \<noteq> None"
    "b = TBLOCK_INPROGRESS \<or> b = TBLOCK_ABORT \<and> s = TRANS_ABORT"
    "fc_block (hd ps) = (if v = Active ns then if ns = [] then TBLOCK_INPROGRESS else TBLOCK_SUBINPROGRESS
       else if ns = [] then TBLOCK_ABORT else TBLOCK_SUBABORT)"
    "ns = [] \<longleftrightarrow> xs = []"
proof (cases "v = Active ns \<or> ns = []")
  case True
  show ?thesis
  proof (cases "v = Active ns")
    case True
    then have live: "live_stack ns ps" using assms(1) by simp
    obtain xs k ch where "ps = xs @ [Face TBLOCK_INPROGRESS TRANS_INPROGRESS None 0 k ch]"
      "\<forall>F\<in>set xs. fc_block F = TBLOCK_SUBINPROGRESS"
      using live_split [OF live] by blast
    then show ?thesis
      using that [of xs TBLOCK_INPROGRESS TRANS_INPROGRESS k ch] live True
      by (cases ns; cases xs; cases "tl xs") (auto simp: abort_sub_def)
  next
    case False
    then have "v = Failed []" "ns = []" using assms(2) True by (auto simp: open_view_def)
    then show ?thesis
      using that [of "[]"] assms(1) by (cases ps; cases "tl ps") (auto simp: is_face_def)
  qed
next
  case False
  then obtain m ms F qs where v: "v = Failed (m # ms)" "ns = m # ms" and ps: "ps = F # qs"
    using assms by (cases ns; cases ps) (auto simp: open_view_def)
  have F: "fc_block F = TBLOCK_SUBABORT" and live: "live_stack ms qs"
    using assms(1) v ps by (auto simp: is_face_def)
  obtain xs k ch where "qs = xs @ [Face TBLOCK_INPROGRESS TRANS_INPROGRESS None 0 k ch]"
    "\<forall>F\<in>set xs. fc_block F = TBLOCK_SUBINPROGRESS"
    using live_split [OF live] by blast
  then show ?thesis
    using that [of "F # xs" TBLOCK_INPROGRESS TRANS_INPROGRESS k ch] F ps v by (simp add: abort_sub_def)
qed

lemma mark_open:
  assumes "has ps d st" "represents v ps" "open_view v ns" "ns \<noteq> []"
  shows "\<exists>st'. run_steps [mark_all abort_sub abort_top, set_chain chain] st = Inr st' \<and> rolled_back chain d st'"
proof -
  obtain xs b s k ch where ps: "ps = xs @ [Face b s None 0 k ch]"
    and xs: "\<forall>F\<in>set xs. abort_sub (fc_block F) \<noteq> None"
    and b: "b = TBLOCK_INPROGRESS \<or> b = TBLOCK_ABORT \<and> s = TRANS_ABORT"
    by (rule open_split [OF assms(2,3)])
  let ?xs = "map (\<lambda>F. with_block (the (abort_sub (fc_block F))) F) xs"
  let ?b = "if b = TBLOCK_INPROGRESS then TBLOCK_ABORT_PENDING else TBLOCK_ABORT_END"
  have "yields (has (?xs @ [with_block ?b (Face b s None 0 k ch)]) d) (\<lambda>e s. False)
      (mark_all abort_sub abort_top) st"
    by (rule y_mark_all) (use assms(1) ps xs b in \<open>auto simp: abort_top_def\<close>)
  then have "yields (has (?xs @ [Face ?b s None 0 k ch]) d) (\<lambda>e s. False) (mark_all abort_sub abort_top) st"
    by simp
  from mark_and_chain [OF this] obtain st'
    where st': "run_steps [mark_all abort_sub abort_top, set_chain chain] st = Inr st'"
      "has (?xs @ [Face ?b s None 0 k chain]) d st'" by blast
  moreover have "\<forall>F\<in>set ?xs. rolling (fc_block F)"
    using xs by (auto simp: abort_sub_def rolling_def split: if_splits)
  moreover have "?b = TBLOCK_ABORT_PENDING \<or> ?b = TBLOCK_ABORT_END \<and> s = TRANS_ABORT" using b by auto
  ultimately show ?thesis unfolding rolled_back_def by blast
qed

lemma set_open:
  assumes "has [Face b s None 0 k ch] d st" "b' = TBLOCK_ABORT_PENDING \<or> b' = TBLOCK_ABORT_END \<and> s = TRANS_ABORT"
  shows "\<exists>st'. run_steps [set_block b', set_chain chain] st = Inr st' \<and> rolled_back chain d st'"
proof -
  obtain st' where "run_steps [set_block b', set_chain chain] st = Inr st'"
    "has ([] @ [Face b' s None 0 k chain]) d st'"
    using mark_top [OF assms(1), of b' chain] by (auto simp del: run_steps.simps)
  moreover from this(2) have "rolled_back chain d st'"
    unfolding rolled_back_def using assms(2)
    by (intro exI [of _ "[]"] exI [of _ b'] exI [of _ s] exI [of _ k]) simp
  ultimately show ?thesis by blast
qed

lemma rollback_open:
  assumes "at_view v d st" "open_view v ns"
  shows "\<exists>st'. UserAbortTransactionBlock chain st = Inr st' \<and> rolled_back chain d st'"
    "v = Failed ns \<Longrightarrow> \<exists>st'. EndTransactionBlock chain st = Inr (False, st') \<and> rolled_back chain d st'"
proof -
  have 0: "has (shape st) d st" "represents v (shape st)" using at_view_has [OF assms(1)] by auto
  obtain xs b s k ch where ps: "shape st = xs @ [Face b s None 0 k ch]"
    and xs: "\<forall>F\<in>set xs. abort_sub (fc_block F) \<noteq> None"
    and b: "b = TBLOCK_INPROGRESS \<or> b = TBLOCK_ABORT \<and> s = TRANS_ABORT"
    and cur: "fc_block (hd (shape st)) = (if v = Active ns then if ns = [] then TBLOCK_INPROGRESS else TBLOCK_SUBINPROGRESS
       else if ns = [] then TBLOCK_ABORT else TBLOCK_SUBABORT)"
    and ns: "ns = [] \<longleftrightarrow> xs = []"
    by (rule open_split [OF 0(2) assms(2)])
  have cur': "blockState (cur_level st) = fc_block (hd (shape st))"
    using cur_block [of st "hd (shape st)" "tl (shape st)"] ps by (cases "shape st") simp_all
  have both: "(\<exists>st'. UserAbortTransactionBlock chain st = Inr st' \<and> rolled_back chain d st') \<and>
      (v = Failed ns \<longrightarrow> (\<exists>st'. EndTransactionBlock chain st = Inr (False, st') \<and> rolled_back chain d st'))"
  proof (cases "ns = []")
    case True
    then have top: "has [Face b s None 0 k ch] d st" using ps ns 0 by simp
    have b': "b = (if v = Active ns then TBLOCK_INPROGRESS else TBLOCK_ABORT)"
      using cur True ns ps by simp
    show ?thesis
      using set_open [OF top, of TBLOCK_ABORT_PENDING chain] set_open [OF top, of TBLOCK_ABORT_END chain]
        b b' cur_block_has [OF top]
      by (auto simp: UserAbortTransactionBlock_def EndTransactionBlock_def Let_def simp del: run_steps.simps
          split: if_splits)
  next
    case False
    show ?thesis
      using mark_open [OF 0 assms(2) False, of chain] cur cur' False assms(2)
      by (auto simp: UserAbortTransactionBlock_def EndTransactionBlock_def Let_def simp del: run_steps.simps
          split: if_splits)
  qed
  show "\<exists>st'. UserAbortTransactionBlock chain st = Inr st' \<and> rolled_back chain d st'"
    "v = Failed ns \<Longrightarrow> \<exists>st'. EndTransactionBlock chain st = Inr (False, st') \<and> rolled_back chain d st'"
    using both by auto
qed

end
