(* ===== verification/Xact_Queries.thy ===== *)
theory Xact_Queries
  imports Xact_Commands_Complete
begin

text \<open>
  The remaining transaction commands against the specification, and the loop over the statements of
  a query.
\<close>

lemma commit_run: "run_command (Commit_Command chain) st = forget_result (EndTransactionBlock chain st)"
  "run_command Prepare_Command st = forget_result (PrepareTransactionBlock st)"
  "run_command (Rollback_Command chain) = UserAbortTransactionBlock chain"
  "run_command (Savepoint_Command n) = run_steps [RequireTransactionBlock True, DefineSavepoint (Some n)]"
  "run_command (Release_Command n) = run_steps [RequireTransactionBlock True, ReleaseSavepoint n]"
  "run_command (Rollback_To_Command n) = run_steps [RequireTransactionBlock True, RollbackToSavepoint n]"
  "run_command (Other_Command actions) = run_steps (map run_action actions)"
  by (simp_all add: run_command_def fun_eq_iff)

lemma inside_or_open:
  assumes "v \<noteq> Idle"
  obtains "outside v" | ns where "open_view v ns"
  using assms by (cases v) (auto simp: outside_def open_view_def)

lemma open_ok [simp]:
  "open_view v ns \<Longrightarrow> after_ok (Commit_Command chain) v = Some (after_end chain)"
  "open_view v ns \<Longrightarrow> after_ok (Rollback_Command chain) v = Some (after_end chain)"
  "open_view v ns \<Longrightarrow> after_ok (Rollback_To_Command n) v =
     (if n \<in> set ns then Some (Active (n # before n ns)) else None)"
  "open_view v ns \<Longrightarrow> after_error (Commit_Command chain) v = Idle"
  "open_view v ns \<Longrightarrow> after_error (Rollback_Command chain) v = Idle"
  "open_view v ns \<Longrightarrow> after_error Prepare_Command v = Idle"
  "open_view v ns \<Longrightarrow> after_error (Rollback_To_Command n) v = Failed (if n \<in> set ns then before n ns else ns)"
  by (auto simp: open_view_def after_ok_def after_error_def)

lemma outside_ok [simp]:
  "outside v \<Longrightarrow> after_error c v = Idle"
  "outside v \<Longrightarrow> after_ok (Commit_Command chain) v = (if chain then None else Some Idle)"
  "outside v \<Longrightarrow> after_ok (Rollback_Command chain) v = (if chain then None else Some Idle)"
  "outside v \<Longrightarrow> after_ok (Savepoint_Command n) v = None"
  "outside v \<Longrightarrow> after_ok (Release_Command n) v = None"
  "outside v \<Longrightarrow> after_ok (Rollback_To_Command n) v = None"
  by (auto simp: outside_def after_ok_def after_error_def)

lemma after_ok_Prepare [simp]: "after_ok Prepare_Command v = Some Idle"
  by (simp add: after_ok_def)

lemma refused_simps [simp]: "refused Not_In_Block" "refused No_Such_Savepoint" "refused Transaction_Aborted"
  by (simp_all add: refused_def)

section \<open>COMMIT, PREPARE and ROLLBACK\<close>

lemma refuse_outside:
  assumes "at_view v d st" "outside v" "f st = Inl (Not_In_Block, st)" "after_ok c v = None"
  shows "yields (completes c v d) (stops c v) f st"
proof (rule refusedI [where e = Not_In_Block])
  obtain b ch where "has [Face b TRANS_INPROGRESS None 0 1 ch] d st"
    "b = (if v = Single then TBLOCK_STARTED else TBLOCK_IMPLICIT_INPROGRESS)"
    by (rule outside_face [OF assms(1,2)])
  then show "recovers_to (after_error c v) (shape st)"
    using outside_recovers [OF _ refl assms(2)] assms(2) by simp
qed (use assms in \<open>simp_all add: at_view_def\<close>)

lemma finish_outside:
  assumes "at_view v d st" "outside v" and after: "after_ok c v = Some Idle"
    and f: "f st = (if v = Single \<and> b' = TBLOCK_STARTED then run_steps [set_chain False] st
                    else run_steps [set_block b', set_chain False] st)"
    and b': "b' = TBLOCK_END \<or> b' = TBLOCK_ABORT_PENDING \<or> b' = TBLOCK_STARTED \<and> v = Single"
  shows "\<exists>st'. f st = Inr st' \<and> completes c v d st'"
proof -
  obtain b ch where 0: "has [Face b TRANS_INPROGRESS None 0 1 ch] d st"
    "b = (if v = Single then TBLOCK_STARTED else TBLOCK_IMPLICIT_INPROGRESS)"
    by (rule outside_face [OF assms(1,2)])
  obtain st1 where st1: "run_steps [set_block b', set_chain False] st = Inr st1"
      "has [Face b' TRANS_INPROGRESS None 0 1 False] d st1"
    using mark_top [OF 0(1), of b' False] by (auto simp del: run_steps.simps)
  have "yields (has ([] @ [Face b TRANS_INPROGRESS None 0 1 False]) d) (\<lambda>e s. False) (set_chain False) st"
    using y_set_chain [of "[]" b] 0(1) by simp
  then obtain st2 where st2: "run_steps [set_chain False] st = Inr st2"
      "has [Face b TRANS_INPROGRESS None 0 1 False] d st2"
    by (auto simp: yields_def split: sum.splits)
  have fin: "ready Idle Idle d st1" if "b' = TBLOCK_END \<or> b' = TBLOCK_ABORT_PENDING"
    using that ready_commit [of "[]" TBLOCK_END TRANS_INPROGRESS 1 False d st1 Idle]
      ready_rollback [of "[]" TBLOCK_ABORT_PENDING TRANS_INPROGRESS 1 False d st1] st1(2) by auto
  have "ready Idle Idle d st2" if "v = Single"
    using that 0(2) st2(2) ready_single by simp
  then show ?thesis
    using f st1(1) st2(1) fin after b' assms(2) by (auto simp: completes_def simp del: run_steps.simps)
qed

lemma completes_finish:
  "open_view v ns \<or> outside v \<Longrightarrow> after_ok c v = Some w \<Longrightarrow> after_error c v = Idle \<Longrightarrow> ready w Idle d st' \<Longrightarrow>
    completes c v d st'"
  by (auto simp: completes_def)

lemma forget_result_simps [simp]:
  "forget_result (Inl e) = Inl e" "forget_result (Inr (r, st)) = Inr st"
  by (simp_all add: forget_result_def)

lemma forget_finish:
  "forget_result (case run_steps fs st of Inl e \<Rightarrow> Inl e | Inr st' \<Rightarrow> Inr (r, st')) = run_steps fs st"
  by (auto simp del: run_steps.simps split: sum.splits)

lemma outside_block: "at_view v d st \<Longrightarrow> outside v \<Longrightarrow>
    blockState (cur_level st) = (if v = Single then TBLOCK_STARTED else TBLOCK_IMPLICIT_INPROGRESS)"
  using outside_face cur_block_has by metis

lemma end_outside:
  assumes "at_view v d st" "outside v"
  shows "forget_result (EndTransactionBlock False st) =
      (if v = Single then run_steps [set_chain False] st else run_steps [set_block TBLOCK_END, set_chain False] st)"
    "EndTransactionBlock True st = Inl (Not_In_Block, st)"
    "UserAbortTransactionBlock False st = run_steps [set_block TBLOCK_ABORT_PENDING, set_chain False] st"
    "UserAbortTransactionBlock True st = Inl (Not_In_Block, st)"
  using outside_block [OF assms] assms(2)
  by (auto simp: EndTransactionBlock_def UserAbortTransactionBlock_def Let_def outside_def forget_finish
      simp del: run_steps.simps)

lemma y_commit:
  assumes "at_view v d st" "v \<noteq> Idle"
  shows "yields (completes (Commit_Command chain) v d) (stops (Commit_Command chain) v)
           (run_command (Commit_Command chain)) st"
  using assms(2)
proof (cases rule: inside_or_open)
  case 1
  show ?thesis
  proof (cases chain)
    case True
    then show ?thesis
      by (intro refuse_outside [OF assms(1) 1]) (simp_all add: commit_run end_outside [OF assms(1) 1] 1)
  next
    case False
    have "\<exists>st'. run_command (Commit_Command chain) st = Inr st' \<and> completes (Commit_Command chain) v d st'"
      by (rule finish_outside [OF assms(1) 1, where b' = "if v = Single then TBLOCK_STARTED else TBLOCK_END"])
        (simp_all add: commit_run end_outside [OF assms(1) 1] 1 False del: run_steps.simps)
    then show ?thesis by (auto intro: yields_returns)
  qed
next
  case (2 ns)
  have ready: "completes (Commit_Command chain) v d st'" if "ready (after_end chain) Idle d st'" for st'
    using 2 that by (intro completes_finish [of v ns]) simp_all
  show ?thesis
  proof (cases "v = Active ns")
    case True
    have live: "live_stack ns (shape st)" "has (shape st) d st"
      using assms(1) True by (simp_all add: at_view_def has_def)
    obtain st' xs s k where "EndTransactionBlock chain st = Inr (True, st')"
      "has (xs @ [Face TBLOCK_END s None 0 k chain]) d st'" "\<forall>F\<in>set xs. fc_block F = TBLOCK_SUBCOMMIT"
      using commit_live [OF live(2,1)] by blast
    then show ?thesis
      by (intro yields_returns [of _ _ st']) (auto simp: commit_run intro: ready ready_commit)
  next
    case False
    then have "v = Failed ns" using 2 by (auto simp: open_view_def)
    then obtain st' where "EndTransactionBlock chain st = Inr (False, st')" "rolled_back chain d st'"
      using rollback_open(2) [OF assms(1) 2] by blast
    then show ?thesis
      by (intro yields_returns [of _ _ st']) (auto simp: commit_run intro: ready rolled_back_ready)
  qed
qed

lemma y_rollback:
  assumes "at_view v d st" "v \<noteq> Idle"
  shows "yields (completes (Rollback_Command chain) v d) (stops (Rollback_Command chain) v)
           (run_command (Rollback_Command chain)) st"
  using assms(2)
proof (cases rule: inside_or_open)
  case 1
  show ?thesis
  proof (cases chain)
    case True
    then show ?thesis
      by (intro refuse_outside [OF assms(1) 1]) (simp_all add: commit_run end_outside [OF assms(1) 1] 1)
  next
    case False
    have "\<exists>st'. run_command (Rollback_Command chain) st = Inr st' \<and> completes (Rollback_Command chain) v d st'"
      by (rule finish_outside [OF assms(1) 1, where b' = TBLOCK_ABORT_PENDING])
        (simp_all add: commit_run end_outside [OF assms(1) 1] 1 False del: run_steps.simps)
    then show ?thesis by (auto intro: yields_returns)
  qed
next
  case (2 ns)
  obtain st' where "UserAbortTransactionBlock chain st = Inr st'" "rolled_back chain d st'"
    using rollback_open(1) [OF assms(1) 2] by blast
  moreover from this(2) have "completes (Rollback_Command chain) v d st'"
    using 2 rolled_back_ready by (intro completes_finish [of v ns]) simp_all
  ultimately show ?thesis by (auto simp: commit_run intro: yields_returns)
qed

lemma last_face: "shape st = xs @ [F] \<Longrightarrow> blockState (last (xact_levels st)) = fc_block F"
  by (auto simp: shape_def map_eq_append_conv)

lemma y_set_last_block:
  assumes "has (xs @ [F]) d st"
  shows "has (xs @ [with_block b F]) d
    (st\<lparr> xact_levels := (xact_levels st)[length (xact_levels st) - 1 :=
                 (last (xact_levels st))\<lparr> blockState := b \<rparr>] \<rparr>)"
proof -
  obtain ls l where "xact_levels st = ls @ [l]" "map face ls = xs" "face l = F"
    using assms by (auto simp: has_def shape_def map_eq_append_conv)
  then show ?thesis using assms by (auto simp: has_def sequential_def)
qed

lemma y_prepare:
  assumes "at_view v d st" "v \<noteq> Idle"
  shows "yields (completes Prepare_Command v d) (stops Prepare_Command v) (run_command Prepare_Command) st"
proof -
  have ready: "completes Prepare_Command v d st'" if "ready Idle Idle d st'" "after_error Prepare_Command v = Idle" for st'
    using that by (simp add: completes_def)
  have prep: "yields (completes Prepare_Command v d) (stops Prepare_Command v) (run_command Prepare_Command) st"
    if E: "EndTransactionBlock False st = Inr (True, st')" and Q: "after_error Prepare_Command v = Idle"
      and st': "has (xs @ [Face TBLOCK_END s None 0 k False]) d st'" "\<forall>F\<in>set xs. fc_block F = TBLOCK_SUBCOMMIT"
    for st' xs s k
  proof -
    let ?st = "st'\<lparr> xact_levels := (xact_levels st')[length (xact_levels st') - 1 :=
                 (last (xact_levels st'))\<lparr> blockState := TBLOCK_PREPARE \<rparr>] \<rparr>"
    have "has (xs @ [Face TBLOCK_PREPARE s None 0 k False]) d ?st"
      using y_set_last_block [OF st'(1), of TBLOCK_PREPARE] by simp
    then have "ready Idle Idle d ?st" using st'(2) by (rule ready_commit) simp
    moreover have "blockState (last (xact_levels st')) = TBLOCK_END"
      using st'(1) last_face [of st' xs] by (simp add: has_def)
    ultimately show ?thesis
      using E Q ready by (intro yields_returns [of _ _ ?st]) (simp_all add: commit_run PrepareTransactionBlock_def)
  qed
  show ?thesis
    using assms(2)
  proof (cases rule: inside_or_open)
    case 1
    obtain b ch where 0: "has [Face b TRANS_INPROGRESS None 0 1 ch] d st"
      "b = (if v = Single then TBLOCK_STARTED else TBLOCK_IMPLICIT_INPROGRESS)"
      by (rule outside_face [OF assms(1) 1])
    show ?thesis
    proof (cases "v = Single")
      case True
      have "yields (has ([] @ [Face b TRANS_INPROGRESS None 0 1 False]) d) (\<lambda>e s. False) (set_chain False) st"
        using y_set_chain [of "[]" b] 0(1) by simp
      then obtain st' where st': "set_chain False st = Inr st'" "has [Face b TRANS_INPROGRESS None 0 1 False] d st'"
        by (auto simp: yields_def split: sum.splits)
      have "EndTransactionBlock False st = Inr (True, st')"
        using cur_block_has [OF 0(1)] 0(2) True st'(1) by (simp add: EndTransactionBlock_def Let_def)
      moreover have "blockState (last (xact_levels st')) = TBLOCK_STARTED"
        using st'(2) last_face [of st' "[]"] 0(2) True by (simp add: has_def)
      ultimately have "run_command Prepare_Command st = Inr st'"
        by (simp add: commit_run PrepareTransactionBlock_def)
      moreover have "ready Idle Idle d st'" using st'(2) 0(2) True ready_single by simp
      ultimately show ?thesis using ready 1 by (auto intro: yields_returns)
    next
      case False
      obtain st' where st': "run_steps [set_block TBLOCK_END, set_chain False] st = Inr st'"
        "has [Face TBLOCK_END TRANS_INPROGRESS None 0 1 False] d st'"
        using mark_top [OF 0(1), of TBLOCK_END False] by (auto simp del: run_steps.simps)
      have "EndTransactionBlock False st = Inr (True, st')"
        using cur_block_has [OF 0(1)] 0(2) False st'(1)
        by (simp add: EndTransactionBlock_def Let_def del: run_steps.simps)
      then show ?thesis using prep [of st' "[]"] st'(2) 1 by simp
    qed
  next
    case (2 ns)
    show ?thesis
    proof (cases "v = Active ns")
      case True
      have live: "live_stack ns (shape st)" "has (shape st) d st"
        using assms(1) True by (simp_all add: at_view_def has_def)
      obtain st' xs s k where "EndTransactionBlock False st = Inr (True, st')"
        "has (xs @ [Face TBLOCK_END s None 0 k False]) d st'" "\<forall>F\<in>set xs. fc_block F = TBLOCK_SUBCOMMIT"
        using commit_live [OF live(2,1)] by blast
      then show ?thesis using prep open_ok(6) [OF 2] by blast
    next
      case False
      then have "v = Failed ns" using 2 by (auto simp: open_view_def)
      then obtain st' where "EndTransactionBlock False st = Inr (False, st')" "rolled_back False d st'"
        using rollback_open(2) [OF assms(1) 2] by blast
      then show ?thesis
        using ready open_ok(6) [OF 2] rolled_back_ready [of False d st']
        by (intro yields_returns [of _ _ st']) (simp_all add: commit_run PrepareTransactionBlock_def)
    qed
  qed
qed

end
