(* ===== verification/Xact_Savepoints.thy ===== *)
theory Xact_Savepoints
  imports Xact_Queries
begin

text \<open>SAVEPOINT, RELEASE and ROLLBACK TO against the specification.\<close>

section \<open>Outside a block\<close>

lemma y_savepoint_outside:
  assumes "at_view v d st" "outside v" "after_ok c v = None"
    and f: "\<And>st. blockState (cur_level st) = TBLOCK_IMPLICIT_INPROGRESS \<Longrightarrow>
      f st = (if IsInParallelMode st then Inl (In_Parallel_Operation, st) else Inl (Not_In_Block, st))"
  shows "yields (completes c v d) (stops c v) (run_steps [RequireTransactionBlock True, f]) st"
proof -
  obtain b ch where 0: "has [Face b TRANS_INPROGRESS None 0 1 ch] d st"
    "b = (if v = Single then TBLOCK_STARTED else TBLOCK_IMPLICIT_INPROGRESS)"
    by (rule outside_face [OF assms(1,2)])
  have rec: "recovers_to (after_error c v) (shape st)"
    using outside_recovers [OF 0(1) refl assms(2) 0(2)] assms(2) by simp
  have nest: "nestingLevel (cur_level st) = 1" using 0(1) by (auto simp: has_def elim: shape_ConsE)
  show ?thesis
  proof (cases "v = Single")
    case True
    then have "RequireTransactionBlock True st = Inl (Not_In_Block, st)"
      using cur_block_has [OF 0(1)] 0(2) nest
      by (simp add: RequireTransactionBlock_def IsTransactionBlock_def IsSubTransaction_def)
    then show ?thesis using rec assms(1,3) by (simp add: yields_def stops_def at_view_def)
  next
    case False
    then have "RequireTransactionBlock True st = Inr st"
      using cur_block_has [OF 0(1)] 0(2) by (simp add: RequireTransactionBlock_def IsTransactionBlock_def)
    then show ?thesis
      using rec assms(1,3) f [of st] cur_block_has [OF 0(1)] 0(2) False
      by (simp add: yields_def stops_def at_view_def)
  qed
qed

lemma require_open:
  assumes "at_view v d st" "open_view v ns"
  shows "RequireTransactionBlock True st = Inr st"
proof -
  have rep: "represents v (shape st)" using assms(1) by (simp add: at_view_def)
  obtain b s nm k ch qs where "shape st = Face b s nm 0 k ch # qs"
    "b = (if v = Active ns then if ns = [] then TBLOCK_INPROGRESS else TBLOCK_SUBINPROGRESS
          else if ns = [] then TBLOCK_ABORT else TBLOCK_SUBABORT)"
    by (rule view_head [OF rep assms(2)])
  then show ?thesis using cur_block
    by (auto simp: RequireTransactionBlock_def IsTransactionBlock_def)
qed

lemma yields_require:
  "RequireTransactionBlock True st = Inr st \<Longrightarrow>
    yields Q R (run_steps [RequireTransactionBlock True, f]) st = yields Q R f st"
  by (auto simp: yields_def split: sum.splits)

section \<open>SAVEPOINT\<close>

lemma y_savepoint:
  assumes "at_view v d st" "outside v \<or> v = Active ns"
  shows "yields (completes (Savepoint_Command n) v d) (stops (Savepoint_Command n) v)
           (run_command (Savepoint_Command n)) st"
proof (cases "outside v")
  case True
  show ?thesis unfolding commit_run
    by (rule y_savepoint_outside [OF assms(1) True]) (simp_all add: True DefineSavepoint_def)
next
  case False
  then have v: "v = Active ns" using assms(2) by simp
  have live: "has (shape st) d st" "live_stack ns (shape st)"
    using assms(1) by (simp_all add: v at_view_def has_def)
  have req: "RequireTransactionBlock True st = Inr st"
    by (rule require_open [OF assms(1), of ns]) (simp add: v open_view_def)
  have spec: "after_ok (Savepoint_Command n) v = Some (Active (n # ns))"
    "after_error (Savepoint_Command n) v = Failed ns"
    by (simp_all add: v after_ok_def after_error_def)
  show ?thesis unfolding commit_run yields_require [OF req]
  proof (rule yields_weaken [OF y_DefineSavepoint [OF live, of "Some n"]])
    show "completes (Savepoint_Command n) v d st'"
      if "\<exists>k. has (Face TBLOCK_SUBBEGIN TRANS_DEFAULT (Some n) 0 k False # shape st) d st'" for st'
      using that ready_savepoint [OF _ live(2)] spec by (auto simp: completes_def)
    show "stops (Savepoint_Command n) v e st'" if "left (recovers_to (Failed ns)) e st'" for e st'
      using that left_stops spec by simp
  qed
qed

section \<open>RELEASE\<close>

lemma nth_level: "shape st = xs @ F # base \<Longrightarrow> face (xact_levels st ! length xs) = F"
  by (auto simp: shape_def map_eq_append_conv)

lemma level_of_face: "savepointLevel l = (case face l of Face b s nm sl k ch \<Rightarrow> sl)"
  by (simp add: face_def)

lemma take_drop_shape:
  "shape st = xs @ F # base \<Longrightarrow> map face (take (length xs + 1) (xact_levels st)) = xs @ [F] \<and>
    map face (drop (length xs + 1) (xact_levels st)) = base"
  by (simp add: shape_def take_map [symmetric] drop_map [symmetric])

lemma has_release:
  assumes "has ps d st" "shape st = xs @ F # base"
  shows "has (map (with_block b) (xs @ [F]) @ base) d
    (st\<lparr> xact_levels :=
        map (blockState_update (\<lambda>_. b)) (take (length xs + 1) (xact_levels st)) @
        drop (length xs + 1) (xact_levels st) \<rparr>)"
proof -
  have "map face (map (blockState_update (\<lambda>_. b)) ls) = map (with_block b) (map face ls)" for ls by simp
  then show ?thesis
    using assms take_drop_shape [OF assms(2)]
    by (auto simp: has_def sequential_def simp del: map_map dest: in_set_takeD in_set_dropD)
qed

lemma cur_level_zero:
  assumes "represents v (shape st)" "open_view v ns"
  shows "savepointLevel (cur_level st) = 0"
  by (rule view_head [OF assms]) (auto elim: shape_ConsE)

lemma y_release:
  assumes "at_view v d st" "outside v \<or> v = Active ns"
  shows "yields (completes (Release_Command n) v d) (stops (Release_Command n) v)
           (run_command (Release_Command n)) st"
proof (cases "outside v")
  case True
  show ?thesis unfolding commit_run
    by (rule y_savepoint_outside [OF assms(1) True]) (simp_all add: True ReleaseSavepoint_def)
next
  case False
  let ?c = "Release_Command n"
  have v: "v = Active ns" using assms(2) False by simp
  have live: "has (shape st) d st" "live_stack ns (shape st)" and rep: "represents v (shape st)"
    and op: "open_view v ns"
    using assms(1) by (simp_all add: v at_view_def has_def open_view_def)
  have req: "RequireTransactionBlock True st = Inr st" by (rule require_open [OF assms(1) op])
  have spec: "after_ok ?c v = (if n \<in> set ns then Some (Active (before n ns)) else None)"
    "after_error ?c v = Failed (if n \<in> set ns then before n ns else ns)"
    by (simp_all add: v after_ok_def after_error_def)
  obtain b s nm k ch qs where head: "shape st = Face b s nm 0 k ch # qs"
    "b = (if v = Active ns then if ns = [] then TBLOCK_INPROGRESS else TBLOCK_SUBINPROGRESS
          else if ns = [] then TBLOCK_ABORT else TBLOCK_SUBABORT)"
    by (rule view_head [OF rep op])
  have cur: "blockState (cur_level st) = (if ns = [] then TBLOCK_INPROGRESS else TBLOCK_SUBINPROGRESS)"
    using head cur_block v by simp
  have mode: "\<not> IsInParallelMode st" using assms(1) head(1) sequential_mode by (simp add: at_view_def)
  show ?thesis unfolding commit_run yields_require [OF req]
  proof (cases "n \<in> set ns")
    case False
    then have rec: "recovers_to (after_error ?c v) (shape st)"
      using spec live_recovers [OF live(2)] by simp
    have "find_savepoint n (xact_levels st) = None"
      by (rule find_none) (use view_names [OF rep op False] in \<open>auto simp: shape_def\<close>)
    then have "ReleaseSavepoint n st = Inl (No_Such_Savepoint, st)"
      using cur mode by (simp add: ReleaseSavepoint_def)
    then show "yields (completes ?c v d) (stops ?c v) (ReleaseSavepoint n) st"
      using rec spec False live(1) by (simp add: yields_def stops_def has_def)
  next
    case True
    obtain xs b1 s1 k1 ch1 base where sp: "shape st = xs @ Face b1 s1 (Some n) 0 k1 ch1 # base"
      "\<forall>G\<in>set xs. fc_name G \<noteq> Some n \<and> abort_sub (fc_block G) \<noteq> None"
      "v = Active ns \<longrightarrow> b1 = TBLOCK_SUBINPROGRESS \<and> (\<forall>G\<in>set xs. fc_block G = TBLOCK_SUBINPROGRESS)"
      "b1 = TBLOCK_SUBINPROGRESS \<or> b1 = TBLOCK_SUBABORT" "live_stack (before n ns) base"
      by (rule view_find [OF rep op True])
    have find: "find_savepoint n (xact_levels st) = Some (length xs)"
      by (rule find_some [of _ xs "Face b1 s1 (Some n) 0 k1 ch1" base]) (use sp in \<open>auto simp: shape_def\<close>)
    have level: "savepointLevel (xact_levels st ! length xs) = savepointLevel (cur_level st)"
      using nth_level [OF sp(1)] cur_level_zero [OF rep op] by (simp add: level_of_face)
    show "yields (completes ?c v d) (stops ?c v) (ReleaseSavepoint n) st"
    proof (rule yields_returns)
      let ?st = "st\<lparr> xact_levels :=
        map (blockState_update (\<lambda>_. TBLOCK_SUBRELEASE)) (take (length xs + 1) (xact_levels st)) @
        drop (length xs + 1) (xact_levels st) \<rparr>"
      show "ReleaseSavepoint n st = Inr ?st"
        using find level cur True mode by (auto simp: ReleaseSavepoint_def)
      have "has (map (with_block TBLOCK_SUBRELEASE) (xs @ [Face b1 s1 (Some n) 0 k1 ch1]) @ base) d ?st"
        using has_release [OF live(1) sp(1)] by simp
      then have "ready (Active (before n ns)) (Failed (before n ns)) d ?st"
        by (rule ready_release) (use sp(5) in auto)
      then show "completes ?c v d ?st" using spec True by (simp add: completes_def)
    qed
  qed
qed

section \<open>ROLLBACK TO\<close>

lemma has_restart:
  assumes "has ps d st" "shape st = xs @ F # base" "\<forall>G\<in>set xs. abort_sub (fc_block G) \<noteq> None"
    "restart_target (fc_block F) = Some b"
  obtains levels where "mark_levels abort_sub restart_target (take (length xs + 1) (xact_levels st)) = (None, levels)"
    "has (map (\<lambda>G. with_block (the (abort_sub (fc_block G))) G) xs @ with_block b F # base) d
       (st\<lparr> xact_levels := levels @ drop (length xs + 1) (xact_levels st) \<rparr>)"
proof -
  note split = take_drop_shape [OF assms(2)]
  obtain levels where m: "mark_levels abort_sub restart_target (take (length xs + 1) (xact_levels st)) = (None, levels)"
    "map face levels = map (\<lambda>G. with_block (the (abort_sub (fc_block G))) G) xs @ [with_block b F]"
    using mark_levels_face [of "take (length xs + 1) (xact_levels st)" xs F abort_sub restart_target b] split assms(3,4)
    by auto
  have "\<forall>l\<in>set levels. parallelModeLevel l = 0"
    using mark_levels_sequential [OF m(1)] assms(1) by (auto simp: has_def sequential_def dest: in_set_takeD)
  then show ?thesis
    using that [OF m(1)] m(2) split assms(1) by (auto simp: has_def sequential_def dest: in_set_dropD)
qed

lemma y_rollback_to:
  assumes "at_view v d st" "v \<noteq> Idle"
  shows "yields (completes (Rollback_To_Command n) v d) (stops (Rollback_To_Command n) v)
           (run_command (Rollback_To_Command n)) st"
  using assms(2)
proof (cases rule: inside_or_open)
  case 1
  show ?thesis unfolding commit_run
    by (rule y_savepoint_outside [OF assms(1) 1]) (simp_all add: 1 RollbackToSavepoint_def Let_def)
next
  case (2 ns)
  let ?c = "Rollback_To_Command n"
  have has: "has (shape st) d st" and rep: "represents v (shape st)"
    using at_view_has [OF assms(1)] by auto
  have req: "RequireTransactionBlock True st = Inr st" by (rule require_open [OF assms(1) 2])
  obtain b s nm k ch qs where head: "shape st = Face b s nm 0 k ch # qs"
    "b = (if v = Active ns then if ns = [] then TBLOCK_INPROGRESS else TBLOCK_SUBINPROGRESS
          else if ns = [] then TBLOCK_ABORT else TBLOCK_SUBABORT)"
    by (rule view_head [OF rep 2])
  have cur: "blockState (cur_level st) = b" using head(1) cur_block by simp
  have mode: "\<not> IsInParallelMode st" using assms(1) head(1) sequential_mode by (simp add: at_view_def)
  show ?thesis unfolding commit_run yields_require [OF req]
  proof (cases "n \<in> set ns")
    case False
    have rec: "recovers_to (after_error ?c v) (shape st)" using view_recovers [OF rep 2] False 2 by simp
    have "find_savepoint n (xact_levels st) = None"
      by (rule find_none) (use view_names [OF rep 2 False] in \<open>auto simp: shape_def\<close>)
    then have "RollbackToSavepoint n st = Inl (No_Such_Savepoint, st)"
      using cur mode head(2) by (auto simp: RollbackToSavepoint_def Let_def)
    then show "yields (completes ?c v d) (stops ?c v) (RollbackToSavepoint n) st"
      using rec False 2 has by (simp add: yields_def stops_def has_def)
  next
    case True
    obtain xs b1 s1 k1 ch1 base where sp: "shape st = xs @ Face b1 s1 (Some n) 0 k1 ch1 # base"
      "\<forall>G\<in>set xs. fc_name G \<noteq> Some n \<and> abort_sub (fc_block G) \<noteq> None"
      "v = Active ns \<longrightarrow> b1 = TBLOCK_SUBINPROGRESS \<and> (\<forall>G\<in>set xs. fc_block G = TBLOCK_SUBINPROGRESS)"
      "b1 = TBLOCK_SUBINPROGRESS \<or> b1 = TBLOCK_SUBABORT" "live_stack (before n ns) base"
      by (rule view_find [OF rep 2 True])
    define b2 where "b2 = the (restart_target b1)"
    have b2: "restart_target b1 = Some b2" "b2 = TBLOCK_SUBRESTART \<or> b2 = TBLOCK_SUBABORT_RESTART"
      using sp(4) by (auto simp: b2_def restart_target_def)
    have find: "find_savepoint n (xact_levels st) = Some (length xs)"
      by (rule find_some [of _ xs "Face b1 s1 (Some n) 0 k1 ch1" base]) (use sp in \<open>auto simp: shape_def\<close>)
    have level: "savepointLevel (xact_levels st ! length xs) = savepointLevel (cur_level st)"
      using nth_level [OF sp(1)] cur_level_zero [OF rep 2] by (simp add: level_of_face)
    obtain levels where
      m: "mark_levels abort_sub restart_target (take (length xs + 1) (xact_levels st)) = (None, levels)" and
      st': "has (map (\<lambda>G. with_block (the (abort_sub (fc_block G))) G) xs @
               with_block b2 (Face b1 s1 (Some n) 0 k1 ch1) # base) d
             (st\<lparr> xact_levels := levels @ drop (length xs + 1) (xact_levels st) \<rparr>)"
      by (rule has_restart [OF has sp(1), of b2]) (use sp(2) b2(1) in auto)
    let ?st = "st\<lparr> xact_levels := levels @ drop (length xs + 1) (xact_levels st) \<rparr>"
    have "b = TBLOCK_SUBINPROGRESS \<or> b = TBLOCK_SUBABORT" using head(2) True by auto
    then have run: "RollbackToSavepoint n st = Inr ?st"
      using m find level cur mode by (auto simp: RollbackToSavepoint_def Let_def)
    have "ready (Active (n # before n ns)) (Failed (before n ns)) d ?st"
    proof (rule ready_restart)
      show "has (map (\<lambda>G. with_block (the (abort_sub (fc_block G))) G) xs @ Face b2 s1 (Some n) 0 k1 ch1 # base) d ?st"
        using st' by simp
      show "\<forall>F\<in>set (map (\<lambda>G. with_block (the (abort_sub (fc_block G))) G) xs). rolling (fc_block F)"
        using sp(2) by (auto simp: abort_sub_def rolling_def split: if_splits)
    qed (use b2 sp in auto)
    then have "completes ?c v d ?st" using True 2 by (simp add: completes_def)
    with run show "yields (completes ?c v d) (stops ?c v) (RollbackToSavepoint n) st"
      by (rule yields_returns)
  qed
qed

section \<open>All transaction commands\<close>

lemma y_transaction_stmt:
  assumes "at_view v d st" "v \<noteq> Idle" "is_transaction_stmt c"
    and "\<And>ns. v = Failed ns \<Longrightarrow> IsTransactionExitStmt c"
  shows "yields (completes c v d) (stops c v) (run_command c) st"
proof -
  have "outside v \<or> (\<exists>ns. v = Active ns)" if "\<not> IsTransactionExitStmt c"
    using assms(2,4) that by (cases v) (auto simp: outside_def)
  then show ?thesis
    using assms
    by (cases c)
      (auto simp: is_transaction_stmt_def IsTransactionExitStmt_def
        intro: y_begin y_commit y_rollback y_prepare y_savepoint y_release y_rollback_to)
qed

end
