(* ===== verification/Xact_Session_Props.thy ===== *)
theory Xact_Session_Props
  imports Xact_Savepoints
begin

text \<open>
  Query messages and sessions against the views: the abstract specification of a query is a list
  of the views it can end in, one for each statement that may fail and one for success.
\<close>

section \<open>What a query promises\<close>

definition begin_view :: "xact_view \<Rightarrow> xact_view" where
  "begin_view v = (if v = Idle then Single else v)"

definition implicit_view :: "bool \<Rightarrow> xact_view \<Rightarrow> xact_view" where
  "implicit_view u v = (if u \<and> v = Single then Implicit else v)"

text \<open>After a statement other than the last, one that is no transaction command leaves the view alone.\<close>

definition stmt_view :: "sql_command \<Rightarrow> bool \<Rightarrow> xact_view \<Rightarrow> xact_view option" where
  "stmt_view c is_last v =
     (if \<not> is_last \<and> \<not> is_transaction_stmt c
      then (case v of Failed ns \<Rightarrow> None | _ \<Rightarrow> Some v)
      else after_ok c v)"

fun query_views :: "bool \<Rightarrow> sql_command list \<Rightarrow> xact_view \<Rightarrow> xact_view list" where
  "query_views u [] v = [v]"
| "query_views u (c # cs) v =
     (let w = implicit_view u (begin_view v) in
      after_error c w #
      (case stmt_view c (cs = []) w of
         None \<Rightarrow> []
       | Some v' \<Rightarrow> query_views u cs v'))"

text \<open>An empty query string acts as a statement that does nothing.\<close>

definition query_outcomes :: "sql_command list \<Rightarrow> xact_view \<Rightarrow> xact_view list" where
  "query_outcomes cs v =
     (if cs = [] then query_views False [Other_Command []] v else query_views (length cs > 1) cs v)"

text \<open>The views between queries.\<close>

definition boundary :: "xact_view \<Rightarrow> bool" where
  "boundary v \<longleftrightarrow> v \<noteq> Single \<and> v \<noteq> Implicit"

lemma after_end_boundary [simp]: "boundary (after_end chain)"
  by (cases chain) (simp_all add: boundary_def)

lemma boundary_simps [simp]: "boundary Idle" "boundary (Active ns)" "boundary (Failed ns)"
  by (simp_all add: boundary_def)

lemma after_error_boundary [simp]: "boundary (after_error c v)"
  by (cases v; cases c) (simp_all add: after_error_def)

lemma after_ok_boundary: "after_ok c v = Some w \<Longrightarrow> boundary w"
  by (cases v; cases c) (auto simp: after_ok_def split: if_splits)

lemma query_views_boundary: "cs \<noteq> [] \<Longrightarrow> w \<in> set (query_views u cs v) \<Longrightarrow> boundary w"
proof (induction u cs v rule: query_views.induct)
  case (2 u c cs v)
  show ?case
  proof (cases "cs = []")
    case True
    then show ?thesis using 2(3) by (auto simp: Let_def stmt_view_def after_ok_boundary split: option.splits)
  next
    case False
    then show ?thesis
      using 2 by (cases "stmt_view c False (implicit_view u (begin_view v))") (auto simp: Let_def)
  qed
qed simp

section \<open>One statement\<close>

lemma run_steps_append: "run_steps (fs @ gs) st = run_steps [run_steps fs, run_steps gs] st"
  by (induction fs arbitrary: st) (auto split: sum.splits)

lemma yields_append: "yields Q R (run_steps (fs @ gs)) st = yields (yields Q R (run_steps gs)) R (run_steps fs) st"
  by (simp only: yields_def [of Q R "run_steps (fs @ gs)"] run_steps_append)
    (auto simp: yields_def split: sum.splits)

lemma at_view_parts: "at_view v d st \<Longrightarrow> represents v (shape st) \<and> has (shape st) d st \<and> sequential st"
  by (simp add: at_view_def has_def)

lemma view_recovers_other: "represents w ps \<Longrightarrow> w \<noteq> Idle \<Longrightarrow> recovers_to (after_error (Other_Command a) w) ps"
proof -
  assume rep: "represents w ps" and w: "w \<noteq> Idle"
  from w show ?thesis
  proof (cases rule: inside_or_open)
    case 1
    then show ?thesis using rep
      by (cases ps; cases "tl ps") (auto simp: outside_def top_recovers_def)
  next
    case (2 ns)
    then show ?thesis using view_recovers [OF rep 2] by (auto simp: open_view_def after_error_def)
  qed
qed

lemma y_reject:
  assumes "at_view v b st" "v \<noteq> Idle"
  shows "yields (\<lambda>st'. at_view v b st' \<and> (\<forall>ns. v = Failed ns \<longrightarrow> IsTransactionExitStmt c)) (stops c v)
           (reject_if_aborted c) st"
  using assms(2)
proof (cases rule: inside_or_open)
  case 1
  then have "\<not> IsAbortedTransactionBlockState st"
    using outside_block [OF assms(1) 1] by (auto simp: IsAbortedTransactionBlockState_def)
  then show ?thesis using 1 assms(1) by (auto simp: yields_def reject_if_aborted_def outside_def)
next
  case (2 ns)
  have rep: "represents v (shape st)" using at_view_parts [OF assms(1)] by simp
  obtain b' s nm k ch qs where head: "shape st = Face b' s nm 0 k ch # qs"
    "b' = (if v = Active ns then if ns = [] then TBLOCK_INPROGRESS else TBLOCK_SUBINPROGRESS
          else if ns = [] then TBLOCK_ABORT else TBLOCK_SUBABORT)"
    by (rule view_head [OF rep 2])
  have aborted: "IsAbortedTransactionBlockState st \<longleftrightarrow> v = Failed ns"
    using head cur_block [OF head(1)] 2 by (auto simp: IsAbortedTransactionBlockState_def open_view_def)
  have "stops c v Transaction_Aborted st" if "v = Failed ns" "\<not> IsTransactionExitStmt c"
    using that view_recovers [OF rep 2] at_view_parts [OF assms(1)]
    by (cases c) (auto simp: stops_def after_ok_def after_error_def IsTransactionExitStmt_def)
  then show ?thesis
    using aborted assms(1) 2 by (auto simp: yields_def reject_if_aborted_def open_view_def)
qed

text \<open>From between commands into a command.\<close>

definition enters :: "xact_view \<Rightarrow> bool \<Rightarrow> bool" where
  "enters v b \<longleftrightarrow> (v = Idle \<longrightarrow> \<not> b) \<and> (outside v \<longrightarrow> b)"

lemma y_start_command:
  assumes "at_view v b st" "enters v b"
  shows "yields (at_view (begin_view v) True) (left (recovers_to (after_error c (begin_view v)))) start_xact_command st"
proof (cases b)
  case True
  then show ?thesis using assms by (auto simp: yields_def start_xact_command_def at_view_def enters_def begin_view_def)
next
  case False
  note parts = at_view_parts [OF assms(1)]
  have started: "\<not> xact_started st" using assms(1) False by (simp add: at_view_def)
  have set_started: "yields (at_view w True) R (\<lambda>st. Inr (st\<lparr> xact_started := True \<rparr>)) st'"
    if "at_view w d st'" for st' w d R
    using that by (simp add: yields_def at_view_def)
  have start: "yields (at_view (begin_view v) b) (left (recovers_to (after_error c (begin_view v)))) StartTransactionCommand st"
  proof (cases "v = Idle")
    case True
    then obtain k ch where F: "has [Face TBLOCK_DEFAULT TRANS_DEFAULT None 0 k ch] b st"
      using assms(1) by (cases "shape st"; cases "tl (shape st)") (auto simp: at_view_def has_def is_face_def)
    have err: "after_error c (begin_view v) = Idle" by (simp add: True begin_view_def outside_def)
    have "yields (at_view Single b) (left (recovers_to Idle)) (run_steps [StartTransaction, set_block TBLOCK_STARTED]) st"
      by (rule yields_seq [OF y_StartTransaction [OF F]], simp add: top_recovers_def, simp only: yields_one)
        (erule yields_weaken [OF y_set_block], simp_all add: at_view_def has_def)
    then show ?thesis
      using cur_block_has [OF F] err True
      by (simp add: yields_def StartTransactionCommand_def begin_view_def del: run_steps.simps)
  next
    case False
    then obtain ns where ns: "open_view v ns" using assms(2) \<open>\<not> b\<close>
      by (cases v) (auto simp: enters_def outside_def open_view_def)
    obtain b' s nm k ch qs where "shape st = Face b' s nm 0 k ch # qs"
      "b' = (if v = Active ns then if ns = [] then TBLOCK_INPROGRESS else TBLOCK_SUBINPROGRESS
            else if ns = [] then TBLOCK_ABORT else TBLOCK_SUBABORT)"
      by (rule view_head [of v "shape st" ns]) (use parts ns in auto)
    then have "StartTransactionCommand st = Inr st" using cur_block by (auto simp: StartTransactionCommand_def)
    then show ?thesis using assms(1) False by (simp add: yields_def begin_view_def)
  qed
  have "yields (at_view (begin_view v) True) (left (recovers_to (after_error c (begin_view v))))
      (run_steps [StartTransactionCommand, (\<lambda>st. Inr (st\<lparr> xact_started := True \<rparr>))]) st"
    by (rule yields_seq [OF start], simp only: yields_one, erule set_started)
  then show ?thesis using started by (simp add: yields_def start_xact_command_def del: run_steps.simps)
qed

lemma y_begin_implicit:
  assumes "at_view v True st" "v \<noteq> Idle"
  shows "yields (at_view (implicit_view u v) True) R (if u then BeginImplicitTransactionBlock else Inr) st"
proof (cases "v = Single")
  case True
  then obtain b ch where F: "has [Face TBLOCK_STARTED TRANS_INPROGRESS None 0 1 ch] True st"
    using assms(1) outside_face [of v True st] by (auto simp: outside_def)
  have "yields (at_view Implicit True) R (set_block TBLOCK_IMPLICIT_INPROGRESS) st"
    by (rule yields_weaken [OF y_set_block [OF F]]) (auto simp: at_view_def has_def)
  then show ?thesis
    using True assms(1) cur_block_has [OF F]
    by (simp add: yields_def BeginImplicitTransactionBlock_def implicit_view_def)
next
  case False
  have "blockState (cur_level st) \<noteq> TBLOCK_STARTED"
    using assms(2)
  proof (cases rule: inside_or_open)
    case 1
    then show ?thesis using outside_block [OF assms(1) 1] False by simp
  next
    case (2 ns)
    show ?thesis
      by (rule view_head [of v "shape st" ns]) (use at_view_parts [OF assms(1)] 2 cur_block in auto)
  qed
  then show ?thesis using False assms(1) by (simp add: yields_def BeginImplicitTransactionBlock_def implicit_view_def)
qed

text \<open>The end of a command.\<close>

lemma y_finish:
  assumes "ready w e True st"
  shows "yields (at_view w False) (left (recovers_to e)) finish_xact_command st"
proof -
  have "yields (at_view w False) (left (recovers_to e))
      (run_steps [CommitTransactionCommand, (\<lambda>st. Inr (st\<lparr> xact_started := False \<rparr>))]) st"
    by (rule yields_seq [where P = "at_view w True"])
      (use assms in \<open>auto simp: ready_def yields_def at_view_def\<close>)
  then show ?thesis using assms by (simp add: yields_def finish_xact_command_def ready_def del: run_steps.simps)
qed

lemma y_end_implicit:
  assumes "blockState (cur_level st) \<noteq> TBLOCK_IMPLICIT_INPROGRESS"
  shows "(if u then EndImplicitTransactionBlock else Inr) st = Inr st"
  using assms by (simp add: EndImplicitTransactionBlock_def)

lemma y_finish_implicit:
  assumes "ready w e True st"
  shows "yields (at_view w False) (left (recovers_to e))
           (run_steps [if u then EndImplicitTransactionBlock else Inr, finish_xact_command]) st"
proof (rule yields_seq [where P = "\<lambda>st'. st' = st"])
  show "yields (\<lambda>st'. st' = st) (left (recovers_to e)) (if u then EndImplicitTransactionBlock else Inr) st"
    using y_end_implicit [of st u] assms by (simp add: yields_def ready_def)
qed (use y_finish [OF assms] in simp)

text \<open>Statements that are no transaction commands.\<close>

lemma other_end:
  assumes "at_view w True st" "w \<noteq> Idle" "\<And>ns. w \<noteq> Failed ns" "\<not> u \<Longrightarrow> w \<noteq> Implicit"
  shows "yields (\<lambda>st'. \<exists>w'. after_ok (Other_Command a) w = Some w' \<and> at_view w' False st')
     (left (recovers_to (after_error (Other_Command a) w)))
     (run_steps [if u then EndImplicitTransactionBlock else Inr, finish_xact_command]) st"
proof (cases "outside w")
  case True
  obtain b ch where F: "has [Face b TRANS_INPROGRESS None 0 1 ch] True st"
    "b = (if w = Single then TBLOCK_STARTED else TBLOCK_IMPLICIT_INPROGRESS)"
    by (rule outside_face [OF assms(1) True])
  have ok: "after_ok (Other_Command a) w = Some Idle"
    using True by (auto simp: outside_def after_ok_def)
  have "yields (has [Face TBLOCK_STARTED TRANS_INPROGRESS None 0 1 ch] True) (left (recovers_to Idle))
      (if u then EndImplicitTransactionBlock else Inr) st"
  proof (cases "w = Single")
    case True
    then show ?thesis using F cur_block_has [OF F(1)] y_end_implicit [of st u] by (simp add: yields_def)
  next
    case False
    then have "w = Implicit" using True by (simp add: outside_def)
    then have u and b: "b = TBLOCK_IMPLICIT_INPROGRESS" using assms(4) F(2) by auto
    have "EndImplicitTransactionBlock st = set_block TBLOCK_STARTED st"
      using cur_block_has [OF F(1)] b by (simp add: EndImplicitTransactionBlock_def)
    then show ?thesis using y_set_block [OF F(1), of TBLOCK_STARTED] \<open>u\<close> by (simp add: yields_def)
  qed
  then have "yields (at_view Idle False) (left (recovers_to Idle))
      (run_steps [if u then EndImplicitTransactionBlock else Inr, finish_xact_command]) st"
    by (rule yields_seq) (simp add: y_finish [OF ready_single])
  then show ?thesis using ok True by (auto elim: yields_weaken)
next
  case False
  then obtain ns where w: "w = Active ns" using assms(2,3) by (cases w) (auto simp: outside_def)
  have "ready (Active ns) (Failed ns) True st"
    by (rule ready_stay [of "shape st"]) (use at_view_parts [OF assms(1)] w in auto)
  from y_finish_implicit [OF this, of u] show ?thesis
    by (auto simp: w after_ok_def after_error_def elim: yields_weaken)
qed

definition statement_steps :: "bool \<Rightarrow> sql_command \<Rightarrow> bool \<Rightarrow> xact_op list" where
  "statement_steps u c is_last =
       [reject_if_aborted c,
        start_xact_command,
        (if u then BeginImplicitTransactionBlock else Inr),
        run_command c,
        (if is_last
         then run_steps [if u then EndImplicitTransactionBlock else Inr, finish_xact_command]
         else if is_transaction_stmt c then finish_xact_command
         else CommandCounterIncrement)]"

lemma y_reject_idle: "at_view Idle b st \<Longrightarrow> reject_if_aborted c st = Inr st"
  by (cases "shape st"; cases "tl (shape st)")
    (auto simp: at_view_def reject_if_aborted_def IsAbortedTransactionBlockState_def is_face_def dest: cur_block)

lemma y_run_other:
  assumes "at_view w True st" "w \<noteq> Idle"
  shows "yields (at_view w True) (left (recovers_to (after_error (Other_Command a) w))) (run_command (Other_Command a)) st"
proof -
  note parts = at_view_parts [OF assms(1)]
  have "quiet (run_steps (map run_action a))" by (rule quiet_run_steps) (auto simp: quiet_run_action)
  then have "yields (has (shape st) True) (left (recovers_to (after_error (Other_Command a) w)))
      (run_command (Other_Command a)) st"
    unfolding commit_run by (rule quiet_yields) (use parts view_recovers_other assms(2) in auto)
  then show ?thesis by (rule yields_weaken) (use parts in \<open>auto simp: at_view_def has_def\<close>)
qed

lemma y_statement_tail:
  assumes "at_view w True st" "w \<noteq> Idle" "\<And>ns. w = Failed ns \<Longrightarrow> IsTransactionExitStmt c" "\<not> u \<Longrightarrow> w \<noteq> Implicit"
  shows "yields (\<lambda>st'. \<exists>v'. stmt_view c is_last w = Some v' \<and> at_view v' (\<not> is_last \<and> \<not> is_transaction_stmt c) st')
     (stops c w)
     (run_steps [run_command c,
        (if is_last
         then run_steps [if u then EndImplicitTransactionBlock else Inr, finish_xact_command]
         else if is_transaction_stmt c then finish_xact_command
         else CommandCounterIncrement)]) st"
proof (cases "is_transaction_stmt c")
  case True
  have cmd: "yields (completes c w True) (stops c w) (run_command c) st"
    by (rule y_transaction_stmt [OF assms(1,2) True]) (use assms(3) in auto)
  have fin: "yields (\<lambda>st'. \<exists>v'. stmt_view c is_last w = Some v' \<and> at_view v' False st') (stops c w)
      (if is_last then run_steps [if u then EndImplicitTransactionBlock else Inr, finish_xact_command]
       else finish_xact_command) st'" if "completes c w True st'" for st'
  proof -
    obtain v' where ok: "after_ok c w = Some v'" and ready: "ready v' (after_error c w) True st'"
      using \<open>completes c w True st'\<close> by (auto simp: completes_def)
    have view: "stmt_view c is_last w = Some v'" using ok True by (simp add: stmt_view_def)
    have "yields (at_view v' False) (left (recovers_to (after_error c w)))
      (if is_last then run_steps [if u then EndImplicitTransactionBlock else Inr, finish_xact_command]
       else finish_xact_command) st'"
      using y_finish_implicit [OF ready, of u] y_finish [OF ready] by simp
    then show ?thesis by (rule yields_weaken) (use view left_stops in auto)
  qed
  show ?thesis
  proof (rule yields_seq [OF cmd])
    fix st'
    assume "completes c w True st'"
    from fin [OF this] show "yields (\<lambda>st'. \<exists>v'. stmt_view c is_last w = Some v' \<and>
          at_view v' (\<not> is_last \<and> \<not> is_transaction_stmt c) st') (stops c w)
       (run_steps [if is_last
         then run_steps [if u then EndImplicitTransactionBlock else Inr, finish_xact_command]
         else if is_transaction_stmt c then finish_xact_command
         else CommandCounterIncrement]) st'"
      using True by (cases is_last; cases u; simp)
  qed
next
  case False
  then obtain a where c: "c = Other_Command a" by (cases c) (auto simp: is_transaction_stmt_def)
  then have not_failed: "w \<noteq> Failed ns" for ns using assms(3) by (auto simp: IsTransactionExitStmt_def)
  have cmd: "yields (at_view w True) (stops c w) (run_command c) st"
    by (rule yields_weaken [OF y_run_other [OF assms(1,2), of a, folded c]]) (auto intro: left_stops)
  have fin: "yields (\<lambda>st'. \<exists>v'. stmt_view c is_last w = Some v' \<and> at_view v' (\<not> is_last) st') (stops c w)
      (if is_last then run_steps [if u then EndImplicitTransactionBlock else Inr, finish_xact_command]
       else CommandCounterIncrement) st'" if st': "at_view w True st'" for st'
  proof (cases is_last)
    case True
    have "yields (\<lambda>st'. \<exists>w'. after_ok c w = Some w' \<and> at_view w' False st')
       (left (recovers_to (after_error c w)))
       (run_steps [if u then EndImplicitTransactionBlock else Inr, finish_xact_command]) st'"
      unfolding c by (rule other_end [OF st' assms(2) not_failed]) (use assms(4) in auto)
    then have "yields (\<lambda>st'. \<exists>v'. stmt_view c is_last w = Some v' \<and> at_view v' (\<not> is_last) st') (stops c w)
       (run_steps [if u then EndImplicitTransactionBlock else Inr, finish_xact_command]) st'"
      by (rule yields_weaken) (use True in \<open>auto simp: stmt_view_def intro: left_stops\<close>)
    then show ?thesis by (simp only: True if_True)
  next
    case more: False
    have view: "stmt_view c False w = Some w"
      using c not_failed by (cases w) (auto simp: stmt_view_def is_transaction_stmt_def)
    have "yields (has (shape st') True) (left (recovers_to (after_error c w))) CommandCounterIncrement st'"
      by (rule quiet_yields [OF quiet_CommandCounterIncrement])
        (use at_view_parts [OF st'] view_recovers_other assms(2) c in auto)
    then have "yields (\<lambda>st'. \<exists>v'. stmt_view c False w = Some v' \<and> at_view v' True st') (stops c w)
        CommandCounterIncrement st'"
      by (rule yields_weaken)
        (use view at_view_parts [OF st'] in \<open>auto simp: at_view_def has_def intro: left_stops\<close>)
    then show ?thesis using more by simp
  qed
  show ?thesis
  proof (rule yields_seq [OF cmd])
    fix st'
    assume "at_view w True st'"
    from fin [OF this] show "yields (\<lambda>st'. \<exists>v'. stmt_view c is_last w = Some v' \<and>
          at_view v' (\<not> is_last \<and> \<not> is_transaction_stmt c) st') (stops c w)
       (run_steps [if is_last
         then run_steps [if u then EndImplicitTransactionBlock else Inr, finish_xact_command]
         else if is_transaction_stmt c then finish_xact_command
         else CommandCounterIncrement]) st'"
      using False by (cases is_last; cases u; simp)
  qed
qed

lemma begin_not_idle [simp]: "begin_view v \<noteq> Idle" "implicit_view u (begin_view v) \<noteq> Idle"
  by (simp_all add: begin_view_def implicit_view_def)

lemma begin_failed [simp]: "implicit_view u (begin_view v) = Failed ns \<longleftrightarrow> v = Failed ns"
  by (auto simp: begin_view_def implicit_view_def)

lemma implicit_error: "after_error c (implicit_view u v) = after_error c v"
  by (simp add: implicit_view_def after_error_def)

lemma y_statement:
  assumes "at_view v b st" "enters v b" "\<not> u \<Longrightarrow> v \<noteq> Implicit"
  defines "w \<equiv> implicit_view u (begin_view v)"
  shows "yields (\<lambda>st'. \<exists>v'. stmt_view c is_last w = Some v' \<and> at_view v' (\<not> is_last \<and> \<not> is_transaction_stmt c) st')
     (stops c w) (run_steps (statement_steps u c is_last)) st"
  unfolding statement_steps_def
proof (rule yields_seq)
  show "yields (\<lambda>st'. at_view v b st' \<and> (\<forall>ns. v = Failed ns \<longrightarrow> IsTransactionExitStmt c)) (stops c w)
      (reject_if_aborted c) st"
  proof (cases "v = Idle")
    case True
    then show ?thesis using y_reject_idle [of b st c] assms(1) by (simp add: yields_def)
  next
    case False
    have "w = v \<or> outside v" using False by (auto simp: w_def begin_view_def implicit_view_def outside_def)
    then show ?thesis
    proof
      assume "w = v"
      then show ?thesis using y_reject [OF assms(1) False] by simp
    next
      assume out: "outside v"
      then have "\<not> IsAbortedTransactionBlockState st"
        using outside_block [OF assms(1) out] by (auto simp: IsAbortedTransactionBlockState_def)
      then show ?thesis using out assms(1) by (auto simp: yields_def reject_if_aborted_def outside_def)
    qed
  qed
next
  fix st1
  assume st1: "at_view v b st1 \<and> (\<forall>ns. v = Failed ns \<longrightarrow> IsTransactionExitStmt c)"
  have w_err: "after_error c w = after_error c (begin_view v)" by (simp add: w_def implicit_error)
  have start: "yields (at_view (begin_view v) True) (stops c w) start_xact_command st1"
    by (rule yields_weaken [OF y_start_command [of v b st1 c]])
      (use st1 assms(2) in \<open>auto simp flip: w_err intro: left_stops\<close>)
  show "yields (\<lambda>st'. \<exists>v'. stmt_view c is_last w = Some v' \<and> at_view v' (\<not> is_last \<and> \<not> is_transaction_stmt c) st')
     (stops c w) (run_steps [start_xact_command,
        (if u then BeginImplicitTransactionBlock else Inr),
        run_command c,
        (if is_last
         then run_steps [if u then EndImplicitTransactionBlock else Inr, finish_xact_command]
         else if is_transaction_stmt c then finish_xact_command
         else CommandCounterIncrement)]) st1"
    by (rule yields_seq [OF start], rule yields_seq [OF y_begin_implicit [where u = u]], assumption, simp,
        fold w_def, erule y_statement_tail)
      (use st1 assms(3) in \<open>auto simp: w_def begin_view_def implicit_view_def split: if_splits\<close>)
qed

end
