(* ===== verification/Xact_Exception.thy ===== *)
theory Xact_Exception
  imports Xact_Views
begin

text \<open>
  Exception blocks of PL/pgSQL (\<^verbatim>\<open>src/pl/plpgsql/src/pl_exec.c\<close>): a block with an EXCEPTION clause
  runs inside a subtransaction of its own, which is released when the block ends and rolled back
  when an error is caught. What other statements do is an action on the transaction state; a
  handler is a condition on the error and its statements.
\<close>

section \<open>Blocks\<close>

datatype pl_stmt =
    Pl_Action stmt_action
  | Pl_Block "pl_stmt list"
  | Pl_Exception_Block "pl_stmt list" "((xact_block_error \<Rightarrow> bool) \<times> pl_stmt list) list"

text \<open>
  \<open>exec_stmts\<close>, the dispatch and \<open>exec_stmt_block\<close> with its search for a handler. A FATAL error is
  not caught; the beginning of the subtransaction is outside the part that catches.
\<close>

fun exec_stmt :: "pl_stmt \<Rightarrow> xact_op"
  and exec_stmts :: "pl_stmt list \<Rightarrow> xact_op"
  and exec_handlers :: "xact_block_error \<Rightarrow> ((xact_block_error \<Rightarrow> bool) \<times> pl_stmt list) list \<Rightarrow> xact_op" where
  "exec_stmt (Pl_Action a) st = run_action a st"
| "exec_stmt (Pl_Block body) st = exec_stmts body st"
| "exec_stmt (Pl_Exception_Block body exceptions) st =
     (case BeginInternalSubTransaction None st of
        Inl e \<Rightarrow> Inl e
      | Inr st1 \<Rightarrow>
          (case (case exec_stmts body st1 of
                   Inl e \<Rightarrow> Inl e
                 | Inr st2 \<Rightarrow> ReleaseCurrentSubTransaction st2) of
             Inr st3 \<Rightarrow> Inr st3
           | Inl (e, st3) \<Rightarrow>
               if is_fatal e then Inl (e, st3)
               else (case RollbackAndReleaseCurrentSubTransaction st3 of
                       Inl e \<Rightarrow> Inl e
                     | Inr st4 \<Rightarrow> exec_handlers e exceptions st4)))"
| "exec_stmts [] st = Inr st"
| "exec_stmts (s # ss) st =
     (case exec_stmt s st of Inl e \<Rightarrow> Inl e | Inr st1 \<Rightarrow> exec_stmts ss st1)"
| "exec_handlers e [] st = Inl (e, st)"
| "exec_handlers e ((matches, body) # hs) st =
     (if matches e then exec_stmts body st else exec_handlers e hs st)"

section \<open>The subtransaction of a block\<close>

definition calm_block :: "TBlockState \<Rightarrow> bool" where
  "calm_block b \<longleftrightarrow> b \<in> {TBLOCK_STARTED, TBLOCK_INPROGRESS, TBLOCK_IMPLICIT_INPROGRESS,
                TBLOCK_END, TBLOCK_PREPARE, TBLOCK_SUBINPROGRESS}"

definition at_shape :: "level_face list \<Rightarrow> xact_session \<Rightarrow> bool" where
  "at_shape ps st \<longleftrightarrow> shape st = ps \<and> sequential st"

text \<open>The shapes an error leaves behind: that of the start, or with the half-started level on top.\<close>

definition half_started :: "level_face list \<Rightarrow> level_face list \<Rightarrow> bool" where
  "half_started ps qs \<longleftrightarrow> qs = ps \<or> (\<exists>s nm sl k ch. qs = Face TBLOCK_SUBBEGIN s nm sl k ch # ps)"

definition stopped :: "level_face list \<Rightarrow> xact_block_error \<Rightarrow> xact_session \<Rightarrow> bool" where
  "stopped ps e st \<longleftrightarrow>
     (hard e \<and> half_started ps (shape st) \<and> sequential st) \<or> e = Fatal_State TBLOCK_SUBBEGIN"

lemma at_shape_has: "at_shape ps st \<longleftrightarrow> has ps (xact_started st) st"
  by (simp add: at_shape_def has_def)

lemma has_at_shape: "has ps d st \<Longrightarrow> at_shape ps st"
  by (simp add: at_shape_def has_def)

lemma left_stopped: "left (half_started ps) e st \<Longrightarrow> stopped ps e st"
  by (simp add: left_def stopped_def)

lemma hard_not_fatal: "hard e \<Longrightarrow> \<not> is_fatal e"
  by (cases e) (auto simp: hard_def is_fatal_def)

lemma y_begin_internal:
  assumes "at_shape (F # ps) st" "calm_block (fc_block F)"
  shows "yields (\<lambda>st'. \<exists>sl k. at_shape (Face TBLOCK_SUBINPROGRESS TRANS_INPROGRESS None sl k False # F # ps) st')
           (stopped (F # ps)) (BeginInternalSubTransaction None) st"
proof -
  obtain b s nm sl k ch where F: "F = Face b s nm sl k ch" by (cases F)
  let ?P = "half_started (F # ps)" and ?d = "xact_started st"
  let ?G = "\<lambda>b s. Face b s None sl (k + 1) False"
  have 0: "has (Face b s nm sl k ch # ps) ?d st" using assms(1) F by (simp add: at_shape_has)
  have mode: "\<not> IsInParallelMode st" using assms(1) by (simp add: at_shape_def sequential_mode)
  have start: "yields (has (?G TBLOCK_SUBINPROGRESS TRANS_INPROGRESS # F # ps) ?d) (left ?P) CommitTransactionCommand st'"
    if st': "has (?G TBLOCK_SUBBEGIN TRANS_DEFAULT # F # ps) ?d st'" for st'
  proof -
    have "yields (has (?G TBLOCK_SUBINPROGRESS TRANS_INPROGRESS # F # ps) ?d) (left ?P)
        (run_steps [StartSubTransaction, set_block TBLOCK_SUBINPROGRESS]) st'"
      by (rule yields_seq [OF y_StartSub [OF st']], force simp: half_started_def, simp add: y_set_block)
    then show ?thesis
      using cur_block_has [OF st']
      by (simp add: yields_def CommitTransactionCommand.simps [of st'] del: run_steps.simps)
  qed
  have again: "yields (has (?G TBLOCK_SUBINPROGRESS TRANS_INPROGRESS # F # ps) ?d) (left ?P) StartTransactionCommand st'"
    if st': "has (?G TBLOCK_SUBINPROGRESS TRANS_INPROGRESS # F # ps) ?d st'" for st'
    using st' cur_block_has [OF st'] by (simp add: yields_def StartTransactionCommand_def)
  have "yields (has (?G TBLOCK_SUBINPROGRESS TRANS_INPROGRESS # F # ps) ?d) (left ?P)
      (run_steps [PushTransaction, name_level None, CommitTransactionCommand, StartTransactionCommand]) st"
    by (rule yields_seq [OF y_Push [where P = ?P, OF 0]], simp add: half_started_def F, fold F,
        rule yields_seq [where P = "has (?G TBLOCK_SUBBEGIN TRANS_DEFAULT # F # ps) ?d"],
        simp add: name_level_def, erule yields_seq [OF start],
        simp only: yields_one, erule again)
  then have "yields (has (?G TBLOCK_SUBINPROGRESS TRANS_INPROGRESS # F # ps) ?d) (left ?P)
      (BeginInternalSubTransaction None) st"
    using cur_block_has [OF 0] assms(2) mode F
    by (simp add: yields_def BeginInternalSubTransaction_def calm_block_def del: run_steps.simps)
  then show ?thesis by (rule yields_weaken) (auto intro: has_at_shape left_stopped)
qed

lemma y_release_current:
  assumes "at_shape (Face TBLOCK_SUBINPROGRESS s nm sl k ch # F # ps) st"
  shows "yields (at_shape (F # ps))
     (\<lambda>e st'. hard e \<and> (\<exists>s'. at_shape (Face TBLOCK_SUBINPROGRESS s' nm sl k ch # F # ps) st'))
     ReleaseCurrentSubTransaction st"
proof -
  have 0: "has (Face TBLOCK_SUBINPROGRESS s nm sl k ch # F # ps) (xact_started st) st"
    using assms by (simp add: at_shape_has)
  have "\<not> IsInParallelMode st" using assms by (simp add: at_shape_def sequential_mode)
  moreover have "yields (at_shape (F # ps))
     (\<lambda>e st'. hard e \<and> (\<exists>s'. at_shape (Face TBLOCK_SUBINPROGRESS s' nm sl k ch # F # ps) st'))
     CommitSubTransaction st"
    by (rule yields_weaken [OF y_CommitSub [OF 0, where P = "\<lambda>qs. \<exists>s'. qs = Face TBLOCK_SUBINPROGRESS s' nm sl k ch # F # ps"]])
      (auto simp: left_def at_shape_def has_def)
  ultimately show ?thesis
    using cur_block_has [OF 0] by (simp add: yields_def ReleaseCurrentSubTransaction_def)
qed

text \<open>The rollback of the level, and what it does with a level that has only been pushed.\<close>

lemma y_rollback_current:
  assumes "at_shape (Face TBLOCK_SUBINPROGRESS s nm sl k ch # F # ps) st"
  shows "\<exists>st'. RollbackAndReleaseCurrentSubTransaction st = Inr st' \<and> at_shape (F # ps) st'"
proof -
  have 0: "has (Face TBLOCK_SUBINPROGRESS s nm sl k ch # F # ps) (xact_started st) st"
    using assms by (simp add: at_shape_has)
  have "yields (has (F # ps) (xact_started st)) (\<lambda>e s. False)
      (run_steps [AbortSubTransaction, CleanupSubTransaction]) st"
    by (rule yields_seq [OF y_AbortSub [OF 0]]) (simp add: y_CleanupSub)
  then obtain st' where "run_steps [AbortSubTransaction, CleanupSubTransaction] st = Inr st'"
    "has (F # ps) (xact_started st) st'"
    by (auto simp: yields_def simp del: run_steps.simps split: sum.splits)
  then show ?thesis
    using cur_block_has [OF 0]
    by (auto simp: RollbackAndReleaseCurrentSubTransaction_def has_at_shape simp del: run_steps.simps)
qed

lemma rollback_half_started:
  assumes "shape st = Face TBLOCK_SUBBEGIN s nm sl k ch # ps"
  shows "RollbackAndReleaseCurrentSubTransaction st = Inl (Fatal_State TBLOCK_SUBBEGIN, st)"
  using cur_block [OF assms] by (simp add: RollbackAndReleaseCurrentSubTransaction_def)

section \<open>Blocks restore the level they run in\<close>

lemma y_action:
  assumes "at_shape ps st"
  shows "yields (at_shape ps) (stopped ps) (run_action a) st"
  by (rule yields_weaken [OF quiet_yields [OF quiet_run_action assms [unfolded at_shape_has], where P = "half_started ps"]])
    (auto intro: has_at_shape left_stopped simp: half_started_def)

text \<open>How the part of a block that catches errors can end.\<close>

definition caught :: "nat \<Rightarrow> nat \<Rightarrow> level_face list \<Rightarrow> xact_block_error \<Rightarrow> xact_session \<Rightarrow> bool" where
  "caught sl k ps e st \<longleftrightarrow>
     e = Fatal_State TBLOCK_SUBBEGIN \<or>
     hard e \<and> ((\<exists>s. at_shape (Face TBLOCK_SUBINPROGRESS s None sl k False # ps) st) \<or>
               (\<exists>s nm sl k ch qs. shape st = Face TBLOCK_SUBBEGIN s nm sl k ch # qs))"

lemma y_body:
  assumes "yields (at_shape (G # F # ps)) (stopped (G # F # ps)) (exec_stmts body) st1"
    and G: "G = Face TBLOCK_SUBINPROGRESS TRANS_INPROGRESS None sl k False"
  shows "yields (at_shape (F # ps)) (caught sl k (F # ps))
    (\<lambda>st1. case exec_stmts body st1 of Inl e \<Rightarrow> Inl e | Inr st2 \<Rightarrow> ReleaseCurrentSubTransaction st2) st1"
proof (cases "exec_stmts body st1")
  case (Inr st2)
  then have "at_shape (G # F # ps) st2" using assms(1) by (simp add: yields_def)
  from y_release_current [OF this [unfolded G]]
  have "yields (at_shape (F # ps)) (caught sl k (F # ps)) ReleaseCurrentSubTransaction st2"
    by (rule yields_weaken) (auto simp: caught_def)
  then show ?thesis using Inr by (simp add: yields_def)
next
  case (Inl es)
  obtain e st3 where es: "es = (e, st3)" by (cases es)
  have "stopped (G # F # ps) e st3" using assms(1) Inl es by (simp add: yields_def)
  then have "caught sl k (F # ps) e st3"
    using G by (auto simp: stopped_def half_started_def at_shape_def caught_def)
  then show ?thesis using Inl es by (simp add: yields_def)
qed

lemma caught_rollback:
  assumes "caught sl k (F # ps) e st3" "\<not> is_fatal e"
  shows "yields (at_shape (F # ps)) (\<lambda>e st. e = Fatal_State TBLOCK_SUBBEGIN) RollbackAndReleaseCurrentSubTransaction st3"
    "hard e"
proof -
  have "e \<noteq> Fatal_State TBLOCK_SUBBEGIN" using assms(2) by (auto simp: is_fatal_def)
  then have c: "hard e" "(\<exists>s. at_shape (Face TBLOCK_SUBINPROGRESS s None sl k False # F # ps) st3) \<or>
      (\<exists>s nm sl k ch qs. shape st3 = Face TBLOCK_SUBBEGIN s nm sl k ch # qs)"
    using assms(1) by (auto simp: caught_def)
  show "hard e" by (rule c(1))
  from c(2) show "yields (at_shape (F # ps)) (\<lambda>e st. e = Fatal_State TBLOCK_SUBBEGIN)
      RollbackAndReleaseCurrentSubTransaction st3"
  proof
    assume "\<exists>s. at_shape (Face TBLOCK_SUBINPROGRESS s None sl k False # F # ps) st3"
    then show ?thesis using y_rollback_current by (fastforce simp: yields_def)
  qed (auto simp: yields_def rollback_half_started)
qed

lemma exec_restores:
  "at_shape (F # ps) st \<Longrightarrow> calm_block (fc_block F) \<Longrightarrow> yields (at_shape (F # ps)) (stopped (F # ps)) (exec_stmt s) st"
  "at_shape (F # ps) st \<Longrightarrow> calm_block (fc_block F) \<Longrightarrow> yields (at_shape (F # ps)) (stopped (F # ps)) (exec_stmts ss) st"
  "at_shape (F # ps) st \<Longrightarrow> calm_block (fc_block F) \<Longrightarrow> hard e \<Longrightarrow>
    yields (at_shape (F # ps)) (stopped (F # ps)) (exec_handlers e hs) st"
proof (induction s st and ss st and e hs st arbitrary: F ps and F ps and F ps
    rule: exec_stmt_exec_stmts_exec_handlers.induct)
  case (1 a st)
  then show ?case using y_action [OF 1(1), of a] by (simp add: yields_def)
next
  case (2 body st)
  then show ?case by (simp add: yields_def)
next
  case (3 body exceptions st)
  let ?attempt = "\<lambda>st1. case exec_stmts body st1 of Inl e \<Rightarrow> Inl e | Inr st2 \<Rightarrow> ReleaseCurrentSubTransaction st2"
  note start = y_begin_internal [OF 3(3,4)]
  show ?case
  proof (cases "BeginInternalSubTransaction None st")
    case (Inl es)
    then show ?thesis using start by (cases es) (simp add: yields_def)
  next
    case begun: (Inr st1)
    then obtain sl k where G: "at_shape (Face TBLOCK_SUBINPROGRESS TRANS_INPROGRESS None sl k False # F # ps) st1"
      using start by (auto simp: yields_def)
    have body: "yields (at_shape (F # ps)) (caught sl k (F # ps)) ?attempt st1"
      by (rule y_body [OF 3(1) [OF begun G] refl]) (simp add: calm_block_def)
    show ?thesis
    proof (cases "?attempt st1")
      case (Inr st3)
      then show ?thesis using body begun by (simp add: yields_def)
    next
      case (Inl es)
      obtain e st3 where es: "es = (e, st3)" by (cases es)
      have c: "caught sl k (F # ps) e st3" using body Inl es by (simp add: yields_def)
      show ?thesis
      proof (cases "is_fatal e")
        case True
        then have "e = Fatal_State TBLOCK_SUBBEGIN" using c hard_not_fatal by (auto simp: caught_def)
        then show ?thesis using begun Inl es True by (simp add: yields_def stopped_def)
      next
        case False
        note roll = caught_rollback [OF c False]
        show ?thesis
        proof (cases "RollbackAndReleaseCurrentSubTransaction st3")
          case (Inl es')
          then show ?thesis
            using begun \<open>?attempt st1 = Inl es\<close> es False roll(1) by (cases es') (simp add: yields_def stopped_def)
        next
          case (Inr st4)
          then have "at_shape (F # ps) st4" using roll(1) by (simp add: yields_def)
          then have "yields (at_shape (F # ps)) (stopped (F # ps)) (exec_handlers e exceptions) st4"
            using 3(2) [OF begun \<open>?attempt st1 = Inl es\<close> es [symmetric] False Inr] 3(4) roll(2) by blast
          then show ?thesis
            using begun \<open>?attempt st1 = Inl es\<close> es False Inr by (simp add: yields_def)
        qed
      qed
    qed
  qed
next
  case (4 st)
  then show ?case by (simp add: yields_def)
next
  case (5 s ss st)
  note first = 5(1) [OF 5(3,4)]
  show ?case
  proof (cases "exec_stmt s st")
    case (Inl es)
    then show ?thesis using first by (simp add: yields_def)
  next
    case (Inr st1)
    then have "at_shape (F # ps) st1" using first by (simp add: yields_def)
    then show ?thesis using 5(2) [OF Inr] 5(4) Inr by (simp add: yields_def)
  qed
next
  case (6 e st)
  then show ?case by (simp add: yields_def stopped_def half_started_def at_shape_def)
next
  case (7 e matches body hs st)
  then show ?case by (simp add: yields_def)
qed

end
