(* ===== verification/Block_Props.thy ===== *)
theory Block_Props
  imports Xact_Session_Props Xact_Exception
begin

text \<open>The properties of transaction blocks: queries, sessions and the subtransactions of functions.\<close>

section \<open>The loop over the statements\<close>

lemma exec_statements_steps:
  "exec_statements u (c # cs) st = run_steps (statement_steps u c (cs = []) @ [exec_statements u cs]) st"
  by (simp add: statement_steps_def)

definition query_stops :: "bool \<Rightarrow> sql_command list \<Rightarrow> xact_view \<Rightarrow> xact_block_error \<Rightarrow> xact_session \<Rightarrow> bool" where
  "query_stops u cs v e st \<longleftrightarrow>
     (hard e \<or> refused e) \<and> sequential st \<and> (\<exists>w\<in>set (query_views u cs v). recovers_to w (shape st))"

lemma stmt_view_enters:
  assumes "stmt_view c is_last w = Some v'" "w \<noteq> Idle" "\<not> u \<Longrightarrow> w \<noteq> Implicit"
  shows "enters v' (\<not> is_last \<and> \<not> is_transaction_stmt c)" "\<not> u \<Longrightarrow> v' \<noteq> Implicit"
proof -
  have "(\<not> is_last \<and> \<not> is_transaction_stmt c \<and> v' = w) \<or>
      (\<not> (\<not> is_last \<and> \<not> is_transaction_stmt c) \<and> boundary v')"
    using assms(1) by (cases w) (auto simp: stmt_view_def after_ok_boundary split: if_splits)
  then show "enters v' (\<not> is_last \<and> \<not> is_transaction_stmt c)" "\<not> u \<Longrightarrow> v' \<noteq> Implicit"
    using assms(2,3) by (auto simp: enters_def boundary_def outside_def)
qed

lemma exec_loop:
  assumes "cs \<noteq> []" "at_view v b st" "enters v b" "\<not> u \<Longrightarrow> v \<noteq> Implicit"
  shows "yields (\<lambda>st'. \<exists>w\<in>set (query_views u cs v). at_view w False st') (query_stops u cs v)
           (exec_statements u cs) st"
  using assms
proof (induction cs arbitrary: v b st)
  case (Cons c cs)
  let ?w = "implicit_view u (begin_view v)"
  have w: "?w \<noteq> Idle" "\<not> u \<Longrightarrow> ?w \<noteq> Implicit"
    using Cons.prems(4) by (auto simp: begin_view_def implicit_view_def)
  let ?Q = "\<lambda>st'. \<exists>w\<in>set (query_views u (c # cs) v). at_view w False st'" and ?R = "query_stops u (c # cs) v"
  have first: "yields (\<lambda>st'. \<exists>v'. stmt_view c (cs = []) ?w = Some v' \<and>
        at_view v' (\<not> cs = [] \<and> \<not> is_transaction_stmt c) st') ?R (run_steps (statement_steps u c (cs = []))) st"
    by (rule yields_weaken [OF y_statement [OF Cons.prems(2-4)]])
      (auto simp: query_stops_def stops_def Let_def)
  have rest: "yields ?Q ?R (run_steps [exec_statements u cs]) st'"
    if step: "\<exists>v'. stmt_view c (cs = []) ?w = Some v' \<and> at_view v' (\<not> cs = [] \<and> \<not> is_transaction_stmt c) st'" for st'
  proof -
    obtain v' where v': "stmt_view c (cs = []) ?w = Some v'" "at_view v' (\<not> cs = [] \<and> \<not> is_transaction_stmt c) st'"
      using step by blast
    have enters: "enters v' (\<not> cs = [] \<and> \<not> is_transaction_stmt c)" "\<not> u \<Longrightarrow> v' \<noteq> Implicit"
      using stmt_view_enters [of c "cs = []" ?w v' u, OF v'(1) w(1)] w(2) by auto
    show ?thesis
    proof (cases "cs = []")
      case True
      then show ?thesis using v' by (simp add: yields_def Let_def)
    next
      case False
      have "yields (\<lambda>st'. \<exists>w\<in>set (query_views u cs v'). at_view w False st') (query_stops u cs v')
          (exec_statements u cs) st'"
        by (rule Cons.IH [OF False v'(2) enters(1)]) (use enters(2) in simp)
      then have "yields ?Q ?R (exec_statements u cs) st'"
        by (rule yields_weaken) (use v'(1) False in \<open>auto simp: query_stops_def Let_def\<close>)
      then show ?thesis by simp
    qed
  qed
  have "yields ?Q ?R (run_steps (statement_steps u c (cs = []) @ [exec_statements u cs])) st"
    unfolding yields_append by (rule yields_weaken [OF first]) (use rest in auto)
  then show ?case by (simp only: yields_def exec_statements_steps)
qed simp

section \<open>Whole queries\<close>

lemma boundary_enters: "boundary v \<Longrightarrow> enters v False"
  by (auto simp: boundary_def enters_def outside_def)

lemma begin_enters [simp]: "boundary v \<Longrightarrow> enters (begin_view v) True"
  by (auto simp: boundary_def enters_def begin_view_def)

lemma begin_not_implicit [simp]: "boundary v \<Longrightarrow> begin_view v \<noteq> Implicit"
  by (auto simp: boundary_def begin_view_def)

lemma query_views_begin: "cs \<noteq> [] \<Longrightarrow> query_views u cs (begin_view v) = query_views u cs v"
  by (cases cs) (simp_all add: begin_view_def)

lemma finish_done: "at_view w False st \<Longrightarrow> finish_xact_command st = Inr st"
  by (simp add: finish_xact_command_def at_view_def)

lemma ready_failed:
  assumes "at_view (Failed ns) True st"
  shows "ready (Failed ns) (Failed ns) True st"
proof -
  note parts = at_view_parts [OF assms]
  obtain b s nm k ch qs where F: "shape st = Face b s nm 0 k ch # qs"
    "b = (if Failed ns = Active ns then if ns = [] then TBLOCK_INPROGRESS else TBLOCK_SUBINPROGRESS
          else if ns = [] then TBLOCK_ABORT else TBLOCK_SUBABORT)"
    by (rule view_head [of "Failed ns" "shape st" ns]) (use parts in \<open>auto simp: open_view_def\<close>)
  then have b: "blockState (cur_level st) = b" using cur_block by simp
  then have "CommitTransactionCommand st = Inr st" using F(2) by (simp add: commit_step [of st])
  then show ?thesis using assms b F(2) by (simp add: ready_def yields_def at_view_def)
qed

lemma empty_query:
  assumes "at_view v False st" "boundary v"
  shows "yields (\<lambda>st'. \<exists>w\<in>set (query_outcomes [] v). at_view w False st')
    (\<lambda>e st'. (hard e \<or> refused e) \<and> sequential st' \<and> (\<exists>w\<in>set (query_outcomes [] v). recovers_to w (shape st')))
    (run_steps [start_xact_command, Inr, finish_xact_command]) st"
proof (rule yields_seq)
  let ?R = "\<lambda>e st'. (hard e \<or> refused e) \<and> sequential st' \<and> (\<exists>w\<in>set (query_outcomes [] v). recovers_to w (shape st'))"
  have first: "after_error (Other_Command []) (begin_view v) \<in> set (query_outcomes [] v)"
    by (simp add: query_outcomes_def Let_def implicit_view_def)
  show "yields (at_view (begin_view v) True) ?R start_xact_command st"
    by (rule yields_weaken [OF y_start_command [OF assms(1) boundary_enters [OF assms(2)], of "Other_Command []"]])
      (use first in \<open>auto simp: left_def\<close>)
  fix st1
  assume st1: "at_view (begin_view v) True st1"
  have fin: "yields (\<lambda>st'. \<exists>w\<in>set (query_outcomes [] v). at_view w False st') ?R finish_xact_command st1"
    if "ready w e True st1" "w \<in> set (query_outcomes [] v)" "e \<in> set (query_outcomes [] v)" for w e
    by (rule yields_weaken [OF y_finish [OF that(1)]]) (use that in \<open>auto simp: left_def\<close>)
  have "yields (\<lambda>st'. \<exists>w\<in>set (query_outcomes [] v). at_view w False st') ?R finish_xact_command st1"
  proof (cases v)
    case Idle
    then obtain b ch where "has [Face b TRANS_INPROGRESS None 0 1 ch] True st1" "b = TBLOCK_STARTED"
      using st1 outside_face [of Single True st1] by (auto simp: begin_view_def outside_def)
    then show ?thesis using fin [OF ready_single] Idle
      by (simp add: query_outcomes_def Let_def begin_view_def implicit_view_def stmt_view_def after_ok_def after_error_def)
  next
    case (Active ns)
    have "ready (Active ns) (Failed ns) True st1"
      by (rule ready_stay [of "shape st1"]) (use at_view_parts [OF st1] Active in \<open>auto simp: begin_view_def\<close>)
    then show ?thesis using fin Active
      by (simp add: query_outcomes_def Let_def begin_view_def implicit_view_def stmt_view_def after_ok_def after_error_def)
  next
    case (Failed ns)
    then have "ready (Failed ns) (Failed ns) True st1" using ready_failed st1 by (simp add: begin_view_def)
    then show ?thesis using fin Failed
      by (simp add: query_outcomes_def Let_def begin_view_def implicit_view_def stmt_view_def after_ok_def after_error_def)
  qed (use assms(2) in \<open>auto simp: boundary_def\<close>)
  then show "yields (\<lambda>st'. \<exists>w\<in>set (query_outcomes [] v). at_view w False st') ?R
      (run_steps [Inr, finish_xact_command]) st1"
    by (subst yields_Cons, simp)
qed

lemma exec_simple_query_yields:
  assumes "at_view v False st" "boundary v"
  shows "yields (\<lambda>st'. \<exists>w\<in>set (query_outcomes cs v). at_view w False st')
    (\<lambda>e st'. (hard e \<or> refused e) \<and> sequential st' \<and> (\<exists>w\<in>set (query_outcomes cs v). recovers_to w (shape st')))
    (exec_simple_query cs) st"
proof (cases "cs = []")
  case True
  have "exec_statements (length [] > 1) [] = Inr" by (rule ext) simp
  then show ?thesis using empty_query [OF assms] True by (simp add: exec_simple_query_def del: run_steps.simps)
next
  case False
  let ?u = "length cs > 1"
  have views: "query_outcomes cs v = query_views ?u cs (begin_view v)"
    using False by (simp add: query_outcomes_def query_views_begin)
  have first: "after_error (hd cs) (begin_view v) \<in> set (query_outcomes cs v)"
    using False unfolding views by (cases cs) (simp_all add: Let_def implicit_error begin_view_def)
  have start: "yields (at_view (begin_view v) True)
      (\<lambda>e st'. (hard e \<or> refused e) \<and> sequential st' \<and> (\<exists>w\<in>set (query_outcomes cs v). recovers_to w (shape st')))
      start_xact_command st"
    by (rule yields_weaken [OF y_start_command [OF assms(1) boundary_enters [OF assms(2)], of "hd cs"]])
      (use first in \<open>auto simp: left_def\<close>)
  show ?thesis unfolding exec_simple_query_def
  proof (rule yields_seq [OF start])
    fix st1
    assume st1: "at_view (begin_view v) True st1"
    have "yields (\<lambda>st'. \<exists>w\<in>set (query_outcomes cs v). at_view w False st')
        (\<lambda>e st'. (hard e \<or> refused e) \<and> sequential st' \<and> (\<exists>w\<in>set (query_outcomes cs v). recovers_to w (shape st')))
        (exec_statements ?u cs) st1"
      unfolding views
      by (rule yields_weaken [OF exec_loop [OF False st1]])
        (use assms(2) in \<open>auto simp: query_stops_def\<close>)
    then show "yields (\<lambda>st'. \<exists>w\<in>set (query_outcomes cs v). at_view w False st')
        (\<lambda>e st'. (hard e \<or> refused e) \<and> sequential st' \<and> (\<exists>w\<in>set (query_outcomes cs v). recovers_to w (shape st')))
        (run_steps [exec_statements ?u cs, finish_xact_command]) st1"
      by (rule yields_seq) (auto simp: yields_def finish_done)
  qed
qed

lemma not_fatal: "hard e \<or> refused e \<Longrightarrow> \<not> is_fatal e"
  by (cases e) (auto simp: hard_def refused_def is_fatal_def)

lemma y_recover:
  assumes "recovers_to w (shape st)" "sequential st"
  shows "\<exists>st'. recover st = Inr st' \<and> at_view w False st'"
proof -
  have "has (shape st) (xact_started st) st" using assms by (simp add: has_def)
  then obtain st1 where "AbortCurrentTransaction st = Inr st1" "at_view w (xact_started st) st1"
    using yields_sure [OF y_AbortCurrentTransaction] assms(1) by blast
  then show ?thesis by (auto simp: recover_def at_view_def)
qed

lemma process_query_view:
  assumes "at_view v False st" "boundary v"
  shows "\<exists>st' w. process_query cs st = Inr st' \<and> w \<in> set (query_outcomes cs v) \<and> at_view w False st'"
proof (cases "exec_simple_query cs st")
  case (Inr st')
  then show ?thesis
    using exec_simple_query_yields [OF assms, of cs] by (auto simp: yields_def process_query_def)
next
  case (Inl es)
  then obtain e st1 w where "exec_simple_query cs st = Inl (e, st1)" "hard e \<or> refused e" "sequential st1"
    "w \<in> set (query_outcomes cs v)" "recovers_to w (shape st1)"
    using exec_simple_query_yields [OF assms, of cs] by (cases es) (auto simp: yields_def)
  then show ?thesis using y_recover [of w st1] not_fatal [of e] by (auto simp: process_query_def)
qed

lemma query_outcomes_boundary: "w \<in> set (query_outcomes cs v) \<Longrightarrow> boundary w"
  using query_views_boundary [of cs w "length cs > 1" v] query_views_boundary [of "[Other_Command []]" w False v]
  by (auto simp: query_outcomes_def simp del: query_views.simps split: if_splits)

lemma run_session_view:
  "at_view v False st \<Longrightarrow> boundary v \<Longrightarrow>
    \<exists>st' w. run_session qs st = Inr st' \<and> boundary w \<and> at_view w False st'"
proof (induction qs arbitrary: v st)
  case (Cons q qs)
  obtain st1 w where "process_query q st = Inr st1" "w \<in> set (query_outcomes q v)" "at_view w False st1"
    using process_query_view [OF Cons.prems] by blast
  then show ?case using Cons.IH [of w st1] query_outcomes_boundary by simp
qed auto

section \<open>Leaving every transaction\<close>

text \<open>Stacks that \<open>AbortOutOfAnyTransaction\<close> may find.\<close>

definition sub_block :: "TBlockState \<Rightarrow> bool" where
  "sub_block b \<longleftrightarrow> doomed_sub b \<or> b = TBLOCK_SUBINPROGRESS \<or> b = TBLOCK_SUBABORT"

fun may_leave :: "level_face list \<Rightarrow> bool" where
  "may_leave [] = False"
| "may_leave [Face b s nm sl k ch] =
     (nm = None \<and> sl = 0 \<and> \<not> sub_block b \<and> (b = TBLOCK_ABORT \<or> b = TBLOCK_ABORT_END \<longrightarrow> s = TRANS_ABORT))"
| "may_leave (F # G # ps) = (sub_block (fc_block F) \<and> fc_block G \<noteq> TBLOCK_DEFAULT \<and> may_leave (G # ps))"

lemma leave_top:
  assumes "has [Face b s None 0 k ch] d st" "may_leave [Face b s None 0 k ch]"
  shows "\<exists>st'. abort_out_once st = Inr st' \<and> at_view Idle d st'"
proof (rule yields_sure)
  let ?R = "\<lambda>e s. False"
  note b = cur_block_has [OF assms(1)]
  have now: "yields (at_view Idle d) ?R abort_now st"
    by (rule yields_weaken [OF y_abort_now [OF assms(1)]]) (auto simp: at_view_def has_def)
  have cleanup: "yields (at_view Idle d) ?R (run_steps [CleanupTransaction, set_block TBLOCK_DEFAULT]) st"
    if "s = TRANS_ABORT"
    by (rule yields_seq [OF y_CleanupTransaction [OF assms(1) [unfolded that]]], simp)
      (erule yields_weaken [OF y_set_block], auto simp: at_view_def has_def)
  have start: "yields (at_view Idle d) ?R abort_start st" if "b = TBLOCK_DEFAULT"
    by (rule yields_weaken [OF y_abort_start [OF assms(1)]]) (auto simp: at_view_def has_def that)
  show "yields (at_view Idle d) ?R abort_out_once st"
    using assms(2) b now cleanup start
    by (cases b) (simp_all add: yields_def abort_out_once_def sub_block_def doomed_sub_def del: run_steps.simps)
qed

lemma leave_sub:
  assumes "has (F # ps) d st" "ps \<noteq> []" "sub_block (fc_block F)"
  shows "\<exists>st'. abort_out_once st = Inr st' \<and> has ps d st'"
proof (rule yields_sure)
  obtain b s nm sl k ch where F: "F = Face b s nm sl k ch" by (cases F)
  note 0 = assms(1) [unfolded F]
  have pops: "yields (has ps d) (\<lambda>e s. False) CleanupSubTransaction st"
    "yields (has ps d) (\<lambda>e s. False) abort_and_cleanup st"
    using y_CleanupSub [OF 0 assms(2)] y_abort_and_cleanup [OF 0 assms(2)] by simp_all
  show "yields (has ps d) (\<lambda>e s. False) abort_out_once st"
    using pops assms(3) cur_block_has [OF 0]
    by (cases b) (simp_all add: F yields_def abort_out_once_def sub_block_def doomed_sub_def)
qed

lemma leave_any:
  "has ps d st \<Longrightarrow> may_leave ps \<Longrightarrow> \<exists>st'. AbortOutOfAnyTransaction st = Inr st' \<and> at_view Idle d st'"
proof (induction ps arbitrary: st)
  case (Cons F ps)
  have idle: "blockState (cur_level st') = TBLOCK_DEFAULT" if "at_view Idle d st'" for st'
    using that by (cases "shape st'"; cases "tl (shape st')") (auto simp: at_view_def is_face_def dest: cur_block)
  show ?case
  proof (cases ps)
    case Nil
    then obtain b s k ch where F: "F = Face b s None 0 k ch" using Cons.prems(2) by (cases F) auto
    then obtain st' where "abort_out_once st = Inr st'" "at_view Idle d st'"
      using leave_top Cons.prems Nil by blast
    then show ?thesis using idle by (subst AbortOutOfAnyTransaction.simps) simp
  next
    case (Cons G qs)
    then have leave: "sub_block (fc_block F)" "fc_block G \<noteq> TBLOCK_DEFAULT" "may_leave ps"
      using Cons.prems(2) by auto
    obtain st1 where st1: "abort_out_once st = Inr st1" "has ps d st1"
      using leave_sub [OF Cons.prems(1) _ leave(1)] Cons by auto
    from Cons.IH [OF st1(2) leave(3)] obtain st' where st': "AbortOutOfAnyTransaction st1 = Inr st'" "at_view Idle d st'"
      by blast
    moreover have "blockState (cur_level st1) \<noteq> TBLOCK_DEFAULT"
      using st1(2) cur_block Cons leave(2) by (simp add: has_def)
    ultimately show ?thesis using st1 by (subst AbortOutOfAnyTransaction.simps) simp
  qed
qed simp

section \<open>The properties\<close>

definition view_code :: "xact_view \<Rightarrow> char" where
  "view_code v = (case v of Active _ \<Rightarrow> CHR ''T'' | Failed _ \<Rightarrow> CHR ''E'' | _ \<Rightarrow> CHR ''I'')"

lemma status_code:
  assumes "at_view v d st" "boundary v"
  shows "TransactionBlockStatusCode st = view_code v"
proof (cases "v = Idle")
  case True
  then show ?thesis using assms(1)
    by (cases "shape st"; cases "tl (shape st)")
      (auto simp: at_view_def is_face_def view_code_def TransactionBlockStatusCode_def dest: cur_block)
next
  case False
  then obtain ns where ns: "open_view v ns" using assms(2)
    by (cases v) (auto simp: boundary_def open_view_def)
  show ?thesis
    by (rule view_head [of v "shape st" ns])
      (use at_view_parts [OF assms(1)] ns cur_block [of st] in
        \<open>auto simp: open_view_def view_code_def TransactionBlockStatusCode_def\<close>)
qed

lemma after_ok_begin: "boundary v \<Longrightarrow> after_ok c (begin_view v) = after_ok c v"
  "after_error c (begin_view v) = after_error c v"
  by (cases c; simp add: begin_view_def after_ok_def) (simp add: begin_view_def after_error_def)

lemma run_session_append:
  "run_session (qs @ rs) st = (case run_session qs st of Inl e \<Rightarrow> Inl e | Inr st' \<Rightarrow> run_session rs st')"
  by (induction qs arbitrary: st) (auto split: sum.splits)

lemma single_statement:
  assumes "at_view v False st" "boundary v"
  shows "yields (\<lambda>st'. \<exists>w. after_ok c v = Some w \<and> at_view w False st')
    (\<lambda>e st1. (hard e \<or> refused e \<and> after_ok c v = None) \<and>
       (\<exists>st'. recover st1 = Inr st' \<and> at_view (after_error c v) False st'))
    (exec_simple_query [c]) st"
proof -
  have stops: "(hard e \<or> refused e \<and> after_ok c v = None) \<and>
       (\<exists>st'. recover st1 = Inr st' \<and> at_view (after_error c v) False st')"
    if "stops c (begin_view v) e st1" for e st1
    using that y_recover after_ok_begin assms(2) by (simp add: stops_def)
  have start: "yields (at_view (begin_view v) True) (stops c (begin_view v)) start_xact_command st"
    by (rule yields_weaken [OF y_start_command [OF assms(1) boundary_enters [OF assms(2)], of c]])
      (auto intro: left_stops)
  have body: "yields (\<lambda>st'. \<exists>w. after_ok c v = Some w \<and> at_view w False st') (stops c (begin_view v))
      (exec_statements False [c]) st1" if "at_view (begin_view v) True st1" for st1
  proof -
    have "yields (\<lambda>st'. \<exists>w. after_ok c v = Some w \<and> at_view w False st') (stops c (begin_view v))
        (run_steps (statement_steps False c True)) st1"
      using y_statement [OF that begin_enters [OF assms(2)], of False c True] assms(2)
      by (simp add: implicit_view_def stmt_view_def after_ok_begin begin_view_def [of "begin_view v"])
    moreover have "exec_statements False [c] st1 = run_steps (statement_steps False c True) st1"
      by (simp add: statement_steps_def split: sum.splits)
    ultimately show ?thesis by (simp add: yields_def)
  qed
  have "yields (\<lambda>st'. \<exists>w. after_ok c v = Some w \<and> at_view w False st') (stops c (begin_view v))
      (run_steps [start_xact_command, exec_statements False [c], finish_xact_command]) st"
    by (rule yields_seq [OF start], erule yields_seq [OF body], auto simp: yields_def finish_done)
  then have "yields (\<lambda>st'. \<exists>w. after_ok c v = Some w \<and> at_view w False st')
    (\<lambda>e st1. (hard e \<or> refused e \<and> after_ok c v = None) \<and>
       (\<exists>st'. recover st1 = Inr st' \<and> at_view (after_error c v) False st'))
    (run_steps [start_xact_command, exec_statements False [c], finish_xact_command]) st"
    by (rule yields_weaken) (use stops in auto)
  then show ?thesis by (simp add: exec_simple_query_def del: run_steps.simps)
qed

text \<open>A session that has just begun, and one inside a block, for the instances below.\<close>

definition idle_level :: xact_level where
  "idle_level =
     \<lparr> lv_xact = \<lparr> fullTransactionId = InvalidFullTransactionId, ts_state = TRANS_DEFAULT, childXids = [], maxChildXids = 0 \<rparr>,
       subTransactionId = InvalidSubTransactionId, savepoint_name = None, savepointLevel = 0,
       blockState = TBLOCK_DEFAULT, nestingLevel = 0, prevXactReadOnly = False, parallelModeLevel = 0,
       xact_chain = False \<rparr>"

definition new_session :: "bool list \<Rightarrow> xact_session" where
  "new_session fs =
     \<lparr> xact_levels = [idle_level], top_fxid = InvalidFullTransactionId,
       currentSubTransactionId = InvalidSubTransactionId, currentCommandId = FirstCommandId,
       currentCommandIdUsed = False,
       characteristics = \<lparr> XactIsoLevel = 1, XactReadOnly = False, XactDeferrable = False \<rparr>,
       default_characteristics = \<lparr> XactIsoLevel = 1, XactReadOnly = False, XactDeferrable = False \<rparr>,
       in_recovery = False, is_worker = False, next_fxid = \<lparr> full_value = 700 \<rparr>, parent_log = \<lparr> sub_page = (\<lambda>_ _. 0), sub_dirty = (\<lambda>_. False) \<rparr>,
       xact_started = False, faults = fs \<rparr>"

definition block_session :: "bool list \<Rightarrow> xact_session" where
  "block_session fs = (new_session fs)\<lparr> xact_levels :=
     [idle_level\<lparr> lv_xact := (lv_xact idle_level)\<lparr> ts_state := TRANS_ABORT \<rparr>, subTransactionId := 2,
        savepoint_name := Some ''a'', blockState := TBLOCK_SUBABORT, nestingLevel := 2 \<rparr>,
      idle_level\<lparr> lv_xact := (lv_xact idle_level)\<lparr> ts_state := TRANS_INPROGRESS \<rparr>, subTransactionId := 1,
        blockState := TBLOCK_INPROGRESS, nestingLevel := 1 \<rparr>] \<rparr>"

lemma new_session_idle: "at_view Idle False (new_session fs)"
  by (simp add: at_view_def new_session_def idle_level_def shape_def face_def sequential_def)

lemma block_session_failed: "at_view (Failed [''a'']) False (block_session fs)"
  by (simp add: at_view_def block_session_def new_session_def idle_level_def shape_def face_def sequential_def)

text \<open>
  C3: Queries refine the abstract specification of transaction blocks. From any state between
  queries, a query message of any statements, with errors raised at any of the points where one
  may be raised, ends in a state between queries again, in one of the views that the specification
  lists for it, and reports the status of that view; it is never met by a state it does not expect.
\<close>

theorem query_refines_views:
  assumes "at_view v False st" "boundary v"
  shows "\<exists>st' w. process_query cs st = Inr st' \<and> w \<in> set (query_outcomes cs v) \<and> at_view w False st' \<and>
           TransactionBlockStatusCode st' = view_code w"
proof -
  obtain st' w where "process_query cs st = Inr st'" "w \<in> set (query_outcomes cs v)" "at_view w False st'"
    using process_query_view [OF assms, of cs] by blast
  moreover from this have "TransactionBlockStatusCode st' = view_code w"
    using status_code query_outcomes_boundary by blast
  ultimately show ?thesis by blast
qed

theorem query_refines_views_witness:
  "\<exists>st' w. process_query [Rollback_To_Command ''a'', Release_Command ''a''] (block_session [False, True]) = Inr st' \<and>
     w \<in> {Failed [], Active [], Active [''a'']} \<and> at_view w False st' \<and>
     TransactionBlockStatusCode st' = view_code w"
proof -
  have "set (query_outcomes [Rollback_To_Command ''a'', Release_Command ''a''] (Failed [''a''])) = {Failed [], Active []}"
    by (simp add: query_outcomes_def Let_def implicit_view_def begin_view_def stmt_view_def after_ok_def
        after_error_def before_def is_transaction_stmt_def)
  then show ?thesis
    using query_refines_views [OF block_session_failed boundary_simps(3),
        of "[Rollback_To_Command ''a'', Release_Command ''a'']" "[False, True]"] by auto
qed

text \<open>
  C9: A query of one statement succeeds only where the specification lets it, and then reaches the
  view it promises. When it fails, either something went wrong on the way or the statement is one
  the specification rejects in that view; recovery then reaches the view promised for errors.
\<close>

theorem statement_meets_specification:
  assumes "at_view v False st" "boundary v"
  shows "case exec_simple_query [c] st of
           Inr st' \<Rightarrow> (\<exists>w. after_ok c v = Some w \<and> at_view w False st')
         | Inl (e, st1) \<Rightarrow> (hard e \<or> refused e \<and> after_ok c v = None) \<and>
             (\<exists>st'. recover st1 = Inr st' \<and> at_view (after_error c v) False st')"
  using single_statement [OF assms, of c] by (simp add: yields_def)

theorem statement_meets_specification_witness:
  "case exec_simple_query [Savepoint_Command ''b''] (block_session []) of
     Inr st' \<Rightarrow> False
   | Inl (e, st1) \<Rightarrow> (hard e \<or> refused e) \<and> (\<exists>st'. recover st1 = Inr st' \<and> at_view (Failed [''a'']) False st')"
  using statement_meets_specification [OF block_session_failed boundary_simps(3),
      of "Savepoint_Command ''b''" "[]"]
  by (auto simp: after_ok_def after_error_def split: sum.splits)



text \<open>
  C14: ROLLBACK always ends the block. After any sequence of queries, and whatever errors are raised
  during the rollback too, a query ROLLBACK leaves the session outside a block and idle.
\<close>

theorem rollback_ends_block:
  assumes "at_view Idle False st"
  shows "\<exists>st'. run_session (qs @ [[Rollback_Command False]]) st = Inr st' \<and> at_view Idle False st' \<and>
           TransactionBlockStatusCode st' = CHR ''I''"
proof -
  obtain st1 v where st1: "run_session qs st = Inr st1" "boundary v" "at_view v False st1"
    using run_session_view [OF assms] by fastforce
  obtain st' w where st': "process_query [Rollback_Command False] st1 = Inr st'"
      "w \<in> set (query_outcomes [Rollback_Command False] v)" "at_view w False st'"
    using process_query_view [OF st1(3,2)] by blast
  have "w = Idle"
    using st'(2) st1(2)
    by (cases v) (auto simp: query_outcomes_def Let_def implicit_view_def begin_view_def stmt_view_def
        after_ok_def after_error_def is_transaction_stmt_def boundary_def)
  moreover have "run_session (qs @ [[Rollback_Command False]]) st = Inr st'"
    using st1(1) st'(1) by (simp add: run_session_append)
  ultimately show ?thesis using st'(3) status_code [of Idle False st'] by (auto simp: view_code_def)
qed

theorem rollback_ends_block_witness:
  "\<exists>st'. run_session ([[Begin_Command None], [Savepoint_Command ''a''], [Other_Command [Raise_Error]]] @ [[Rollback_Command False]])
     (new_session []) = Inr st' \<and> at_view Idle False st' \<and> TransactionBlockStatusCode st' = CHR ''I''"
  by (rule rollback_ends_block [OF new_session_idle])

text \<open>
  C30: A backend that exits leaves its transaction. From every stack of levels with subtransactions
  in any state above a top-level transaction, \<open>AbortOutOfAnyTransaction\<close> returns and leaves the
  idle state behind.
\<close>

theorem AbortOutOfAnyTransaction_idle:
  assumes "may_leave (shape st)" "sequential st"
  shows "\<exists>st'. AbortOutOfAnyTransaction st = Inr st' \<and> at_view Idle (xact_started st) st'"
  using leave_any [of "shape st" "xact_started st" st] assms by (simp add: has_def)

theorem AbortOutOfAnyTransaction_idle_witness:
  "\<exists>st'. AbortOutOfAnyTransaction (block_session []) = Inr st' \<and> at_view Idle False st'"
proof -
  let ?st = "block_session []"
  have "may_leave (shape ?st)" "sequential ?st" "xact_started ?st = False"
    by (simp_all add: block_session_def new_session_def idle_level_def shape_def face_def sequential_def
        sub_block_def doomed_sub_def)
  then show ?thesis using AbortOutOfAnyTransaction_idle [of ?st] by simp
qed


text \<open>
  An error raised while the subtransaction of an inner block is started is one such case: the
  outer block catches it, and its rollback meets the level of the inner one.
\<close>

definition live_session :: "bool list \<Rightarrow> xact_session" where
  "live_session fs = (new_session fs)\<lparr> xact_levels :=
     [idle_level\<lparr> lv_xact := (lv_xact idle_level)\<lparr> ts_state := TRANS_INPROGRESS \<rparr>, subTransactionId := 1,
        blockState := TBLOCK_INPROGRESS, nestingLevel := 1 \<rparr>] \<rparr>"

definition nested_blocks :: "pl_stmt list" where
  "nested_blocks = [Pl_Exception_Block [Pl_Exception_Block [] []] [(\<lambda>e. True, [])]]"


lemma nested_start_error_is_fatal:
  "\<exists>st'. exec_stmts nested_blocks (live_session [False, True]) = Inl (Fatal_State TBLOCK_SUBBEGIN, st')"
  unfolding nested_blocks_def live_session_def new_session_def idle_level_def
  by (simp add: BeginInternalSubTransaction_def IsInParallelMode_def PushTransaction_def Let_def name_level_def
      commit_step StartSubTransaction_def set_state_def set_block_def update_level_def possible_fault_def
      StartTransactionCommand_def is_fatal_def RollbackAndReleaseCurrentSubTransaction_def
      InvalidSubTransactionId_def)

end
