(* ===== verification/Horizons.thy ===== *)
theory Horizons
  imports Proc_Snapshot
begin

text \<open>
  The horizons of visibility (\<^verbatim>\<open>src/backend/storage/ipc/procarray.c\<close>): \<open>ComputeXidHorizons\<close> and
  the functions that call it, and the functions that install an \<open>xmin\<close> or a flag in a
  \<open>PGPROC\<close> that the computation reads. \<open>vacuum_defer_cleanup_age\<close> and \<open>MyDatabaseId\<close> are
  arguments. The assertions of \<open>ComputeXidHorizons\<close> are the predicates \<open>horizons_ordered\<close> and
  \<open>horizons_final_asserts\<close>.
\<close>

section \<open>ComputeXidHorizons\<close>

definition InvalidOid :: uint32 where "InvalidOid = 0"

definition horizons_initial :: "proc_array \<Rightarrow> nat \<Rightarrow> ComputeXidHorizonsResult" where
  "horizons_initial st my =
     (let initial = TransactionIdAdvance (XidFromFullTransactionId (latestCompletedXid st));
          myxid = proc_xid (allProcs st my)
      in \<lparr> latest_completed = latestCompletedXid st,
           slot_xmin = replication_slot_xmin st,
           slot_catalog_xmin = replication_slot_catalog_xmin st,
           oldest_considered_running = initial,
           shared_oldest_nonremovable = initial,
           shared_oldest_nonremovable_raw = InvalidTransactionId,
           catalog_oldest_nonremovable = InvalidTransactionId,
           data_oldest_nonremovable = initial,
           temp_oldest_nonremovable = (if TransactionIdIsValid myxid then myxid else initial) \<rparr>)"

text \<open>One turn of the loop over the array.\<close>

definition horizons_proc ::
  "uint32 \<Rightarrow> proc_array \<Rightarrow> nat \<Rightarrow> ComputeXidHorizonsResult \<Rightarrow> ComputeXidHorizonsResult" where
  "horizons_proc MyDatabaseId st index h =
     (let proc = allProcs st (pgprocnos st ! index);
          statusFlags = dense_statusFlags st ! index;
          xid = dense_xids st ! index;
          xmin = TransactionIdOlder (proc_xmin proc) xid in
      if \<not> TransactionIdIsValid xmin then h
      else
        let h = h\<lparr> oldest_considered_running := TransactionIdOlder (oldest_considered_running h) xmin \<rparr> in
        if statusFlags AND (PROC_IN_VACUUM OR PROC_IN_LOGICAL_DECODING) \<noteq> 0 then h
        else
          let h = h\<lparr> shared_oldest_nonremovable := TransactionIdOlder (shared_oldest_nonremovable h) xmin \<rparr> in
          if proc_databaseId proc = MyDatabaseId \<or> MyDatabaseId = InvalidOid \<or>
             statusFlags AND PROC_AFFECTS_ALL_HORIZONS \<noteq> 0 \<or> RecoveryInProgress st
          then h\<lparr> data_oldest_nonremovable := TransactionIdOlder (data_oldest_nonremovable h) xmin \<rparr>
          else h)"

text \<open>The same change to the three horizons of the array, as in recovery and for the deferral.\<close>

definition lower_horizons ::
  "(TransactionId \<Rightarrow> TransactionId) \<Rightarrow> ComputeXidHorizonsResult \<Rightarrow> ComputeXidHorizonsResult" where
  "lower_horizons f h =
     h\<lparr> oldest_considered_running := f (oldest_considered_running h),
        shared_oldest_nonremovable := f (shared_oldest_nonremovable h),
        data_oldest_nonremovable := f (data_oldest_nonremovable h) \<rparr>"

definition horizons_defer ::
  "nat \<Rightarrow> proc_array \<Rightarrow> ComputeXidHorizonsResult \<Rightarrow> ComputeXidHorizonsResult" where
  "horizons_defer vacuum_defer_cleanup_age st h =
     (if RecoveryInProgress st
      then let kaxmin = KnownAssignedXidsGetOldestXmin (known_xids st) in
           lower_horizons (\<lambda>x. TransactionIdOlder x kaxmin) h
      else if vacuum_defer_cleanup_age > 0
      then lower_horizons
             (\<lambda>x. TransactionIdRetreatSafely x vacuum_defer_cleanup_age (latest_completed h)) h
      else h)"

text \<open>The limits of replication slots, the catalog horizon and the final adjustment.\<close>

definition horizons_slots :: "ComputeXidHorizonsResult \<Rightarrow> ComputeXidHorizonsResult" where
  "horizons_slots h =
     (let h = h\<lparr> shared_oldest_nonremovable :=
                   TransactionIdOlder (shared_oldest_nonremovable h) (slot_xmin h),
                 data_oldest_nonremovable :=
                   TransactionIdOlder (data_oldest_nonremovable h) (slot_xmin h) \<rparr>;
          h = h\<lparr> shared_oldest_nonremovable_raw := shared_oldest_nonremovable h,
                 shared_oldest_nonremovable :=
                   TransactionIdOlder (shared_oldest_nonremovable h) (slot_catalog_xmin h),
                 catalog_oldest_nonremovable :=
                   TransactionIdOlder (data_oldest_nonremovable h) (slot_catalog_xmin h) \<rparr>
      in h\<lparr> oldest_considered_running :=
              TransactionIdOlder
                (TransactionIdOlder
                  (TransactionIdOlder (oldest_considered_running h) (shared_oldest_nonremovable h))
                  (catalog_oldest_nonremovable h))
                (data_oldest_nonremovable h) \<rparr>)"

definition horizons_loop ::
  "uint32 \<Rightarrow> proc_array \<Rightarrow> nat \<Rightarrow> ComputeXidHorizonsResult" where
  "horizons_loop MyDatabaseId st my =
     fold (horizons_proc MyDatabaseId st) [0..<numProcs st] (horizons_initial st my)"

text \<open>The result, and the backend with its approximate horizons updated.\<close>

definition computed_horizons ::
  "nat \<Rightarrow> uint32 \<Rightarrow> proc_array \<Rightarrow> nat \<Rightarrow> ComputeXidHorizonsResult" where
  "computed_horizons vacuum_defer_cleanup_age MyDatabaseId st my =
     horizons_slots (horizons_defer vacuum_defer_cleanup_age st (horizons_loop MyDatabaseId st my))"

definition ComputeXidHorizons ::
  "nat \<Rightarrow> uint32 \<Rightarrow> proc_array \<Rightarrow> backend \<Rightarrow> ComputeXidHorizonsResult \<times> backend" where
  "ComputeXidHorizons vacuum_defer_cleanup_age MyDatabaseId st be =
     (let h = computed_horizons vacuum_defer_cleanup_age MyDatabaseId st (MyProc be)
      in (h, be\<lparr> my_vis := GlobalVisUpdateApply (RecentXmin be) h (my_vis be) \<rparr>))"

text \<open>The assertions: after the loop and after the deferral, and at the end.\<close>

definition horizons_ordered :: "ComputeXidHorizonsResult \<Rightarrow> bool" where
  "horizons_ordered h \<longleftrightarrow>
     TransactionIdPrecedesOrEquals (oldest_considered_running h) (shared_oldest_nonremovable h) \<and>
     TransactionIdPrecedesOrEquals (shared_oldest_nonremovable h) (data_oldest_nonremovable h)"

definition horizons_final_asserts :: "ComputeXidHorizonsResult \<Rightarrow> bool" where
  "horizons_final_asserts h \<longleftrightarrow>
     TransactionIdPrecedesOrEquals (shared_oldest_nonremovable h) (data_oldest_nonremovable h) \<and>
     TransactionIdPrecedesOrEquals (shared_oldest_nonremovable h) (catalog_oldest_nonremovable h) \<and>
     TransactionIdPrecedesOrEquals (oldest_considered_running h) (shared_oldest_nonremovable h) \<and>
     TransactionIdPrecedesOrEquals (oldest_considered_running h) (catalog_oldest_nonremovable h) \<and>
     TransactionIdPrecedesOrEquals (oldest_considered_running h) (data_oldest_nonremovable h) \<and>
     TransactionIdPrecedesOrEquals (oldest_considered_running h) (temp_oldest_nonremovable h) \<and>
     (\<not> TransactionIdIsValid (slot_xmin h) \<or>
        TransactionIdPrecedesOrEquals (oldest_considered_running h) (slot_xmin h)) \<and>
     (\<not> TransactionIdIsValid (slot_catalog_xmin h) \<or>
        TransactionIdPrecedesOrEquals (oldest_considered_running h) (slot_catalog_xmin h))"

section \<open>The horizon of a relation\<close>

text \<open>
  The fields of a relation that matter (\<^verbatim>\<open>src/include/utils/rel.h\<close>); \<open>rd_options_catalog\<close> is the
  option \<open>user_catalog_table\<close>, \<open>None\<close> without options. A missing relation is \<open>None\<close>.
\<close>

datatype wal_level = WAL_LEVEL_MINIMAL | WAL_LEVEL_REPLICA | WAL_LEVEL_LOGICAL

datatype relkind = RELKIND_RELATION | RELKIND_MATVIEW | RELKIND_TOASTVALUE | RELKIND_OTHER

record Relation =
  rd_id :: uint32
  relisshared :: bool
  rd_relkind :: relkind
  relpersistence_permanent :: bool
  rd_islocaltemp :: bool
  rd_createSubid :: uint32
  rd_firstRelfilenodeSubid :: uint32
  rd_options_catalog :: "bool option"

definition FirstUnpinnedObjectId :: uint32 where "FirstUnpinnedObjectId = 12000"

definition IsCatalogRelationOid :: "uint32 \<Rightarrow> bool" where
  "IsCatalogRelationOid relid \<longleftrightarrow> relid < FirstUnpinnedObjectId"

definition IsCatalogRelation :: "Relation \<Rightarrow> bool" where
  "IsCatalogRelation rel \<longleftrightarrow> IsCatalogRelationOid (rd_id rel)"

definition RelationNeedsWAL :: "wal_level \<Rightarrow> Relation \<Rightarrow> bool" where
  "RelationNeedsWAL level rel \<longleftrightarrow>
     relpersistence_permanent rel \<and>
     (level \<noteq> WAL_LEVEL_MINIMAL \<or> (rd_createSubid rel = 0 \<and> rd_firstRelfilenodeSubid rel = 0))"

definition RelationIsUsedAsCatalogTable :: "Relation \<Rightarrow> bool" where
  "RelationIsUsedAsCatalogTable rel \<longleftrightarrow>
     (case rd_options_catalog rel of
        None \<Rightarrow> False
      | Some user_catalog_table \<Rightarrow>
          (rd_relkind rel = RELKIND_RELATION \<or> rd_relkind rel = RELKIND_MATVIEW) \<and> user_catalog_table)"

definition RelationIsAccessibleInLogicalDecoding :: "wal_level \<Rightarrow> Relation \<Rightarrow> bool" where
  "RelationIsAccessibleInLogicalDecoding level rel \<longleftrightarrow>
     level = WAL_LEVEL_LOGICAL \<and> RelationNeedsWAL level rel \<and>
     (IsCatalogRelation rel \<or> RelationIsUsedAsCatalogTable rel)"

definition RELATION_IS_LOCAL :: "Relation \<Rightarrow> bool" where
  "RELATION_IS_LOCAL rel \<longleftrightarrow> rd_islocaltemp rel \<or> rd_createSubid rel \<noteq> 0"

definition GlobalVisHorizonKindForRel ::
  "wal_level \<Rightarrow> proc_array \<Rightarrow> Relation option \<Rightarrow> GlobalVisHorizonKind" where
  "GlobalVisHorizonKindForRel level st rel =
     (case rel of
        None \<Rightarrow> VISHORIZON_SHARED
      | Some r \<Rightarrow>
          if relisshared r \<or> RecoveryInProgress st then VISHORIZON_SHARED
          else if IsCatalogRelation r \<or> RelationIsAccessibleInLogicalDecoding level r
          then VISHORIZON_CATALOG
          else if \<not> RELATION_IS_LOCAL r then VISHORIZON_DATA
          else VISHORIZON_TEMP)"

definition horizon_of :: "GlobalVisHorizonKind \<Rightarrow> ComputeXidHorizonsResult \<Rightarrow> TransactionId" where
  "horizon_of kind h =
     (case kind of
        VISHORIZON_SHARED \<Rightarrow> shared_oldest_nonremovable h
      | VISHORIZON_CATALOG \<Rightarrow> catalog_oldest_nonremovable h
      | VISHORIZON_DATA \<Rightarrow> data_oldest_nonremovable h
      | VISHORIZON_TEMP \<Rightarrow> temp_oldest_nonremovable h)"

definition GetOldestNonRemovableTransactionId ::
  "nat \<Rightarrow> uint32 \<Rightarrow> wal_level \<Rightarrow> Relation option \<Rightarrow> proc_array \<Rightarrow> backend \<Rightarrow> TransactionId \<times> backend" where
  "GetOldestNonRemovableTransactionId vacuum_defer_cleanup_age MyDatabaseId level rel st be =
     (let (horizons, be) = ComputeXidHorizons vacuum_defer_cleanup_age MyDatabaseId st be
      in (horizon_of (GlobalVisHorizonKindForRel level st rel) horizons, be))"

definition GetOldestTransactionIdConsideredRunning ::
  "nat \<Rightarrow> uint32 \<Rightarrow> proc_array \<Rightarrow> backend \<Rightarrow> TransactionId \<times> backend" where
  "GetOldestTransactionIdConsideredRunning vacuum_defer_cleanup_age MyDatabaseId st be =
     (let (horizons, be) = ComputeXidHorizons vacuum_defer_cleanup_age MyDatabaseId st be
      in (oldest_considered_running horizons, be))"

text \<open>The xmin and the catalog xmin of a hot standby feedback message.\<close>

definition GetReplicationHorizons ::
  "nat \<Rightarrow> uint32 \<Rightarrow> proc_array \<Rightarrow> backend \<Rightarrow> (TransactionId \<times> TransactionId) \<times> backend" where
  "GetReplicationHorizons vacuum_defer_cleanup_age MyDatabaseId st be =
     (let (horizons, be) = ComputeXidHorizons vacuum_defer_cleanup_age MyDatabaseId st be
      in ((shared_oldest_nonremovable_raw horizons, slot_catalog_xmin horizons), be))"

section \<open>Installing what the computation reads\<close>

definition ProcArraySetReplicationSlotXmin ::
  "TransactionId \<Rightarrow> TransactionId \<Rightarrow> proc_array \<Rightarrow> proc_array" where
  "ProcArraySetReplicationSlotXmin xmin catalog_xmin st =
     st\<lparr> replication_slot_xmin := xmin, replication_slot_catalog_xmin := catalog_xmin \<rparr>"

text \<open>The flags that a lazy VACUUM sets before it takes its snapshot (\<open>vacuum_rel\<close>).\<close>

definition set_vacuum_flags :: "bool \<Rightarrow> nat \<Rightarrow> proc_array \<Rightarrow> proc_array" where
  "set_vacuum_flags is_wraparound my st =
     (let flags = proc_statusFlags (allProcs st my) OR PROC_IN_VACUUM;
          flags = (if is_wraparound then flags OR PROC_VACUUM_FOR_WRAPAROUND else flags)
      in (update_proc my (proc_statusFlags_update (\<lambda>_. flags)) st)
           \<lparr> dense_statusFlags := (dense_statusFlags st)[pgxactoff (allProcs st my) := flags] \<rparr>)"

text \<open>The search of the source of an imported snapshot, by virtual transaction id.\<close>

definition covers_import ::
  "uint32 \<Rightarrow> TransactionId \<Rightarrow> int \<Rightarrow> uint32 \<Rightarrow> proc_array \<Rightarrow> nat \<Rightarrow> bool" where
  "covers_import MyDatabaseId xmin backendId localXid st index \<longleftrightarrow>
     (let proc = allProcs st (pgprocnos st ! index) in
      \<not> dense_statusFlags st ! index AND PROC_IN_VACUUM \<noteq> 0 \<and>
      proc_backendId proc = backendId \<and> proc_lxid proc = localXid \<and>
      proc_databaseId proc = MyDatabaseId \<and>
      TransactionIdIsNormal (proc_xmin proc) \<and> TransactionIdPrecedesOrEquals (proc_xmin proc) xmin)"

definition install_xmin :: "TransactionId \<Rightarrow> proc_array \<Rightarrow> backend \<Rightarrow> proc_array \<times> backend" where
  "install_xmin xmin st be =
     (update_proc (MyProc be) (proc_xmin_update (\<lambda>_. xmin)) st, be\<lparr> my_TransactionXmin := xmin \<rparr>)"

definition ProcArrayInstallImportedXmin ::
  "uint32 \<Rightarrow> TransactionId \<Rightarrow> (int \<times> uint32) option \<Rightarrow> proc_array \<Rightarrow> backend \<Rightarrow>
   bool \<times> proc_array \<times> backend" where
  "ProcArrayInstallImportedXmin MyDatabaseId xmin sourcevxid st be =
     (case sourcevxid of
        None \<Rightarrow> (False, st, be)
      | Some (backendId, localXid) \<Rightarrow>
          if list_ex (covers_import MyDatabaseId xmin backendId localXid st) [0..<numProcs st]
          then (True, install_xmin xmin st be)
          else (False, st, be))"

definition PROC_XMIN_FLAGS :: uint8 where "PROC_XMIN_FLAGS = PROC_IN_VACUUM OR PROC_IN_SAFE_IC"

definition ProcArrayInstallRestoredXmin ::
  "uint32 \<Rightarrow> TransactionId \<Rightarrow> nat \<Rightarrow> proc_array \<Rightarrow> backend \<Rightarrow> bool \<times> proc_array \<times> backend" where
  "ProcArrayInstallRestoredXmin MyDatabaseId xmin source st be =
     (let proc = allProcs st source; xid = proc_xmin proc in
      if proc_databaseId proc = MyDatabaseId \<and> TransactionIdIsNormal xid \<and>
         TransactionIdPrecedesOrEquals xid xmin
      then
        let (st, be) = install_xmin xmin st be;
            me = allProcs st (MyProc be);
            flags = (proc_statusFlags me AND NOT PROC_XMIN_FLAGS) OR
                    (proc_statusFlags proc AND PROC_XMIN_FLAGS)
        in (True, (update_proc (MyProc be) (proc_statusFlags_update (\<lambda>_. flags)) st)
                    \<lparr> dense_statusFlags := (dense_statusFlags st)[pgxactoff me := flags] \<rparr>, be)
      else (False, st, be))"

section \<open>Other questions to the array\<close>

definition TransactionIdIsActive :: "TransactionId \<Rightarrow> proc_array \<Rightarrow> backend \<Rightarrow> bool" where
  "TransactionIdIsActive xid st be \<longleftrightarrow>
     \<not> TransactionIdPrecedes xid (RecentXmin be) \<and>
     list_ex (\<lambda>i. let pxid = dense_xids st ! i in
                TransactionIdIsValid pxid \<and> proc_pid (allProcs st (pgprocnos st ! i)) \<noteq> 0 \<and> pxid = xid)
       [0..<numProcs st]"

text \<open>The loop that both of the next functions run, from a start value.\<close>

definition oldest_normal_xid :: "TransactionId list \<Rightarrow> TransactionId \<Rightarrow> TransactionId" where
  "oldest_normal_xid xids start =
     fold (\<lambda>xid oldest. if \<not> TransactionIdIsNormal xid then oldest
                        else if TransactionIdPrecedes xid oldest then xid else oldest) xids start"

definition GetOldestActiveTransactionId :: "proc_array \<Rightarrow> TransactionId" where
  "GetOldestActiveTransactionId st =
     oldest_normal_xid (dense_xids st) (XidFromFullTransactionId (nextXid st))"

definition GetOldestSafeDecodingTransactionId :: "bool \<Rightarrow> proc_array \<Rightarrow> TransactionId" where
  "GetOldestSafeDecodingTransactionId catalogOnly st =
     (let oldest = XidFromFullTransactionId (nextXid st);
          oldest = (if TransactionIdIsValid (replication_slot_xmin st) \<and>
                       TransactionIdPrecedes (replication_slot_xmin st) oldest
                    then replication_slot_xmin st else oldest);
          oldest = (if catalogOnly \<and> TransactionIdIsValid (replication_slot_catalog_xmin st) \<and>
                       TransactionIdPrecedes (replication_slot_catalog_xmin st) oldest
                    then replication_slot_catalog_xmin st else oldest)
      in if \<not> RecoveryInProgress st then oldest_normal_xid (dense_xids st) oldest else oldest)"

record RunningTransactionsData =
  run_xcnt :: nat
  run_subxcnt :: nat
  subxid_overflow :: bool
  run_nextXid :: TransactionId
  oldestRunningXid :: TransactionId
  run_latestCompletedXid :: TransactionId
  run_xids :: "TransactionId list"

text \<open>The first loop: the xids, the oldest of them and whether a cache has overflowed.\<close>

definition running_proc ::
  "proc_array \<Rightarrow> nat \<Rightarrow> TransactionId list \<times> TransactionId \<times> bool \<Rightarrow> TransactionId list \<times> TransactionId \<times> bool" where
  "running_proc st index acc =
     (let (xids, oldest, overflowed) = acc; xid = dense_xids st ! index in
      if \<not> TransactionIdIsValid xid then acc
      else (xids @ [xid],
            if TransactionIdPrecedes xid oldest then xid else oldest,
            overflowed \<or> xc_overflowed (dense_subxidStates st ! index)))"

definition GetRunningTransactionData :: "proc_array \<Rightarrow> RunningTransactionsData" where
  "GetRunningTransactionData st =
     (let next_xid = XidFromFullTransactionId (nextXid st);
          (xids, oldest, overflowed) = fold (running_proc st) [0..<numProcs st] ([], next_xid, False);
          subxids = (if overflowed then []
                     else concat (map (\<lambda>i. take (xc_count (dense_subxidStates st ! i))
                                   (cached_subxids (allProcs st (pgprocnos st ! i)))) [0..<numProcs st]))
      in \<lparr> run_xcnt = length xids, run_subxcnt = length subxids, subxid_overflow = overflowed,
           run_nextXid = next_xid, oldestRunningXid = oldest,
           run_latestCompletedXid = XidFromFullTransactionId (latestCompletedXid st),
           run_xids = xids @ subxids \<rparr>)"

end
