(* ===== verification/Horizons_Bounds.thy ===== *)
theory Horizons_Bounds
  imports Horizons Snapshot_Safe
begin

text \<open>
  The order of the horizons: the loop over the array, the deferral and the slots keep
  \<open>oldest_considered_running\<close> at or before the shared horizon and that at or before the data
  horizon, and no horizon is newer than what it must protect. Distances are from the base of
  the window of the xids in use.
\<close>

section \<open>Retreating\<close>

text \<open>
  The xids that can be deferred by \<open>n\<close>: far enough from the base of the window, and not in
  front of the first normal xid when counted in 64 bits from \<open>rel\<close>.
\<close>

definition deferrable :: "TransactionId \<Rightarrow> nat \<Rightarrow> FullTransactionId \<Rightarrow> TransactionId \<Rightarrow> bool" where
  "deferrable b n rel x \<longleftrightarrow>
     xid_window b x \<and> n + 3 \<le> xid_dist b x \<and>
     xid_dist b (XidFromFullTransactionId rel) + 3 \<le> unat (full_value rel) + xid_dist b x"

lemma retreat_loop_cases: "retreat_loop w = (if w < 3 then - 1 else w)"
proof -
  have "retreat_loop (- 1) = (- 1 :: TransactionId)" by (simp add: retreat_loop.simps xid_consts)
  then have 0: "retreat_loop 0 = (- 1 :: TransactionId)"
    by (subst retreat_loop.simps) (simp add: xid_consts)
  then have 1: "retreat_loop 1 = (- 1 :: TransactionId)"
    by (subst retreat_loop.simps) (simp add: xid_consts)
  then have 2: "retreat_loop 2 = (- 1 :: TransactionId)"
    by (subst retreat_loop.simps) (simp add: xid_consts)
  show ?thesis
  proof (cases "w < 3")
    case True
    then have "w \<in> {0, 1, 2}" using less_3_word_iff [of w] by auto
    then show ?thesis using True 0 1 2 by (elim insertE) simp_all
  next
    case False
    then show ?thesis by (simp add: retreat_loop.simps [of w] xid_consts)
  qed
qed

lemma unat_full_relative:
  assumes w: "xid_window b (XidFromFullTransactionId rel)" "xid_window b x"
    and low: "xid_dist b (XidFromFullTransactionId rel) \<le> unat (full_value rel) + xid_dist b x"
    and high: "unat (full_value rel) < 2 ^ 63"
  shows "unat (full_value (FullXidRelativeTo rel x)) =
    unat (full_value rel) + xid_dist b x - xid_dist b (XidFromFullTransactionId rel)"
proof -
  let ?r = "XidFromFullTransactionId rel"
  have "scast (x - ?r) = (word_of_int (int (xid_dist b x) - int (xid_dist b ?r)) :: uint64)"
    using sint_diff_window [OF w(2,1)] by (metis scast_eq)
  moreover have "full_value rel = word_of_int (int (unat (full_value rel)))" by simp
  ultimately have eq: "full_value (FullXidRelativeTo rel x) =
      word_of_int (int (unat (full_value rel)) + (int (xid_dist b x) - int (xid_dist b ?r)))"
    by (metis FullXidRelativeTo_def FullTransactionIdFromU64_def FullTransactionId.select_convs(1) wi_hom_add)
  have "int (unat (full_value rel)) + (int (xid_dist b x) - int (xid_dist b ?r)) =
      int (unat (full_value rel) + xid_dist b x - xid_dist b ?r)"
    using low by simp
  then have "full_value (FullXidRelativeTo rel x) = of_nat (unat (full_value rel) + xid_dist b x - xid_dist b ?r)"
    unfolding eq by (metis of_int_of_nat_eq)
  moreover have "unat (full_value rel) + xid_dist b x - xid_dist b ?r < 2 ^ 64"
    by (rule le_less_trans [OF diff_le_self]) (use high w(2) in \<open>simp add: xid_window_def\<close>)
  ultimately show ?thesis by (simp add: unat_of_nat take_bit_nat_eq_self)
qed

text \<open>The deferral in 64-bit numbers, where it is linear.\<close>

definition skip_special :: "nat \<Rightarrow> nat \<Rightarrow> nat" where
  "skip_special M m = (if m mod M < 3 then m - m mod M - 1 else m)"

definition retreated :: "nat \<Rightarrow> nat \<Rightarrow> nat" where
  "retreated n f =
     (if f - 3 \<le> n then 3 else skip_special (2 ^ 32) (f - n))"

lemma retreated_le: "3 \<le> f \<Longrightarrow> retreated n f \<le> f"
  by (auto simp: retreated_def skip_special_def)

lemma skip_special_mono:
  assumes "m \<le> m'" "0 < M"
  shows "skip_special M m \<le> skip_special M m'"
proof (cases "m' mod M < 3 \<and> m' - m' mod M \<le> m")
  case True
  have "m' div M \<le> m div M"
    using True assms(2) div_le_mono [of "M * (m' div M)" m M] by (simp add: minus_mod_eq_mult_div)
  then have q: "m div M = m' div M" using div_le_mono [OF assms(1), of M] by simp
  then have "m - m mod M = m' - m' mod M" by (simp add: minus_mod_eq_mult_div)
  moreover have "m mod M \<le> m' mod M"
    unfolding minus_mult_div_eq_mod [symmetric, of m] minus_mult_div_eq_mod [symmetric, of m'] q
    using assms(1) by (rule diff_le_mono)
  ultimately show ?thesis using True by (simp add: skip_special_def)
next
  case False
  then show ?thesis using assms by (auto simp: skip_special_def not_le)
qed

lemma skip_special_ge:
  assumes "3 \<le> m" "4 \<le> M"
  shows "3 \<le> skip_special M m"
proof (cases "m < M")
  case False
  then have "1 \<le> m div M" using assms(2) by (simp add: Suc_le_eq div_greater_zero_iff)
  then have "M * 1 \<le> M * (m div M)" by (rule mult_le_mono2)
  then have "3 \<le> M * (m div M) - 1" using assms(2) by linarith
  then show ?thesis using assms by (simp add: skip_special_def minus_mod_eq_mult_div)
qed (use assms in \<open>simp add: skip_special_def\<close>)

lemma retreated_mono:
  assumes "f \<le> f'" shows "retreated n f \<le> retreated n f'"
proof (cases "f - 3 \<le> n")
  case True
  then show ?thesis using skip_special_ge [of "f' - n" "2 ^ 32"] by (auto simp: retreated_def)
next
  case False
  then show ?thesis using assms skip_special_mono [of "f - n" "f' - n" "2 ^ 32"] by (auto simp: retreated_def)
qed

lemma xid_dist_minus:
  assumes "k \<le> xid_dist b x"
  shows "xid_dist b (x - of_nat k) = xid_dist b x - k"
proof -
  have k: "unat (of_nat k :: TransactionId) = k"
    using assms le_less_trans [OF _ unsigned_less [of "x - b", where ?'a = nat]]
    by (simp add: unat_of_nat take_bit_nat_eq_self xid_dist_def)
  then have "of_nat k \<le> x - b" using assms by (simp add: word_le_nat_alt xid_dist_def)
  then have "unat (x - b - of_nat k) = unat (x - b) - k" using k by (simp add: unat_sub)
  then show ?thesis by (simp add: xid_dist_def algebra_simps)
qed

lemma RetreatSafely_at:
  assumes x: "deferrable b n rel x" and rel: "xid_window b (XidFromFullTransactionId rel)"
    "unat (full_value rel) < 2 ^ 63" and n: "n < 2 ^ 31"
  defines "f \<equiv> unat (full_value rel) + xid_dist b x - xid_dist b (XidFromFullTransactionId rel)"
  shows "\<exists>k \<le> xid_dist b x. TransactionIdRetreatSafely x n rel = x - of_nat k \<and>
    k \<le> f \<and> f - k = retreated n f \<and> TransactionIdIsNormal (TransactionIdRetreatSafely x n rel)"
proof -
  note x' = x [unfolded deferrable_def]
  let ?full = "full_value (FullXidRelativeTo rel x)"
  have full: "unat ?full = f"
    using unat_full_relative [OF rel(1) _ _ rel(2), of x] x' by (simp add: f_def)
  have f: "3 \<le> f" unfolding f_def using x' by linarith
  have "x = ucast ?full" using Xid_of_relative [of rel x] by (simp add: XidFromFullTransactionId_def)
  then have xf: "x = of_nat f" using full by (metis of_nat_unat)
  have special: "(of_nat m :: TransactionId) < 3 \<longleftrightarrow> m mod 2 ^ 32 < 3" for m
    by (simp add: word_less_nat_alt unat_of_nat take_bit_eq_mod)
  have normal: "TransactionIdIsNormal y \<longleftrightarrow> \<not> y < 3" for y
    by (auto simp: TransactionIdIsNormal_def xid_consts not_less)
  have cond: "?full - ucast FirstNormalTransactionId \<le> of_nat n \<longleftrightarrow> f - 3 \<le> n"
  proof -
    have "unat (?full - 3) = f - 3" using f full by (simp add: unat_sub word_le_nat_alt)
    moreover have "unat (of_nat n :: uint64) = n" using n by (simp add: unat_of_nat take_bit_nat_eq_self)
    ultimately show ?thesis by (simp add: word_le_nat_alt xid_consts)
  qed
  consider "n = 0" | "0 < n" "f - 3 \<le> n" | "0 < n" "n < f - 3" by linarith
  then show ?thesis
  proof cases
    case 1
    have "\<not> f mod 2 ^ 32 < 3" using x' special [of f] by (simp add: xf xid_window_def normal)
    then have "retreated 0 f = f" using f by (auto simp: retreated_def skip_special_def)
    then show ?thesis using 1 x'
      by (intro exI [of _ 0]) (simp add: TransactionIdRetreatSafely_def xid_window_def)
  next
    case 2
    then have "TransactionIdRetreatSafely x n rel = 3"
      using cond by (simp add: TransactionIdRetreatSafely_def Let_def xid_consts)
    moreover have "x - of_nat (f - 3) = 3" using f by (simp add: xf)
    moreover have "retreated n f = 3" using 2 by (simp add: retreated_def)
    ultimately show ?thesis using 2 f x' by (intro exI [of _ "f - 3"]) (simp add: normal)
  next
    case 3
    let ?m = "f - n" let ?s = "?m mod 2 ^ 32"
    have y: "TransactionIdRetreatSafely x n rel = (if ?s < 3 then - 1 else of_nat ?m)"
      using 3 cond special [of ?m]
      by (simp add: TransactionIdRetreatSafely_def TransactionIdRetreatedBy_def retreat_loop_cases xf)
    have r: "retreated n f = skip_special (2 ^ 32) ?m" using 3 by (simp add: retreated_def)
    show ?thesis
    proof (cases "?s < 3")
      case True
      have "(of_nat (?m - ?s) :: TransactionId) = 0"
        unfolding word_of_nat_eq_0_iff using dvd_minus_mod [of "2 ^ 32" ?m] by simp
      moreover have "?m - ?s = f - (n + ?s)" by simp
      moreover have "n + ?s \<le> f" using 3 mod_less_eq_dividend [of ?m "2 ^ 32"] by linarith
      ultimately have "x - of_nat (n + ?s) = 0" by (metis xf of_nat_diff)
      then have "x - of_nat (n + ?s + 1) = - 1" by (simp add: algebra_simps)
      moreover have "n + ?s + 1 \<le> f" 
        using skip_special_ge [of ?m "2 ^ 32"] True 3 by (simp add: skip_special_def)
      moreover have "\<not> (- 1 :: TransactionId) < 3" by simp
      ultimately show ?thesis using True 3 x' y r
        by (intro exI [of _ "n + ?s + 1"]) (simp add: normal skip_special_def)
    next
      case False
      then show ?thesis using 3 x' y r special [of ?m]
        by (intro exI [of _ n]) (simp add: normal skip_special_def xf)
    qed
  qed
qed

lemma RetreatSafely_window:
  assumes "deferrable b n rel x" "xid_window b (XidFromFullTransactionId rel)"
    "unat (full_value rel) < 2 ^ 63" "n < 2 ^ 31"
  shows "xid_window b (TransactionIdRetreatSafely x n rel)"
    and "xid_dist b (TransactionIdRetreatSafely x n rel) \<le> xid_dist b x"
  using RetreatSafely_at [OF assms] assms(1)
  by (auto simp: xid_window_def deferrable_def xid_dist_minus le_less_trans [OF diff_le_self])

lemma RetreatSafely_mono:
  assumes "deferrable b n rel x" "deferrable b n rel y" "xid_dist b x \<le> xid_dist b y"
    and rel: "xid_window b (XidFromFullTransactionId rel)" "unat (full_value rel) < 2 ^ 63" "n < 2 ^ 31"
  shows "xid_dist b (TransactionIdRetreatSafely x n rel) \<le> xid_dist b (TransactionIdRetreatSafely y n rel)"
proof -
  let ?c = "xid_dist b (XidFromFullTransactionId rel)" and ?v = "unat (full_value rel)"
  obtain k l where k: "k \<le> xid_dist b x" "TransactionIdRetreatSafely x n rel = x - of_nat k"
      "k \<le> ?v + xid_dist b x - ?c" "?v + xid_dist b x - ?c - k = retreated n (?v + xid_dist b x - ?c)"
    and l: "l \<le> xid_dist b y" "TransactionIdRetreatSafely y n rel = y - of_nat l"
      "l \<le> ?v + xid_dist b y - ?c" "?v + xid_dist b y - ?c - l = retreated n (?v + xid_dist b y - ?c)"
    using RetreatSafely_at [OF assms(1) rel] RetreatSafely_at [OF assms(2) rel] by blast
  have "?v + xid_dist b x - ?c - k \<le> ?v + xid_dist b y - ?c - l"
    unfolding k(4) l(4) using assms(3) by (intro retreated_mono) simp
  moreover have "?c \<le> ?v + xid_dist b x" using assms(1) by (simp add: deferrable_def)
  ultimately have "xid_dist b x - k \<le> xid_dist b y - l" using k(1,3) l(1,3) assms(3) by linarith
  then show ?thesis using k(1,2) l(1,2) by (simp add: xid_dist_minus)
qed

section \<open>The loop over the array\<close>

lemma window_valid: "xid_window b x \<Longrightarrow> TransactionIdIsValid x"
  by (simp add: xid_window_def normal_is_valid)

lemma invalid_not_valid: "\<not> TransactionIdIsValid InvalidTransactionId"
  by (simp add: TransactionIdIsValid_def)

lemma Older_eq:
  "xid_window b x \<Longrightarrow> TransactionIdIsValid y \<longrightarrow> xid_window b y \<Longrightarrow>
     TransactionIdOlder x y = (if TransactionIdIsValid y \<and> xid_dist b y \<le> xid_dist b x then y else x)"
  using window_valid [of b x] by (auto simp: TransactionIdOlder_def not_less le_less)

lemma Older_window:
  assumes "xid_window b x" "TransactionIdIsValid y \<longrightarrow> xid_window b y"
  shows "xid_window b (TransactionIdOlder x y)"
    and "xid_dist b (TransactionIdOlder x y) \<le> xid_dist b x"
    and "TransactionIdIsValid y \<Longrightarrow> xid_dist b (TransactionIdOlder x y) \<le> xid_dist b y"
    and "TransactionIdOlder x y = x \<or> TransactionIdIsValid y \<and> TransactionIdOlder x y = y"
    and "xid_dist b x \<le> xid_dist b z \<Longrightarrow> xid_window b z \<Longrightarrow>
           xid_dist b (TransactionIdOlder x y) \<le> xid_dist b (TransactionIdOlder z y)"
  using assms by (auto simp: Older_eq)

lemma Older_valid:
  assumes "TransactionIdIsValid x \<longrightarrow> xid_window b x" "TransactionIdIsValid y \<longrightarrow> xid_window b y"
  shows "TransactionIdIsValid (TransactionIdOlder x y) \<longleftrightarrow> TransactionIdIsValid x \<or> TransactionIdIsValid y"
    and "z \<in> {x, y} \<Longrightarrow> TransactionIdIsValid z \<Longrightarrow> xid_dist b (TransactionIdOlder x y) \<le> xid_dist b z"
    and "TransactionIdOlder x y \<in> {x, y}"
  using assms by (auto simp: TransactionIdOlder_def)

text \<open>The processes that the shared horizon and the data horizon take into account.\<close>

definition counted :: "proc_array \<Rightarrow> nat \<Rightarrow> bool" where
  "counted st i \<longleftrightarrow> dense_statusFlags st ! i AND (PROC_IN_VACUUM OR PROC_IN_LOGICAL_DECODING) = 0"

definition in_reach :: "uint32 \<Rightarrow> proc_array \<Rightarrow> nat \<Rightarrow> bool" where
  "in_reach db st i \<longleftrightarrow>
     proc_databaseId (allProcs st (pgprocnos st ! i)) = db \<or> db = InvalidOid \<or>
     dense_statusFlags st ! i AND PROC_AFFECTS_ALL_HORIZONS \<noteq> 0 \<or> RecoveryInProgress st"

definition xids_at :: "proc_array \<Rightarrow> nat \<Rightarrow> TransactionId set" where
  "xids_at st i =
     {x. TransactionIdIsValid x \<and> (x = proc_xmin (allProcs st (pgprocnos st ! i)) \<or> x = dense_xids st ! i)}"

definition protects :: "TransactionId \<Rightarrow> uint32 \<Rightarrow> proc_array \<Rightarrow> ComputeXidHorizonsResult \<Rightarrow> nat \<Rightarrow> bool" where
  "protects b db st h i \<longleftrightarrow>
     (\<forall>x \<in> xids_at st i.
        xid_dist b (oldest_considered_running h) \<le> xid_dist b x \<and>
        (counted st i \<longrightarrow> xid_dist b (shared_oldest_nonremovable h) \<le> xid_dist b x) \<and>
        (counted st i \<and> in_reach db st i \<longrightarrow> xid_dist b (data_oldest_nonremovable h) \<le> xid_dist b x))"

definition three_ok :: "(TransactionId \<Rightarrow> bool) \<Rightarrow> TransactionId \<Rightarrow> ComputeXidHorizonsResult \<Rightarrow> bool" where
  "three_ok P b h \<longleftrightarrow>
     P (oldest_considered_running h) \<and> P (shared_oldest_nonremovable h) \<and> P (data_oldest_nonremovable h) \<and>
     xid_dist b (oldest_considered_running h) \<le> xid_dist b (shared_oldest_nonremovable h) \<and>
     xid_dist b (shared_oldest_nonremovable h) \<le> xid_dist b (data_oldest_nonremovable h)"

definition lowered :: "TransactionId \<Rightarrow> ComputeXidHorizonsResult \<Rightarrow> ComputeXidHorizonsResult \<Rightarrow> bool" where
  "lowered b h h' \<longleftrightarrow>
     xid_dist b (oldest_considered_running h') \<le> xid_dist b (oldest_considered_running h) \<and>
     xid_dist b (shared_oldest_nonremovable h') \<le> xid_dist b (shared_oldest_nonremovable h) \<and>
     xid_dist b (data_oldest_nonremovable h') \<le> xid_dist b (data_oldest_nonremovable h) \<and>
     slot_xmin h' = slot_xmin h \<and> slot_catalog_xmin h' = slot_catalog_xmin h \<and>
     temp_oldest_nonremovable h' = temp_oldest_nonremovable h \<and> latest_completed h' = latest_completed h"

lemma lowered_refl [simp]: "lowered b h h" by (simp add: lowered_def)

lemma lowered_trans: "lowered b h h' \<Longrightarrow> lowered b h' h'' \<Longrightarrow> lowered b h h''"
  by (auto simp: lowered_def)

lemma protects_lowered: "protects b db st h i \<Longrightarrow> lowered b h h' \<Longrightarrow> protects b db st h' i"
  by (fastforce simp: protects_def lowered_def)

lemma horizons_proc_ok:
  assumes P: "\<And>x. P x \<Longrightarrow> xid_window b x" and h: "three_ok P b h" and xids: "\<forall>x \<in> xids_at st i. P x"
  shows "three_ok P b (horizons_proc db st i h) \<and> lowered b h (horizons_proc db st i h) \<and>
    protects b db st (horizons_proc db st i h) i"
proof -
  let ?xmin = "proc_xmin (allProcs st (pgprocnos st ! i))" and ?xid = "dense_xids st ! i"
  define m where "m = TransactionIdOlder ?xmin ?xid"
  have in_w: "TransactionIdIsValid ?xmin \<longrightarrow> xid_window b ?xmin" "TransactionIdIsValid ?xid \<longrightarrow> xid_window b ?xid"
    using xids P by (auto simp: xids_at_def)
  show ?thesis
  proof (cases "TransactionIdIsValid m")
    case False
    then have "xids_at st i = {}" using Older_valid(1) [OF in_w] by (auto simp: m_def xids_at_def)
    moreover have "horizons_proc db st i h = h" using False by (simp add: horizons_proc_def m_def)
    ultimately show ?thesis using h by (simp add: protects_def)
  next
    case True
    then have m: "P m" "m \<in> xids_at st i"
      using xids Older_valid(3) [OF in_w] by (auto simp: m_def xids_at_def)
    have below: "xid_dist b m \<le> xid_dist b x" if "x \<in> xids_at st i" for x
      using that Older_valid(2) [OF in_w] by (auto simp: m_def xids_at_def)
    define o' where "o' = TransactionIdOlder (oldest_considered_running h) m"
    define s' where "s' = TransactionIdOlder (shared_oldest_nonremovable h) m"
    define d' where "d' = TransactionIdOlder (data_oldest_nonremovable h) m"
    have w: "TransactionIdIsValid m \<longrightarrow> xid_window b m" using P [OF m(1)] by simp
    note older = Older_window [OF _ w] and hw = h [unfolded three_ok_def]
    have news: "P o'" "P s'" "P d'" "xid_dist b o' \<le> xid_dist b s'" "xid_dist b s' \<le> xid_dist b d'"
        "xid_dist b o' \<le> xid_dist b (oldest_considered_running h)"
        "xid_dist b s' \<le> xid_dist b (shared_oldest_nonremovable h)"
        "xid_dist b d' \<le> xid_dist b (data_oldest_nonremovable h)"
        "xid_dist b o' \<le> xid_dist b m" "xid_dist b s' \<le> xid_dist b m" "xid_dist b d' \<le> xid_dist b m"
      using older [of "oldest_considered_running h"] older [of "shared_oldest_nonremovable h"]
        older [of "data_oldest_nonremovable h"] hw P m(1) True
      unfolding o'_def s'_def d'_def by metis+
    have res: "horizons_proc db st i h =
        (if \<not> counted st i then h\<lparr> oldest_considered_running := o' \<rparr>
         else if in_reach db st i
         then h\<lparr> oldest_considered_running := o', shared_oldest_nonremovable := s', data_oldest_nonremovable := d' \<rparr>
         else h\<lparr> oldest_considered_running := o', shared_oldest_nonremovable := s' \<rparr>)"
      using True
      by (simp add: horizons_proc_def m_def [symmetric] o'_def s'_def d'_def counted_def in_reach_def Let_def)
    have "protects b db st (horizons_proc db st i h) i"
      unfolding protects_def
    proof
      fix x assume "x \<in> xids_at st i"
      then show "xid_dist b (oldest_considered_running (horizons_proc db st i h)) \<le> xid_dist b x \<and>
          (counted st i \<longrightarrow> xid_dist b (shared_oldest_nonremovable (horizons_proc db st i h)) \<le> xid_dist b x) \<and>
          (counted st i \<and> in_reach db st i \<longrightarrow>
             xid_dist b (data_oldest_nonremovable (horizons_proc db st i h)) \<le> xid_dist b x)"
        using below [of x] news(9-11) by (auto simp: res)
    qed
    moreover have "lowered b h (horizons_proc db st i h)" using news by (simp add: res lowered_def)
    moreover have "three_ok P b (horizons_proc db st i h)"
      using news hw by (auto simp: res three_ok_def)
    ultimately show ?thesis by blast
  qed
qed

lemma horizons_fold_ok:
  assumes P: "\<And>x. P x \<Longrightarrow> xid_window b x"
  shows "three_ok P b h \<Longrightarrow> \<forall>i \<in> set is. \<forall>x \<in> xids_at st i. P x \<Longrightarrow>
    (let h' = fold (horizons_proc db st) is h in
     three_ok P b h' \<and> lowered b h h' \<and> (\<forall>i \<in> set is. protects b db st h' i))"
proof (induction "is" arbitrary: h)
  case (Cons i "is")
  note step = horizons_proc_ok [OF P Cons.prems(1), where i = i and st = st and db = db]
  have "three_ok P b (horizons_proc db st i h)" using step Cons.prems(2) by simp
  from Cons.IH [OF this] show ?case
    using step Cons.prems(2) lowered_trans protects_lowered by (fastforce simp: Let_def)
qed (simp add: three_ok_def)

section \<open>The whole computation\<close>

text \<open>
  What the computation relies on: the array is mirrored, all xids and xmins it reads and the limits
  of the slots lie in one window, and with a deferral they can be deferred by that much.
\<close>

definition horizons_ok :: "TransactionId \<Rightarrow> nat \<Rightarrow> proc_array \<Rightarrow> nat \<Rightarrow> bool" where
  "horizons_ok b n st my \<longleftrightarrow>
     mirror_ok st \<and> my \<in> set (pgprocnos st) \<and> xids_ok b st \<and>
     (\<forall>procno \<in> set (pgprocnos st). TransactionIdIsValid (proc_xmin (allProcs st procno)) \<longrightarrow>
        xid_window b (proc_xmin (allProcs st procno))) \<and>
     (TransactionIdIsValid (replication_slot_xmin st) \<longrightarrow> xid_window b (replication_slot_xmin st)) \<and>
     (TransactionIdIsValid (replication_slot_catalog_xmin st) \<longrightarrow>
        xid_window b (replication_slot_catalog_xmin st)) \<and>
     (\<not> RecoveryInProgress st \<and> 0 < n \<longrightarrow>
        n < 2 ^ 31 \<and> unat (full_value (latestCompletedXid st)) < 2 ^ 63 \<and>
        deferrable b n (latestCompletedXid st)
          (TransactionIdAdvance (XidFromFullTransactionId (latestCompletedXid st))) \<and>
        (\<forall>i < numProcs st. \<forall>x \<in> xids_at st i. deferrable b n (latestCompletedXid st) x))"

lemma xids_at_window:
  assumes "horizons_ok b n st my" "i < numProcs st" "x \<in> xids_at st i"
  shows "xid_window b x"
proof -
  have "dense_xids st ! i = proc_xid (allProcs st (pgprocnos st ! i))" "pgprocnos st ! i \<in> set (pgprocnos st)"
    using assms(1,2) by (auto simp: horizons_ok_def mirror_ok_def mirrors_def)
  then show ?thesis using assms(1,3) by (auto simp: horizons_ok_def xids_at_def xids_ok_def Let_def)
qed

definition readable :: "TransactionId \<Rightarrow> nat \<Rightarrow> proc_array \<Rightarrow> TransactionId \<Rightarrow> bool" where
  "readable b n st x \<longleftrightarrow>
     (if RecoveryInProgress st \<or> n = 0 then xid_window b x else deferrable b n (latestCompletedXid st) x)"

lemma readable_window: "readable b n st x \<Longrightarrow> xid_window b x"
  by (simp add: readable_def deferrable_def split: if_splits)

lemma horizons_loop_ok:
  fixes db :: uint32
  assumes ok: "horizons_ok b n st my"
  defines "h \<equiv> horizons_loop db st my"
    and "nxt \<equiv> TransactionIdAdvance (XidFromFullTransactionId (latestCompletedXid st))"
  shows "three_ok (readable b n st) b h" "\<And>i. i < numProcs st \<Longrightarrow> protects b db st h i"
    and "xid_dist b (data_oldest_nonremovable h) \<le> xid_dist b nxt"
    and "xid_window b (temp_oldest_nonremovable h)"
      "xid_dist b (oldest_considered_running h) \<le> xid_dist b (temp_oldest_nonremovable h)"
    and "slot_xmin h = replication_slot_xmin st" "slot_catalog_xmin h = replication_slot_catalog_xmin st"
    and "latest_completed h = latestCompletedXid st"
proof -
  let ?h0 = "horizons_initial st my"
  have nxt: "readable b n st nxt" "xid_window b nxt"
    using ok by (auto simp: horizons_ok_def readable_def xids_ok_def nxt_def)
  have xids: "\<forall>i \<in> set [0..<numProcs st]. \<forall>x \<in> xids_at st i. readable b n st x"
    using ok xids_at_window [OF ok] by (auto simp: readable_def horizons_ok_def)
  have "three_ok (readable b n st) b ?h0"
    using nxt by (simp add: three_ok_def horizons_initial_def nxt_def Let_def)
  from horizons_fold_ok [OF readable_window this xids, where db = db]
  have res: "three_ok (readable b n st) b h" "lowered b ?h0 h" "\<forall>i < numProcs st. protects b db st h i"
    by (auto simp: h_def horizons_loop_def Let_def)
  then show "three_ok (readable b n st) b h" "\<And>i. i < numProcs st \<Longrightarrow> protects b db st h i" by auto
  have h0: "data_oldest_nonremovable ?h0 = nxt" "oldest_considered_running ?h0 = nxt"
      "temp_oldest_nonremovable ?h0 =
         (if TransactionIdIsValid (proc_xid (allProcs st my)) then proc_xid (allProcs st my) else nxt)"
    by (simp_all add: horizons_initial_def nxt_def Let_def)
  have low: "xid_dist b (oldest_considered_running h) \<le> xid_dist b nxt"
      "temp_oldest_nonremovable h = temp_oldest_nonremovable ?h0"
    using res(2) h0 by (simp_all add: lowered_def)
  show "xid_dist b (data_oldest_nonremovable h) \<le> xid_dist b nxt"
    "slot_xmin h = replication_slot_xmin st" "slot_catalog_xmin h = replication_slot_catalog_xmin st"
    "latest_completed h = latestCompletedXid st"
    using res(2) h0 by (simp_all add: lowered_def horizons_initial_def Let_def)
  let ?my = "pgxactoff (allProcs st my)"
  have my: "?my < numProcs st" "dense_xids st ! ?my = proc_xid (allProcs st my)"
    using ok mirror_member [of st my] by (auto simp: horizons_ok_def mirrors_def)
  have "xid_window b (proc_xid (allProcs st my)) \<and>
      xid_dist b (oldest_considered_running h) \<le> xid_dist b (proc_xid (allProcs st my))"
    if "TransactionIdIsValid (proc_xid (allProcs st my))"
  proof -
    have "proc_xid (allProcs st my) \<in> xids_at st ?my" using that my by (simp add: xids_at_def)
    then show ?thesis using xids_at_window [OF ok my(1)] res(3) my(1) by (auto simp: protects_def)
  qed
  then show "xid_window b (temp_oldest_nonremovable h)"
    "xid_dist b (oldest_considered_running h) \<le> xid_dist b (temp_oldest_nonremovable h)"
    using low h0(3) nxt(2) by (auto split: if_splits)
qed

lemma three_ok_ordered:
  assumes "three_ok P b h" "\<And>x. P x \<Longrightarrow> xid_window b x"
  shows "horizons_ordered h"
proof -
  have "xid_window b (oldest_considered_running h)" "xid_window b (shared_oldest_nonremovable h)"
      "xid_window b (data_oldest_nonremovable h)"
    using assms by (auto simp: three_ok_def)
  then show ?thesis using assms(1) by (simp add: three_ok_def horizons_ordered_def)
qed

lemma lower_horizons_ok:
  assumes h: "three_ok P b h"
    and f: "\<And>x. P x \<Longrightarrow> xid_window b (f x) \<and> xid_dist b (f x) \<le> xid_dist b x"
      "\<And>x y. P x \<Longrightarrow> P y \<Longrightarrow> xid_dist b x \<le> xid_dist b y \<Longrightarrow> xid_dist b (f x) \<le> xid_dist b (f y)"
  shows "three_ok (xid_window b) b (lower_horizons f h)" "lowered b h (lower_horizons f h)"
  using h f by (auto simp: three_ok_def lower_horizons_def lowered_def)

lemma horizons_defer_ok:
  fixes db :: uint32
  assumes ok: "horizons_ok b n st my"
  defines "h \<equiv> horizons_loop db st my"
  shows "three_ok (xid_window b) b (horizons_defer n st h)" "lowered b h (horizons_defer n st h)"
    and "RecoveryInProgress st \<Longrightarrow> v \<in> set (valid_xids (known_xids st)) \<Longrightarrow>
           xid_dist b (data_oldest_nonremovable (horizons_defer n st h)) \<le> xid_dist b v"
proof -
  note loop = horizons_loop_ok [OF ok, where db = db, folded h_def]
  let ?ka = "KnownAssignedXidsGetOldestXmin (known_xids st)"
  have known: "TransactionIdIsValid ?ka \<longrightarrow> xid_window b ?ka"
      "\<forall>v \<in> set (valid_xids (known_xids st)). TransactionIdIsValid ?ka \<and> xid_dist b ?ka \<le> xid_dist b v"
    if rec: "RecoveryInProgress st"
  proof -
    have "known_ok b (known_xids st)" using ok rec by (simp add: horizons_ok_def xids_ok_def)
    then have "ascending_from b (valid_xids (known_xids st))"
        "?ka = (case valid_xids (known_xids st) of [] \<Rightarrow> InvalidTransactionId | v # _ \<Rightarrow> v)"
      by (simp_all add: valid_xids_ascending GetOldestXmin_ok)
    then show "TransactionIdIsValid ?ka \<longrightarrow> xid_window b ?ka"
      "\<forall>v \<in> set (valid_xids (known_xids st)). TransactionIdIsValid ?ka \<and> xid_dist b ?ka \<le> xid_dist b v"
      using invalid_not_valid
      by (auto simp: ascending_from_def window_valid split: list.splits intro: less_imp_le)
  qed
  consider (rec) "RecoveryInProgress st" | (deferring) "\<not> RecoveryInProgress st" "0 < n"
    | (none) "\<not> RecoveryInProgress st" "n = 0" by blast
  then have both: "three_ok (xid_window b) b (horizons_defer n st h) \<and> lowered b h (horizons_defer n st h)"
  proof cases
    case rec
    then have eq: "horizons_defer n st h = lower_horizons (\<lambda>x. TransactionIdOlder x ?ka) h"
      by (simp add: horizons_defer_def)
    have "xid_window b (TransactionIdOlder x ?ka) \<and> xid_dist b (TransactionIdOlder x ?ka) \<le> xid_dist b x"
      if "readable b n st x" for x
      using Older_window(1,2) [OF readable_window [OF that] known(1) [OF rec]] by blast
    moreover have "xid_dist b (TransactionIdOlder x ?ka) \<le> xid_dist b (TransactionIdOlder y ?ka)"
      if "readable b n st x" "readable b n st y" "xid_dist b x \<le> xid_dist b y" for x y
      using Older_window(5) [OF readable_window [OF that(1)] known(1) [OF rec] that(3) readable_window [OF that(2)]] .
    ultimately show ?thesis unfolding eq by (intro conjI lower_horizons_ok [OF loop(1)]) simp_all
  next
    case deferring
    then have eq: "horizons_defer n st h =
        lower_horizons (\<lambda>x. TransactionIdRetreatSafely x n (latestCompletedXid st)) h"
      by (simp add: horizons_defer_def loop(8))
    have rel: "xid_window b (XidFromFullTransactionId (latestCompletedXid st))"
        "unat (full_value (latestCompletedXid st)) < 2 ^ 63" "n < 2 ^ 31"
      using ok deferring by (auto simp: horizons_ok_def xids_ok_def)
    have readable: "readable b n st = deferrable b n (latestCompletedXid st)"
      using deferring by (simp add: readable_def fun_eq_iff)
    show ?thesis
      using lower_horizons_ok [OF loop(1) [unfolded readable],
          of "\<lambda>x. TransactionIdRetreatSafely x n (latestCompletedXid st)"]
        RetreatSafely_window [OF _ rel] RetreatSafely_mono [OF _ _ _ rel]
      by (simp add: eq)
  next
    case none
    then show ?thesis using loop(1) by (simp add: horizons_defer_def readable_def three_ok_def)
  qed
  then show "three_ok (xid_window b) b (horizons_defer n st h)" "lowered b h (horizons_defer n st h)" by auto
  assume rec: "RecoveryInProgress st" and v: "v \<in> set (valid_xids (known_xids st))"
  have "readable b n st (data_oldest_nonremovable h)" using loop(1) by (simp add: three_ok_def)
  note below = Older_window(3) [OF readable_window [OF this] known(1) [OF rec]]
  have "TransactionIdIsValid ?ka" "xid_dist b ?ka \<le> xid_dist b v" using known(2) [OF rec] v by auto
  then have "xid_dist b (TransactionIdOlder (data_oldest_nonremovable h) ?ka) \<le> xid_dist b v"
    using below le_trans by blast
  then show "xid_dist b (data_oldest_nonremovable (horizons_defer n st h)) \<le> xid_dist b v"
    using rec by (simp add: horizons_defer_def lower_horizons_def Let_def)
qed

text \<open>The slots and the final adjustment.\<close>

lemma horizons_slots_ok:
  assumes h: "three_ok (xid_window b) b h" "xid_window b (temp_oldest_nonremovable h)"
      "xid_dist b (oldest_considered_running h) \<le> xid_dist b (temp_oldest_nonremovable h)"
    and slots: "TransactionIdIsValid (slot_xmin h) \<longrightarrow> xid_window b (slot_xmin h)"
      "TransactionIdIsValid (slot_catalog_xmin h) \<longrightarrow> xid_window b (slot_catalog_xmin h)"
  shows "horizons_final_asserts (horizons_slots h)" "three_ok (xid_window b) b (horizons_slots h)"
    "lowered b h (horizons_slots h)"
    and "xid_window b (catalog_oldest_nonremovable (horizons_slots h))"
      "xid_dist b (catalog_oldest_nonremovable (horizons_slots h)) \<le>
       xid_dist b (data_oldest_nonremovable (horizons_slots h))"
    and "xid_window b (shared_oldest_nonremovable_raw (horizons_slots h))"
      "xid_dist b (shared_oldest_nonremovable (horizons_slots h)) \<le>
       xid_dist b (shared_oldest_nonremovable_raw (horizons_slots h))"
proof -
  define s0 where "s0 = TransactionIdOlder (shared_oldest_nonremovable h) (slot_xmin h)"
  define d where "d = TransactionIdOlder (data_oldest_nonremovable h) (slot_xmin h)"
  define s where "s = TransactionIdOlder s0 (slot_catalog_xmin h)"
  define c where "c = TransactionIdOlder d (slot_catalog_xmin h)"
  define o0 where "o0 = TransactionIdOlder (oldest_considered_running h) s"
  define o1 where "o1 = TransactionIdOlder o0 c"
  define o2 where "o2 = TransactionIdOlder o1 d"
  note hw = h(1) [unfolded three_ok_def]
  have s0: "xid_window b s0" "xid_dist b s0 \<le> xid_dist b (shared_oldest_nonremovable h)"
      "TransactionIdIsValid (slot_xmin h) \<Longrightarrow> xid_dist b s0 \<le> xid_dist b (slot_xmin h)"
    unfolding s0_def using Older_window(1-3) [OF _ slots(1)] hw by blast+
  have d: "xid_window b d" "xid_dist b d \<le> xid_dist b (data_oldest_nonremovable h)" "xid_dist b s0 \<le> xid_dist b d"
    unfolding s0_def d_def using Older_window(1,2,5) [OF _ slots(1)] hw by blast+
  have s: "xid_window b s" "xid_dist b s \<le> xid_dist b s0"
      "TransactionIdIsValid (slot_catalog_xmin h) \<Longrightarrow> xid_dist b s \<le> xid_dist b (slot_catalog_xmin h)"
    unfolding s_def using Older_window(1-3) [OF s0(1) slots(2)] by blast+
  have c: "xid_window b c" "xid_dist b c \<le> xid_dist b d" "xid_dist b s \<le> xid_dist b c"
    unfolding s_def c_def using Older_window(1,2) [OF d(1) slots(2)] Older_window(5) [OF s0(1) slots(2) d(3,1)]
    by blast+
  have valid: "TransactionIdIsValid s" "TransactionIdIsValid c" "TransactionIdIsValid d"
    using s(1) c(1) d(1) window_valid by blast+
  have o0: "xid_window b o0" "xid_dist b o0 \<le> xid_dist b s" "xid_dist b o0 \<le> xid_dist b (oldest_considered_running h)"
    unfolding o0_def using Older_window(1-3) [of b "oldest_considered_running h" s] hw s(1) valid by blast+
  have o1: "xid_window b o1" "xid_dist b o1 \<le> xid_dist b o0"
    unfolding o1_def using Older_window(1,2) [of b o0 c] o0(1) c(1) by blast+
  have o2: "xid_window b o2" "xid_dist b o2 \<le> xid_dist b o1"
    unfolding o2_def using Older_window(1,2) [of b o1 d] o1(1) d(1) by blast+
  have res: "horizons_slots h = h\<lparr> shared_oldest_nonremovable := s, data_oldest_nonremovable := d,
      shared_oldest_nonremovable_raw := s0, catalog_oldest_nonremovable := c, oldest_considered_running := o2 \<rparr>"
    by (simp add: horizons_slots_def Let_def s0_def d_def s_def c_def o0_def o1_def o2_def)
  have le: "xid_dist b s \<le> xid_dist b d" "xid_dist b o2 \<le> xid_dist b s" "xid_dist b o2 \<le> xid_dist b c"
      "xid_dist b o2 \<le> xid_dist b d" "xid_dist b o2 \<le> xid_dist b (temp_oldest_nonremovable h)"
      "TransactionIdIsValid (slot_xmin h) \<Longrightarrow> xid_dist b o2 \<le> xid_dist b (slot_xmin h)"
      "TransactionIdIsValid (slot_catalog_xmin h) \<Longrightarrow> xid_dist b o2 \<le> xid_dist b (slot_catalog_xmin h)"
    using s0(3) s(2,3) d(3) c(2,3) o0(2,3) o1(2) o2(2) h(3) by linarith+
  show "horizons_final_asserts (horizons_slots h)"
    unfolding horizons_final_asserts_def res
    using le c(3) s(1) d(1) c(1) o2(1) h(2) slots window_precedes(2) [of b] by simp
  show "three_ok (xid_window b) b (horizons_slots h)"
    using le s(1) d(1) o2(1) by (simp add: res three_ok_def)
  show "lowered b h (horizons_slots h)"
    using s0(2) s(2) d(2) o0(3) o1(2) o2(2) by (simp add: res lowered_def)
  show "xid_window b (catalog_oldest_nonremovable (horizons_slots h))"
    "xid_dist b (catalog_oldest_nonremovable (horizons_slots h)) \<le> xid_dist b (data_oldest_nonremovable (horizons_slots h))"
    "xid_window b (shared_oldest_nonremovable_raw (horizons_slots h))"
    "xid_dist b (shared_oldest_nonremovable (horizons_slots h)) \<le>
     xid_dist b (shared_oldest_nonremovable_raw (horizons_slots h))"
    using s0(1) s(2) c(1,2) by (simp_all add: res)
qed

lemma computed_horizons_ok:
  fixes db :: uint32
  assumes ok: "horizons_ok b n st my"
  defines "h \<equiv> computed_horizons n db st my"
  shows "horizons_ordered (horizons_loop db st my)"
    and "horizons_ordered (horizons_defer n st (horizons_loop db st my))"
    and "horizons_final_asserts h" "three_ok (xid_window b) b h" "xid_window b (catalog_oldest_nonremovable h)"
    and "xid_dist b (catalog_oldest_nonremovable h) \<le> xid_dist b (data_oldest_nonremovable h)"
    and "\<And>i. i < numProcs st \<Longrightarrow> protects b db st h i"
    and "xid_dist b (data_oldest_nonremovable h) \<le>
           xid_dist b (TransactionIdAdvance (XidFromFullTransactionId (latestCompletedXid st)))"
    and "RecoveryInProgress st \<Longrightarrow> v \<in> set (valid_xids (known_xids st)) \<Longrightarrow>
           xid_dist b (data_oldest_nonremovable h) \<le> xid_dist b v"
proof -
  let ?h1 = "horizons_loop db st my" let ?h2 = "horizons_defer n st ?h1"
  note loop = horizons_loop_ok [OF ok, where db = db] and deferred = horizons_defer_ok [OF ok, where db = db]
  show "horizons_ordered ?h1" "horizons_ordered ?h2"
    using three_ok_ordered [OF loop(1) readable_window] three_ok_ordered [OF deferred(1)] by auto
  have slots: "slot_xmin ?h2 = replication_slot_xmin st" "slot_catalog_xmin ?h2 = replication_slot_catalog_xmin st"
      "temp_oldest_nonremovable ?h2 = temp_oldest_nonremovable ?h1"
      "xid_dist b (oldest_considered_running ?h2) \<le> xid_dist b (oldest_considered_running ?h1)"
    using deferred(2) loop(6,7) by (simp_all add: lowered_def)
  have "TransactionIdIsValid (slot_xmin ?h2) \<longrightarrow> xid_window b (slot_xmin ?h2)"
      "TransactionIdIsValid (slot_catalog_xmin ?h2) \<longrightarrow> xid_window b (slot_catalog_xmin ?h2)"
      "xid_window b (temp_oldest_nonremovable ?h2)"
      "xid_dist b (oldest_considered_running ?h2) \<le> xid_dist b (temp_oldest_nonremovable ?h2)"
    using ok loop(4,5) slots by (auto simp: horizons_ok_def)
  note final = horizons_slots_ok [OF deferred(1) this(3,4,1,2)]
  have h: "h = horizons_slots ?h2" by (simp add: h_def computed_horizons_def)
  show "horizons_final_asserts h" "three_ok (xid_window b) b h" "xid_window b (catalog_oldest_nonremovable h)"
    "xid_dist b (catalog_oldest_nonremovable h) \<le> xid_dist b (data_oldest_nonremovable h)"
    unfolding h using final by blast+
  have low: "lowered b ?h1 h" unfolding h using lowered_trans [OF deferred(2) final(3)] .
  then show "\<And>i. i < numProcs st \<Longrightarrow> protects b db st h i" using loop(2) protects_lowered by blast
  show "xid_dist b (data_oldest_nonremovable h) \<le>
      xid_dist b (TransactionIdAdvance (XidFromFullTransactionId (latestCompletedXid st)))"
    using low loop(3) by (simp add: lowered_def)
  show "xid_dist b (data_oldest_nonremovable h) \<le> xid_dist b v"
    if "RecoveryInProgress st" "v \<in> set (valid_xids (known_xids st))"
    using deferred(3) [OF that] final(3) by (simp add: h lowered_def)
qed

end
