(* ===== verification/Horizon_Steps.thy ===== *)
theory Horizon_Steps
  imports Horizons_Bounds
begin

text \<open>
  What happens between the computation of a horizon and its use: processes start and exit, assign
  xids, end transactions, take and import snapshots, start to vacuum. The relation \<open>horizon_step\<close>
  has all of these steps, and \<open>above_horizon\<close> is what they keep of a horizon once it is computed.
  A process keeps one snapshot that the next call of \<open>GetSnapshotData\<close> may reuse;
  \<open>snapshots_ok\<close> says when its xmin is still good.
\<close>

section \<open>Steps\<close>

definition counted_proc :: "PGPROC \<Rightarrow> bool" where
  "counted_proc p \<longleftrightarrow> proc_statusFlags p AND (PROC_IN_VACUUM OR PROC_IN_LOGICAL_DECODING) = 0"

text \<open>The conditions on all states: normal running, with all xids in one window.\<close>

definition system_ok :: "TransactionId \<Rightarrow> proc_array \<Rightarrow> bool" where
  "system_ok b st \<longleftrightarrow>
     mirror_ok st \<and> xids_ok b st \<and> \<not> RecoveryInProgress st \<and>
     xid_window b (XidFromFullTransactionId (nextXid st)) \<and>
     xid_dist b (TransactionIdAdvance (XidFromFullTransactionId (latestCompletedXid st))) \<le>
       xid_dist b (XidFromFullTransactionId (nextXid st)) \<and>
     (\<forall>procno \<in> set (pgprocnos st). TransactionIdIsValid (proc_xmin (allProcs st procno)) \<longrightarrow>
        xid_window b (proc_xmin (allProcs st procno))) \<and>
     unat (xactCompletionCount st) < 2 ^ 64 - 1"

text \<open>
  A process joins without an xmin; only a prepared transaction joins with an xid, that of the
  process that has prepared it. Imports come from processes that are not in logical decoding
  (the slot holds back the horizon for those), vacuum flags are set and xmins are restored
  before the process has an xid.
\<close>

inductive horizon_step ::
  "proc_array \<times> (nat \<Rightarrow> SnapshotData) \<Rightarrow> proc_array \<times> (nat \<Rightarrow> SnapshotData) \<Rightarrow> bool" where
  array: "proc_step st st' \<Longrightarrow> set (pgprocnos st') \<subseteq> set (pgprocnos st) \<Longrightarrow>
    horizon_step (st, snaps) (st', snaps)"
| start: "procno \<notin> set (pgprocnos st) \<Longrightarrow> proc_ok (allProcs st procno) \<Longrightarrow>
    \<not> TransactionIdIsValid (proc_xmin (allProcs st procno)) \<Longrightarrow>
    (TransactionIdIsValid (proc_xid (allProcs st procno)) \<longrightarrow>
       (\<exists>q \<in> set (pgprocnos st). counted_proc (allProcs st q) \<and>
          proc_xid (allProcs st q) = proc_xid (allProcs st procno))) \<Longrightarrow>
    snapXactCompletionCount s = 0 \<Longrightarrow>
    ProcArrayAdd procno st = Inr st' \<Longrightarrow> horizon_step (st, snaps) (st', snaps(procno := s))"
| snapshot: "MyProc be \<in> set (pgprocnos st) \<Longrightarrow>
    GetSnapshotData cid n (snaps (MyProc be)) st be = (s, st', be') \<Longrightarrow>
    horizon_step (st, snaps) (st', snaps(MyProc be := s))"
| imported: "MyProc be \<in> set (pgprocnos st) \<Longrightarrow>
    \<forall>procno \<in> set (pgprocnos st). proc_statusFlags (allProcs st procno) AND PROC_IN_LOGICAL_DECODING = 0 \<Longrightarrow>
    ProcArrayInstallImportedXmin db xmin source st be = (r, st', be') \<Longrightarrow>
    horizon_step (st, snaps) (st', snaps)"
| restored: "MyProc be \<in> set (pgprocnos st) \<Longrightarrow> procno \<in> set (pgprocnos st) \<Longrightarrow>
    proc_statusFlags (allProcs st procno) AND PROC_IN_LOGICAL_DECODING = 0 \<Longrightarrow>
    \<not> TransactionIdIsValid (proc_xid (allProcs st (MyProc be))) \<Longrightarrow>
    ProcArrayInstallRestoredXmin db xmin procno st be = (r, st', be') \<Longrightarrow>
    horizon_step (st, snaps) (st', snaps)"
| vacuum: "procno \<in> set (pgprocnos st) \<Longrightarrow> \<not> TransactionIdIsValid (proc_xid (allProcs st procno)) \<Longrightarrow>
    horizon_step (st, snaps) (set_vacuum_flags wraparound procno st, snaps)"
| slots: "horizon_step (st, snaps) (ProcArraySetReplicationSlotXmin xmin catalog_xmin st, snaps)"

text \<open>Runs through states with \<open>system_ok\<close>.\<close>

inductive horizon_run ::
  "TransactionId \<Rightarrow> proc_array \<times> (nat \<Rightarrow> SnapshotData) \<Rightarrow> proc_array \<times> (nat \<Rightarrow> SnapshotData) \<Rightarrow> bool"
  for b s where
  run_start: "horizon_run b s s"
| run_step: "horizon_run b s s' \<Longrightarrow> horizon_step s' s'' \<Longrightarrow> system_ok b (fst s'') \<Longrightarrow> horizon_run b s s''"

section \<open>The invariants\<close>

definition above_horizon :: "TransactionId \<Rightarrow> TransactionId \<Rightarrow> proc_array \<Rightarrow> bool" where
  "above_horizon b H st \<longleftrightarrow>
     xid_dist b H \<le> xid_dist b (TransactionIdAdvance (XidFromFullTransactionId (latestCompletedXid st))) \<and>
     (\<forall>procno \<in> set (pgprocnos st). counted_proc (allProcs st procno) \<longrightarrow>
        (\<forall>x \<in> {proc_xid (allProcs st procno), proc_xmin (allProcs st procno)}.
           TransactionIdIsValid x \<longrightarrow> xid_dist b H \<le> xid_dist b x))"

text \<open>An xmin that a snapshot taken now by \<open>me\<close> could have.\<close>

definition supported :: "proc_array \<Rightarrow> nat \<Rightarrow> TransactionId \<Rightarrow> bool" where
  "supported st me x \<longleftrightarrow>
     x = TransactionIdAdvance (XidFromFullTransactionId (latestCompletedXid st)) \<or>
     (\<exists>q \<in> set (pgprocnos st). TransactionIdIsValid x \<and> proc_xid (allProcs st q) = x \<and>
        (q = me \<or> counted_proc (allProcs st q)))"

definition snapshots_ok :: "proc_array \<times> (nat \<Rightarrow> SnapshotData) \<Rightarrow> bool" where
  "snapshots_ok s \<longleftrightarrow>
     (let (st, snaps) = s in
      \<forall>procno. snapXactCompletionCount (snaps procno) \<le> xactCompletionCount st \<and>
        (snapXactCompletionCount (snaps procno) = xactCompletionCount st \<and>
         snapXactCompletionCount (snaps procno) \<noteq> 0 \<longrightarrow>
           supported st procno (snap_xmin (snaps procno))))"

text \<open>The two ways a step relates to earlier snapshots: nobody with an xid ends, or the counter moves.\<close>

definition keeps_running :: "proc_array \<Rightarrow> proc_array \<Rightarrow> bool" where
  "keeps_running st st' \<longleftrightarrow>
     xactCompletionCount st' = xactCompletionCount st \<and> latestCompletedXid st' = latestCompletedXid st \<and>
     (\<forall>q \<in> set (pgprocnos st). TransactionIdIsValid (proc_xid (allProcs st q)) \<longrightarrow>
        q \<in> set (pgprocnos st') \<and> proc_xid (allProcs st' q) = proc_xid (allProcs st q) \<and>
        (counted_proc (allProcs st q) \<longrightarrow> counted_proc (allProcs st' q)))"

lemma supported_keeps: "keeps_running st st' \<Longrightarrow> supported st me x \<Longrightarrow> supported st' me x"
  by (auto simp: keeps_running_def supported_def)

lemma above_supported:
  "above_horizon b H st \<Longrightarrow> me \<in> set (pgprocnos st) \<Longrightarrow> counted_proc (allProcs st me) \<Longrightarrow> supported st me x \<Longrightarrow>
     xid_dist b H \<le> xid_dist b x"
  by (auto simp: above_horizon_def supported_def)

lemma keeps_snapshots:
  "keeps_running st st' \<Longrightarrow> snapshots_ok (st, snaps) \<Longrightarrow> snapshots_ok (st', snaps)"
  using supported_keeps by (auto simp: snapshots_ok_def keeps_running_def)

lemma moves_snapshots:
  assumes "xactCompletionCount st' = xactCompletionCount st + 1" "unat (xactCompletionCount st) < 2 ^ 64 - 1"
    "snapshots_ok (st, snaps)"
  shows "snapshots_ok (st', snaps)"
proof -
  have "unat (xactCompletionCount st') = Suc (unat (xactCompletionCount st))"
  proof -
    have "unat (- 1 :: uint64) = 2 ^ 64 - 1" by (simp add: unsigned_minus_1_eq_mask mask_eq_exp_minus_1)
    then have "xactCompletionCount st \<noteq> - 1" using assms(2) by force
    then have "1 + xactCompletionCount st \<noteq> 0" using minus_unique [of 1 "xactCompletionCount st"] by auto
    then show ?thesis using assms(1) unatSuc [of "xactCompletionCount st"] by (simp add: add.commute)
  qed
  then have "snapXactCompletionCount (snaps procno) < xactCompletionCount st'" for procno
    using assms(3) by (auto simp: snapshots_ok_def word_le_nat_alt word_less_nat_alt le_imp_less_Suc)
  then show ?thesis by (auto simp: snapshots_ok_def less_imp_le dest: less_imp_neq)
qed

section \<open>The steps keep the invariants\<close>

text \<open>What a step may change: the counter, the latest completed xid, and the xids of its process.\<close>

definition no_older :: "proc_array \<Rightarrow> TransactionId \<Rightarrow> bool" where
  "no_older st x \<longleftrightarrow>
     (\<exists>q \<in> set (pgprocnos st). counted_proc (allProcs st q) \<and>
        (\<exists>y \<in> {proc_xid (allProcs st q), proc_xmin (allProcs st q)}.
           TransactionIdIsValid y \<and> TransactionIdPrecedesOrEquals y x)) \<or>
     x = XidFromFullTransactionId (nextXid st) \<or>
     x = TransactionIdAdvance (XidFromFullTransactionId (latestCompletedXid st))"

definition step_effect :: "proc_array \<Rightarrow> proc_array \<Rightarrow> bool" where
  "step_effect st st' \<longleftrightarrow>
     (keeps_running st st' \<or> xactCompletionCount st' = xactCompletionCount st + 1) \<and>
     (latestCompletedXid st' = latestCompletedXid st \<or>
      (\<exists>x. latestCompletedXid st' = latestCompletedXid (MaintainLatestCompletedXid x st))) \<and>
     (\<forall>q \<in> set (pgprocnos st'). counted_proc (allProcs st' q) \<longrightarrow>
        (\<forall>x \<in> {proc_xid (allProcs st' q), proc_xmin (allProcs st' q)}.
           TransactionIdIsValid x \<longrightarrow> no_older st x))"

lemma precedes_self [simp]: "TransactionIdPrecedesOrEquals x x"
  by (simp add: TransactionIdPrecedesOrEquals_def)

lemma no_older_self:
  "q \<in> set (pgprocnos st) \<Longrightarrow> counted_proc (allProcs st q) \<Longrightarrow> TransactionIdIsValid x \<Longrightarrow>
     x = proc_xid (allProcs st q) \<or> x = proc_xmin (allProcs st q) \<Longrightarrow> no_older st x"
  unfolding no_older_def by (intro disjI1 bexI [of _ q] conjI bexI [of _ x]) auto

lemma system_windows:
  assumes "system_ok b st" "q \<in> set (pgprocnos st)" "TransactionIdIsValid x"
    "x = proc_xid (allProcs st q) \<or> x = proc_xmin (allProcs st q)"
  shows "xid_window b x"
  using assms by (auto simp: system_ok_def xids_ok_def Let_def)

lemma next_completed:
  assumes "xid_window b l" "xid_window b (TransactionIdAdvance l)"
  shows "xid_dist b l < xid_dist b (TransactionIdAdvance l)"
  using advance_precedes [of l] assms by (simp add: xid_window_def [of b l])

lemma effect_above:
  assumes eff: "step_effect st st'" and ok: "system_ok b st" "system_ok b st'" and H: "above_horizon b H st"
  shows "above_horizon b H st'"
proof -
  let ?l = "XidFromFullTransactionId (latestCompletedXid st)" and ?l' = "XidFromFullTransactionId (latestCompletedXid st')"
  have w: "xid_window b ?l" "xid_window b (TransactionIdAdvance ?l)" "xid_window b ?l'"
      "xid_window b (TransactionIdAdvance ?l')"
    using ok by (auto simp: system_ok_def xids_ok_def)
  have "xid_dist b (TransactionIdAdvance ?l) \<le> xid_dist b (TransactionIdAdvance ?l')"
  proof (cases "?l' = ?l")
    case False
    then have ne: "latestCompletedXid st' \<noteq> latestCompletedXid st" by auto
    then obtain x where "latestCompletedXid st' = latestCompletedXid (MaintainLatestCompletedXid x st)"
      using eff unfolding step_effect_def by blast
    with ne have "TransactionIdPrecedes ?l x" "?l' = x"
      by (auto simp: MaintainLatestCompletedXid_def Let_def Xid_of_relative split: if_splits)
    then have "xid_dist b ?l < xid_dist b ?l'" using w by simp
    then show ?thesis
      using advance_next [OF w(1,3)] next_completed [OF w(3,4)] by linarith
  qed simp
  then have latest: "xid_dist b H \<le> xid_dist b (TransactionIdAdvance ?l')"
    using H by (simp add: above_horizon_def)
  have "xid_dist b H \<le> xid_dist b (XidFromFullTransactionId (nextXid st))"
    using H ok(1) by (simp add: above_horizon_def system_ok_def)
  note from_next = this
  have "xid_dist b H \<le> xid_dist b x"
    if q: "q \<in> set (pgprocnos st')" "counted_proc (allProcs st' q)" "TransactionIdIsValid x"
      "x \<in> {proc_xid (allProcs st' q), proc_xmin (allProcs st' q)}" for q x
  proof -
    have xw: "xid_window b x" using system_windows [OF ok(2) q(1,3)] q(4) by simp
    from eff q have "no_older st x" unfolding step_effect_def by blast
    then consider "x = XidFromFullTransactionId (nextXid st)" | "x = TransactionIdAdvance ?l"
      | q' y where "q' \<in> set (pgprocnos st)" "counted_proc (allProcs st q')" "TransactionIdIsValid y"
          "y = proc_xid (allProcs st q') \<or> y = proc_xmin (allProcs st q')" "TransactionIdPrecedesOrEquals y x"
      unfolding no_older_def by blast
    then show ?thesis
    proof cases
      case 3
      then have "xid_dist b y \<le> xid_dist b x" using system_windows [OF ok(1) 3(1,3,4)] xw by simp
      moreover have "xid_dist b H \<le> xid_dist b y" using H 3 by (auto simp: above_horizon_def)
      ultimately show ?thesis by simp
    qed (use from_next H in \<open>auto simp: above_horizon_def\<close>)
  qed
  then show ?thesis using latest unfolding above_horizon_def by blast
qed

lemma effect_snapshots:
  "step_effect st st' \<Longrightarrow> system_ok b st \<Longrightarrow> snapshots_ok (st, snaps) \<Longrightarrow> snapshots_ok (st', snaps)"
  using keeps_snapshots moves_snapshots by (auto simp: step_effect_def system_ok_def)

lemma without_cached_xmin [simp]: "proc_xmin (without_cached x p) = proc_xmin p"
  by (auto simp: without_cached_def Let_def split: option.split)

lemma without_all_fields [simp]:
  "proc_xid (fold without_cached xs p) = proc_xid p" "proc_xmin (fold without_cached xs p) = proc_xmin p"
  "proc_statusFlags (fold without_cached xs p) = proc_statusFlags p"
  by (induction xs arbitrary: p) simp_all

lemma member_effect:
  assumes "pgprocnos st' = pgprocnos st" "allProcs st' = (allProcs st)(procno := p)"
    and "keeps_running st st' \<or> xactCompletionCount st' = xactCompletionCount st + 1"
    and "latestCompletedXid st' = latestCompletedXid st \<or>
      (\<exists>x. latestCompletedXid st' = latestCompletedXid (MaintainLatestCompletedXid x st))"
    and "procno \<in> set (pgprocnos st) \<Longrightarrow> counted_proc p \<Longrightarrow>
      (\<forall>x \<in> {proc_xid p, proc_xmin p}. TransactionIdIsValid x \<longrightarrow>
        (counted_proc (allProcs st procno) \<and> x \<in> {proc_xid (allProcs st procno), proc_xmin (allProcs st procno)}) \<or>
        no_older st x)"
  shows "step_effect st st'"
  using assms(3-5) no_older_self [of _ st] unfolding step_effect_def assms(1,2) by auto

lemma no_older_next [simp]: "no_older st (XidFromFullTransactionId (nextXid st))"
  by (simp add: no_older_def)

lemma member_keeps:
  assumes "pgprocnos st' = pgprocnos st" "allProcs st' = (allProcs st)(procno := p)"
    "xactCompletionCount st' = xactCompletionCount st" "latestCompletedXid st' = latestCompletedXid st"
    and "TransactionIdIsValid (proc_xid (allProcs st procno)) \<Longrightarrow>
      proc_xid p = proc_xid (allProcs st procno) \<and> (counted_proc (allProcs st procno) \<longrightarrow> counted_proc p)"
  shows "keeps_running st st'"
  using assms by (auto simp: keeps_running_def)

lemma proc_step_effect:
  assumes "proc_step st st'" "set (pgprocnos st') \<subseteq> set (pgprocnos st)" "mirror_ok st"
  shows "step_effect st st'"
  using assms(1)
proof (cases rule: proc_step.cases)
  case (join procno)
  then show ?thesis using ProcArrayAdd_ok [OF assms(3)] assms(2) by blast
next
  case (leave procno latestXid)
  note r = ProcArrayRemove_ok [OF assms(3) leave(2) leave(1)]
  have same: "proc_xid (allProcs st' q) = proc_xid (allProcs st q) \<and> proc_xmin (allProcs st' q) = proc_xmin (allProcs st q) \<and>
      counted_proc (allProcs st' q) = counted_proc (allProcs st q)" for q
    using r(3) unfolding same_procs_def counted_proc_def
    by (metis PGPROC.select_convs(1,2,10) PGPROC.surjective PGPROC.update_convs(4))
  have "keeps_running st st' \<or> xactCompletionCount st' = xactCompletionCount st + 1"
    using same r(2,4,5) leave(3) by (auto simp: keeps_running_def)
  moreover have "latestCompletedXid st' = latestCompletedXid st \<or>
      (\<exists>x. latestCompletedXid st' = latestCompletedXid (MaintainLatestCompletedXid x st))"
    using r(4) by auto
  ultimately show ?thesis using same r(2) no_older_self [of _ st] unfolding step_effect_def by auto
next
  case (end_xact procno latestXid)
  let ?p = "allProcs st procno"
  show ?thesis
  proof (cases "TransactionIdIsValid latestXid")
    case True
    then have st': "st' = (MaintainLatestCompletedXid latestXid (update_member procno ended_proc st))
        \<lparr> xactCompletionCount := xactCompletionCount st + 1 \<rparr>"
      using end_xact EndTransactionInternal_eq [OF assms(3) end_xact(2)]
      by (simp add: ProcArrayEndTransaction_def Let_def)
    have "latestCompletedXid st' = latestCompletedXid (MaintainLatestCompletedXid latestXid st)"
      by (simp add: st' MaintainLatestCompletedXid_def Let_def)
    then show ?thesis
      by (intro member_effect [of _ _ procno "ended_proc ?p"])
        (auto simp: st' ended_proc_def TransactionIdIsValid_def)
  next
    case False
    then have st': "st' = update_member procno (\<lambda>p. p\<lparr> proc_lxid := 0, proc_xmin := InvalidTransactionId,
        delayChkptFlags := 0, recoveryConflictPending := False,
        proc_statusFlags := proc_statusFlags p AND NOT PROC_VACUUM_STATE_MASK \<rparr>) st"
      using end_xact ProcArrayEndTransaction_idle_eq [OF assms(3) end_xact(2)] by simp
    have idle: "\<not> TransactionIdIsValid (proc_xid ?p)" using end_xact(3) False by simp
    have "keeps_running st st'"
      by (rule member_keeps [where procno = procno]) (use idle in \<open>simp_all add: st'\<close>)
    then show ?thesis
      using idle by (intro member_effect [of _ _ procno]) (auto simp: st' TransactionIdIsValid_def)
  qed
next
  case (clear procno)
  then show ?thesis
    using ClearTransaction_eq [OF assms(3) clear(2)]
    by (intro member_effect [of _ _ procno]) (auto simp: TransactionIdIsValid_def)
next
  case (abort_subs procno xid xids latestXid)
  let ?f = "fold without_cached (rev xids @ [xid])"
  have st': "st' = (MaintainLatestCompletedXid latestXid (update_member procno ?f st))
      \<lparr> xactCompletionCount := xactCompletionCount st + 1 \<rparr>"
    using abort_subs XidCacheRemove_eq [OF assms(3) abort_subs(2)] by (simp add: Let_def)
  have "latestCompletedXid st' = latestCompletedXid (MaintainLatestCompletedXid latestXid st)"
    by (simp add: st' MaintainLatestCompletedXid_def Let_def)
  then show ?thesis
    by (intro member_effect [of _ _ procno "?f (allProcs st procno)"])
      (auto simp: st' counted_proc_def simp del: fold_append)
next
  case (assign procno isSubXact under_postmaster fxid)
  let ?p = "allProcs st procno" and ?x = "XidFromFullTransactionId (nextXid st)"
  define p where "p = (if isSubXact then with_child ?x ?p else proc_xid_update (\<lambda>_. ?x) ?p)"
  have st': "st' = update_member procno
      (if isSubXact then with_child ?x else proc_xid_update (\<lambda>_. ?x)) (with_logs_extended st)"
    using GetNewTransactionId_eq [OF assms(3) assign(1,3)] by blast
  have p: "allProcs st' = (allProcs st)(procno := p)" "proc_xmin p = proc_xmin ?p"
      "proc_statusFlags p = proc_statusFlags ?p" "proc_xid p = (if isSubXact then proc_xid ?p else ?x)"
    by (auto simp: st' p_def with_child_def Let_def)
  have "keeps_running st st'"
    by (rule member_keeps [OF _ p(1)]) (use p assign(2) in \<open>simp_all add: st' counted_proc_def\<close>)
  then show ?thesis
    by (intro member_effect [OF _ p(1)]) (auto simp: st' counted_proc_def p)
qed

text \<open>The snapshot: its xmin is one that the current state supports.\<close>

lemma scan_xmin_source:
  "scan_xmin (fold (scan_proc st my xmax) offs acc) = scan_xmin acc \<or>
     (\<exists>off \<in> set offs. listed st my xmax off \<and> scan_xmin (fold (scan_proc st my xmax) offs acc) = dense_xids st ! off)"
proof (induction offs arbitrary: acc)
  case (Cons off offs)
  have "scan_xmin (scan_proc st my xmax off acc) = scan_xmin acc \<or>
      listed st my xmax off \<and> scan_xmin (scan_proc st my xmax off acc) = dense_xids st ! off"
    by (auto simp: scan_proc_def listed_def Let_def)
  then show ?case using Cons.IH [of "scan_proc st my xmax off acc"] by auto
qed simp

lemma counted_flags:
  "counted_proc p \<longleftrightarrow> proc_statusFlags p AND PROC_IN_VACUUM = 0 \<and> proc_statusFlags p AND PROC_IN_LOGICAL_DECODING = 0"
  by (simp add: counted_proc_def bit.conj_disj_distrib or_eq_0_iff)

lemma build_snapshot_supported:
  assumes ok: "system_ok b st" "MyProc be \<in> set (pgprocnos st)"
    and build: "build_snapshot cid n snapshot st be = (s, st', be')"
  shows "supported st (MyProc be) (snap_xmin s)"
proof -
  let ?my = "pgxactoff (allProcs st (MyProc be))"
  let ?xmax = "TransactionIdAdvance (XidFromFullTransactionId (latestCompletedXid st))"
  note mirror = ok(1) [unfolded system_ok_def, THEN conjunct1]
  from build obtain acc xmin0 where
    xmin0: "xmin0 = ?xmax \<or> TransactionIdIsNormal xmin0 \<and> xmin0 = dense_xids st ! ?my \<and> NormalTransactionIdPrecedes xmin0 ?xmax"
    and acc: "acc = (if \<not> RecoveryInProgress st
       then fold (scan_proc st ?my ?xmax) [0..<numProcs st]
              \<lparr> scan_xmin = xmin0, scan_xip = [], scan_subxip = [], scan_overflowed = False \<rparr>
       else let (subxids, xmin) = KnownAssignedXidsGetAndSetXmin (known_xids st) xmin0 ?xmax
            in \<lparr> scan_xmin = xmin, scan_xip = [], scan_subxip = subxids,
                 scan_overflowed = TransactionIdPrecedesOrEquals xmin (lastOverflowedXid st) \<rparr>)"
    and snap: "snap_xmin s = scan_xmin acc"
    by (rule build_snapshot_result)
  have acc: "acc = fold (scan_proc st ?my ?xmax) [0..<numProcs st]
      \<lparr> scan_xmin = xmin0, scan_xip = [], scan_subxip = [], scan_overflowed = False \<rparr>"
    using acc ok(1) by (simp add: system_ok_def)
  have own: "dense_xids st ! ?my = proc_xid (allProcs st (MyProc be))"
    using mirror_member(3) [OF mirror ok(2)] by (simp add: mirrors_def)
  have "supported st (MyProc be) xmin0"
    using xmin0 own ok(2) normal_is_valid [of xmin0] by (auto simp: supported_def)
  moreover have "supported st (MyProc be) (dense_xids st ! off)"
    if "off < numProcs st" "listed st ?my ?xmax off" for off
  proof -
    have "off \<noteq> ?my" using that(2) by (simp add: listed_def)
    note m = member_at [OF mirror ok(2) that(1) this]
    show ?thesis using that(2) m(1,3,5)
      by (auto simp: supported_def listed_def counted_proc_def TransactionIdIsValid_def or.commute)
  qed
  ultimately show ?thesis
    using scan_xmin_source [where st = st and my = ?my and xmax = ?xmax and offs = "[0..<numProcs st]"
        and acc = "\<lparr> scan_xmin = xmin0, scan_xip = [], scan_subxip = [], scan_overflowed = False \<rparr>"]
    unfolding snap acc by auto
qed

lemma GetSnapshotData_supported:
  assumes ok: "system_ok b st" "MyProc be \<in> set (pgprocnos st)" "snapshots_ok (st, snaps)"
    and take: "GetSnapshotData cid n (snaps (MyProc be)) st be = (s, st', be')"
  shows "supported st (MyProc be) (snap_xmin s)" "snapXactCompletionCount s = xactCompletionCount st"
    and "st' = st \<or> st' = update_proc (MyProc be) (proc_xmin_update (\<lambda>_. snap_xmin s)) st"
proof -
  let ?old = "snaps (MyProc be)"
  show "supported st (MyProc be) (snap_xmin s)" "snapXactCompletionCount s = xactCompletionCount st"
    "st' = st \<or> st' = update_proc (MyProc be) (proc_xmin_update (\<lambda>_. snap_xmin s)) st"
  proof (atomize (full), cases "GetSnapshotDataReuse cid ?old st be")
    case None
    then have build: "build_snapshot cid n ?old st be = (s, st', be')" using take by (simp add: GetSnapshotData_def)
    have "snapXactCompletionCount s = xactCompletionCount st"
        "st' = st \<or> st' = update_proc (MyProc be) (proc_xmin_update (\<lambda>_. snap_xmin s)) st"
      using build by (auto simp: build_snapshot_def Let_def split: if_splits prod.splits)
    then show "supported st (MyProc be) (snap_xmin s) \<and> snapXactCompletionCount s = xactCompletionCount st \<and>
        (st' = st \<or> st' = update_proc (MyProc be) (proc_xmin_update (\<lambda>_. snap_xmin s)) st)"
      using build_snapshot_supported [OF ok(1,2) build] by blast
  next
    case (Some r)
    then have reuse: "snapXactCompletionCount ?old \<noteq> 0" "snapXactCompletionCount ?old = xactCompletionCount st"
      by (auto simp: GetSnapshotDataReuse_def split: if_splits)
    have "snap_xmin s = snap_xmin ?old" "snapXactCompletionCount s = snapXactCompletionCount ?old"
        "st' = st \<or> st' = update_proc (MyProc be) (proc_xmin_update (\<lambda>_. snap_xmin s)) st"
      using Some take by (auto simp: GetSnapshotData_def GetSnapshotDataReuse_def Let_def split: if_splits)
    moreover have "supported st (MyProc be) (snap_xmin ?old)"
      using ok(3) reuse by (auto simp: snapshots_ok_def)
    ultimately show "supported st (MyProc be) (snap_xmin s) \<and> snapXactCompletionCount s = xactCompletionCount st \<and>
        (st' = st \<or> st' = update_proc (MyProc be) (proc_xmin_update (\<lambda>_. snap_xmin s)) st)"
      using reuse by simp
  qed
qed

lemma supported_no_older:
  "supported st me x \<Longrightarrow> me \<in> set (pgprocnos st) \<Longrightarrow> counted_proc (allProcs st me) \<Longrightarrow> no_older st x"
  unfolding supported_def using no_older_self [of _ st x] by (auto simp: no_older_def)

lemma xmin_installed:
  assumes "me \<in> set (pgprocnos st)" "st' = update_proc me (proc_xmin_update (\<lambda>_. x)) st"
    "counted_proc (allProcs st me) \<Longrightarrow> no_older st x"
  shows "step_effect st st'" "keeps_running st st'"
proof -
  define p where "p = (allProcs st me)\<lparr> proc_xmin := x \<rparr>"
  have p: "proc_xid p = proc_xid (allProcs st me)" "proc_xmin p = x" "counted_proc p = counted_proc (allProcs st me)"
    by (simp_all add: p_def counted_proc_def)
  have all: "allProcs st' = (allProcs st)(me := p)" by (simp add: assms(2) p_def)
  show keeps: "keeps_running st st'"
    by (rule member_keeps [OF _ all]) (simp_all add: assms(2) p)
  show "step_effect st st'"
    by (rule member_effect [OF _ all]) (use assms keeps in \<open>auto simp: p\<close>)
qed

lemma snapshots_ok_stored:
  "snapshots_ok (st, snaps) \<Longrightarrow> snapXactCompletionCount s = 0 \<or>
     snapXactCompletionCount s = xactCompletionCount st \<and> supported st me (snap_xmin s) \<Longrightarrow>
   snapshots_ok (st, snaps(me := s))"
  by (auto simp: snapshots_ok_def)

lemma keeps_fields [simp]:
  "keeps_running st (ProcArraySetReplicationSlotXmin xmin catalog_xmin st)"
  by (simp add: keeps_running_def ProcArraySetReplicationSlotXmin_def)

lemma start_effect:
  assumes ok: "mirror_ok st" and new: "procno \<notin> set (pgprocnos st)" "proc_ok (allProcs st procno)"
    "\<not> TransactionIdIsValid (proc_xmin (allProcs st procno))"
    "TransactionIdIsValid (proc_xid (allProcs st procno)) \<longrightarrow>
       (\<exists>q \<in> set (pgprocnos st). counted_proc (allProcs st q) \<and>
          proc_xid (allProcs st q) = proc_xid (allProcs st procno))"
    and add: "ProcArrayAdd procno st = Inr st'"
  shows "step_effect st st'" "keeps_running st st'"
proof -
  note r = ProcArrayAdd_ok [OF ok new(1,2) add]
  have same: "proc_xid (allProcs st' q) = proc_xid (allProcs st q) \<and> proc_xmin (allProcs st' q) = proc_xmin (allProcs st q) \<and>
      counted_proc (allProcs st' q) = counted_proc (allProcs st q)" for q
    using r unfolding same_procs_def counted_proc_def
    by (metis PGPROC.select_convs(1,2,10) PGPROC.surjective PGPROC.update_convs(4))
  show keeps: "keeps_running st st'" using r same by (auto simp: keeps_running_def)
  have joined: "no_older st (proc_xid (allProcs st procno))" if "TransactionIdIsValid (proc_xid (allProcs st procno))"
    using new(4) that no_older_self by metis
  show "step_effect st st'"
    unfolding step_effect_def
  proof (intro conjI ballI impI)
    fix q x assume "q \<in> set (pgprocnos st')" "counted_proc (allProcs st' q)" "TransactionIdIsValid x"
      "x \<in> {proc_xid (allProcs st' q), proc_xmin (allProcs st' q)}"
    then show "no_older st x"
      using r same joined new(3) no_older_self [of q st x] by (cases "q = procno") auto
  qed (use keeps r in auto)
qed

lemma imported_effect:
  assumes ok: "mirror_ok st" "MyProc be \<in> set (pgprocnos st)"
    "\<forall>procno \<in> set (pgprocnos st). proc_statusFlags (allProcs st procno) AND PROC_IN_LOGICAL_DECODING = 0"
    and im: "ProcArrayInstallImportedXmin db xmin source st be = (r, st', be')"
  shows "step_effect st st'" "keeps_running st st'"
proof -
  have "st' = st \<or> st' = update_proc (MyProc be) (proc_xmin_update (\<lambda>_. xmin)) st \<and> no_older st xmin"
  proof (cases "\<exists>backendId localXid i. i < numProcs st \<and> covers_import db xmin backendId localXid st i")
    case True
    then obtain backendId localXid i where i: "i < numProcs st" "covers_import db xmin backendId localXid st i"
      by blast
    let ?q = "pgprocnos st ! i"
    have q: "?q \<in> set (pgprocnos st)" "dense_statusFlags st ! i = proc_statusFlags (allProcs st ?q)"
      using ok(1) i(1) by (auto simp: mirror_ok_def mirrors_def)
    then have "counted_proc (allProcs st ?q)" using i(2) ok(3) by (auto simp: counted_flags covers_import_def Let_def)
    moreover have "TransactionIdIsValid (proc_xmin (allProcs st ?q))"
        "TransactionIdPrecedesOrEquals (proc_xmin (allProcs st ?q)) xmin"
      using i(2) by (auto simp: covers_import_def Let_def intro: normal_is_valid)
    ultimately have "no_older st xmin" using q(1) unfolding no_older_def by blast
    then show ?thesis using im
      by (auto simp: ProcArrayInstallImportedXmin_def install_xmin_def split: option.splits if_splits)
  next
    case False
    then show ?thesis using im
      by (auto simp: ProcArrayInstallImportedXmin_def list_ex_iff split: option.splits if_splits)
  qed
  moreover have "keeps_running st st" by (simp add: keeps_running_def)
  moreover have "step_effect st st" using calculation(2) no_older_self by (auto simp: step_effect_def)
  ultimately show "step_effect st st'" "keeps_running st st'" using xmin_installed [OF ok(2)] by metis+
qed

lemma restored_effect:
  assumes me: "MyProc be \<in> set (pgprocnos st)" "\<not> TransactionIdIsValid (proc_xid (allProcs st (MyProc be)))"
    and src: "procno \<in> set (pgprocnos st)" "proc_statusFlags (allProcs st procno) AND PROC_IN_LOGICAL_DECODING = 0"
    and re: "ProcArrayInstallRestoredXmin db xmin procno st be = (r, st', be')"
  shows "step_effect st st'" "keeps_running st st'"
proof -
  let ?src = "allProcs st procno" and ?me = "allProcs st (MyProc be)"
  have "keeps_running st st" by (simp add: keeps_running_def)
  moreover from this have "step_effect st st" using no_older_self by (auto simp: step_effect_def)
  moreover have "step_effect st st' \<and> keeps_running st st'" if "r"
  proof -
    have src': "TransactionIdIsNormal (proc_xmin ?src)" "TransactionIdPrecedesOrEquals (proc_xmin ?src) xmin"
      using re that by (auto simp: ProcArrayInstallRestoredXmin_def Let_def install_xmin_def split: if_splits)
    define p where "p = ?me\<lparr> proc_xmin := xmin, proc_statusFlags :=
      (proc_statusFlags ?me AND NOT PROC_XMIN_FLAGS) OR (proc_statusFlags ?src AND PROC_XMIN_FLAGS) \<rparr>"
    have st': "pgprocnos st' = pgprocnos st" "allProcs st' = (allProcs st)(MyProc be := p)"
        "xactCompletionCount st' = xactCompletionCount st" "latestCompletedXid st' = latestCompletedXid st"
      using re that
      by (auto simp: ProcArrayInstallRestoredXmin_def Let_def install_xmin_def p_def split: if_splits)
    have "proc_statusFlags ?src AND PROC_IN_VACUUM = 0" if "counted_proc p"
    proof -
      have "PROC_XMIN_FLAGS AND PROC_IN_VACUUM = PROC_IN_VACUUM" "NOT PROC_XMIN_FLAGS AND PROC_IN_VACUUM = 0"
        by (simp_all add: PROC_XMIN_FLAGS_def PROC_IN_VACUUM_def PROC_IN_SAFE_IC_def)
      then have "proc_statusFlags p AND PROC_IN_VACUUM = proc_statusFlags ?src AND PROC_IN_VACUUM"
        by (simp add: p_def bit.conj_disj_distrib2 and.assoc)
      then show ?thesis using that by (simp add: counted_flags)
    qed
    then have no: "no_older st xmin" if "counted_proc p"
      using that src src' normal_is_valid unfolding no_older_def by (auto simp: counted_flags)
    have keeps: "keeps_running st st'" by (rule member_keeps [OF st'(1,2)]) (use st' me in simp_all)
    moreover have "step_effect st st'"
      by (rule member_effect [OF st'(1,2)]) (use keeps st' no me in \<open>auto simp: p_def\<close>)
    ultimately show ?thesis by blast
  qed
  moreover have "st' = st" if "\<not> r"
    using re that by (auto simp: ProcArrayInstallRestoredXmin_def Let_def install_xmin_def split: if_splits)
  ultimately show "step_effect st st'" "keeps_running st st'" by metis+
qed

lemma vacuum_effect:
  assumes "\<not> TransactionIdIsValid (proc_xid (allProcs st procno))"
  shows "step_effect st (set_vacuum_flags wraparound procno st)" "keeps_running st (set_vacuum_flags wraparound procno st)"
proof -
  define flags where "flags = (if wraparound then proc_statusFlags (allProcs st procno) OR PROC_IN_VACUUM OR PROC_VACUUM_FOR_WRAPAROUND
    else proc_statusFlags (allProcs st procno) OR PROC_IN_VACUUM)"
  let ?st = "set_vacuum_flags wraparound procno st" and ?p = "(allProcs st procno)\<lparr> proc_statusFlags := flags \<rparr>"
  have st: "pgprocnos ?st = pgprocnos st" "allProcs ?st = (allProcs st)(procno := ?p)"
      "xactCompletionCount ?st = xactCompletionCount st" "latestCompletedXid ?st = latestCompletedXid st"
    by (auto simp: set_vacuum_flags_def Let_def flags_def or.assoc)
  have "flags AND PROC_IN_VACUUM = PROC_IN_VACUUM"
    by (rule bit_word_eqI) (auto simp: flags_def bit_simps)
  then have "\<not> counted_proc ?p" by (simp add: counted_flags PROC_IN_VACUUM_def)
  moreover show keeps: "keeps_running st ?st" by (rule member_keeps [OF st(1,2)]) (use st assms in simp_all)
  ultimately show "step_effect st ?st" by (intro member_effect [OF st(1,2)]) (use st in auto)
qed

lemma horizon_step_keeps:
  assumes "horizon_step (st, snaps) (st', snaps')" and ok: "system_ok b st" "system_ok b st'"
    and snaps: "snapshots_ok (st, snaps)"
  shows "step_effect st st' \<and> snapshots_ok (st', snaps')"
  using assms(1)
proof (cases rule: horizon_step.cases)
  case array
  then show ?thesis using proc_step_effect ok effect_snapshots [OF _ ok(1) snaps] by (auto simp: system_ok_def)
next
  case (start procno s)
  note r = start_effect [OF conjunct1 [OF ok(1) [unfolded system_ok_def]] start(2-5,7)]
  then show ?thesis using keeps_snapshots [OF r(2) snaps] start(1,6) snapshots_ok_stored by metis
next
  case (snapshot be cid n s be')
  note taken = GetSnapshotData_supported [OF ok(1) snapshot(2) snaps snapshot(3)]
  have eff: "step_effect st st'" "keeps_running st st'"
  proof -
    have "keeps_running st st" by (simp add: keeps_running_def)
    moreover from this have "step_effect st st" using no_older_self by (auto simp: step_effect_def)
    ultimately show "step_effect st st'" "keeps_running st st'"
      using taken(1,3) xmin_installed [OF snapshot(2)] supported_no_older [OF taken(1) snapshot(2)] by metis+
  qed
  have "snapshots_ok (st', snaps)" "supported st' (MyProc be) (snap_xmin s)"
    using keeps_snapshots [OF eff(2) snaps] supported_keeps [OF eff(2) taken(1)] by auto
  moreover have "snapXactCompletionCount s = xactCompletionCount st'"
    using taken(2) eff(2) by (simp add: keeps_running_def)
  ultimately show ?thesis using eff(1) snapshot(1) snapshots_ok_stored by metis
next
  case (imported be db xmin source r be')
  then show ?thesis
    using imported_effect [OF conjunct1 [OF ok(1) [unfolded system_ok_def]] imported(2-4)] keeps_snapshots snaps by auto
next
  case (restored be procno db xmin r be')
  then show ?thesis using restored_effect [OF restored(2,5,3,4,6)] keeps_snapshots snaps by auto
next
  case (vacuum procno wraparound)
  then show ?thesis
    using vacuum_effect [OF vacuum(4)] keeps_snapshots [OF vacuum_effect(2) [OF vacuum(4)] snaps] by simp
next
  case (slots xmin catalog_xmin)
  have "step_effect st st'"
    using no_older_self keeps_fields by (auto simp: slots step_effect_def ProcArraySetReplicationSlotXmin_def keeps_running_def)
  then show ?thesis using slots keeps_snapshots [OF keeps_fields snaps] by simp
qed

lemma horizon_run_keeps:
  assumes "horizon_run b s s'" "system_ok b (fst s)" "snapshots_ok s"
  shows "system_ok b (fst s') \<and> snapshots_ok s' \<and>
    (\<forall>H. above_horizon b H (fst s) \<longrightarrow> above_horizon b H (fst s'))"
  using assms
proof (induction rule: horizon_run.induct)
  case (run_step s' s'')
  obtain st snaps st' snaps' where s: "s' = (st, snaps)" "s'' = (st', snaps')" by (cases s', cases s'')
  have "step_effect st st' \<and> snapshots_ok (st', snaps')"
    using run_step by (intro horizon_step_keeps [of st snaps st' snaps' b]) (auto simp: s)
  then show ?case using run_step effect_above [of st st' b] by (auto simp: s)
qed simp

end
