(* ===== verification/Horizon_Props.thy ===== *)
theory Horizon_Props
  imports Horizon_Steps Proc_Props
begin

text \<open>
  The properties of the visibility horizons: the order of the computed horizons and what they
  bound, and that no snapshot taken later has an xmin older than a horizon computed before.
\<close>

section \<open>From the array to the processes\<close>

lemma counted_at:
  assumes "mirror_ok st" "procno \<in> set (pgprocnos st)"
  defines "i \<equiv> pgxactoff (allProcs st procno)"
  shows "i < numProcs st" "counted st i = counted_proc (allProcs st procno)"
    "xids_at st i = {x. TransactionIdIsValid x \<and>
       (x = proc_xmin (allProcs st procno) \<or> x = proc_xid (allProcs st procno))}"
    "in_reach db st i \<longleftrightarrow> proc_databaseId (allProcs st procno) = db \<or> db = InvalidOid \<or>
       proc_statusFlags (allProcs st procno) AND PROC_AFFECTS_ALL_HORIZONS \<noteq> 0 \<or> RecoveryInProgress st"
  using mirror_member(1-3) [OF assms(1,2)]
  by (auto simp: i_def mirrors_def counted_def counted_proc_def xids_at_def in_reach_def)

lemma computed_above:
  assumes ok: "horizons_ok b n st my"
  shows "above_horizon b (shared_oldest_nonremovable (computed_horizons n db st my)) st"
    and "xid_window b (shared_oldest_nonremovable (computed_horizons n db st my))"
proof -
  let ?h = "computed_horizons n db st my"
  note res = computed_horizons_ok [OF ok, where db = db]
  have m: "mirror_ok st" using ok by (simp add: horizons_ok_def)
  have "xid_dist b (shared_oldest_nonremovable ?h) \<le>
      xid_dist b (TransactionIdAdvance (XidFromFullTransactionId (latestCompletedXid st)))"
    using res(4,8) by (simp add: three_ok_def)
  moreover have "xid_dist b (shared_oldest_nonremovable ?h) \<le> xid_dist b x"
    if "procno \<in> set (pgprocnos st)" "counted_proc (allProcs st procno)" "TransactionIdIsValid x"
      "x \<in> {proc_xid (allProcs st procno), proc_xmin (allProcs st procno)}" for procno x
    using res(7) [OF counted_at(1) [OF m that(1)]] that counted_at(2,3) [OF m that(1)] by (auto simp: protects_def)
  ultimately show "above_horizon b (shared_oldest_nonremovable ?h) st"
    by (simp add: above_horizon_def)
  show "xid_window b (shared_oldest_nonremovable ?h)" using res(4) by (simp add: three_ok_def)
qed

lemma later_snapshot_above:
  fixes db :: uint32
  assumes "horizons_ok b n st my" "system_ok b st" "snapshots_ok (st, snaps)"
    and run: "horizon_run b (st, snaps) (st1, snaps1)"
    and me: "MyProc be1 \<in> set (pgprocnos st1)" "counted_proc (allProcs st1 (MyProc be1))"
    and take: "GetSnapshotData cid n1 (snaps1 (MyProc be1)) st1 be1 = (s, st2, be2)"
  defines "H \<equiv> shared_oldest_nonremovable (computed_horizons n db st my)"
  shows "above_horizon b H st1" "system_ok b st1" "xid_window b H" "xid_window b (snap_xmin s)"
    "TransactionIdPrecedesOrEquals H (snap_xmin s)"
proof -
  have inv: "system_ok b st1" "snapshots_ok (st1, snaps1)" "above_horizon b H st1"
    using horizon_run_keeps [OF run] assms(2,3) computed_above(1) [OF assms(1)] by (auto simp: H_def)
  then show "above_horizon b H st1" "system_ok b st1" by auto
  show H: "xid_window b H" using computed_above(2) [OF assms(1)] by (simp add: H_def)
  have sup: "supported st1 (MyProc be1) (snap_xmin s)"
    using GetSnapshotData_supported(1) [OF inv(1) me(1) inv(2) take] .
  show x: "xid_window b (snap_xmin s)"
    using sup inv(1) system_windows [OF inv(1)] by (auto simp: supported_def system_ok_def xids_ok_def)
  show "TransactionIdPrecedesOrEquals H (snap_xmin s)"
    using above_supported [OF inv(3) me sup] H x by simp
qed

section \<open>An example\<close>

text \<open>The sample array while process 7 runs transaction 32760, and after the transaction has ended.\<close>

definition sample_ended :: proc_array where
  "sample_ended = ProcArrayEndTransaction 7 65540 sample_array"

lemma sample_horizons_ok: "horizons_ok 32000 50 sample_array 4"
proof -
  have "xids_at sample_array 0 = {}" "xids_at sample_array 1 = {32760}"
    by (auto simp: xids_at_def sample_cached idle_proc_def busy_proc_def TransactionIdIsValid_def xid_consts)
  then have "\<forall>i < numProcs sample_array. \<forall>x \<in> xids_at sample_array i. x = 32760"
    by (auto simp: less_Suc_eq)
  moreover have "deferrable 32000 50 (latestCompletedXid sample_array) x" if "x = 32760 \<or> x = 70001" for x
    using that
    by (auto simp: deferrable_def xid_window_def xid_dist_def TransactionIdIsNormal_def xid_consts
        XidFromFullTransactionId_def)
  moreover have "TransactionIdAdvance (XidFromFullTransactionId (latestCompletedXid sample_array)) = 70001"
    by (simp add: TransactionIdAdvance_def XidFromFullTransactionId_def xid_consts)
  moreover have "replication_slot_xmin sample_array = 0" "replication_slot_catalog_xmin sample_array = 0"
    by (simp_all add: sample_array_def)
  ultimately show ?thesis
    using sample_mirror_ok sample_xids_ok
    by (auto simp: horizons_ok_def sample_cached idle_proc_def busy_proc_def TransactionIdIsValid_def xid_consts)
qed

lemma sample_counters: "unat (xactCompletionCount sample_array) = 9" "nextXid sample_array = \<lparr> full_value = 70002 \<rparr>"
  by (simp_all add: sample_array_def)

lemma sample_system_ok: "system_ok 32000 sample_array"
  using sample_mirror_ok sample_xids_ok
  by (auto simp: system_ok_def sample_counters idle_proc_def busy_proc_def TransactionIdIsValid_def xid_consts
      xid_window_def xid_dist_def TransactionIdIsNormal_def XidFromFullTransactionId_def TransactionIdAdvance_def)

lemma sample_ended_fields:
  "allProcs sample_ended = (\<lambda>p. if p = 7 then ended_proc busy_proc else idle_proc)"
  "pgprocnos sample_ended = [4, 7]" "mirror_ok sample_ended" "latestCompletedXid sample_ended = \<lparr> full_value = 70000 \<rparr>"
  "RecoveryInProgress sample_ended = False" "nextXid sample_ended = \<lparr> full_value = 70002 \<rparr>"
  "unat (xactCompletionCount sample_ended) = 10" "proc_step sample_array sample_ended"
proof -
  have mem: "7 \<in> set (pgprocnos sample_array)" by simp
  have old: "\<not> TransactionIdPrecedes (XidFromFullTransactionId \<lparr> full_value = 70000 \<rparr>) 65540"
    by (simp add: TransactionIdPrecedes_def XidFromFullTransactionId_def TransactionIdIsNormal_def xid_consts)
  have st: "sample_ended = (update_member 7 ended_proc sample_array)
      \<lparr> xactCompletionCount := xactCompletionCount sample_array + 1 \<rparr>"
    using EndTransactionInternal_eq [OF sample_mirror_ok mem, of 65540] old
    by (simp add: sample_ended_def ProcArrayEndTransaction_def Let_def MaintainLatestCompletedXid_def
        TransactionIdIsValid_def xid_consts)
  show "allProcs sample_ended = (\<lambda>p. if p = 7 then ended_proc busy_proc else idle_proc)"
    "pgprocnos sample_ended = [4, 7]" "latestCompletedXid sample_ended = \<lparr> full_value = 70000 \<rparr>"
    "nextXid sample_ended = \<lparr> full_value = 70002 \<rparr>"
    by (auto simp: st sample_counters)
  show "RecoveryInProgress sample_ended = False" "unat (xactCompletionCount sample_ended) = 10"
    by (simp_all add: st update_member_def Let_def) (simp_all add: sample_array_def)
  show step: "proc_step sample_array sample_ended"
    unfolding sample_ended_def
    by (rule proc_step.end_xact) (simp_all add: sample_cached TransactionIdIsValid_def xid_consts)
  show "mirror_ok sample_ended" using proc_step_mirror_ok [OF step sample_mirror_ok] .
qed

lemma sample_ended_ok: "system_ok 32000 sample_ended"
  by (auto simp: system_ok_def xids_ok_def sample_ended_fields ended_proc_def idle_proc_def TransactionIdIsValid_def
      xid_consts xid_window_def xid_dist_def TransactionIdIsNormal_def XidFromFullTransactionId_def
      TransactionIdAdvance_def Let_def)

lemma sample_horizon_run: "horizon_run 32000 (sample_array, \<lambda>_. sample_snapshot) (sample_ended, \<lambda>_. sample_snapshot)"
proof (rule run_step [OF run_start])
  show "horizon_step (sample_array, \<lambda>_. sample_snapshot) (sample_ended, \<lambda>_. sample_snapshot)"
    by (rule horizon_step.array) (simp_all add: sample_ended_fields)
qed (simp add: sample_ended_ok)

lemma sample_snapshots_ok: "snapshots_ok (sample_array, \<lambda>_. sample_snapshot)"
  by (simp add: snapshots_ok_def sample_snapshot_def)

section \<open>Properties\<close>

text \<open>
  C17: The horizons bound what they should. The assertions of \<open>ComputeXidHorizons\<close> never fail: not
  after the loop, not after the deferral by \<open>vacuum_defer_cleanup_age\<close>, not at the end. No xid and
  no xmin of a process is older than \<open>oldest_considered_running\<close>; those of processes that are
  neither in a lazy VACUUM nor in logical decoding are not older than the shared horizon, and
  those among them that belong to the database (or to all of them) not older than the data and
  the catalog horizon. The next xid to complete is not older than any horizon.
\<close>

theorem ComputeXidHorizons_bounds:
  assumes "horizons_ok b n st (MyProc be)" "ComputeXidHorizons n db st be = (h, be')"
  shows "horizons_ordered (horizons_loop db st (MyProc be)) \<and>
    horizons_ordered (horizons_defer n st (horizons_loop db st (MyProc be))) \<and>
    horizons_final_asserts h \<and>
    (\<forall>procno \<in> set (pgprocnos st). let p = allProcs st procno in
       \<forall>x \<in> {proc_xid p, proc_xmin p}. TransactionIdIsValid x \<longrightarrow>
         TransactionIdPrecedesOrEquals (oldest_considered_running h) x \<and>
         (counted_proc p \<longrightarrow>
            TransactionIdPrecedesOrEquals (shared_oldest_nonremovable h) x \<and>
            (proc_databaseId p = db \<or> db = InvalidOid \<or> proc_statusFlags p AND PROC_AFFECTS_ALL_HORIZONS \<noteq> 0 \<longrightarrow>
               TransactionIdPrecedesOrEquals (data_oldest_nonremovable h) x \<and>
               TransactionIdPrecedesOrEquals (catalog_oldest_nonremovable h) x))) \<and>
    TransactionIdPrecedesOrEquals (data_oldest_nonremovable h)
      (TransactionIdAdvance (XidFromFullTransactionId (latestCompletedXid st)))"
proof -
  note res = computed_horizons_ok [OF assms(1), where db = db]
  have h: "h = computed_horizons n db st (MyProc be)" using assms(2) by (simp add: ComputeXidHorizons_def Let_def)
  have m: "mirror_ok st" and next_w: "xid_window b (TransactionIdAdvance (XidFromFullTransactionId (latestCompletedXid st)))"
    using assms(1) by (auto simp: horizons_ok_def xids_ok_def)
  note three = res(4) [folded h, unfolded three_ok_def]
  have "xid_window b x \<and> (let p = allProcs st procno in
      xid_dist b (oldest_considered_running h) \<le> xid_dist b x \<and>
      (counted_proc p \<longrightarrow> xid_dist b (shared_oldest_nonremovable h) \<le> xid_dist b x) \<and>
      (counted_proc p \<and>
         (proc_databaseId p = db \<or> db = InvalidOid \<or> proc_statusFlags p AND PROC_AFFECTS_ALL_HORIZONS \<noteq> 0) \<longrightarrow>
         xid_dist b (data_oldest_nonremovable h) \<le> xid_dist b x))"
    if p: "procno \<in> set (pgprocnos st)" "TransactionIdIsValid x"
      "x \<in> {proc_xid (allProcs st procno), proc_xmin (allProcs st procno)}" for procno x
  proof -
    note at = counted_at [OF m p(1)]
    have "x \<in> xids_at st (pgxactoff (allProcs st procno))" using p(2,3) at(3) by auto
    then show ?thesis
      using res(7) [OF at(1), folded h] xids_at_window [OF assms(1) at(1)] at(2,4)
      by (auto simp: protects_def Let_def)
  qed
  note below = this
  have "horizons_final_asserts h" using res(3) h by simp
  moreover have "TransactionIdPrecedesOrEquals (data_oldest_nonremovable h)
      (TransactionIdAdvance (XidFromFullTransactionId (latestCompletedXid st)))"
    using res(8) [folded h] window_precedes(2) [OF _ next_w] three by blast
  moreover have "\<forall>procno \<in> set (pgprocnos st). let p = allProcs st procno in
       \<forall>x \<in> {proc_xid p, proc_xmin p}. TransactionIdIsValid x \<longrightarrow>
         TransactionIdPrecedesOrEquals (oldest_considered_running h) x \<and>
         (counted_proc p \<longrightarrow>
            TransactionIdPrecedesOrEquals (shared_oldest_nonremovable h) x \<and>
            (proc_databaseId p = db \<or> db = InvalidOid \<or> proc_statusFlags p AND PROC_AFFECTS_ALL_HORIZONS \<noteq> 0 \<longrightarrow>
               TransactionIdPrecedesOrEquals (data_oldest_nonremovable h) x \<and>
               TransactionIdPrecedesOrEquals (catalog_oldest_nonremovable h) x))"
    unfolding Let_def
  proof (intro ballI impI)
    fix procno x assume p: "procno \<in> set (pgprocnos st)" "TransactionIdIsValid x"
      "x \<in> {proc_xid (allProcs st procno), proc_xmin (allProcs st procno)}"
    have cat: "xid_dist b (catalog_oldest_nonremovable h) \<le> xid_dist b (data_oldest_nonremovable h)"
        "xid_window b (catalog_oldest_nonremovable h)"
      using res(5,6) h by auto
    show "TransactionIdPrecedesOrEquals (oldest_considered_running h) x \<and>
        (counted_proc (allProcs st procno) \<longrightarrow>
           TransactionIdPrecedesOrEquals (shared_oldest_nonremovable h) x \<and>
           (proc_databaseId (allProcs st procno) = db \<or> db = InvalidOid \<or>
              proc_statusFlags (allProcs st procno) AND PROC_AFFECTS_ALL_HORIZONS \<noteq> 0 \<longrightarrow>
              TransactionIdPrecedesOrEquals (data_oldest_nonremovable h) x \<and>
              TransactionIdPrecedesOrEquals (catalog_oldest_nonremovable h) x))"
      using below [OF p] three cat window_precedes(2) [of b _ x] by (auto simp: Let_def)
  qed
  ultimately show ?thesis using res(1,2) by blast
qed

theorem ComputeXidHorizons_bounds_witness:
  "\<exists>h be'. ComputeXidHorizons 50 5 sample_array (idle_backend 700 700 sample_vis) = (h, be') \<and>
     horizons_final_asserts h \<and> TransactionIdPrecedesOrEquals (data_oldest_nonremovable h) 32760"
proof -
  obtain h be' where h: "ComputeXidHorizons 50 5 sample_array (idle_backend 700 700 sample_vis) = (h, be')"
    by fastforce
  have "counted_proc busy_proc" "proc_databaseId busy_proc = 5" "TransactionIdIsValid 32760"
    by (simp_all add: counted_proc_def sample_cached TransactionIdIsValid_def xid_consts)
      (simp add: busy_proc_def idle_proc_def)
  then show ?thesis
    using ComputeXidHorizons_bounds [OF _ h, of 32000] sample_horizons_ok h
    by (simp add: sample_cached)
qed

text \<open>
  C7: A horizon, once computed, is safe for ever. From the moment \<open>ComputeXidHorizons\<close> has run,
  whatever processes start and exit, assign xids, commit and abort, take, reuse, import and
  restore snapshots or begin to vacuum, in any order: no snapshot that \<open>GetSnapshotData\<close>
  returns has an xmin older than the shared horizon, and no process advertises an older xmin,
  those in a lazy VACUUM or in logical decoding apart (as long as all xids stay in one window).
\<close>

theorem horizon_protects_snapshots:
  assumes "horizons_ok b n st (MyProc be)" "system_ok b st" "snapshots_ok (st, snaps)"
    and "ComputeXidHorizons n db st be = (h, be')"
    and "horizon_run b (st, snaps) (st1, snaps1)"
    and "MyProc be1 \<in> set (pgprocnos st1)" "counted_proc (allProcs st1 (MyProc be1))"
    and "GetSnapshotData cid n1 (snaps1 (MyProc be1)) st1 be1 = (s, st2, be2)"
  shows "TransactionIdPrecedesOrEquals (shared_oldest_nonremovable h) (snap_xmin s) \<and>
    (\<forall>procno \<in> set (pgprocnos st1). let p = allProcs st1 procno in
       counted_proc p \<and> TransactionIdIsValid (proc_xmin p) \<longrightarrow>
       TransactionIdPrecedesOrEquals (shared_oldest_nonremovable h) (proc_xmin p))"
proof -
  have h: "h = computed_horizons n db st (MyProc be)" using assms(4) by (simp add: ComputeXidHorizons_def Let_def)
  note later = later_snapshot_above(1,3,5) [OF assms(1-3,5-8), where db = db, folded h]
    and sys = later_snapshot_above(2) [OF assms(1-3,5-8)]
  have "TransactionIdPrecedesOrEquals (shared_oldest_nonremovable h) (proc_xmin (allProcs st1 procno))"
    if "procno \<in> set (pgprocnos st1)" "counted_proc (allProcs st1 procno)"
      "TransactionIdIsValid (proc_xmin (allProcs st1 procno))" for procno
    using later(1,2) system_windows [OF sys that(1,3)] that by (auto simp: above_horizon_def)
  then show ?thesis using later(3) by (simp add: Let_def)
qed

theorem horizon_protects_snapshots_witness:
  "\<exists>h be' s st2 be2. ComputeXidHorizons 50 5 sample_array (idle_backend 700 700 sample_vis) = (h, be') \<and>
     GetSnapshotData 3 0 sample_snapshot sample_ended (idle_backend 700 0 sample_vis) = (s, st2, be2) \<and>
     TransactionIdPrecedesOrEquals (shared_oldest_nonremovable h) (snap_xmin s)"
proof -
  obtain h be' where h: "ComputeXidHorizons 50 5 sample_array (idle_backend 700 700 sample_vis) = (h, be')"
    by fastforce
  obtain s st2 be2 where s: "GetSnapshotData 3 0 sample_snapshot sample_ended (idle_backend 700 0 sample_vis) = (s, st2, be2)"
    by (metis prod_cases3)
  have me: "MyProc (idle_backend 700 0 sample_vis) \<in> set (pgprocnos sample_ended)"
      "counted_proc (allProcs sample_ended (MyProc (idle_backend 700 0 sample_vis)))"
    by (simp_all add: sample_ended_fields counted_proc_def idle_proc_def)
  have "horizons_ok 32000 50 sample_array (MyProc (idle_backend 700 700 sample_vis))"
    using sample_horizons_ok by simp
  from horizon_protects_snapshots [OF this sample_system_ok sample_snapshots_ok h sample_horizon_run me, of 3 0 s st2 be2] s h
  show ?thesis by blast
qed

end
