(* ===== verification/Horizon_Running.thy ===== *)
theory Horizon_Running
  imports Horizon_Props
begin

text \<open>
  The list of running transactions that a primary writes to the log for its standbys
  (\<open>GetRunningTransactionData\<close>), and the oldest transaction with an xid.
\<close>

section \<open>The oldest xid\<close>

lemma oldest_normal_xid_window:
  assumes "xid_window b start" "\<forall>x \<in> set xs. TransactionIdIsNormal x \<longrightarrow> xid_window b x"
  shows "xid_window b (oldest_normal_xid xs start) \<and>
    oldest_normal_xid xs start \<in> insert start {x \<in> set xs. TransactionIdIsNormal x} \<and>
    (\<forall>x \<in> insert start {x \<in> set xs. TransactionIdIsNormal x}.
       TransactionIdPrecedesOrEquals (oldest_normal_xid xs start) x)"
  using assms
proof (induction xs arbitrary: start)
  case Nil
  then show ?case by (simp add: oldest_normal_xid_def)
next
  case (Cons x xs)
  define start' where "start' = (if \<not> TransactionIdIsNormal x then start else if TransactionIdPrecedes x start then x else start)"
  have step: "oldest_normal_xid (x # xs) start = oldest_normal_xid xs start'"
    by (simp add: oldest_normal_xid_def start'_def)
  have w: "xid_window b start'" using Cons.prems by (simp add: start'_def)
  have IH: "xid_window b (oldest_normal_xid xs start') \<and>
      oldest_normal_xid xs start' \<in> insert start' {x \<in> set xs. TransactionIdIsNormal x} \<and>
      (\<forall>x \<in> insert start' {x \<in> set xs. TransactionIdIsNormal x}.
         TransactionIdPrecedesOrEquals (oldest_normal_xid xs start') x)"
    using Cons.IH [OF w] Cons.prems(2) by simp
  have le: "TransactionIdPrecedesOrEquals (oldest_normal_xid xs start') y"
    if "y = start \<or> y = x" "TransactionIdIsNormal y" for y
  proof -
    have y: "xid_window b y" using that Cons.prems by auto
    have "xid_dist b start' \<le> xid_dist b y" using that y Cons.prems by (auto simp: start'_def)
    then show ?thesis using IH w y by (meson insertI1 le_trans window_precedes(2))
  qed
  have "TransactionIdIsNormal start" using Cons.prems(1) by (simp add: xid_window_def)
  then show ?case unfolding step using IH le by (auto simp: start'_def split: if_splits)
qed

lemma running_fold:
  "fold (running_proc st) offs (xids, oldest, overflowed) =
     (xids @ filter TransactionIdIsValid (map ((!) (dense_xids st)) offs),
      fold (\<lambda>xid oldest. if TransactionIdIsValid xid \<and> TransactionIdPrecedes xid oldest then xid else oldest)
        (map ((!) (dense_xids st)) offs) oldest,
      overflowed \<or> (\<exists>i \<in> set offs. TransactionIdIsValid (dense_xids st ! i) \<and> xc_overflowed (dense_subxidStates st ! i)))"
  by (induction offs arbitrary: xids oldest overflowed) (auto simp: running_proc_def Let_def)

lemma oldest_valid:
  "\<forall>x \<in> set xs. TransactionIdIsValid x \<longrightarrow> TransactionIdIsNormal x \<Longrightarrow>
     fold (\<lambda>xid oldest. if TransactionIdIsValid xid \<and> TransactionIdPrecedes xid oldest then xid else oldest) xs start =
     oldest_normal_xid xs start"
  unfolding oldest_normal_xid_def
  by (rule fold_cong) (auto simp: TransactionIdIsValid_def TransactionIdIsNormal_def xid_consts)

section \<open>The running transactions\<close>

definition running_tops :: "proc_array \<Rightarrow> TransactionId set" where
  "running_tops st = {x. TransactionIdIsValid x \<and> (\<exists>p \<in> set (pgprocnos st). x = proc_xid (allProcs st p))}"

definition running_children :: "proc_array \<Rightarrow> TransactionId set" where
  "running_children st = (\<Union>p \<in> set (pgprocnos st). set (cached (allProcs st p)))"

definition some_overflow :: "proc_array \<Rightarrow> bool" where
  "some_overflow st \<longleftrightarrow>
     (\<exists>p \<in> set (pgprocnos st). TransactionIdIsValid (proc_xid (allProcs st p)) \<and>
        xc_overflowed (subxidStatus (allProcs st p)))"

lemma member_index:
  assumes "mirror_ok st"
  shows "(\<exists>i < numProcs st. P (dense_xids st ! i) (dense_subxidStates st ! i) (allProcs st (pgprocnos st ! i))) \<longleftrightarrow>
    (\<exists>p \<in> set (pgprocnos st). P (proc_xid (allProcs st p)) (subxidStatus (allProcs st p)) (allProcs st p))"
  using assms by (auto simp: mirror_ok_def mirrors_def Bex_def in_set_conv_nth)

lemma running_tops_dense:
  assumes "mirror_ok st"
  shows "running_tops st = {x \<in> set (dense_xids st). TransactionIdIsValid x}"
  using member_index [OF assms, of "\<lambda>y _ _. y = x \<and> TransactionIdIsValid x" for x] assms
  by (auto simp: running_tops_def mirror_ok_def in_set_conv_nth set_eq_iff) metis+

lemma running_children_dense:
  assumes "mirror_ok st"
  shows "(\<Union>i < numProcs st. set (take (xc_count (dense_subxidStates st ! i)) (cached_subxids (allProcs st (pgprocnos st ! i))))) =
    running_children st"
proof -
  have "x \<in> (\<Union>i < numProcs st. set (take (xc_count (dense_subxidStates st ! i)) (cached_subxids (allProcs st (pgprocnos st ! i))))) \<longleftrightarrow>
      x \<in> running_children st" for x
    using member_index [OF assms, of "\<lambda>_ s p. x \<in> set (take (xc_count s) (cached_subxids p))"]
    by (auto simp: running_children_def cached_def)
  then show ?thesis by blast
qed

lemma running_data:
  assumes ok: "system_ok b st"
  defines "start \<equiv> XidFromFullTransactionId (nextXid st)"
  shows "set (run_xids (GetRunningTransactionData st)) =
      running_tops st \<union> (if some_overflow st then {} else running_children st)"
    and "subxid_overflow (GetRunningTransactionData st) = some_overflow st"
    and "oldestRunningXid (GetRunningTransactionData st) = oldest_normal_xid (dense_xids st) start"
    and "length (run_xids (GetRunningTransactionData st)) =
      run_xcnt (GetRunningTransactionData st) + run_subxcnt (GetRunningTransactionData st)"
    and "set (take (run_xcnt (GetRunningTransactionData st)) (run_xids (GetRunningTransactionData st))) = running_tops st"
    and "run_nextXid (GetRunningTransactionData st) = start"
proof -
  have m: "mirror_ok st" using ok by (simp add: system_ok_def)
  then have len: "length (dense_xids st) = numProcs st" by (simp add: mirror_ok_def)
  have dense: "map ((!) (dense_xids st)) [0..<numProcs st] = dense_xids st"
    unfolding len [symmetric] by (rule map_nth)
  have normal: "\<forall>x \<in> set (dense_xids st). TransactionIdIsValid x \<longrightarrow> TransactionIdIsNormal x"
    using running_tops_dense [OF m] system_windows [OF ok] by (auto simp: running_tops_def xid_window_def set_eq_iff)
  have over: "(\<exists>i \<in> set [0..<numProcs st]. TransactionIdIsValid (dense_xids st ! i) \<and> xc_overflowed (dense_subxidStates st ! i)) =
      some_overflow st"
    using member_index [OF m, of "\<lambda>x s _. TransactionIdIsValid x \<and> xc_overflowed s"] by (auto simp: some_overflow_def)
  have tops: "set (filter TransactionIdIsValid (dense_xids st)) = running_tops st"
    using running_tops_dense [OF m] by auto
  note fold = running_fold [of st "[0..<numProcs st]" "[]" start False, unfolded dense over oldest_valid [OF normal]]
  show "set (run_xids (GetRunningTransactionData st)) = running_tops st \<union> (if some_overflow st then {} else running_children st)"
    using tops running_children_dense [OF m]
    by (simp add: GetRunningTransactionData_def fold start_def [symmetric] lessThan_atLeast0 Let_def)
  show "subxid_overflow (GetRunningTransactionData st) = some_overflow st"
    "oldestRunningXid (GetRunningTransactionData st) = oldest_normal_xid (dense_xids st) start"
    "length (run_xids (GetRunningTransactionData st)) =
      run_xcnt (GetRunningTransactionData st) + run_subxcnt (GetRunningTransactionData st)"
    "set (take (run_xcnt (GetRunningTransactionData st)) (run_xids (GetRunningTransactionData st))) = running_tops st"
    "run_nextXid (GetRunningTransactionData st) = start"
    using tops by (simp_all add: GetRunningTransactionData_def fold start_def [symmetric] Let_def)
qed

text \<open>
  C35: The record of running transactions names exactly the transactions of the process array: the
  top-level xids first, then the cached children unless a cache has overflowed, which it reports.
  Its oldest xid is one of the top-level xids, or the next xid when there is none, is the oldest
  active transaction, and no running transaction or child, named or not, precedes it.
\<close>

theorem GetRunningTransactionData_exact:
  assumes "system_ok b st"
  shows "let r = GetRunningTransactionData st in
    set (run_xids r) = running_tops st \<union> (if subxid_overflow r then {} else running_children st) \<and>
    set (take (run_xcnt r) (run_xids r)) = running_tops st \<and> length (run_xids r) = run_xcnt r + run_subxcnt r \<and>
    (subxid_overflow r \<longleftrightarrow> some_overflow st) \<and>
    oldestRunningXid r = GetOldestActiveTransactionId st \<and>
    oldestRunningXid r \<in> insert (run_nextXid r) (running_tops st) \<and>
    (\<forall>x \<in> running_tops st \<union> running_children st. TransactionIdPrecedesOrEquals (oldestRunningXid r) x)"
proof -
  let ?start = "XidFromFullTransactionId (nextXid st)"
  let ?oldest = "oldest_normal_xid (dense_xids st) ?start"
  have m: "mirror_ok st" and start: "xid_window b ?start" and x: "xids_ok b st" using assms by (simp_all add: system_ok_def)
  have w: "xid_window b x" if "x \<in> running_tops st" for x
    using that system_windows [OF assms] by (auto simp: running_tops_def)
  then have "TransactionIdIsNormal x" if "x \<in> running_tops st" for x using that by (simp add: xid_window_def)
  then have tops: "running_tops st = {x \<in> set (dense_xids st). TransactionIdIsNormal x}"
    "\<forall>x \<in> set (dense_xids st). TransactionIdIsNormal x \<longrightarrow> xid_window b x"
    using running_tops_dense [OF m] w normal_is_valid by blast+
  note oldest = oldest_normal_xid_window [OF start tops(2), folded tops(1)]
  have "TransactionIdPrecedesOrEquals ?oldest c" if c: "c \<in> running_children st" for c
  proof -
    obtain p where p: "p \<in> set (pgprocnos st)" "c \<in> set (cached (allProcs st p))"
      using c by (auto simp: running_children_def)
    have valid: "TransactionIdIsValid (proc_xid (allProcs st p))"
      using mirror_member(4) [OF m p(1)] p(2) by (auto simp: proc_ok_def cached_def)
    then have w: "xid_window b (proc_xid (allProcs st p))" "xid_window b c"
        "xid_dist b (proc_xid (allProcs st p)) < xid_dist b c"
      using x p by (auto simp: xids_ok_def Let_def)
    have "proc_xid (allProcs st p) \<in> running_tops st" using valid p(1) by (auto simp: running_tops_def)
    then have "TransactionIdPrecedesOrEquals ?oldest (proc_xid (allProcs st p))" using oldest by blast
    then have "xid_dist b ?oldest \<le> xid_dist b (proc_xid (allProcs st p))" using oldest w(1) window_precedes(2) by blast
    then have "xid_dist b ?oldest \<le> xid_dist b c" using w(3) by (rule le_trans [OF _ less_imp_le])
    then show ?thesis using oldest w(2) window_precedes(2) by blast
  qed
  then show ?thesis
    using oldest unfolding Let_def running_data [OF assms] GetOldestActiveTransactionId_def by blast
qed

theorem GetRunningTransactionData_exact_witness:
  "set (run_xids (GetRunningTransactionData sample_array)) = {32760, 32765, 32770, 65540} \<and>
   oldestRunningXid (GetRunningTransactionData sample_array) = GetOldestActiveTransactionId sample_array \<and>
   \<not> subxid_overflow (GetRunningTransactionData sample_array)"
proof -
  have tops: "running_tops sample_array = {32760}" "running_children sample_array = {32765, 32770, 65540}"
    by (auto simp: running_tops_def running_children_def sample_cached TransactionIdIsValid_def xid_consts)
  have over: "\<not> some_overflow sample_array" by (simp add: some_overflow_def busy_proc_def idle_proc_def)
  show ?thesis
    using GetRunningTransactionData_exact [OF sample_system_ok] tops over by (auto simp: Let_def)
qed

end
