(* ===== verification/Binary_Heap.thy ===== *)
theory Binary_Heap
  imports Pg_Prelude "HOL-Library.Multiset" "HOL-Library.Signed_Division"
begin

text \<open>
  The binary heap (\<^verbatim>\<open>src/backend/lib/binaryheap.c\<close>): an array of \<open>bh_space\<close> nodes of which
  \<open>bh_size\<close> are in use, the greatest one by the comparator first. The comparator, with its
  argument applied, is an argument of the operations, since the owner of a heap changes what the
  comparator reads. \<open>None\<close> is the error of a full heap.
\<close>

section \<open>Operations\<close>

record 'a binaryheap =
  bh_size :: nat
  bh_space :: nat
  bh_has_heap_property :: bool
  bh_nodes :: "'a list"

text \<open>\<open>memory\<close> is what the freshly allocated array holds.\<close>

definition binaryheap_allocate :: "nat \<Rightarrow> 'a list \<Rightarrow> 'a binaryheap" where
  "binaryheap_allocate capacity memory =
     \<lparr> bh_size = 0, bh_space = capacity, bh_has_heap_property = True, bh_nodes = memory \<rparr>"

definition binaryheap_reset :: "'a binaryheap \<Rightarrow> 'a binaryheap" where
  "binaryheap_reset heap = heap\<lparr> bh_size := 0, bh_has_heap_property := True \<rparr>"

definition binaryheap_empty :: "'a binaryheap \<Rightarrow> bool" where
  "binaryheap_empty heap \<longleftrightarrow> bh_size heap = 0"

definition left_offset :: "nat \<Rightarrow> nat" where "left_offset i = 2 * i + 1"

definition right_offset :: "nat \<Rightarrow> nat" where "right_offset i = 2 * i + 2"

definition parent_offset :: "int \<Rightarrow> int" where
  "parent_offset i = (i - 1) sdiv 2"

lemma parent_offset_nat: "0 < i \<Longrightarrow> nat (parent_offset (int i)) = (i - 1) div 2"
  by (cases "i = 1") (simp_all add: parent_offset_def signed_divide_int_def nat_div_distrib nat_diff_distrib)

text \<open>The loops, with the value of the hole; both end with filling the hole.\<close>

function sift_up_loop :: "('a \<Rightarrow> 'a \<Rightarrow> int) \<Rightarrow> 'a \<Rightarrow> nat \<Rightarrow> 'a list \<Rightarrow> 'a list" where
  "sift_up_loop compare node_val node_off nodes =
     (if node_off = 0 then nodes[node_off := node_val]
      else
        let parent_off = nat (parent_offset (int node_off)); parent_val = nodes ! parent_off in
        if compare node_val parent_val \<le> 0 then nodes[node_off := node_val]
        else sift_up_loop compare node_val parent_off (nodes[node_off := parent_val]))"
  by pat_completeness auto
termination
  by (relation "measure (\<lambda>(compare, node_val, node_off, nodes). node_off)") (auto simp: parent_offset_nat)

declare sift_up_loop.simps [simp del]

definition sift_up :: "('a \<Rightarrow> 'a \<Rightarrow> int) \<Rightarrow> nat \<Rightarrow> 'a binaryheap \<Rightarrow> 'a binaryheap" where
  "sift_up compare node_off heap =
     heap\<lparr> bh_nodes := sift_up_loop compare (bh_nodes heap ! node_off) node_off (bh_nodes heap) \<rparr>"

text \<open>The child to swap the hole with, 0 for none.\<close>

definition swap_child :: "('a \<Rightarrow> 'a \<Rightarrow> int) \<Rightarrow> nat \<Rightarrow> 'a \<Rightarrow> nat \<Rightarrow> 'a list \<Rightarrow> nat" where
  "swap_child compare n node_val node_off nodes =
     (let left_off = left_offset node_off; right_off = right_offset node_off;
          swap_off = (if left_off < n \<and> compare node_val (nodes ! left_off) < 0 then left_off else 0)
      in if right_off < n \<and> compare node_val (nodes ! right_off) < 0
         then if swap_off = 0 \<or> compare (nodes ! left_off) (nodes ! right_off) < 0
              then right_off else swap_off
         else swap_off)"

lemma swap_child_range:
  "swap_child compare n v i nodes \<noteq> 0 \<Longrightarrow> i < swap_child compare n v i nodes \<and>
     swap_child compare n v i nodes < n"
  by (auto simp: swap_child_def left_offset_def right_offset_def Let_def split: if_splits)

function sift_down_loop :: "('a \<Rightarrow> 'a \<Rightarrow> int) \<Rightarrow> nat \<Rightarrow> 'a \<Rightarrow> nat \<Rightarrow> 'a list \<Rightarrow> 'a list" where
  "sift_down_loop compare n node_val node_off nodes =
     (let swap_off = swap_child compare n node_val node_off nodes in
      if swap_off = 0 then nodes[node_off := node_val]
      else sift_down_loop compare n node_val swap_off (nodes[node_off := nodes ! swap_off]))"
  by pat_completeness auto
termination
proof (relation "measure (\<lambda>(compare, n, node_val, node_off, nodes). n - node_off)", goal_cases)
  case (2 compare n node_val node_off nodes)
  then show ?case using swap_child_range [of compare n node_val node_off nodes] by auto
qed simp

declare sift_down_loop.simps [simp del]

definition sift_down :: "('a \<Rightarrow> 'a \<Rightarrow> int) \<Rightarrow> nat \<Rightarrow> 'a binaryheap \<Rightarrow> 'a binaryheap" where
  "sift_down compare node_off heap =
     heap\<lparr> bh_nodes := sift_down_loop compare (bh_size heap) (bh_nodes heap ! node_off) node_off (bh_nodes heap) \<rparr>"

definition binaryheap_add_unordered :: "'a \<Rightarrow> 'a binaryheap \<Rightarrow> 'a binaryheap option" where
  "binaryheap_add_unordered d heap =
     (if bh_size heap \<ge> bh_space heap then None
      else Some (heap\<lparr> bh_has_heap_property := False, bh_nodes := (bh_nodes heap)[bh_size heap := d],
                       bh_size := bh_size heap + 1 \<rparr>))"

text \<open>The loop of \<open>binaryheap_build\<close>: from \<open>i\<close> down to 0, not at all for a negative start.\<close>

function build_loop :: "('a \<Rightarrow> 'a \<Rightarrow> int) \<Rightarrow> int \<Rightarrow> 'a binaryheap \<Rightarrow> 'a binaryheap" where
  "build_loop compare i heap =
     (if i \<ge> 0 then build_loop compare (i - 1) (sift_down compare (nat i) heap) else heap)"
  by pat_completeness auto
termination
  by (relation "measure (\<lambda>(compare, i, heap). nat (i + 1))") auto

declare build_loop.simps [simp del]

definition binaryheap_build :: "('a \<Rightarrow> 'a \<Rightarrow> int) \<Rightarrow> 'a binaryheap \<Rightarrow> 'a binaryheap" where
  "binaryheap_build compare heap =
     (build_loop compare (parent_offset (int (bh_size heap) - 1)) heap)\<lparr> bh_has_heap_property := True \<rparr>"

definition binaryheap_add :: "('a \<Rightarrow> 'a \<Rightarrow> int) \<Rightarrow> 'a \<Rightarrow> 'a binaryheap \<Rightarrow> 'a binaryheap option" where
  "binaryheap_add compare d heap =
     (if bh_size heap \<ge> bh_space heap then None
      else let heap = heap\<lparr> bh_nodes := (bh_nodes heap)[bh_size heap := d], bh_size := bh_size heap + 1 \<rparr>
           in Some (sift_up compare (bh_size heap - 1) heap))"

definition binaryheap_first :: "'a binaryheap \<Rightarrow> 'a" where
  "binaryheap_first heap = bh_nodes heap ! 0"

definition binaryheap_remove_first :: "('a \<Rightarrow> 'a \<Rightarrow> int) \<Rightarrow> 'a binaryheap \<Rightarrow> 'a \<times> 'a binaryheap" where
  "binaryheap_remove_first compare heap =
     (let result = bh_nodes heap ! 0 in
      if bh_size heap = 1 then (result, heap\<lparr> bh_size := bh_size heap - 1 \<rparr>)
      else
        let heap = heap\<lparr> bh_size := bh_size heap - 1 \<rparr>;
            heap = heap\<lparr> bh_nodes := (bh_nodes heap)[0 := bh_nodes heap ! bh_size heap] \<rparr>
        in (result, sift_down compare 0 heap))"

definition binaryheap_replace_first :: "('a \<Rightarrow> 'a \<Rightarrow> int) \<Rightarrow> 'a \<Rightarrow> 'a binaryheap \<Rightarrow> 'a binaryheap" where
  "binaryheap_replace_first compare d heap =
     (let heap = heap\<lparr> bh_nodes := (bh_nodes heap)[0 := d] \<rparr> in
      if bh_size heap > 1 then sift_down compare 0 heap else heap)"

end
