(* ===== verification/Reorder_Iter.thy ===== *)
theory Reorder_Iter
  imports Binary_Heap
begin

text \<open>
  The iteration over the changes of a transaction and its subtransactions in the order of their
  positions in the log (\<open>ReorderBufferIterTXNInit\<close> and \<open>ReorderBufferIterTXNNext\<close> of
  \<^verbatim>\<open>src/backend/replication/logical/reorderbuffer.c\<close>), with the spilling of changes to files and
  their restoration. Transactions are the elements of a list, the top-level one first; a change
  is known by its place in the list of its transaction. A file holds the changes of one log
  segment, an empty one does not exist. The reuse of memory and the statistics are left out.
  \<open>wal_segment_size\<close> is an argument.
\<close>

section \<open>Data\<close>

record 'd change =
  ch_lsn :: uint64
  ch_data :: 'd

record 'd rtxn =
  first_lsn :: uint64
  final_lsn :: uint64
  changes :: "'d change list"
  nentries :: nat
  nentries_mem :: nat
  rbtxn_is_serialized :: bool
  spill_files :: "nat \<Rightarrow> 'd change list"

text \<open>
  The file of an entry is the number of changes read from it, \<open>None\<close> when no file is open; its
  change is a place in the list of its transaction.
\<close>

record iter_entry =
  et_lsn :: uint64
  et_pos :: nat
  et_txn :: nat
  et_file :: "nat option"
  et_segno :: nat

record 'd iter_state =
  it_heap :: "nat binaryheap"
  it_entries :: "iter_entry list"
  it_txns :: "'d rtxn list"

definition max_changes_in_memory :: nat where "max_changes_in_memory = 4096"

definition XLByteToSeg :: "nat \<Rightarrow> uint64 \<Rightarrow> nat" where
  "XLByteToSeg wal_segment_size lsn = unat lsn div wal_segment_size"

section \<open>Spilling to files\<close>

definition serialize_changes :: "nat \<Rightarrow> 'd rtxn \<Rightarrow> 'd rtxn" where
  "serialize_changes wal_segment_size txn =
     txn\<lparr> spill_files :=
            fold (\<lambda>c files. let segno = XLByteToSeg wal_segment_size (ch_lsn c) in
                   files(segno := files segno @ [c])) (changes txn) (spill_files txn),
          changes := [], nentries_mem := 0, rbtxn_is_serialized := True \<rparr>"

text \<open>The subtransactions of the top-level transaction are spilled with it.\<close>

definition ReorderBufferSerializeTXN :: "nat \<Rightarrow> nat \<Rightarrow> 'd rtxn list \<Rightarrow> 'd rtxn list" where
  "ReorderBufferSerializeTXN wal_segment_size i txns =
     (if i = 0 then map (serialize_changes wal_segment_size) txns
      else txns[i := serialize_changes wal_segment_size (txns ! i)])"

text \<open>The loop of \<open>ReorderBufferRestoreChanges\<close>; a turn opens the next file when none is open.\<close>

function restore_loop ::
  "nat \<Rightarrow> (nat \<Rightarrow> 'd change list) \<Rightarrow> nat \<Rightarrow> nat \<Rightarrow> nat option \<Rightarrow> nat \<Rightarrow> 'd change list \<Rightarrow>
   nat \<times> nat option \<times> nat \<times> 'd change list" where
  "restore_loop first_segno files last_segno restored file segno restored_changes =
     (if restored < max_changes_in_memory \<and> segno \<le> last_segno
      then
        let segno' = (if file = None \<and> segno = 0 then first_segno else segno) in
        if file = None \<and> files segno' = []
        then restore_loop first_segno files last_segno restored None (segno' + 1) restored_changes
        else
          let offset = (case file of None \<Rightarrow> 0 | Some k \<Rightarrow> k) in
          if length (files segno') \<le> offset
          then restore_loop first_segno files last_segno restored None (segno' + 1) restored_changes
          else restore_loop first_segno files last_segno (restored + 1) (Some (offset + 1)) segno'
                 (restored_changes @ [files segno' ! offset])
      else (restored, file, segno, restored_changes))"
  by pat_completeness auto
termination
  by (relation "measures [\<lambda>(first, files, last, restored, file, segno, acc). max_changes_in_memory - restored,
      \<lambda>(first, files, last, restored, file, segno, acc). Suc last - segno]") auto

declare restore_loop.simps [simp del]

definition ReorderBufferRestoreChanges ::
  "nat \<Rightarrow> 'd rtxn \<Rightarrow> nat option \<Rightarrow> nat \<Rightarrow> nat \<times> 'd rtxn \<times> nat option \<times> nat" where
  "ReorderBufferRestoreChanges wal_segment_size txn file segno =
     (let (restored, file, segno, restored_changes) =
            restore_loop (XLByteToSeg wal_segment_size (first_lsn txn)) (spill_files txn)
              (XLByteToSeg wal_segment_size (final_lsn txn)) 0 file segno []
      in (restored, txn\<lparr> changes := restored_changes, nentries_mem := length restored_changes \<rparr>, file, segno))"

section \<open>The iterator\<close>

definition ReorderBufferIterCompare :: "iter_entry list \<Rightarrow> nat \<Rightarrow> nat \<Rightarrow> int" where
  "ReorderBufferIterCompare entries a b =
     (let pos_a = et_lsn (entries ! a); pos_b = et_lsn (entries ! b) in
      if pos_a < pos_b then 1 else if pos_a = pos_b then 0 else - 1)"

text \<open>
  One transaction is added when it contains changes. \<open>None\<close>: the heap is full, or the list of
  changes is empty when its first element is taken.
\<close>

definition add_iter_txn ::
  "nat \<Rightarrow> nat \<Rightarrow> 'd iter_state \<times> nat \<Rightarrow> ('d iter_state \<times> nat) option" where
  "add_iter_txn wal_segment_size i acc =
     (let (state, off) = acc in
      if nentries (it_txns state ! i) > 0
      then
        let state =
              (if rbtxn_is_serialized (it_txns state ! i)
               then let txns = ReorderBufferSerializeTXN wal_segment_size i (it_txns state);
                        entry = it_entries state ! off;
                        (restored, txn, file, segno) =
                          ReorderBufferRestoreChanges wal_segment_size (txns ! i) (et_file entry) (et_segno entry)
                    in state\<lparr> it_txns := txns[i := txn],
                              it_entries := (it_entries state)
                                [off := entry\<lparr> et_file := file, et_segno := segno \<rparr>] \<rparr>
               else state)
        in case changes (it_txns state ! i) of
             [] \<Rightarrow> None
           | cur_change # _ \<Rightarrow>
               (case binaryheap_add_unordered off (it_heap state) of
                  None \<Rightarrow> None
                | Some heap \<Rightarrow>
                    Some (state\<lparr> it_entries := (it_entries state)
                            [off := (it_entries state ! off)\<lparr> et_lsn := ch_lsn cur_change, et_pos := 0, et_txn := i \<rparr>],
                          it_heap := heap \<rparr>, off + 1))
      else Some acc)"

definition ReorderBufferIterTXNInit :: "nat \<Rightarrow> nat list \<Rightarrow> 'd rtxn list \<Rightarrow> 'd iter_state option" where
  "ReorderBufferIterTXNInit wal_segment_size memory txns =
     (let nr_txns = length (filter (\<lambda>txn. nentries txn > 0) txns);
          state = \<lparr> it_heap = binaryheap_allocate nr_txns memory,
                    it_entries = replicate nr_txns
                      \<lparr> et_lsn = 0, et_pos = 0, et_txn = 0, et_file = None, et_segno = 0 \<rparr>,
                    it_txns = txns \<rparr>
      in case fold (\<lambda>i acc. Option.bind acc (add_iter_txn wal_segment_size i)) [0..<length txns] (Some (state, 0)) of
           None \<Rightarrow> None
         | Some (state, off) \<Rightarrow>
             Some (state\<lparr> it_heap := binaryheap_build (ReorderBufferIterCompare (it_entries state)) (it_heap state) \<rparr>))"

definition set_entry :: "nat \<Rightarrow> uint64 \<Rightarrow> nat \<Rightarrow> 'd iter_state \<Rightarrow> 'd iter_state" where
  "set_entry off lsn pos state =
     (let entries = (it_entries state)[off := (it_entries state ! off)\<lparr> et_lsn := lsn, et_pos := pos \<rparr>]
      in state\<lparr> it_entries := entries,
                it_heap := binaryheap_replace_first (ReorderBufferIterCompare entries) off (it_heap state) \<rparr>)"

definition drop_first_entry :: "'d iter_state \<Rightarrow> 'd iter_state" where
  "drop_first_entry state =
     state\<lparr> it_heap := snd (binaryheap_remove_first (ReorderBufferIterCompare (it_entries state)) (it_heap state)) \<rparr>"

definition ReorderBufferIterTXNNext ::
  "nat \<Rightarrow> 'd iter_state \<Rightarrow> 'd change option \<times> 'd iter_state" where
  "ReorderBufferIterTXNNext wal_segment_size state =
     (if bh_size (it_heap state) = 0 then (None, state)
      else
        let off = binaryheap_first (it_heap state);
            entry = it_entries state ! off;
            txn = it_txns state ! et_txn entry;
            change = changes txn ! et_pos entry in
        if et_pos entry + 1 < length (changes txn)
        then (Some change, set_entry off (ch_lsn (changes txn ! (et_pos entry + 1))) (et_pos entry + 1) state)
        else if nentries txn \<noteq> nentries_mem txn
        then
          let (restored, txn, file, segno) =
                ReorderBufferRestoreChanges wal_segment_size txn (et_file entry) (et_segno entry);
              state = state\<lparr> it_txns := (it_txns state)[et_txn entry := txn],
                             it_entries := (it_entries state)
                               [off := entry\<lparr> et_file := file, et_segno := segno \<rparr>] \<rparr>
          in if restored > 0 then (Some change, set_entry off (ch_lsn (changes txn ! 0)) 0 state)
             else (Some change, drop_first_entry state)
        else (Some change, drop_first_entry state))"

text \<open>The loop of the caller, with a bound on its turns; \<open>None\<close> when the bound is too small.\<close>

fun iterate_changes :: "nat \<Rightarrow> nat \<Rightarrow> 'd iter_state \<Rightarrow> 'd change list option" where
  "iterate_changes wal_segment_size 0 state = None"
| "iterate_changes wal_segment_size (Suc fuel) state =
     (case ReorderBufferIterTXNNext wal_segment_size state of
        (None, state') \<Rightarrow> Some []
      | (Some change, state') \<Rightarrow> map_option ((#) change) (iterate_changes wal_segment_size fuel state'))"

end
