(* ===== verification/Binary_Heap_Order.thy ===== *)
theory Binary_Heap_Order
  imports Binary_Heap
begin

text \<open>
  The contract of the binary heap. The interface \<open>heap_order\<close> is what an owner of a heap promises of
  its comparator: a total preorder, by the sign of the result. Inside it every operation is shown
  to keep the heap property and to change the multiset of nodes as its name says.
\<close>

section \<open>The heap property\<close>

abbreviation parent :: "nat \<Rightarrow> nat" where "parent j \<equiv> (j - 1) div 2"

text \<open>The nodes whose parent is at \<open>k\<close> or later are in order.\<close>

definition heap_from :: "('a \<Rightarrow> 'a \<Rightarrow> int) \<Rightarrow> nat \<Rightarrow> nat \<Rightarrow> 'a list \<Rightarrow> bool" where
  "heap_from compare k n nodes \<longleftrightarrow>
     (\<forall>j. 0 < j \<and> j < n \<and> k \<le> parent j \<longrightarrow> compare (nodes ! j) (nodes ! parent j) \<le> 0)"

definition heap_fits :: "'a binaryheap \<Rightarrow> bool" where
  "heap_fits h \<longleftrightarrow> bh_size h \<le> bh_space h \<and> length (bh_nodes h) = bh_space h"

definition heap_ok :: "('a \<Rightarrow> 'a \<Rightarrow> int) \<Rightarrow> 'a binaryheap \<Rightarrow> bool" where
  "heap_ok compare h \<longleftrightarrow> heap_fits h \<and> heap_from compare 0 (bh_size h) (bh_nodes h)"

definition heap_contents :: "'a binaryheap \<Rightarrow> 'a multiset" where
  "heap_contents h = mset (take (bh_size h) (bh_nodes h))"

lemma parent_children: "0 < j \<Longrightarrow> parent j = i \<longleftrightarrow> j = left_offset i \<or> j = right_offset i"
  by (auto simp: left_offset_def right_offset_def)

lemma parent_less: "0 < j \<Longrightarrow> parent j < j" by auto

lemma mset_move_hole:
  assumes "i < n" "s < n" "i \<noteq> s" "n \<le> length xs"
  shows "mset (take n (xs[i := xs ! s, s := v])) = mset (take n (xs[i := v]))"
proof -
  let ?ys = "take n xs"
  have "mset ((?ys[i := ?ys ! s])[s := v]) = add_mset v (mset (?ys[i := ?ys ! s]) - {# ?ys ! s #})"
    using assms by (subst mset_update) simp_all
  also have "\<dots> = add_mset v (mset ?ys - {# ?ys ! i #})"
    using assms by (subst mset_update) simp_all
  also have "\<dots> = mset (?ys[i := v])" using assms by (simp add: mset_update)
  finally show ?thesis using assms by (simp add: take_update_swap)
qed

section \<open>The contract of a comparator\<close>

locale heap_order =
  fixes compare :: "'a \<Rightarrow> 'a \<Rightarrow> int"
  assumes compare_swap: "compare x y \<le> 0 \<longleftrightarrow> 0 \<le> compare y x"
    and compare_trans: "compare x y \<le> 0 \<Longrightarrow> compare y z \<le> 0 \<Longrightarrow> compare x z \<le> 0"
begin

lemma compare_refl: "compare x x \<le> 0"
  using compare_swap [of x x] by linarith

lemma not_less_swap: "\<not> compare x y < 0 \<Longrightarrow> compare y x \<le> 0"
  using compare_swap [of y x] by simp

lemma swap_child_greatest:
  assumes "swap_child compare n v i nodes = s" "s \<noteq> 0"
  shows "compare v (nodes ! s) \<le> 0"
    and "left_offset i < n \<Longrightarrow> compare (nodes ! left_offset i) (nodes ! s) \<le> 0"
    and "right_offset i < n \<Longrightarrow> compare (nodes ! right_offset i) (nodes ! s) \<le> 0"
proof -
  let ?l = "left_offset i" and ?r = "right_offset i"
  have l: "?l \<noteq> 0" by (simp add: left_offset_def)
  consider (left) "s = ?l" "compare v (nodes ! ?l) < 0"
      "\<not> (?r < n \<and> compare v (nodes ! ?r) < 0) \<or> \<not> compare (nodes ! ?l) (nodes ! ?r) < 0"
    | (right) "s = ?r" "compare v (nodes ! ?r) < 0"
      "\<not> (?l < n \<and> compare v (nodes ! ?l) < 0) \<or> compare (nodes ! ?l) (nodes ! ?r) < 0"
    using assms l by (auto simp: swap_child_def Let_def split: if_splits)
  then have "compare v (nodes ! s) \<le> 0 \<and> (?l < n \<longrightarrow> compare (nodes ! ?l) (nodes ! s) \<le> 0) \<and>
      (?r < n \<longrightarrow> compare (nodes ! ?r) (nodes ! s) \<le> 0)"
  proof cases
    case left
    have "compare (nodes ! ?r) (nodes ! ?l) \<le> 0" if "?r < n"
      using left(2,3) that not_less_swap [of v "nodes ! ?r"] not_less_swap [of "nodes ! ?l" "nodes ! ?r"]
        compare_trans [of "nodes ! ?r" v "nodes ! ?l"] by linarith
    then show ?thesis using left(1,2) compare_refl by simp
  next
    case right
    have "compare (nodes ! ?l) (nodes ! ?r) \<le> 0" if "?l < n"
      using right(2,3) that not_less_swap [of v "nodes ! ?l"] compare_trans [of "nodes ! ?l" v "nodes ! ?r"]
      by linarith
    then show ?thesis using right(1,2) compare_refl by simp
  qed
  then show "compare v (nodes ! s) \<le> 0"
    "?l < n \<Longrightarrow> compare (nodes ! ?l) (nodes ! s) \<le> 0" "?r < n \<Longrightarrow> compare (nodes ! ?r) (nodes ! s) \<le> 0"
    by auto
qed

lemma sift_down_loop_ok:
  assumes "n \<le> length nodes" "i < n"
    and "\<And>j. 0 < j \<Longrightarrow> j < n \<Longrightarrow> k \<le> parent j \<Longrightarrow> j \<noteq> i \<Longrightarrow> parent j \<noteq> i \<Longrightarrow>
           compare (nodes ! j) (nodes ! parent j) \<le> 0"
    and "0 < i \<Longrightarrow> k \<le> parent i \<Longrightarrow> compare v (nodes ! parent i) \<le> 0"
    and "\<And>j. 0 < j \<Longrightarrow> j < n \<Longrightarrow> parent j = i \<Longrightarrow> 0 < i \<Longrightarrow> k \<le> parent i \<Longrightarrow>
           compare (nodes ! j) (nodes ! parent i) \<le> 0"
    and "k \<le> i"
  shows "heap_from compare k n (sift_down_loop compare n v i nodes) \<and>
    length (sift_down_loop compare n v i nodes) = length nodes \<and>
    mset (take n (sift_down_loop compare n v i nodes)) = mset (take n (nodes[i := v]))"
  using assms
proof (induction "n - i" arbitrary: i nodes rule: less_induct)
  case less
  let ?s = "swap_child compare n v i nodes"
  have left: "?s = 0 \<Longrightarrow> left_offset i < n \<Longrightarrow> compare (nodes ! left_offset i) v \<le> 0"
    and right: "?s = 0 \<Longrightarrow> right_offset i < n \<Longrightarrow> compare (nodes ! right_offset i) v \<le> 0"
    by (auto simp: swap_child_def Let_def left_offset_def right_offset_def intro: not_less_swap split: if_splits)
  show ?case
  proof (cases "?s = 0")
    case True
    have "compare (nodes[i := v] ! j) (nodes[i := v] ! parent j) \<le> 0"
      if j: "0 < j" "j < n" "k \<le> parent j" for j
    proof -
      consider "j = i" | "parent j = i" | "j \<noteq> i" "parent j \<noteq> i" by blast
      then show ?thesis
      proof cases
        case 1
        then show ?thesis using less.prems(1,2,4) j parent_less [of j] by auto
      next
        case 2
        then have "compare (nodes ! j) v \<le> 0"
          using parent_children [OF j(1), of i] left [OF True] right [OF True] j(2) by auto
        then show ?thesis using 2 less.prems(1,2) parent_less [OF j(1)] by auto
      next
        case 3
        then show ?thesis using less.prems(1,3) j by simp
      qed
    qed
    then show ?thesis using True by (simp add: sift_down_loop.simps [of compare n v i] heap_from_def)
  next
    case False
    note range = swap_child_range [OF False]
    let ?nodes = "nodes[i := nodes ! ?s]"
    have par: "0 < ?s" "parent ?s = i" 
      using range by (auto simp: swap_child_def left_offset_def right_offset_def Let_def split: if_splits)
    note smaller = swap_child_greatest(1) [OF refl False]
    have sibling: "compare (nodes ! j) (nodes ! ?s) \<le> 0" if "0 < j" "j < n" "parent j = i" for j
      using parent_children [OF that(1), of i] that(2,3) swap_child_greatest(2,3) [OF refl False] by auto
    have step: "sift_down_loop compare n v i nodes = sift_down_loop compare n v ?s ?nodes"
      using False by (simp add: sift_down_loop.simps [of compare n v i] Let_def)
    have "heap_from compare k n (sift_down_loop compare n v ?s ?nodes) \<and>
        length (sift_down_loop compare n v ?s ?nodes) = length ?nodes \<and>
        mset (take n (sift_down_loop compare n v ?s ?nodes)) = mset (take n (?nodes[?s := v]))"
    proof (rule less.hyps)
      show "n - ?s < n - i" "?s < n" using range less.prems(2) by auto
      show "n \<le> length ?nodes" using less.prems(1) by simp
      show "k \<le> ?s" using less.prems(6) range by simp
      show "compare v (?nodes ! parent ?s) \<le> 0" using par smaller less.prems(1,2) by simp
      show "compare (?nodes ! j) (?nodes ! parent ?s) \<le> 0" if "0 < j" "j < n" "parent j = ?s" for j
        using less.prems(3) [of j] that par range less.prems(1,2,6) parent_less [of j] by auto
      show "compare (?nodes ! j) (?nodes ! parent j) \<le> 0"
        if j: "0 < j" "j < n" "k \<le> parent j" "j \<noteq> ?s" "parent j \<noteq> ?s" for j
      proof -
        consider "j = i" | "parent j = i" "j \<noteq> i" | "j \<noteq> i" "parent j \<noteq> i" by blast
        then show ?thesis
        proof cases
          case 1
          then show ?thesis using less.prems(5) [of ?s] less.prems(1) par range j parent_less [of j] by auto
        next
          case 2
          then show ?thesis using sibling [OF j(1,2)] less.prems(1,2) parent_less [of j] j by auto
        next
          case 3
          then show ?thesis using less.prems(3) [OF j(1-3)] by simp
        qed
      qed
    qed
    then show ?thesis
      using mset_move_hole [of i n ?s nodes v] less.prems(1,2) range unfolding step by simp
  qed
qed

lemma sift_up_loop_ok:
  assumes "n \<le> length nodes" "i < n"
    and "\<And>j. 0 < j \<Longrightarrow> j < n \<Longrightarrow> j \<noteq> i \<Longrightarrow> parent j \<noteq> i \<Longrightarrow> compare (nodes ! j) (nodes ! parent j) \<le> 0"
    and "\<And>j. 0 < j \<Longrightarrow> j < n \<Longrightarrow> parent j = i \<Longrightarrow> compare (nodes ! j) v \<le> 0"
    and "\<And>j. 0 < j \<Longrightarrow> j < n \<Longrightarrow> parent j = i \<Longrightarrow> 0 < i \<Longrightarrow> compare (nodes ! j) (nodes ! parent i) \<le> 0"
  shows "heap_from compare 0 n (sift_up_loop compare v i nodes) \<and>
    length (sift_up_loop compare v i nodes) = length nodes \<and>
    mset (take n (sift_up_loop compare v i nodes)) = mset (take n (nodes[i := v]))"
  using assms
proof (induction i arbitrary: nodes rule: less_induct)
  case (less i)
  let ?p = "parent i"
  have step: "sift_up_loop compare v i nodes =
      (if i = 0 \<or> compare v (nodes ! ?p) \<le> 0 then nodes[i := v]
       else sift_up_loop compare v ?p (nodes[i := nodes ! ?p]))"
    by (simp add: sift_up_loop.simps [of compare v i] parent_offset_nat Let_def)
  show ?case
  proof (cases "i = 0 \<or> compare v (nodes ! ?p) \<le> 0")
    case True
    have "compare (nodes[i := v] ! j) (nodes[i := v] ! parent j) \<le> 0" if j: "0 < j" "j < n" for j
      using less.prems(1-4) True j parent_less [of j]
      by (cases "j = i"; cases "parent j = i") auto
    then show ?thesis using True by (simp add: step heap_from_def)
  next
    case False
    let ?nodes = "nodes[i := nodes ! ?p]"
    have p: "?p < i" "0 < i" using False by auto
    have up: "compare (nodes ! ?p) v \<le> 0" using False not_less_swap [of v "nodes ! ?p"] by linarith
    have "heap_from compare 0 n (sift_up_loop compare v ?p ?nodes) \<and>
        length (sift_up_loop compare v ?p ?nodes) = length ?nodes \<and>
        mset (take n (sift_up_loop compare v ?p ?nodes)) = mset (take n (?nodes[?p := v]))"
    proof (rule less.IH [OF p(1)])
      show "n \<le> length ?nodes" "?p < n" using less.prems(1,2) p by auto
      show "compare (?nodes ! j) (?nodes ! parent j) \<le> 0"
        if "0 < j" "j < n" "j \<noteq> ?p" "parent j \<noteq> ?p" for j
      proof -
        have "j \<noteq> i" using that(4) by auto
        then show ?thesis
          using less.prems(1,2) less.prems(3,5) [OF that(1,2)] that p by (cases "parent j = i") auto
      qed
      show "compare (?nodes ! j) v \<le> 0" if "0 < j" "j < n" "parent j = ?p" for j
        using less.prems(1,2) less.prems(3) [OF that(1,2)] that p up compare_trans [of "nodes ! j" "nodes ! ?p" v]
        by (cases "j = i") auto
      show "compare (?nodes ! j) (?nodes ! parent ?p) \<le> 0" if j: "0 < j" "j < n" "parent j = ?p" and "0 < ?p" for j
      proof -
        have "compare (nodes ! ?p) (nodes ! parent ?p) \<le> 0"
          using less.prems(2) less.prems(3) [of ?p] p \<open>0 < ?p\<close> parent_less [of ?p] by auto
        moreover have "compare (nodes ! j) (nodes ! ?p) \<le> 0" if "j \<noteq> i"
          using less.prems(3) [OF j(1,2) that] j(3) p(1) by simp
        moreover have "?nodes ! parent ?p = nodes ! parent ?p"
          using p \<open>0 < ?p\<close> parent_less [of ?p] by simp
        moreover have "?nodes ! j = (if j = i then nodes ! ?p else nodes ! j)"
          using less.prems(1,2) by simp
        ultimately show ?thesis using compare_trans by (cases "j = i") metis+
      qed
    qed
    then show ?thesis
      using mset_move_hole [of i n ?p nodes v] less.prems(1,2) p False unfolding step by simp
  qed
qed

lemma root_greatest: "heap_from compare 0 n nodes \<Longrightarrow> j < n \<Longrightarrow> compare (nodes ! j) (nodes ! 0) \<le> 0"
proof (induction j rule: less_induct)
  case (less j)
  show ?case
  proof (cases "j = 0")
    case False
    then have "compare (nodes ! j) (nodes ! parent j) \<le> 0" "compare (nodes ! parent j) (nodes ! 0) \<le> 0"
      using less by (auto simp: heap_from_def)
    then show ?thesis by (rule compare_trans)
  qed (simp add: compare_refl)
qed

subsection \<open>The operations\<close>

lemma add_unordered_ok:
  assumes "heap_fits h" "bh_size h < bh_space h"
  obtains h' where "binaryheap_add_unordered d h = Some h'" "heap_fits h'" "bh_size h' = bh_size h + 1"
    "bh_space h' = bh_space h" "heap_contents h' = heap_contents h + {# d #}"
    "take (bh_size h') (bh_nodes h') = take (bh_size h) (bh_nodes h) @ [d]"
proof -
  have "take (Suc (bh_size h)) ((bh_nodes h)[bh_size h := d]) = take (bh_size h) (bh_nodes h) @ [d]"
    using assms by (simp add: heap_fits_def take_Suc_conv_app_nth)
  then show thesis using assms that by (simp add: binaryheap_add_unordered_def heap_fits_def heap_contents_def)
qed

lemma sift_down_ok:
  assumes "heap_fits h" "i < bh_size h" "heap_from compare (Suc i) (bh_size h) (bh_nodes h)"
  shows "heap_from compare i (bh_size h) (bh_nodes (sift_down compare i h))" "heap_fits (sift_down compare i h)"
    "heap_contents (sift_down compare i h) = heap_contents h" "bh_size (sift_down compare i h) = bh_size h"
    "bh_space (sift_down compare i h) = bh_space h"
proof -
  let ?n = "bh_size h" and ?nodes = "bh_nodes h"
  have "heap_from compare i ?n (sift_down_loop compare ?n (?nodes ! i) i ?nodes) \<and>
      length (sift_down_loop compare ?n (?nodes ! i) i ?nodes) = length ?nodes \<and>
      mset (take ?n (sift_down_loop compare ?n (?nodes ! i) i ?nodes)) = mset (take ?n (?nodes[i := ?nodes ! i]))"
    using assms by (intro sift_down_loop_ok) (auto simp: heap_fits_def heap_from_def)
  then show "heap_from compare i (bh_size h) (bh_nodes (sift_down compare i h))" "heap_fits (sift_down compare i h)"
    "heap_contents (sift_down compare i h) = heap_contents h" "bh_size (sift_down compare i h) = bh_size h"
    "bh_space (sift_down compare i h) = bh_space h"
    using assms(1) by (auto simp: sift_down_def heap_fits_def heap_contents_def)
qed

lemma build_loop_ok:
  assumes "heap_fits h" "i < int (bh_size h)" "heap_from compare (nat (i + 1)) (bh_size h) (bh_nodes h)"
  shows "heap_from compare 0 (bh_size h) (bh_nodes (build_loop compare i h)) \<and>
    heap_fits (build_loop compare i h) \<and> heap_contents (build_loop compare i h) = heap_contents h \<and>
    bh_size (build_loop compare i h) = bh_size h \<and> bh_space (build_loop compare i h) = bh_space h"
  using assms
proof (induction "nat (i + 1)" arbitrary: i h)
  case 0
  then have "build_loop compare i h = h" by (simp add: build_loop.simps)
  then show ?case using 0 by simp
next
  case (Suc k)
  then have i: "0 \<le> i" "nat i < bh_size h" "nat (i + 1) = Suc (nat i)" "k = nat (i - 1 + 1)" by auto
  note down = sift_down_ok [OF Suc.prems(1) i(2) Suc.prems(3) [unfolded i(3)]]
  have "build_loop compare i h = build_loop compare (i - 1) (sift_down compare (nat i) h)"
    using i(1) by (simp add: build_loop.simps [of compare i])
  then show ?case using Suc.hyps(1) [OF i(4), of "sift_down compare (nat i) h"] down Suc.prems(2) i(1)
    by (simp add: down)
qed

lemma build_ok:
  assumes "heap_fits h"
  shows "heap_ok compare (binaryheap_build compare h)"
    and "heap_contents (binaryheap_build compare h) = heap_contents h"
    and "bh_size (binaryheap_build compare h) = bh_size h" "bh_space (binaryheap_build compare h) = bh_space h"
proof -
  let ?i = "parent_offset (int (bh_size h) - 1)"
  have "?i < int (bh_size h) \<and> heap_from compare (nat (?i + 1)) (bh_size h) (bh_nodes h)"
  proof (cases "bh_size h \<le> 1")
    case True
    then consider "bh_size h = 0" | "bh_size h = 1" by linarith
    then show ?thesis
      by cases (simp_all add: parent_offset_def signed_divide_int_def heap_from_def)
  next
    case False
    then obtain m where m: "bh_size h = Suc (Suc m)" by (metis One_nat_def Suc_le_D not_less_eq_eq)
    have "int m sdiv 2 = int (m div 2)"
      by (cases "m = 0") (simp_all add: signed_divide_int_def zdiv_int)
    then have "?i = int (m div 2)" by (simp add: m parent_offset_def)
    then show ?thesis by (auto simp: m heap_from_def)
  qed
  then show "heap_ok compare (binaryheap_build compare h)"
    "heap_contents (binaryheap_build compare h) = heap_contents h"
    "bh_size (binaryheap_build compare h) = bh_size h" "bh_space (binaryheap_build compare h) = bh_space h"
    using build_loop_ok [OF assms, of ?i]
    by (auto simp: binaryheap_build_def heap_ok_def heap_fits_def heap_contents_def)
qed

lemma add_ok:
  assumes "heap_ok compare h" "bh_size h < bh_space h"
  obtains h' where "binaryheap_add compare d h = Some h'" "heap_ok compare h'"
    "heap_contents h' = heap_contents h + {# d #}" "bh_size h' = bh_size h + 1" "bh_space h' = bh_space h"
proof -
  let ?n = "bh_size h" and ?nodes = "(bh_nodes h)[bh_size h := d]"
  have len: "?n < length (bh_nodes h)" using assms by (simp add: heap_ok_def heap_fits_def)
  have "heap_from compare 0 (Suc ?n) (sift_up_loop compare d ?n ?nodes) \<and>
      length (sift_up_loop compare d ?n ?nodes) = length ?nodes \<and>
      mset (take (Suc ?n) (sift_up_loop compare d ?n ?nodes)) = mset (take (Suc ?n) (?nodes[?n := d]))"
  proof (rule sift_up_loop_ok)
    show "compare (?nodes ! j) (?nodes ! parent j) \<le> 0" if "0 < j" "j < Suc ?n" "j \<noteq> ?n" for j
    proof -
      have "compare (bh_nodes h ! j) (bh_nodes h ! parent j) \<le> 0"
        using assms(1) that by (simp add: heap_ok_def heap_from_def)
      then show ?thesis using that parent_less [of j] by simp
    qed
  qed (use len in auto)
  moreover have "take (Suc ?n) ?nodes = take ?n (bh_nodes h) @ [d]"
    using len by (simp add: take_Suc_conv_app_nth)
  ultimately show thesis
    using assms len that by (simp add: binaryheap_add_def sift_up_def Let_def heap_ok_def heap_fits_def heap_contents_def)
qed

lemma contents_first:
  "heap_fits h \<Longrightarrow> 0 < bh_size h \<Longrightarrow> binaryheap_first h \<in># heap_contents h \<and>
     binaryheap_first h = bh_nodes h ! 0"
  by (auto simp: binaryheap_first_def heap_contents_def heap_fits_def in_set_conv_nth intro!: exI [of _ 0])

lemma first_greatest:
  "heap_ok compare h \<Longrightarrow> x \<in># heap_contents h \<Longrightarrow> compare x (binaryheap_first h) \<le> 0"
  using root_greatest by (auto simp: heap_contents_def binaryheap_first_def in_set_conv_nth heap_ok_def)

lemma replace_first_ok:
  assumes "heap_fits h" "0 < bh_size h"
    and "\<And>j. 0 < j \<Longrightarrow> j < bh_size h \<Longrightarrow> parent j \<noteq> 0 \<Longrightarrow> compare (bh_nodes h ! j) (bh_nodes h ! parent j) \<le> 0"
  shows "heap_ok compare (binaryheap_replace_first compare d h)"
    "heap_contents (binaryheap_replace_first compare d h) = heap_contents h - {# binaryheap_first h #} + {# d #}"
    "bh_size (binaryheap_replace_first compare d h) = bh_size h"
    "bh_space (binaryheap_replace_first compare d h) = bh_space h"
proof -
  define g where "g = h\<lparr> bh_nodes := (bh_nodes h)[0 := d] \<rparr>"
  have g: "heap_fits g" "bh_size g = bh_size h" "bh_space g = bh_space h" "heap_from compare (Suc 0) (bh_size h) (bh_nodes g)"
    using assms by (auto simp: g_def heap_fits_def heap_from_def)
  have len: "0 < length (bh_nodes h)" using assms by (auto simp: heap_fits_def)
  have "heap_contents g = heap_contents h - {# binaryheap_first h #} + {# d #}"
  proof -
    have "mset ((take (bh_size h) (bh_nodes h))[0 := d]) =
        add_mset d (mset (take (bh_size h) (bh_nodes h)) - {# bh_nodes h ! 0 #})"
      using assms(2) len by (subst mset_update) simp_all
    then show ?thesis by (simp add: g_def heap_contents_def binaryheap_first_def take_update_swap)
  qed
  moreover have "binaryheap_replace_first compare d h = (if bh_size h > 1 then sift_down compare 0 g else g)"
    by (simp add: binaryheap_replace_first_def g_def Let_def)
  moreover have "heap_from compare 0 (bh_size h) (bh_nodes g)" if "\<not> bh_size h > 1"
    using that by (simp add: heap_from_def)
  ultimately show "heap_ok compare (binaryheap_replace_first compare d h)"
    "heap_contents (binaryheap_replace_first compare d h) = heap_contents h - {# binaryheap_first h #} + {# d #}"
    "bh_size (binaryheap_replace_first compare d h) = bh_size h"
    "bh_space (binaryheap_replace_first compare d h) = bh_space h"
    using g assms(2) sift_down_ok [OF g(1), of 0] by (auto simp: heap_ok_def split: if_splits)
qed

lemma remove_first_ok:
  assumes "heap_ok compare h" "0 < bh_size h" and r: "binaryheap_remove_first compare h = (d, h')"
  shows "d = binaryheap_first h" "heap_ok compare h'" "heap_contents h' = heap_contents h - {# d #}"
    "bh_size h' = bh_size h - 1" "bh_space h' = bh_space h"
proof -
  let ?n = "bh_size h - 1" and ?nodes = "bh_nodes h"
  have fits: "?n < length ?nodes" "bh_size h \<le> bh_space h" "length ?nodes = bh_space h"
    using assms(1,2) by (auto simp: heap_ok_def heap_fits_def)
  have "take (bh_size h) ?nodes = take ?n ?nodes @ [?nodes ! ?n]"
    using take_Suc_conv_app_nth [OF fits(1)] assms(2) by simp
  then have split: "heap_contents h = mset (take ?n ?nodes) + {# ?nodes ! ?n #}"
    by (simp add: heap_contents_def)
  have "d = binaryheap_first h \<and> heap_ok compare h' \<and> heap_contents h' = heap_contents h - {# d #} \<and>
      bh_size h' = bh_size h - 1 \<and> bh_space h' = bh_space h"
  proof (cases "bh_size h = 1")
    case True
    then show ?thesis using r split fits
      by (auto simp: binaryheap_remove_first_def binaryheap_first_def heap_contents_def heap_ok_def heap_fits_def
          heap_from_def)
  next
    case False
    define g where "g = h\<lparr> bh_size := ?n, bh_nodes := ?nodes[0 := ?nodes ! ?n] \<rparr>"
    have res: "d = ?nodes ! 0" "h' = sift_down compare 0 g"
      using r False by (auto simp: binaryheap_remove_first_def Let_def g_def)
    have n: "0 < ?n" using False assms(2) by simp
    have g: "heap_fits g" "0 < bh_size g" "heap_from compare (Suc 0) (bh_size g) (bh_nodes g)" "bh_size g = ?n"
        "bh_space g = bh_space h"
      using assms(1) n fits by (auto simp: g_def heap_fits_def heap_ok_def heap_from_def)
    have "mset ((take ?n ?nodes)[0 := ?nodes ! ?n]) = add_mset (?nodes ! ?n) (mset (take ?n ?nodes) - {# ?nodes ! 0 #})"
      using n fits by (subst mset_update) simp_all
    moreover have "?nodes ! 0 \<in># mset (take ?n ?nodes)"
      using n fits by (auto simp: in_set_conv_nth intro!: exI [of _ 0])
    ultimately have "heap_contents g = heap_contents h - {# ?nodes ! 0 #}"
      unfolding split by (simp add: g_def heap_contents_def take_update_swap)
    then show ?thesis
      using sift_down_ok [OF g(1-3)] g(4,5) by (auto simp: res binaryheap_first_def heap_ok_def)
  qed
  then show "d = binaryheap_first h" "heap_ok compare h'" "heap_contents h' = heap_contents h - {# d #}"
    "bh_size h' = bh_size h - 1" "bh_space h' = bh_space h" by auto
qed

end

end
