(* ===== verification/Reorder_Restore.thy ===== *)
theory Reorder_Restore
  imports Reorder_Iter Binary_Heap_Order
begin

text \<open>
  Spilling and restoring keep the changes of a transaction: the files, read from the segment of
  the first to that of the final position, followed by the changes in memory, are the same list
  before and after (\<open>all_changes\<close>), and the changes restored are the next ones of what the files
  still hold (\<open>disk_left\<close>).
\<close>

interpretation by_lsn: heap_order "ReorderBufferIterCompare entries" for entries
  by unfold_locales (auto simp: ReorderBufferIterCompare_def Let_def split: if_splits)

lemma compare_lsn: "ReorderBufferIterCompare entries a b \<le> 0 \<longleftrightarrow> et_lsn (entries ! b) \<le> et_lsn (entries ! a)"
  by (auto simp: ReorderBufferIterCompare_def Let_def)

section \<open>Sorting by segments\<close>

lemma concat_by_key:
  "sorted (map f xs) \<Longrightarrow> \<forall>x \<in> set xs. a \<le> f x \<and> f x < b \<Longrightarrow>
     concat (map (\<lambda>s. filter (\<lambda>x. f x = s) xs) [a..<b]) = xs"
proof (induction xs arbitrary: a)
  case (Cons x xs)
  let ?m = "f x"
  have m: "a \<le> ?m" "?m < b" "\<forall>y \<in> set xs. ?m \<le> f y \<and> f y < b" using Cons.prems by auto
  have IH: "concat (map (\<lambda>s. filter (\<lambda>x. f x = s) xs) [?m..<b]) = xs"
    using Cons.IH [of ?m] Cons.prems(1) m(3) by simp
  define F where "F = (\<lambda>s. filter (\<lambda>y. f y = s) (x # xs))"
  define G where "G = (\<lambda>s. filter (\<lambda>y. f y = s) xs)"
  have split: "[a..<b] = [a..<?m] @ ?m # [Suc ?m..<b]"
    using m(1,2) upt_add_eq_append [of a ?m "b - ?m"] by (simp add: upt_conv_Cons)
  have "F s = []" if "s < ?m" for s using that m(3) by (auto simp: F_def filter_empty_conv)
  then have before: "concat (map F [a..<?m]) = []" by auto
  have after: "map F [Suc ?m..<b] = map G [Suc ?m..<b]" by (intro map_cong) (auto simp: F_def G_def)
  have at: "F ?m = x # G ?m" by (simp add: F_def G_def)
  have "concat (map F [a..<b]) = x # concat (map G [?m..<b])"
    unfolding split using m(2) by (simp add: before after at upt_conv_Cons)
  also have "\<dots> = x # xs" using IH by (simp add: G_def)
  finally show ?case by (simp add: F_def)
qed simp

lemma concat_of_key:
  assumes "a \<le> s" "s < b" "\<And>s x. x \<in> set (files s) \<Longrightarrow> f x = s"
  shows "filter (\<lambda>x. f x = s) (concat (map files [a..<b])) = files s"
proof -
  have "[a..<b] = [a..<s] @ s # [Suc s..<b]"
    using assms(1,2) upt_add_eq_append [of a s "b - s"] by (simp add: upt_conv_Cons)
  moreover have "filter (\<lambda>x. f x = s) (files s') = []" if "s' \<noteq> s" for s'
    using assms(3) that by (auto simp: filter_empty_conv)
  then have "filter (\<lambda>x. f x = s) (concat (map files [a..<s])) = []"
      "filter (\<lambda>x. f x = s) (concat (map files [Suc s..<b])) = []"
    by (auto simp: filter_concat)
  moreover have "filter (\<lambda>x. f x = s) (files s) = files s" using assms(3) by (auto intro: filter_True)
  ultimately show ?thesis by simp
qed

section \<open>Transactions\<close>

definition first_seg :: "nat \<Rightarrow> 'd rtxn \<Rightarrow> nat" where
  "first_seg w t = XLByteToSeg w (first_lsn t)"

definition last_seg :: "nat \<Rightarrow> 'd rtxn \<Rightarrow> nat" where
  "last_seg w t = XLByteToSeg w (final_lsn t)"

text \<open>All changes, in the order in which they were queued.\<close>

definition all_changes :: "nat \<Rightarrow> 'd rtxn \<Rightarrow> 'd change list" where
  "all_changes w t = concat (map (spill_files t) [first_seg w t..<Suc (last_seg w t)]) @ changes t"

text \<open>
  The conditions on a transaction that is replayed: its changes lie in the order of their
  positions (\<open>AssertChangeLsnOrder\<close>) between its first and its final position, the counters are
  right, and each file has the changes of its segment.
\<close>

definition rtxn_ok :: "nat \<Rightarrow> 'd rtxn \<Rightarrow> bool" where
  "rtxn_ok w t \<longleftrightarrow>
     sorted (map ch_lsn (all_changes w t)) \<and>
     first_lsn t \<le> final_lsn t \<and>
     (\<forall>c \<in> set (changes t). first_lsn t \<le> ch_lsn c \<and> ch_lsn c \<le> final_lsn t) \<and>
     (\<forall>s. \<forall>c \<in> set (spill_files t s). XLByteToSeg w (ch_lsn c) = s \<and>
        first_lsn t \<le> ch_lsn c \<and> ch_lsn c \<le> final_lsn t) \<and>
     nentries t = length (all_changes w t) \<and> nentries_mem t = length (changes t) \<and>
     (\<not> rbtxn_is_serialized t \<longrightarrow> (\<forall>s. spill_files t s = []))"

lemma seg_mono: "a \<le> b \<Longrightarrow> XLByteToSeg w a \<le> XLByteToSeg w b"
  by (simp add: XLByteToSeg_def word_le_nat_alt div_le_mono)

lemma files_after_spill:
  "fold (\<lambda>c files. let segno = XLByteToSeg w (ch_lsn c) in files(segno := files segno @ [c])) cs files s =
     files s @ filter (\<lambda>c. XLByteToSeg w (ch_lsn c) = s) cs"
  by (induction cs arbitrary: files) (simp_all add: Let_def)

lemma serialize_fields [simp]:
  "first_lsn (serialize_changes w t) = first_lsn t" "final_lsn (serialize_changes w t) = final_lsn t"
  "nentries (serialize_changes w t) = nentries t" "changes (serialize_changes w t) = []"
  "nentries_mem (serialize_changes w t) = 0" "rbtxn_is_serialized (serialize_changes w t)"
  "first_seg w (serialize_changes w t) = first_seg w t" "last_seg w (serialize_changes w t) = last_seg w t"
  "spill_files (serialize_changes w t) s =
     spill_files t s @ filter (\<lambda>c. XLByteToSeg w (ch_lsn c) = s) (changes t)"
  by (simp_all add: serialize_changes_def files_after_spill first_seg_def last_seg_def)

lemma serialize_ok:
  assumes ok: "rtxn_ok w t"
  shows "rtxn_ok w (serialize_changes w t)" "all_changes w (serialize_changes w t) = all_changes w t"
proof -
  let ?seg = "\<lambda>c. XLByteToSeg w (ch_lsn c)"
  have "sorted (map ?seg (all_changes w t))"
    using ok seg_mono sorted_map [of ch_lsn "all_changes w t"]
    by (auto simp: rtxn_ok_def sorted_map sorted_wrt_iff_nth_less)
  moreover have "\<forall>c \<in> set (all_changes w t). first_seg w t \<le> ?seg c \<and> ?seg c < Suc (last_seg w t)"
    using ok seg_mono by (auto simp: rtxn_ok_def all_changes_def first_seg_def last_seg_def less_Suc_eq_le)
  ultimately have sorted: "concat (map (\<lambda>s. filter (\<lambda>c. ?seg c = s) (all_changes w t))
      [first_seg w t..<Suc (last_seg w t)]) = all_changes w t"
    by (rule concat_by_key)
  have "spill_files (serialize_changes w t) s = filter (\<lambda>c. ?seg c = s) (all_changes w t)"
    if "s \<in> set [first_seg w t..<Suc (last_seg w t)]" for s
    using that ok concat_of_key [of "first_seg w t" s "Suc (last_seg w t)" "spill_files t" ?seg]
    by (auto simp: all_changes_def rtxn_ok_def)
  then have files: "map (spill_files (serialize_changes w t)) [first_seg w t..<Suc (last_seg w t)] =
      map (\<lambda>s. filter (\<lambda>c. ?seg c = s) (all_changes w t)) [first_seg w t..<Suc (last_seg w t)]"
    by (intro map_cong refl)
  show same: "all_changes w (serialize_changes w t) = all_changes w t"
    unfolding all_changes_def [of w "serialize_changes w t"] serialize_fields(4,7,8) files sorted by simp
  show "rtxn_ok w (serialize_changes w t)"
    using ok unfolding rtxn_ok_def same by auto
qed

section \<open>Reading the files\<close>

definition disk_left :: "nat \<Rightarrow> (nat \<Rightarrow> 'd change list) \<Rightarrow> nat \<Rightarrow> nat option \<Rightarrow> nat \<Rightarrow> 'd change list" where
  "disk_left fst_s files lst fd segno =
     (if segno \<le> lst
      then let s = (if fd = None \<and> segno = 0 then fst_s else segno) in
           drop (case fd of None \<Rightarrow> 0 | Some k \<Rightarrow> k) (files s) @ concat (map files [Suc s..<Suc lst])
      else [])"

lemma disk_left_Suc:
  "fst_s \<le> lst \<Longrightarrow> s \<le> lst \<Longrightarrow> disk_left fst_s files lst None (Suc s) = concat (map files [Suc s..<Suc lst])"
  by (cases "Suc s \<le> lst") (simp_all add: disk_left_def upt_conv_Cons del: upt_Suc)

lemma restore_loop_ok:
  assumes "fst_s \<le> lst" "r \<le> max_changes_in_memory"
    "restore_loop fst_s files lst r fd segno acc = (r', fd', segno', acc')"
  shows "\<exists>ys. acc' = acc @ ys \<and> disk_left fst_s files lst fd segno = ys @ disk_left fst_s files lst fd' segno' \<and>
    r' = r + length ys \<and> r' \<le> max_changes_in_memory \<and> (r' = max_changes_in_memory \<or> disk_left fst_s files lst fd' segno' = [])"
  using assms
proof (induction fst_s files lst r fd segno acc rule: restore_loop.induct)
  case (1 fst_s files lst r fd segno acc)
  define s where "s = (if fd = None \<and> segno = 0 then fst_s else segno)"
  define k where "k = (case fd of None \<Rightarrow> 0 | Some k \<Rightarrow> k)"
  show ?case
  proof (cases "r < max_changes_in_memory \<and> segno \<le> lst")
    case False
    then have "restore_loop fst_s files lst r fd segno acc = (r, fd, segno, acc)"
      by (subst restore_loop.simps) (simp only: if_False)
    then show ?thesis using "1.prems"(2,3) False by (auto simp: disk_left_def)
  next
    case True
    have s: "s \<le> lst" using True "1.prems"(1) by (simp add: s_def)
    have left: "disk_left fst_s files lst fd segno = drop k (files s) @ concat (map files [Suc s..<Suc lst])"
      using True by (simp add: disk_left_def s_def k_def Let_def)
    consider (skip) "fd = None \<and> files s = [] \<or> length (files s) \<le> k" | (read) "k < length (files s)" "\<not> (fd = None \<and> files s = [])"
      by linarith
    then show ?thesis
    proof cases
      case skip
      then have step: "restore_loop fst_s files lst r fd segno acc = restore_loop fst_s files lst r None (s + 1) acc"
        using True by (subst restore_loop.simps) (auto simp: Let_def s_def k_def)
      have "\<exists>ys. acc' = acc @ ys \<and> disk_left fst_s files lst None (s + 1) = ys @ disk_left fst_s files lst fd' segno' \<and>
          r' = r + length ys \<and> r' \<le> max_changes_in_memory \<and> (r' = max_changes_in_memory \<or> disk_left fst_s files lst fd' segno' = [])"
      proof (cases "fd = None \<and> files s = []")
        case gone: True
        show ?thesis using "1.IH"(1) [OF True s_def gone] "1.prems" step by simp
      next
        case there: False
        then have "length (files s) \<le> k" using skip by blast
        from "1.IH"(2) [OF True s_def there k_def this] show ?thesis using "1.prems" step by simp
      qed
      moreover have "disk_left fst_s files lst fd segno = disk_left fst_s files lst None (s + 1)"
        using skip left by (auto simp: k_def disk_left_Suc [OF "1.prems"(1) s] simp del: upt_Suc)
      ultimately show ?thesis by simp
    next
      case read
      then have step: "restore_loop fst_s files lst r fd segno acc =
          restore_loop fst_s files lst (r + 1) (Some (k + 1)) s (acc @ [files s ! k])"
        using True by (subst restore_loop.simps) (auto simp: Let_def s_def k_def)
      have "\<exists>ys. acc' = (acc @ [files s ! k]) @ ys \<and>
          disk_left fst_s files lst (Some (k + 1)) s = ys @ disk_left fst_s files lst fd' segno' \<and>
          r' = r + 1 + length ys \<and> r' \<le> max_changes_in_memory \<and> (r' = max_changes_in_memory \<or> disk_left fst_s files lst fd' segno' = [])"
        using "1.IH"(3) [OF True s_def _ k_def] read "1.prems" step True by auto
      moreover have "disk_left fst_s files lst fd segno = files s ! k # disk_left fst_s files lst (Some (k + 1)) s"
        using read(1) left s by (simp add: disk_left_def Cons_nth_drop_Suc del: upt_Suc)
      ultimately show ?thesis by auto
    qed
  qed
qed

end
