(* ===== verification/Reorder_Order.thy ===== *)
theory Reorder_Order
  imports Reorder_Restore
begin

text \<open>
  The iterator merges the changes of the transactions: \<open>iter_ok\<close> relates its state to the list of
  changes that each entry still has to return, and every call of \<open>ReorderBufferIterTXNNext\<close> takes
  the first change of one of these lists, one with the least position of all.
\<close>

section \<open>Interleavings\<close>

inductive interleaving :: "'a list list \<Rightarrow> 'a list \<Rightarrow> bool" where
  finished: "\<forall>xs \<in> set xss. xs = [] \<Longrightarrow> interleaving xss []"
| taken: "i < length xss \<Longrightarrow> xss ! i = x # xs \<Longrightarrow> interleaving (xss[i := xs]) ys \<Longrightarrow> interleaving xss (x # ys)"

lemma mset_concat_update:
  "i < length xss \<Longrightarrow> xss ! i = x # xs \<Longrightarrow> mset (concat xss) = add_mset x (mset (concat (xss[i := xs])))"
  by (induction xss arbitrary: i) (auto simp: nth_Cons split: nat.splits)

lemma interleaving_mset: "interleaving xss ys \<Longrightarrow> mset ys = mset (concat xss)"
  by (induction rule: interleaving.induct) (auto simp: mset_concat_update)

lemma interleaving_set: "interleaving xss ys \<Longrightarrow> set ys = (\<Union>xs \<in> set xss. set xs)"
  using interleaving_mset [of xss ys] by (metis set_concat set_mset_mset)

section \<open>The state of the iterator\<close>

definition txn_of :: "'d iter_state \<Rightarrow> nat \<Rightarrow> 'd rtxn" where
  "txn_of st off = it_txns st ! et_txn (it_entries st ! off)"

definition files_left :: "nat \<Rightarrow> 'd rtxn \<Rightarrow> nat option \<Rightarrow> nat \<Rightarrow> 'd change list" where
  "files_left w t fd segno = disk_left (first_seg w t) (spill_files t) (last_seg w t) fd segno"

definition entry_at :: "nat \<Rightarrow> 'd rtxn \<Rightarrow> iter_entry \<Rightarrow> 'd change list \<Rightarrow> bool" where
  "entry_at w t e rem \<longleftrightarrow>
     et_pos e < length (changes t) \<and> et_lsn e = ch_lsn (changes t ! et_pos e) \<and>
     rem = drop (et_pos e) (changes t) @ files_left w t (et_file e) (et_segno e) \<and>
     sorted (map ch_lsn rem) \<and> first_seg w t \<le> last_seg w t \<and> nentries_mem t = length (changes t) \<and>
     length (files_left w t (et_file e) (et_segno e)) \<le> nentries t \<and>
     (nentries t = nentries_mem t \<longrightarrow> files_left w t (et_file e) (et_segno e) = [])"

definition iter_ok :: "nat \<Rightarrow> 'd iter_state \<Rightarrow> 'd change list list \<Rightarrow> bool" where
  "iter_ok w st rems \<longleftrightarrow>
     length rems = length (it_entries st) \<and>
     (\<forall>off < length rems. et_txn (it_entries st ! off) < length (it_txns st)) \<and>
     (\<forall>a < length rems. \<forall>b < length rems. et_txn (it_entries st ! a) = et_txn (it_entries st ! b) \<longrightarrow> a = b) \<and>
     heap_ok (ReorderBufferIterCompare (it_entries st)) (it_heap st) \<and>
     heap_contents (it_heap st) = mset_set {off. off < length rems \<and> rems ! off \<noteq> []} \<and>
     (\<forall>off < length rems. rems ! off \<noteq> [] \<longrightarrow> entry_at w (txn_of st off) (it_entries st ! off) (rems ! off))"

lemma entry_at_hd:
  "entry_at w t e rem \<Longrightarrow> rem = changes t ! et_pos e # tl rem \<and> et_lsn e = ch_lsn (hd rem)"
  by (auto simp: entry_at_def Cons_nth_drop_Suc [symmetric])

lemma entry_at_sorted: "entry_at w t e rem \<Longrightarrow> sorted (map ch_lsn rem)"
  unfolding entry_at_def by blast

lemma restore_at:
  assumes at: "first_seg w t \<le> last_seg w t" "length (files_left w t fd segno) \<le> nentries t"
    and re: "ReorderBufferRestoreChanges w t fd segno = (restored, t', fd', segno')"
  shows "files_left w t fd segno = changes t' @ files_left w t' fd' segno'" "restored = length (changes t')"
    and "restored = 0 \<Longrightarrow> files_left w t fd segno = []"
    and "0 < restored \<Longrightarrow> sorted (map ch_lsn (files_left w t fd segno)) \<Longrightarrow>
           entry_at w t' \<lparr> et_lsn = ch_lsn (changes t' ! 0), et_pos = 0, et_txn = i, et_file = fd', et_segno = segno' \<rparr>
             (files_left w t fd segno)"
    and "nentries t' = nentries t"
proof -
  obtain cs where loop: "restore_loop (first_seg w t) (spill_files t) (last_seg w t) 0 fd segno [] = (restored, fd', segno', cs)"
    and t': "t' = t\<lparr> changes := cs, nentries_mem := length cs \<rparr>"
    using re by (auto simp: ReorderBufferRestoreChanges_def first_seg_def last_seg_def split: prod.splits)
  have seg: "first_seg w t' = first_seg w t" "last_seg w t' = last_seg w t" by (simp_all add: t' first_seg_def last_seg_def)
  obtain r: "files_left w t fd segno = cs @ files_left w t' fd' segno'" "restored = length cs"
      "restored = max_changes_in_memory \<or> files_left w t' fd' segno' = []"
    using restore_loop_ok [OF at(1) _ loop] seg by (auto simp: files_left_def t')
  then show 1: "files_left w t fd segno = changes t' @ files_left w t' fd' segno'" "restored = length (changes t')"
    by (simp_all add: t')
  show "files_left w t fd segno = []" if "restored = 0" using r that by (auto simp: max_changes_in_memory_def)
  have "files_left w t' fd' segno' = []" if "nentries t' = nentries_mem t'"
    using that at(2) r(1) by (auto simp: t')
  then show "entry_at w t' \<lparr> et_lsn = ch_lsn (changes t' ! 0), et_pos = 0, et_txn = i, et_file = fd', et_segno = segno' \<rparr>
      (files_left w t fd segno)"
    if "0 < restored" "sorted (map ch_lsn (files_left w t fd segno))"
    using that 1 at seg by (auto simp: entry_at_def t')
  show "nentries t' = nentries t" by (simp add: t')
qed

section \<open>One call\<close>

lemma compare_update:
  assumes "a \<noteq> off" "b \<noteq> off"
  shows "ReorderBufferIterCompare (entries[off := e]) a b = ReorderBufferIterCompare entries a b"
  using assms by (simp add: ReorderBufferIterCompare_def)

lemma compare_same_lsn:
  assumes "et_lsn e = et_lsn (entries ! off)"
  shows "ReorderBufferIterCompare (entries[off := e]) = ReorderBufferIterCompare entries"
proof -
  have "et_lsn (entries[off := e] ! a) = et_lsn (entries ! a)" for a
    using assms by (cases "off < length entries") (auto simp: nth_list_update list_update_beyond not_less)
  then show ?thesis by (intro ext) (simp add: ReorderBufferIterCompare_def)
qed

lemma iter_first:
  assumes ok: "iter_ok w st rems" and size: "bh_size (it_heap st) \<noteq> 0"
  defines "off \<equiv> binaryheap_first (it_heap st)"
  shows "off < length rems" "rems ! off \<noteq> []" "entry_at w (txn_of st off) (it_entries st ! off) (rems ! off)"
    and "\<And>x. x \<in> (\<Union>xs \<in> set rems. set xs) \<Longrightarrow> ch_lsn (hd (rems ! off)) \<le> ch_lsn x"
proof -
  note ok' = ok [unfolded iter_ok_def]
  have fits: "heap_fits (it_heap st)" "0 < bh_size (it_heap st)" using ok' size by (auto simp: heap_ok_def)
  have "off \<in># heap_contents (it_heap st)"
    unfolding off_def using by_lsn.contents_first [OF fits] by blast
  then have "off \<in># mset_set {o'. o' < length rems \<and> rems ! o' \<noteq> []}" using ok' by simp
  then show off: "off < length rems" "rems ! off \<noteq> []" by simp_all
  then show at: "entry_at w (txn_of st off) (it_entries st ! off) (rems ! off)" using ok' by blast
  fix x assume "x \<in> (\<Union>xs \<in> set rems. set xs)"
  then obtain o' where o': "o' < length rems" "x \<in> set (rems ! o')" by (metis UN_E in_set_conv_nth)
  then have ne: "rems ! o' \<noteq> []" by auto
  have at': "entry_at w (txn_of st o') (it_entries st ! o') (rems ! o')" using ok' o'(1) ne by blast
  have "o' \<in># heap_contents (it_heap st)" using ok' o'(1) ne by simp
  then have "ReorderBufferIterCompare (it_entries st) o' off \<le> 0"
    using by_lsn.first_greatest ok' by (simp add: off_def)
  then have "ch_lsn (hd (rems ! off)) \<le> ch_lsn (hd (rems ! o'))"
    using entry_at_hd [OF at] entry_at_hd [OF at'] by (simp add: compare_lsn)
  moreover have "sorted (map ch_lsn (rems ! o'))" using at' by (rule entry_at_sorted)
  then have "ch_lsn (hd (rems ! o')) \<le> ch_lsn x"
    using o'(2) ne by (cases "rems ! o'") auto
  ultimately show "ch_lsn (hd (rems ! off)) \<le> ch_lsn x" by simp
qed

text \<open>An update of the first entry that leaves it with changes keeps its place in the heap valid.\<close>

lemma set_first_entry:
  assumes ok: "iter_ok w st rems" and size: "bh_size (it_heap st) \<noteq> 0"
  defines "off \<equiv> binaryheap_first (it_heap st)"
  assumes entries: "entries = (it_entries st)[off := e]" and e: "et_txn e = et_txn (it_entries st ! off)"
    and txns: "txns = (it_txns st)[et_txn e := t]" and at: "entry_at w t e rem" "rem \<noteq> []"
  shows "iter_ok w (st\<lparr> it_txns := txns, it_entries := entries,
      it_heap := binaryheap_replace_first (ReorderBufferIterCompare entries) off (it_heap st) \<rparr>) (rems[off := rem])"
proof -
  note ok' = ok [unfolded iter_ok_def] and first = iter_first [OF ok size, folded off_def]
  let ?h = "it_heap st" and ?c = "ReorderBufferIterCompare entries"
  have fits: "heap_fits ?h" "0 < bh_size ?h" using ok' size by (auto simp: heap_ok_def)
  have "distinct (take (bh_size ?h) (bh_nodes ?h))"
  proof -
    have "count (mset (take (bh_size ?h) (bh_nodes ?h))) x \<le> 1" for x
      using ok' by (simp add: heap_contents_def count_mset_set')
    then have "count (mset (take (bh_size ?h) (bh_nodes ?h))) x = (if x \<in> set (take (bh_size ?h) (bh_nodes ?h)) then 1 else 0)" for x
      by (metis One_nat_def count_greater_zero_iff count_inI le_Suc_eq le_zero_eq not_gr_zero set_mset_mset)
    then show ?thesis by (simp add: distinct_count_atmost_1)
  qed
  then have not_off: "bh_nodes ?h ! j \<noteq> off" if "0 < j" "j < bh_size ?h" for j
    using that fits nth_eq_iff_index_eq [of "take (bh_size ?h) (bh_nodes ?h)" j 0]
    by (auto simp: off_def binaryheap_first_def heap_fits_def)
  have "?c (bh_nodes ?h ! j) (bh_nodes ?h ! parent j) \<le> 0"
    if j: "0 < j" "j < bh_size ?h" "parent j \<noteq> 0" for j
  proof -
    have "bh_nodes ?h ! j \<noteq> off" "bh_nodes ?h ! parent j \<noteq> off"
      using not_off [of j] not_off [of "parent j"] j by auto
    then have "?c (bh_nodes ?h ! j) (bh_nodes ?h ! parent j) =
        ReorderBufferIterCompare (it_entries st) (bh_nodes ?h ! j) (bh_nodes ?h ! parent j)"
      unfolding entries by (rule compare_update)
    then show ?thesis using ok' j by (simp add: heap_ok_def heap_from_def)
  qed
  note heap = by_lsn.replace_first_ok [where entries = entries and d = off, OF fits this]
  have "off \<in># heap_contents ?h" unfolding off_def using by_lsn.contents_first [OF fits] by blast
  then have "heap_contents (binaryheap_replace_first ?c off ?h) = heap_contents ?h"
    using heap(2) by (simp add: off_def)
  moreover have "{o'. o' < length rems \<and> rems[off := rem] ! o' \<noteq> []} = {o'. o' < length rems \<and> rems ! o' \<noteq> []}"
    using first(1,2) at(2) by (auto simp: nth_list_update)
  moreover have "et_txn (entries ! o') = et_txn (it_entries st ! o')" for o'
    using e by (cases "off < length (it_entries st)") (auto simp: entries nth_list_update list_update_beyond not_less)
  moreover have "entry_at w (txns ! et_txn (entries ! o')) (entries ! o') (rems[off := rem] ! o')"
    if "o' < length rems" "rems[off := rem] ! o' \<noteq> []" for o'
  proof (cases "o' = off")
    case True
    then show ?thesis using at ok' first(1) e by (simp add: entries txns)
  next
    case False
    then have "et_txn (it_entries st ! o') \<noteq> et_txn e" using ok' first(1) that(1) e by metis
    then show ?thesis using False that ok' by (auto simp: entries txns txn_of_def)
  qed
  ultimately show ?thesis
    using ok' heap(1) by (auto simp: iter_ok_def txn_of_def entries txns)
qed

lemma drop_first:
  assumes ok: "iter_ok w st rems" and size: "bh_size (it_heap st) \<noteq> 0"
  defines "off \<equiv> binaryheap_first (it_heap st)"
  assumes entries: "entries = (it_entries st)[off := e]"
    and e: "et_txn e = et_txn (it_entries st ! off)" "et_lsn e = et_lsn (it_entries st ! off)"
    and txns: "txns = (it_txns st)[et_txn e := t]"
  shows "iter_ok w (drop_first_entry (st\<lparr> it_txns := txns, it_entries := entries \<rparr>)) (rems[off := []])"
proof -
  note ok' = ok [unfolded iter_ok_def] and first = iter_first [OF ok size, folded off_def]
  let ?h = "it_heap st" and ?c = "ReorderBufferIterCompare (it_entries st)"
  have c: "ReorderBufferIterCompare entries = ?c" unfolding entries by (rule compare_same_lsn [OF e(2)])
  obtain d h' where r: "binaryheap_remove_first ?c ?h = (d, h')" by fastforce
  have hok: "heap_ok ?c ?h" "0 < bh_size ?h" using ok' size by auto
  note heap = by_lsn.remove_first_ok [OF hok r]
  have "heap_contents h' = mset_set {o'. o' < length rems \<and> rems ! o' \<noteq> []} - {# off #}"
    using heap(1,3) ok' by (simp add: off_def)
  also have "\<dots> = mset_set ({o'. o' < length rems \<and> rems ! o' \<noteq> []} - {off})"
    using first(1,2) by (subst mset_set_Diff) auto
  also have "{o'. o' < length rems \<and> rems ! o' \<noteq> []} - {off} = {o'. o' < length rems \<and> rems[off := []] ! o' \<noteq> []}"
    using first(1) by (auto simp: nth_list_update split: if_splits)
  finally have contents: "heap_contents h' = mset_set {o'. o' < length rems \<and> rems[off := []] ! o' \<noteq> []}" .
  have same: "et_txn (entries ! o') = et_txn (it_entries st ! o')" for o'
    using e by (cases "off < length (it_entries st)") (auto simp: entries nth_list_update list_update_beyond not_less)
  have others: "entry_at w (txns ! et_txn (entries ! o')) (entries ! o') (rems[off := []] ! o')"
    if "o' < length rems" "rems[off := []] ! o' \<noteq> []" for o'
  proof -
    have "o' \<noteq> off" using that by auto
    moreover from this have "et_txn (it_entries st ! o') \<noteq> et_txn e" using ok' first(1) that(1) e(1) by metis
    ultimately show ?thesis using that ok' by (auto simp: entries txns txn_of_def)
  qed
  show ?thesis
    using ok' heap(2) contents same others c r
    by (auto simp: iter_ok_def txn_of_def drop_first_entry_def txns) (auto simp: entries)
qed

text \<open>The states of the call after the last change in memory was taken.\<close>

lemma next_cases:
  assumes ok: "iter_ok w st rems" and size: "bh_size (it_heap st) \<noteq> 0"
  defines "off \<equiv> binaryheap_first (it_heap st)"
  shows "fst (ReorderBufferIterTXNNext w st) = Some (hd (rems ! off))"
    and "iter_ok w (snd (ReorderBufferIterTXNNext w st)) (rems[off := tl (rems ! off)])"
proof -
  define e where "e = it_entries st ! off"
  define t where "t = it_txns st ! et_txn e"
  note first = iter_first [OF ok size, folded off_def]
  have at: "entry_at w t e (rems ! off)" using first(3) by (simp add: txn_of_def e_def t_def)
  have hd: "hd (rems ! off) = changes t ! et_pos e" using entry_at_hd [OF at] by (metis list.sel(1))
  have tl: "tl (rems ! off) = drop (Suc (et_pos e)) (changes t) @ files_left w t (et_file e) (et_segno e)"
    using at by (simp add: entry_at_def drop_Suc tl_drop)
  have sorted: "sorted (map ch_lsn (tl (rems ! off)))"
    using entry_at_sorted [OF at] by (simp only: map_tl sorted_tl)
  have same: "(it_txns st)[et_txn e := t] = it_txns st" by (simp add: t_def)
  note set_first = set_first_entry [OF ok size, folded off_def, folded e_def]
    and dropped = drop_first [OF ok size, folded off_def, folded e_def]
  show "fst (ReorderBufferIterTXNNext w st) = Some (hd (rems ! off))"
    using size by (simp add: ReorderBufferIterTXNNext_def Let_def off_def [symmetric] e_def [symmetric] t_def [symmetric] hd
        split: prod.split)
  consider (memory) "et_pos e + 1 < length (changes t)"
    | (files) "\<not> et_pos e + 1 < length (changes t)" "nentries t \<noteq> nentries_mem t"
    | (rest) "\<not> et_pos e + 1 < length (changes t)" "nentries t = nentries_mem t" by blast
  then show "iter_ok w (snd (ReorderBufferIterTXNNext w st)) (rems[off := tl (rems ! off)])"
  proof cases
    case memory
    define e' where "e' = e\<lparr> et_lsn := ch_lsn (changes t ! (et_pos e + 1)), et_pos := et_pos e + 1 \<rparr>"
    have "entry_at w t e' (tl (rems ! off))" using memory at tl sorted by (simp add: entry_at_def e'_def)
    moreover have "tl (rems ! off) \<noteq> []" using memory tl by simp
    ultimately have "iter_ok w (st\<lparr> it_txns := (it_txns st)[et_txn e' := t], it_entries := (it_entries st)[off := e'],
        it_heap := binaryheap_replace_first (ReorderBufferIterCompare ((it_entries st)[off := e'])) off (it_heap st) \<rparr>)
        (rems[off := tl (rems ! off)])"
      by (intro set_first) (simp_all add: e'_def)
    then show ?thesis
      using size memory
      by (simp add: ReorderBufferIterTXNNext_def Let_def off_def [symmetric] e_def [symmetric] t_def [symmetric]
          set_entry_def e'_def same)
  next
    case files
    obtain restored t' fd segno where
      re: "ReorderBufferRestoreChanges w t (et_file e) (et_segno e) = (restored, t', fd, segno)"
      using prod_cases4 by blast
    have tl': "tl (rems ! off) = files_left w t (et_file e) (et_segno e)" using files tl by simp
    have le: "first_seg w t \<le> last_seg w t" "length (files_left w t (et_file e) (et_segno e)) \<le> nentries t"
      using at by (simp_all add: entry_at_def)
    note restored = restore_at [OF le re]
    define e' where "e' = e\<lparr> et_file := fd, et_segno := segno \<rparr>"
    show ?thesis
    proof (cases "0 < restored")
      case True
      define e'' where "e'' = e'\<lparr> et_lsn := ch_lsn (changes t' ! 0), et_pos := 0 \<rparr>"
      have e'': "e'' = \<lparr> et_lsn = ch_lsn (changes t' ! 0), et_pos = 0, et_txn = et_txn e, et_file = fd, et_segno = segno \<rparr>"
        by (simp add: e''_def e'_def)
      have "entry_at w t' e'' (tl (rems ! off))"
        unfolding tl' e'' using restored(4) [OF True] sorted tl' by simp
      moreover have "tl (rems ! off) \<noteq> []" using True restored(1,2) tl' by auto
      ultimately have "iter_ok w (st\<lparr> it_txns := (it_txns st)[et_txn e'' := t'], it_entries := (it_entries st)[off := e''],
          it_heap := binaryheap_replace_first (ReorderBufferIterCompare ((it_entries st)[off := e''])) off (it_heap st) \<rparr>)
          (rems[off := tl (rems ! off)])"
        by (intro set_first) (simp_all add: e'')
      moreover have "off < length (it_entries st)" using ok first(1) by (simp add: iter_ok_def)
      ultimately show ?thesis
        using size files True re
        by (simp add: ReorderBufferIterTXNNext_def Let_def off_def [symmetric] e_def [symmetric] t_def [symmetric]
            set_entry_def e''_def e'_def)
    next
      case False
      then have none: "tl (rems ! off) = []" using restored(3) tl' by simp
      have "iter_ok w (drop_first_entry (st\<lparr> it_txns := (it_txns st)[et_txn e' := t'], it_entries := (it_entries st)[off := e'] \<rparr>))
          (rems[off := []])"
        by (rule dropped [where e = e']) (simp_all add: e'_def)
      then show ?thesis
        using size files False re none
        by (simp add: ReorderBufferIterTXNNext_def Let_def off_def [symmetric] e_def [symmetric] t_def [symmetric] e'_def)
    qed
  next
    case rest
    then have none: "tl (rems ! off) = []" using tl at by (simp add: entry_at_def)
    have "iter_ok w (drop_first_entry (st\<lparr> it_txns := (it_txns st)[et_txn e := t], it_entries := (it_entries st)[off := e] \<rparr>))
        (rems[off := []])"
      by (rule dropped [where e = e]) simp_all
    moreover have "(it_entries st)[off := e] = it_entries st" by (simp add: e_def)
    ultimately show ?thesis
      using size rest none
      by (simp add: ReorderBufferIterTXNNext_def Let_def off_def [symmetric] e_def [symmetric] t_def [symmetric] same)
  qed
qed

end
