(* ===== verification/Reorder_Init.thy ===== *)
theory Reorder_Init
  imports Reorder_Order
begin

text \<open>
  The iterator starts with one entry for each transaction that contains changes, and each entry has
  all changes of its transaction to return (\<open>init_ok\<close> is the invariant of the loop that adds the
  entries). With the lemma on one call this gives the whole iteration.
\<close>

section \<open>Adding the transactions\<close>

definition filled :: "nat \<Rightarrow> 'd rtxn list \<Rightarrow> nat \<Rightarrow> nat list" where
  "filled w txns i = filter (\<lambda>j. all_changes w (txns ! j) \<noteq> []) [0..<i]"

lemma filled_Suc:
  "filled w txns (Suc i) = filled w txns i @ (if all_changes w (txns ! i) \<noteq> [] then [i] else [])"
  by (simp add: filled_def)

lemma filled_less: "j < length (filled w txns i) \<Longrightarrow> filled w txns i ! j < i"
  using nth_mem [of j "filled w txns i"] by (auto simp: filled_def)

lemma filled_length:
  assumes "i < n" "all_changes w (txns ! i) \<noteq> []"
  shows "length (filled w txns i) < length (filled w txns n)"
proof -
  have "[0..<n] = [0..<Suc i] @ [Suc i..<n]" using assms(1) upt_add_eq_append [of 0 "Suc i" "n - Suc i"] by simp
  then show ?thesis using assms(2) by (simp add: filled_def)
qed

definition txns_left :: "nat \<Rightarrow> 'd rtxn list \<Rightarrow> nat \<Rightarrow> 'd rtxn list \<Rightarrow> bool" where
  "txns_left w txns0 i txns \<longleftrightarrow> length txns = length txns0 \<and>
     (\<forall>j. i \<le> j \<and> j < length txns0 \<longrightarrow> rtxn_ok w (txns ! j) \<and> all_changes w (txns ! j) = all_changes w (txns0 ! j))"

definition init_ok :: "nat \<Rightarrow> 'd rtxn list \<Rightarrow> nat \<Rightarrow> 'd iter_state \<Rightarrow> nat \<Rightarrow> bool" where
  "init_ok w txns0 i st off \<longleftrightarrow>
     txns_left w txns0 i (it_txns st) \<and> off = length (filled w txns0 i) \<and>
     (\<forall>k < off. et_txn (it_entries st ! k) = filled w txns0 i ! k \<and>
        entry_at w (it_txns st ! (filled w txns0 i ! k)) (it_entries st ! k) (all_changes w (txns0 ! (filled w txns0 i ! k)))) \<and>
     length (it_entries st) = length (filled w txns0 (length txns0)) \<and>
     (\<forall>k. off \<le> k \<and> k < length (it_entries st) \<longrightarrow> et_file (it_entries st ! k) = None \<and> et_segno (it_entries st ! k) = 0) \<and>
     heap_fits (it_heap st) \<and> bh_size (it_heap st) = off \<and> bh_space (it_heap st) = length (it_entries st) \<and>
     take off (bh_nodes (it_heap st)) = [0..<off]"

lemma nentries_pos: "rtxn_ok w t \<Longrightarrow> 0 < nentries t \<longleftrightarrow> all_changes w t \<noteq> []"
  by (simp add: rtxn_ok_def)

lemma first_le_last: "rtxn_ok w t \<Longrightarrow> first_seg w t \<le> last_seg w t"
  by (simp add: rtxn_ok_def first_seg_def last_seg_def seg_mono)

text \<open>With no file open and no segment read, the files have everything that is not in memory.\<close>

lemma files_at_start:
  "first_seg w t \<le> last_seg w t \<Longrightarrow> all_changes w t = files_left w t None 0 @ changes t"
  by (simp add: all_changes_def files_left_def disk_left_def upt_conv_Cons Let_def del: upt_Suc)

lemma serialize_txns:
  assumes "txns_left w txns0 i txns" "i < length txns0"
  shows "txns_left w txns0 i (ReorderBufferSerializeTXN w i txns)"
    "ReorderBufferSerializeTXN w i txns ! i = serialize_changes w (txns ! i)"
    "j < i \<Longrightarrow> ReorderBufferSerializeTXN w i txns ! j = txns ! j"
  using assms by (auto simp: txns_left_def ReorderBufferSerializeTXN_def nth_list_update serialize_ok)

text \<open>The first entry of a transaction with changes, in memory or from the files.\<close>

lemma entry_in_memory:
  assumes ok: "rtxn_ok w t" "all_changes w t \<noteq> []" and mem: "\<not> rbtxn_is_serialized t"
  shows "changes t \<noteq> []"
    and "entry_at w t \<lparr> et_lsn = ch_lsn (hd (changes t)), et_pos = 0, et_txn = i, et_file = None, et_segno = 0 \<rparr>
           (all_changes w t)"
proof -
  have "\<forall>s. spill_files t s = []" using ok mem by (simp add: rtxn_ok_def)
  then have all: "all_changes w t = changes t" by (simp add: all_changes_def del: upt_Suc)
  then have left: "files_left w t None 0 = []" using files_at_start [OF first_le_last [OF ok(1)]] by simp
  show "changes t \<noteq> []" using ok(2) all by simp
  then show "entry_at w t \<lparr> et_lsn = ch_lsn (hd (changes t)), et_pos = 0, et_txn = i, et_file = None, et_segno = 0 \<rparr>
      (all_changes w t)"
    using ok all left first_le_last [OF ok(1)] by (simp add: entry_at_def rtxn_ok_def hd_conv_nth)
qed

lemma entry_restored:
  assumes ok: "rtxn_ok w t" "all_changes w t \<noteq> []"
    and re: "ReorderBufferRestoreChanges w (serialize_changes w t) None 0 = (restored, t', fd, segno)"
  shows "changes t' \<noteq> []"
    and "entry_at w t' \<lparr> et_lsn = ch_lsn (hd (changes t')), et_pos = 0, et_txn = i, et_file = fd, et_segno = segno \<rparr>
           (all_changes w t)"
proof -
  let ?s = "serialize_changes w t"
  have s: "rtxn_ok w ?s" "all_changes w ?s = all_changes w t" using serialize_ok [OF ok(1)] by auto
  have le: "first_seg w ?s \<le> last_seg w ?s" using first_le_last [OF s(1)] .
  have left: "files_left w ?s None 0 = all_changes w t" using files_at_start [OF le] s(2) by simp
  have "length (files_left w ?s None 0) \<le> nentries ?s" using ok(1) left by (simp add: rtxn_ok_def)
  note r = restore_at [OF le this re]
  have pos: "0 < restored" using r(3) left ok(2) by auto
  then show ne: "changes t' \<noteq> []" using r(2) by auto
  have "sorted (map ch_lsn (files_left w ?s None 0))" using ok(1) left by (simp add: rtxn_ok_def)
  from r(4) [OF pos this] show "entry_at w t' \<lparr> et_lsn = ch_lsn (hd (changes t')), et_pos = 0, et_txn = i, et_file = fd, et_segno = segno \<rparr>
      (all_changes w t)"
    using ne left by (simp add: hd_conv_nth)
qed

section \<open>The loop\<close>

text \<open>The addition of a transaction with changes, once its list of changes starts with \<open>c\<close>.\<close>

definition entry_added :: "nat \<Rightarrow> 'd rtxn list \<Rightarrow> iter_entry \<Rightarrow> 'd iter_state \<Rightarrow> nat \<Rightarrow> nat binaryheap \<Rightarrow> 'd iter_state" where
  "entry_added i txns e st off h =
     st\<lparr> it_txns := txns, it_entries := (it_entries st)[off := e], it_heap := h \<rparr>"

lemma entry_added_ok:
  assumes ok: "init_ok w txns0 i st off" and i: "i < length txns0" and ne: "all_changes w (txns0 ! i) \<noteq> []"
    and txns: "txns_left w txns0 (Suc i) txns" "\<And>j. j < i \<Longrightarrow> txns ! j = it_txns st ! j"
    and e: "et_txn e = i" "entry_at w (txns ! i) e (all_changes w (txns0 ! i))"
  shows "\<exists>h. binaryheap_add_unordered off (it_heap st) = Some h \<and>
    init_ok w txns0 (Suc i) (entry_added i txns e st off h) (Suc off)"
proof -
  note ok' = ok [unfolded init_ok_def]
  have off: "off = length (filled w txns0 i)" "off < length (it_entries st)"
    using ok' filled_length [OF i ne] by simp_all
  have "heap_fits (it_heap st)" "bh_size (it_heap st) < bh_space (it_heap st)" using ok' off by simp_all
  from by_lsn.add_unordered_ok [OF this] obtain h where h: "binaryheap_add_unordered off (it_heap st) = Some h" "heap_fits h"
      "bh_size h = bh_size (it_heap st) + 1" "bh_space h = bh_space (it_heap st)"
      "take (bh_size h) (bh_nodes h) = take (bh_size (it_heap st)) (bh_nodes (it_heap st)) @ [off]"
    by metis
  have "bh_size (it_heap st) = off" "take off (bh_nodes (it_heap st)) = [0..<off]" using ok' by blast+
  then have nodes: "take (Suc off) (bh_nodes h) = [0..<Suc off]" using h(3,5) by simp
  have fill: "filled w txns0 (Suc i) = filled w txns0 i @ [i]" using ne by (simp add: filled_Suc)
  have entries: "et_txn ((it_entries st)[off := e] ! k) = filled w txns0 (Suc i) ! k \<and>
      entry_at w (txns ! (filled w txns0 (Suc i) ! k)) ((it_entries st)[off := e] ! k)
        (all_changes w (txns0 ! (filled w txns0 (Suc i) ! k)))" if "k < Suc off" for k
  proof (cases "k = off")
    case True
    then show ?thesis using e off by (simp add: fill nth_append)
  next
    case False
    then have k: "k < off" using that by simp
    then have "filled w txns0 i ! k < i" using filled_less off(1) by blast
    then show ?thesis using k off ok' txns(2) by (simp add: fill nth_append)
  qed
  have "init_ok w txns0 (Suc i) (entry_added i txns e st off h) (Suc off)"
    unfolding init_ok_def entry_added_def using txns(1) entries nodes h(2-4) ok' off fill by simp
  with h(1) show ?thesis by blast
qed

lemma add_iter_txn_ok:
  assumes ok: "init_ok w txns0 i st off" and i: "i < length txns0"
  shows "\<exists>st' off'. add_iter_txn w i (st, off) = Some (st', off') \<and> init_ok w txns0 (Suc i) st' off'"
proof -
  let ?t = "it_txns st ! i"
  have left: "txns_left w txns0 i (it_txns st)" using ok by (simp add: init_ok_def)
  then have t: "rtxn_ok w ?t" "all_changes w ?t = all_changes w (txns0 ! i)" "i < length (it_txns st)"
    using i by (auto simp: txns_left_def)
  have left': "txns_left w txns0 (Suc i) (it_txns st)" using left by (simp add: txns_left_def)
  show ?thesis
  proof (cases "all_changes w (txns0 ! i) = []")
    case True
    then have same: "filled w txns0 (Suc i) = filled w txns0 i" by (simp add: filled_Suc)
    have "init_ok w txns0 (Suc i) st off" using ok left' unfolding init_ok_def same by blast
    moreover have "nentries ?t = 0" using t True by (simp add: rtxn_ok_def)
    ultimately show ?thesis by (simp add: add_iter_txn_def)
  next
    case False
    then have n: "0 < nentries ?t" using t nentries_pos [OF t(1)] by simp
    have ne: "all_changes w ?t \<noteq> []" using False t(2) by simp
    have off: "off < length (it_entries st)" "et_file (it_entries st ! off) = None" "et_segno (it_entries st ! off) = 0"
      using ok filled_length [OF i False] by (auto simp: init_ok_def)
    show ?thesis
    proof (cases "rbtxn_is_serialized ?t")
      case mem: False
      define e where "e = \<lparr> et_lsn = ch_lsn (hd (changes ?t)), et_pos = 0, et_txn = i, et_file = None, et_segno = 0 \<rparr>"
      note entry = entry_in_memory [OF t(1) ne mem]
      obtain c cs where cs: "changes ?t = c # cs" using entry(1) by (cases "changes ?t") auto
      have at: "entry_at w ?t e (all_changes w (txns0 ! i))" using entry(2) t(2) by (simp add: e_def)
      obtain h where h: "binaryheap_add_unordered off (it_heap st) = Some h"
          "init_ok w txns0 (Suc i) (entry_added i (it_txns st) e st off h) (Suc off)"
        using entry_added_ok [OF ok i False left' _ _ at] by (auto simp: e_def)
      have "(it_entries st ! off)\<lparr> et_lsn := ch_lsn c, et_pos := 0, et_txn := i \<rparr> = e"
        using off cs by (cases "it_entries st ! off") (simp add: e_def)
      then have "add_iter_txn w i (st, off) = Some (entry_added i (it_txns st) e st off h, Suc off)"
        using n mem cs h(1) off by (simp add: add_iter_txn_def entry_added_def)
      then show ?thesis using h(2) by blast
    next
      case ser: True
      define txns where "txns = ReorderBufferSerializeTXN w i (it_txns st)"
      note ser_txns = serialize_txns [OF left i, folded txns_def]
      obtain restored t' fd segno where
        re: "ReorderBufferRestoreChanges w (txns ! i) None 0 = (restored, t', fd, segno)"
        using prod_cases4 by blast
      note entry = entry_restored [OF t(1) ne re [unfolded ser_txns(2)]]
      obtain c cs where cs: "changes t' = c # cs" using entry(1) by (cases "changes t'") auto
      define e where "e = \<lparr> et_lsn = ch_lsn (hd (changes t')), et_pos = 0, et_txn = i, et_file = fd, et_segno = segno \<rparr>"
      have len: "i < length txns" using ser_txns(1) i by (simp add: txns_left_def)
      have at: "entry_at w (txns[i := t'] ! i) e (all_changes w (txns0 ! i))" using entry(2) t(2) len by (simp add: e_def)
      have left'': "txns_left w txns0 (Suc i) (txns[i := t'])" using ser_txns(1) by (simp add: txns_left_def)
      have "\<And>j. j < i \<Longrightarrow> txns[i := t'] ! j = it_txns st ! j" using ser_txns(3) by simp
      then obtain h where h: "binaryheap_add_unordered off (it_heap st) = Some h"
          "init_ok w txns0 (Suc i) (entry_added i (txns[i := t']) e st off h) (Suc off)"
        using entry_added_ok [OF ok i False left'' _ _ at] by (auto simp: e_def)
      have "(it_entries st ! off)\<lparr> et_file := fd, et_segno := segno, et_lsn := ch_lsn c, et_pos := 0, et_txn := i \<rparr> = e"
        using cs by (cases "it_entries st ! off") (simp add: e_def)
      then have "add_iter_txn w i (st, off) = Some (entry_added i (txns[i := t']) e st off h, Suc off)"
        using n ser cs h(1) off re len by (simp add: add_iter_txn_def entry_added_def txns_def [symmetric] Let_def)
      then show ?thesis using h(2) by blast
    qed
  qed
qed

lemma add_all_ok:
  assumes ok: "init_ok w txns0 0 st 0" and n: "n \<le> length txns0"
  shows "\<exists>st' off'. fold (\<lambda>i acc. Option.bind acc (add_iter_txn w i)) [0..<n] (Some (st, 0)) = Some (st', off') \<and>
    init_ok w txns0 n st' off'"
  using n
proof (induction n)
  case 0
  then show ?case using ok by simp
next
  case (Suc n)
  then obtain st' off' where "fold (\<lambda>i acc. Option.bind acc (add_iter_txn w i)) [0..<n] (Some (st, 0)) = Some (st', off')"
      "init_ok w txns0 n st' off'" by auto
  then show ?case using add_iter_txn_ok [of w txns0 n st' off'] Suc.prems by simp
qed

lemma Init_ok:
  assumes ok: "\<forall>t \<in> set txns. rtxn_ok w t" and mem: "length memory = length (filter (\<lambda>t. 0 < nentries t) txns)"
  shows "\<exists>st. ReorderBufferIterTXNInit w memory txns = Some st \<and>
    iter_ok w st (map (all_changes w) (filter (\<lambda>t. 0 < nentries t) txns))"
proof -
  let ?fs = "filter (\<lambda>t. 0 < nentries t) txns"
  define n where "n = length txns"
  define F where "F = filled w txns n"
  have "filter (\<lambda>t. 0 < nentries t) txns = filter (\<lambda>t. all_changes w t \<noteq> []) txns"
    using ok nentries_pos by (intro filter_cong) auto
  also have "\<dots> = filter (\<lambda>t. all_changes w t \<noteq> []) (map ((!) txns) [0..<n])"
    unfolding n_def map_nth ..
  also have "\<dots> = map ((!) txns) F" by (simp add: F_def filled_def filter_map o_def)
  finally have fs: "?fs = map ((!) txns) F" .
  define st0 where "st0 = \<lparr> it_heap = binaryheap_allocate (length ?fs) memory,
      it_entries = replicate (length ?fs) \<lparr> et_lsn = 0, et_pos = 0, et_txn = 0, et_file = None, et_segno = 0 \<rparr>,
      it_txns = txns \<rparr>"
  have "init_ok w txns 0 st0 0"
    using ok mem fs by (simp add: init_ok_def txns_left_def st0_def filled_def [of w txns 0] F_def n_def
        binaryheap_allocate_def heap_fits_def)
  from add_all_ok [OF this, of n] obtain st off where
    st: "fold (\<lambda>i acc. Option.bind acc (add_iter_txn w i)) [0..<n] (Some (st0, 0)) = Some (st, off)" "init_ok w txns n st off"
    by (auto simp: n_def)
  note st' = st(2) [unfolded init_ok_def, folded F_def]
  define h where "h = binaryheap_build (ReorderBufferIterCompare (it_entries st)) (it_heap st)"
  have off: "off = length F" "length (it_entries st) = length F" using st' by (simp_all add: F_def n_def)
  have fits: "heap_fits (it_heap st)" using st' by simp
  have "bh_size (it_heap st) = off" "take off (bh_nodes (it_heap st)) = [0..<off]" using st' by blast+
  then have contents: "heap_contents h = mset [0..<length F]"
    unfolding h_def by_lsn.build_ok(2) [OF fits] using off by (simp add: heap_contents_def)
  have F: "F ! k < n" "all_changes w (txns ! (F ! k)) \<noteq> []" if "k < length F" for k
    using filled_less that nth_mem [OF that] by (auto simp: F_def filled_def)
  have "distinct F" by (simp add: F_def filled_def)
  then have inj: "F ! a = F ! b \<longrightarrow> a = b" if "a < length F" "b < length F" for a b
    using that by (simp add: nth_eq_iff_index_eq)
  have "{k. k < length F \<and> map (\<lambda>k. all_changes w (txns ! k)) F ! k \<noteq> []} = {0..<length F}"
    using F(2) by auto
  then have all: "mset_set {k. k < length F \<and> map (\<lambda>k. all_changes w (txns ! k)) F ! k \<noteq> []} = heap_contents h"
    unfolding contents by simp
  have lt: "et_txn (it_entries st ! k) = F ! k" "et_txn (it_entries st ! k) < length (it_txns st)"
      "entry_at w (it_txns st ! (F ! k)) (it_entries st ! k) (all_changes w (txns ! (F ! k)))"
    if "k < length F" for k using that st' off F(1) by (auto simp: n_def txns_left_def)
  have "iter_ok w (st\<lparr> it_heap := h \<rparr>) (map (\<lambda>k. all_changes w (txns ! k)) F)"
    unfolding iter_ok_def using off inj lt all by_lsn.build_ok(1) [OF fits]
    by (simp add: txn_of_def h_def)
  moreover have "ReorderBufferIterTXNInit w memory txns = Some (st\<lparr> it_heap := h \<rparr>)"
    using st(1) by (simp add: ReorderBufferIterTXNInit_def st0_def h_def n_def)
  ultimately show ?thesis by (simp add: fs o_def)
qed

section \<open>The whole iteration\<close>

lemma next_none:
  assumes ok: "iter_ok w st rems" and size: "bh_size (it_heap st) = 0"
  shows "fst (ReorderBufferIterTXNNext w st) = None" "\<forall>xs \<in> set rems. xs = []"
proof -
  have "heap_contents (it_heap st) = mset_set {off. off < length rems \<and> rems ! off \<noteq> []}"
    using ok unfolding iter_ok_def by blast
  then have "mset_set {off. off < length rems \<and> rems ! off \<noteq> []} = {#}" using size by (simp add: heap_contents_def)
  then show "\<forall>xs \<in> set rems. xs = []" by (auto simp: mset_set_empty_iff in_set_conv_nth)
qed (simp add: ReorderBufferIterTXNNext_def size)

lemma iterate_ok:
  assumes "iter_ok w st rems" "length (concat rems) < fuel"
  shows "\<exists>out. iterate_changes w fuel st = Some out \<and> interleaving rems out \<and> sorted (map ch_lsn out)"
  using assms
proof (induction fuel arbitrary: st rems)
  case (Suc fuel)
  obtain r st' where nxt: "ReorderBufferIterTXNNext w st = (r, st')" by fastforce
  show ?case
  proof (cases "bh_size (it_heap st) = 0")
    case True
    then show ?thesis using next_none [OF Suc.prems(1)] nxt interleaving.finished by fastforce
  next
    case False
    define off where "off = binaryheap_first (it_heap st)"
    note first = iter_first [OF Suc.prems(1) False, folded off_def]
      and call = next_cases [OF Suc.prems(1) False, folded off_def, unfolded nxt fst_conv snd_conv]
    obtain c cs where rem: "rems ! off = c # cs" using first(2) by (cases "rems ! off") auto
    have shorter: "length (concat (rems[off := cs])) < fuel"
      using Suc.prems(2) arg_cong [OF mset_concat_update [OF first(1) rem], of size] by simp
    then obtain out where out: "iterate_changes w fuel st' = Some out" "interleaving (rems[off := cs]) out"
        "sorted (map ch_lsn out)"
      using Suc.IH [OF call(2)] rem by auto
    have "set (rems[off := cs]) \<subseteq> insert cs (set rems)" by (rule set_update_subset_insert)
    moreover have "set cs \<subseteq> set (rems ! off)" using rem by auto
    moreover have "rems ! off \<in> set rems" using first(1) by (rule nth_mem)
    ultimately have "set out \<subseteq> (\<Union>xs \<in> set rems. set xs)"
      unfolding interleaving_set [OF out(2)] by blast
    then have "\<forall>y \<in> set out. ch_lsn c \<le> ch_lsn y" using first(4) rem by auto
    then show ?thesis
      using interleaving.taken [OF first(1) rem out(2)] nxt call(1) rem out(1,3) by auto
  qed
qed simp

end
