(* ===== verification/Reorder_Props.thy ===== *)
theory Reorder_Props
  imports Reorder_Init
begin

text \<open>
  The properties of the binary heap and of the iteration over the changes of a transaction, each
  with an instance.
\<close>

section \<open>Spilling and restoring\<close>


text \<open>A change of the segment 0 was spilled before; the changes of the segments 1 and 2 are in memory.\<close>

definition sample_change :: "uint64 \<Rightarrow> nat change" where
  "sample_change lsn = \<lparr> ch_lsn = lsn, ch_data = unat lsn \<rparr>"

definition sample_txn :: "nat rtxn" where
  "sample_txn = \<lparr> first_lsn = 5, final_lsn = 40, changes = [sample_change 20, sample_change 40], nentries = 3,
     nentries_mem = 2, rbtxn_is_serialized = True, spill_files = (\<lambda>_. [])(0 := [sample_change 5]) \<rparr>"

definition sample_sub :: "nat rtxn" where
  "sample_sub = \<lparr> first_lsn = 10, final_lsn = 30, changes = [sample_change 10, sample_change 30], nentries = 2,
     nentries_mem = 2, rbtxn_is_serialized = False, spill_files = (\<lambda>_. []) \<rparr>"

lemma sample_all_changes:
  "all_changes 16 sample_txn = [sample_change 5, sample_change 20, sample_change 40]"
  "all_changes 16 sample_sub = [sample_change 10, sample_change 30]"
proof -
  have "[0..<Suc 2] = [0, 1, 2::nat]" by (simp add: upt_rec)
  then show "all_changes 16 sample_txn = [sample_change 5, sample_change 20, sample_change 40]"
    by (simp add: all_changes_def sample_txn_def first_seg_def last_seg_def XLByteToSeg_def del: upt_Suc)
qed (simp add: all_changes_def sample_sub_def del: upt_Suc)

lemma sample_ok: "rtxn_ok 16 sample_txn" "rtxn_ok 16 sample_sub"
  unfolding rtxn_ok_def sample_all_changes
  by (auto simp: sample_txn_def sample_sub_def sample_change_def XLByteToSeg_def split: if_splits)

lemma sample_nentries: "nentries sample_txn = 3" "nentries sample_sub = 2"
  by (simp_all add: sample_txn_def sample_sub_def)


section \<open>The iteration\<close>

text \<open>
  C20: Iterating over a transaction and its subtransactions returns the changes of all of them,
  those of each in the order in which they were queued, and altogether in the order of their
  positions in the log. It does so whatever is spilled to files, and restores files at most
  \<open>max_changes_in_memory\<close> changes at a time; the initialisation never fails and the loop ends.
\<close>

theorem reorder_iteration_merges:
  assumes "\<forall>t \<in> set txns. rtxn_ok w t"
    and "length memory = length (filter (\<lambda>t. 0 < nentries t) txns)"
    and "sum_list (map nentries txns) < fuel"
  shows "\<exists>state out. ReorderBufferIterTXNInit w memory txns = Some state \<and>
    iterate_changes w fuel state = Some out \<and> sorted (map ch_lsn out) \<and>
    interleaving (map (all_changes w) (filter (\<lambda>t. 0 < nentries t) txns)) out"
proof -
  let ?rems = "map (all_changes w) (filter (\<lambda>t. 0 < nentries t) txns)"
  have "length (concat ?rems) = sum_list (map nentries (filter (\<lambda>t. 0 < nentries t) txns))"
    unfolding length_concat map_map
    by (intro arg_cong [where f = sum_list] map_cong refl) (use assms(1) in \<open>auto simp: rtxn_ok_def\<close>)
  also have "\<dots> = sum_list (map nentries txns)" by (induction txns) simp_all
  finally have "length (concat ?rems) < fuel" using assms(3) by simp
  then show ?thesis using Init_ok [OF assms(1,2)] iterate_ok by blast
qed

lemma reorder_iteration_merges_witness:
  "\<exists>state out. ReorderBufferIterTXNInit 16 [0, 0] [sample_txn, sample_sub] = Some state \<and>
     iterate_changes 16 6 state = Some out \<and> sorted (map ch_lsn out) \<and>
     interleaving [[sample_change 5, sample_change 20, sample_change 40], [sample_change 10, sample_change 30]] out"
  using reorder_iteration_merges [of "[sample_txn, sample_sub]" 16 "[0, 0]" 6] sample_ok
  by (simp add: sample_all_changes sample_nentries)

section \<open>The heap\<close>

text \<open>
  C31: The operations of the binary heap keep a heap a heap and change its contents as they say:
  adding puts in one node and fails exactly when the array is full, the first node is one of the
  contents and none is greater, removing it and replacing it change nothing else, and building
  makes a heap out of any array of nodes.
\<close>

theorem binaryheap_operations_ok:
  assumes "\<And>x y. compare x y \<le> 0 \<longleftrightarrow> 0 \<le> compare y x"
    and "\<And>x y z. compare x y \<le> 0 \<Longrightarrow> compare y z \<le> 0 \<Longrightarrow> compare x z \<le> 0"
    and ok: "heap_ok compare h"
  shows "(case binaryheap_add compare d h of
        None \<Rightarrow> bh_size h = bh_space h
      | Some h' \<Rightarrow> bh_size h < bh_space h \<and> heap_ok compare h' \<and> heap_contents h' = heap_contents h + {# d #}) \<and>
    (0 < bh_size h \<longrightarrow>
       binaryheap_first h \<in># heap_contents h \<and> (\<forall>x \<in># heap_contents h. compare x (binaryheap_first h) \<le> 0) \<and>
       (case binaryheap_remove_first compare h of (x, h') \<Rightarrow>
          x = binaryheap_first h \<and> heap_ok compare h' \<and> heap_contents h' = heap_contents h - {# x #}) \<and>
       heap_ok compare (binaryheap_replace_first compare d h) \<and>
       heap_contents (binaryheap_replace_first compare d h) = heap_contents h - {# binaryheap_first h #} + {# d #}) \<and>
    (heap_fits g \<longrightarrow> heap_ok compare (binaryheap_build compare g) \<and>
       heap_contents (binaryheap_build compare g) = heap_contents g)"
proof (intro conjI impI)
  have order: "heap_order compare" using assms(1,2) by unfold_locales
  have fits: "heap_fits h" using ok by (simp add: heap_ok_def)
  show "case binaryheap_add compare d h of
        None \<Rightarrow> bh_size h = bh_space h
      | Some h' \<Rightarrow> bh_size h < bh_space h \<and> heap_ok compare h' \<and> heap_contents h' = heap_contents h + {# d #}"
  proof (cases "bh_size h < bh_space h")
    case True
    obtain h' where "binaryheap_add compare d h = Some h'" "heap_ok compare h'" "heap_contents h' = heap_contents h + {# d #}"
      using heap_order.add_ok [OF order ok True] by blast
    then show ?thesis using True by simp
  next
    case False
    then show ?thesis using fits by (simp add: heap_fits_def binaryheap_add_def)
  qed
  show "heap_ok compare (binaryheap_build compare g)" "heap_contents (binaryheap_build compare g) = heap_contents g"
    if "heap_fits g" using heap_order.build_ok [OF order that] by simp_all
  assume size: "0 < bh_size h"
  show "binaryheap_first h \<in># heap_contents h" using heap_order.contents_first [OF order fits size] by blast
  show "\<forall>x \<in># heap_contents h. compare x (binaryheap_first h) \<le> 0"
    using heap_order.first_greatest [OF order ok] by blast
  show "case binaryheap_remove_first compare h of (x, h') \<Rightarrow>
      x = binaryheap_first h \<and> heap_ok compare h' \<and> heap_contents h' = heap_contents h - {# x #}"
  proof (cases "binaryheap_remove_first compare h")
    case (Pair x h')
    then show ?thesis using heap_order.remove_first_ok(1-3) [OF order ok size Pair] by simp
  qed
  have "compare (bh_nodes h ! j) (bh_nodes h ! parent j) \<le> 0" if "0 < j" "j < bh_size h" "parent j \<noteq> 0" for j
    using ok that by (simp add: heap_ok_def heap_from_def)
  note replaced = heap_order.replace_first_ok [OF order fits size this, where d = d]
  show "heap_ok compare (binaryheap_replace_first compare d h)"
    "heap_contents (binaryheap_replace_first compare d h) = heap_contents h - {# binaryheap_first h #} + {# d #}"
    using replaced(1,2) by simp_all
qed

definition sample_heap :: "nat binaryheap" where
  "sample_heap = \<lparr> bh_size = 3, bh_space = 4, bh_has_heap_property = True, bh_nodes = [9, 4, 7, 0] \<rparr>"

lemma binaryheap_operations_ok_witness:
  "\<exists>h. binaryheap_remove_first (\<lambda>a b. int a - int b) sample_heap = (9, h) \<and>
     heap_ok (\<lambda>a b. int a - int b) h \<and> heap_contents h = {# 4, 7 #}"
proof -
  let ?c = "\<lambda>a b. int a - int b"
  have three: "j = 1 \<or> j = 2" if "0 < j" "j < 3" for j :: nat using that by linarith
  have ok: "heap_ok ?c sample_heap"
    by (auto simp: heap_ok_def heap_fits_def heap_from_def sample_heap_def dest: three)
  have first: "binaryheap_first sample_heap = 9" "heap_contents sample_heap = {# 9, 4, 7 #}" "0 < bh_size sample_heap"
    by (simp_all add: binaryheap_first_def heap_contents_def sample_heap_def)
  obtain x h where r: "binaryheap_remove_first ?c sample_heap = (x, h)" by fastforce
  show ?thesis using binaryheap_operations_ok [of ?c sample_heap 0 sample_heap] ok first r by auto
qed

end
