(* ===== verification/Lock_Table.thy ===== *)
theory Lock_Table
  imports Pg_Prelude
begin

unbundle bit_operations_syntax

text \<open>
  The shared table of heavyweight locks (\<^verbatim>\<open>src/backend/storage/lmgr/lock.c\<close>, with the structures of
  \<^verbatim>\<open>src/include/storage/lock.h\<close> and the wait queues of \<^verbatim>\<open>src/backend/storage/lmgr/proc.c\<close>). A lock
  carries its proclocks and its wait queue as lists, in their order; a process is linked into a
  queue exactly while its \<open>waitLock\<close> is set. The local table of a backend, which counts repeated
  acquisitions, the fast path for weak relation locks and the sleeping itself are left out. An
  operation runs under the partition lock, so it is one step. \<open>me\<close> is \<open>MyProc\<close>.
\<close>

section \<open>Lock modes\<close>

type_synonym LOCKMODE = nat
type_synonym LOCKMASK = uint32

definition LOCKBIT_ON :: "LOCKMODE \<Rightarrow> LOCKMASK" where "LOCKBIT_ON lockmode = push_bit lockmode 1"
definition LOCKBIT_OFF :: "LOCKMODE \<Rightarrow> LOCKMASK" where "LOCKBIT_OFF lockmode = NOT (push_bit lockmode 1)"

definition AccessShareLock :: LOCKMODE where "AccessShareLock = 1"
definition RowShareLock :: LOCKMODE where "RowShareLock = 2"
definition RowExclusiveLock :: LOCKMODE where "RowExclusiveLock = 3"
definition ShareUpdateExclusiveLock :: LOCKMODE where "ShareUpdateExclusiveLock = 4"
definition ShareLock :: LOCKMODE where "ShareLock = 5"
definition ShareRowExclusiveLock :: LOCKMODE where "ShareRowExclusiveLock = 6"
definition ExclusiveLock :: LOCKMODE where "ExclusiveLock = 7"
definition AccessExclusiveLock :: LOCKMODE where "AccessExclusiveLock = 8"
definition MaxLockMode :: LOCKMODE where "MaxLockMode = 8"
definition MAX_LOCKMODES :: nat where "MAX_LOCKMODES = 10"

lemmas lock_mode_defs = AccessShareLock_def RowShareLock_def RowExclusiveLock_def ShareUpdateExclusiveLock_def
  ShareLock_def ShareRowExclusiveLock_def ExclusiveLock_def AccessExclusiveLock_def

definition LockConflicts :: "LOCKMASK list" where
  "LockConflicts =
    [0,
     LOCKBIT_ON AccessExclusiveLock,
     LOCKBIT_ON ExclusiveLock OR LOCKBIT_ON AccessExclusiveLock,
     LOCKBIT_ON ShareLock OR LOCKBIT_ON ShareRowExclusiveLock OR
       LOCKBIT_ON ExclusiveLock OR LOCKBIT_ON AccessExclusiveLock,
     LOCKBIT_ON ShareUpdateExclusiveLock OR LOCKBIT_ON ShareLock OR LOCKBIT_ON ShareRowExclusiveLock OR
       LOCKBIT_ON ExclusiveLock OR LOCKBIT_ON AccessExclusiveLock,
     LOCKBIT_ON RowExclusiveLock OR LOCKBIT_ON ShareUpdateExclusiveLock OR LOCKBIT_ON ShareRowExclusiveLock OR
       LOCKBIT_ON ExclusiveLock OR LOCKBIT_ON AccessExclusiveLock,
     LOCKBIT_ON RowExclusiveLock OR LOCKBIT_ON ShareUpdateExclusiveLock OR LOCKBIT_ON ShareLock OR
       LOCKBIT_ON ShareRowExclusiveLock OR LOCKBIT_ON ExclusiveLock OR LOCKBIT_ON AccessExclusiveLock,
     LOCKBIT_ON RowShareLock OR LOCKBIT_ON RowExclusiveLock OR LOCKBIT_ON ShareUpdateExclusiveLock OR
       LOCKBIT_ON ShareLock OR LOCKBIT_ON ShareRowExclusiveLock OR LOCKBIT_ON ExclusiveLock OR
       LOCKBIT_ON AccessExclusiveLock,
     LOCKBIT_ON AccessShareLock OR LOCKBIT_ON RowShareLock OR LOCKBIT_ON RowExclusiveLock OR
       LOCKBIT_ON ShareUpdateExclusiveLock OR LOCKBIT_ON ShareLock OR LOCKBIT_ON ShareRowExclusiveLock OR
       LOCKBIT_ON ExclusiveLock OR LOCKBIT_ON AccessExclusiveLock]"

text \<open>Both lock methods use this table.\<close>

definition conflictTab :: "LOCKMODE \<Rightarrow> LOCKMASK" where "conflictTab lockmode = LockConflicts ! lockmode"

definition DoLockModesConflict :: "LOCKMODE \<Rightarrow> LOCKMODE \<Rightarrow> bool" where
  "DoLockModesConflict mode1 mode2 \<longleftrightarrow> conflictTab mode1 AND LOCKBIT_ON mode2 \<noteq> 0"

section \<open>Data\<close>

datatype LockTagType =
    LOCKTAG_RELATION | LOCKTAG_RELATION_EXTEND | LOCKTAG_DATABASE_FROZEN_IDS | LOCKTAG_PAGE | LOCKTAG_TUPLE
  | LOCKTAG_TRANSACTION | LOCKTAG_VIRTUALTRANSACTION | LOCKTAG_SPECULATIVE_TOKEN | LOCKTAG_OBJECT
  | LOCKTAG_USERLOCK | LOCKTAG_ADVISORY

record LOCKTAG =
  locktag_field1 :: uint32
  locktag_field2 :: uint32
  locktag_field3 :: uint32
  locktag_field4 :: uint16
  locktag_type :: LockTagType
  locktag_lockmethodid :: uint8

record PROCLOCK =
  myProc :: nat
  groupLeader :: nat
  holdMask :: LOCKMASK
  releaseMask :: LOCKMASK

record LOCK =
  grantMask :: LOCKMASK
  waitMask :: LOCKMASK
  procLocks :: "PROCLOCK list"
  waitProcs :: "nat list"
  requested :: "int list"
  nRequested :: int
  granted :: "int list"
  nGranted :: int

datatype ProcWaitStatus = PROC_WAIT_STATUS_OK | PROC_WAIT_STATUS_WAITING | PROC_WAIT_STATUS_ERROR

text \<open>The fields of \<open>PGPROC\<close> for locks.\<close>

record lock_proc =
  lockGroupLeader :: "nat option"
  lockGroupMembers :: "nat list"
  waitLock :: "LOCKTAG option"
  waitLockMode :: LOCKMODE
  heldLocks :: LOCKMASK
  waitStatus :: ProcWaitStatus
  is_autovacuum :: bool
  lock_pid :: int

record lock_state =
  lock_hash :: "LOCKTAG \<Rightarrow> LOCK option"
  lock_procs :: "nat \<Rightarrow> lock_proc"

definition leader_of :: "(nat \<Rightarrow> lock_proc) \<Rightarrow> nat \<Rightarrow> nat" where
  "leader_of procs p = (case lockGroupLeader (procs p) of None \<Rightarrow> p | Some leader \<Rightarrow> leader)"

definition find_proclock :: "nat \<Rightarrow> LOCK \<Rightarrow> PROCLOCK option" where
  "find_proclock p lock = find (\<lambda>pl. myProc pl = p) (procLocks lock)"

definition update_proclock :: "nat \<Rightarrow> (PROCLOCK \<Rightarrow> PROCLOCK) \<Rightarrow> LOCK \<Rightarrow> LOCK" where
  "update_proclock p f lock =
     lock\<lparr> procLocks := map (\<lambda>pl. if myProc pl = p then f pl else pl) (procLocks lock) \<rparr>"

definition update_lock_proc :: "nat \<Rightarrow> (lock_proc \<Rightarrow> lock_proc) \<Rightarrow> (nat \<Rightarrow> lock_proc) \<Rightarrow> nat \<Rightarrow> lock_proc" where
  "update_lock_proc p f procs = procs(p := f (procs p))"

section \<open>Conflicts with granted locks\<close>

definition conflicts_remaining :: "LOCKMODE \<Rightarrow> LOCK \<Rightarrow> LOCKMASK \<Rightarrow> int list" where
  "conflicts_remaining lockmode lock myLocks =
     0 # map (\<lambda>i. if conflictTab lockmode AND LOCKBIT_ON i = 0 then 0
                  else granted lock ! i - (if myLocks AND LOCKBIT_ON i \<noteq> 0 then 1 else 0))
         [1..<MaxLockMode + 1]"

text \<open>The subtraction of another member's locks; \<open>None\<close> is the PANIC for locks that do not match.\<close>

fun subtract_modes :: "LOCKMASK \<Rightarrow> LOCKMODE list \<Rightarrow> int list \<times> int \<Rightarrow> (int list \<times> int) option" where
  "subtract_modes intersectMask [] acc = Some acc"
| "subtract_modes intersectMask (i # modes) (remaining, total_left) =
     (if intersectMask AND LOCKBIT_ON i \<noteq> 0
      then if remaining ! i \<le> 0 then None
           else subtract_modes intersectMask modes (remaining[i := remaining ! i - 1], total_left - 1)
      else subtract_modes intersectMask modes (remaining, total_left))"

fun group_conflicts :: "LOCKMASK \<Rightarrow> nat \<Rightarrow> nat \<Rightarrow> PROCLOCK list \<Rightarrow> int list \<times> int \<Rightarrow> bool option" where
  "group_conflicts conflictMask p leader [] acc = Some True"
| "group_conflicts conflictMask p leader (other # others) acc =
     (if myProc other \<noteq> p \<and> leader = groupLeader other \<and> holdMask other AND conflictMask \<noteq> 0
      then (case subtract_modes (holdMask other AND conflictMask) [1..<MaxLockMode + 1] acc of
              None \<Rightarrow> None
            | Some (remaining, total_left) \<Rightarrow>
                if total_left = 0 then Some False
                else group_conflicts conflictMask p leader others (remaining, total_left))
      else group_conflicts conflictMask p leader others acc)"

text \<open>\<open>None\<close> is the PANIC.\<close>

definition LockCheckConflicts ::
  "nat \<Rightarrow> (nat \<Rightarrow> lock_proc) \<Rightarrow> LOCKTAG \<Rightarrow> LOCKMODE \<Rightarrow> LOCK \<Rightarrow> PROCLOCK \<Rightarrow> bool option" where
  "LockCheckConflicts me procs tag lockmode lock proclock =
     (let conflictMask = conflictTab lockmode in
      if conflictMask AND grantMask lock = 0 then Some False
      else
        let remaining = conflicts_remaining lockmode lock (holdMask proclock);
            total_left = sum_list remaining in
        if total_left = 0 then Some False
        else if groupLeader proclock = me \<and> lockGroupLeader (procs me) = None then Some True
        else if locktag_type tag = LOCKTAG_RELATION_EXTEND then Some True
        else group_conflicts conflictMask (myProc proclock) (groupLeader proclock) (procLocks lock)
               (remaining, total_left))"

section \<open>Granting and releasing\<close>

definition GrantLock :: "LOCK \<Rightarrow> nat \<Rightarrow> LOCKMODE \<Rightarrow> LOCK" where
  "GrantLock lock p lockmode =
     (let lock = lock\<lparr> nGranted := nGranted lock + 1,
                       granted := (granted lock)[lockmode := granted lock ! lockmode + 1],
                       grantMask := grantMask lock OR LOCKBIT_ON lockmode \<rparr>;
          lock = (if granted lock ! lockmode = requested lock ! lockmode
                  then lock\<lparr> waitMask := waitMask lock AND LOCKBIT_OFF lockmode \<rparr> else lock)
      in update_proclock p (\<lambda>pl. pl\<lparr> holdMask := holdMask pl OR LOCKBIT_ON lockmode \<rparr>) lock)"

text \<open>With the result whether waiters should be woken.\<close>

definition UnGrantLock :: "LOCK \<Rightarrow> LOCKMODE \<Rightarrow> nat \<Rightarrow> bool \<times> LOCK" where
  "UnGrantLock lock lockmode p =
     (let lock = lock\<lparr> nRequested := nRequested lock - 1,
                       requested := (requested lock)[lockmode := requested lock ! lockmode - 1],
                       nGranted := nGranted lock - 1,
                       granted := (granted lock)[lockmode := granted lock ! lockmode - 1] \<rparr>;
          lock = (if granted lock ! lockmode = 0
                  then lock\<lparr> grantMask := grantMask lock AND LOCKBIT_OFF lockmode \<rparr> else lock)
      in (conflictTab lockmode AND waitMask lock \<noteq> 0,
          update_proclock p (\<lambda>pl. pl\<lparr> holdMask := holdMask pl AND LOCKBIT_OFF lockmode \<rparr>) lock))"

text \<open>A waiter is woken with the lock granted to it.\<close>

definition ProcWakeup :: "nat \<Rightarrow> ProcWaitStatus \<Rightarrow> LOCK \<times> (nat \<Rightarrow> lock_proc) \<Rightarrow> LOCK \<times> (nat \<Rightarrow> lock_proc)" where
  "ProcWakeup p status s =
     (let (lock, procs) = s in
      (lock\<lparr> waitProcs := remove1 p (waitProcs lock) \<rparr>,
       update_lock_proc p (\<lambda>proc. proc\<lparr> waitLock := None, waitStatus := status \<rparr>) procs))"

text \<open>The loop over the waiters, in their order when it starts.\<close>

fun wakeup_loop ::
  "nat \<Rightarrow> LOCKTAG \<Rightarrow> nat list \<Rightarrow> LOCKMASK \<Rightarrow> LOCK \<times> (nat \<Rightarrow> lock_proc) \<Rightarrow> (LOCK \<times> (nat \<Rightarrow> lock_proc)) option" where
  "wakeup_loop me tag [] aheadRequests s = Some s"
| "wakeup_loop me tag (p # queue) aheadRequests (lock, procs) =
     (let lockmode = waitLockMode (procs p) in
      case (if conflictTab lockmode AND aheadRequests = 0
            then Option.bind (find_proclock p lock) (LockCheckConflicts me procs tag lockmode lock)
            else Some True) of
        None \<Rightarrow> None
      | Some True \<Rightarrow> wakeup_loop me tag queue (aheadRequests OR LOCKBIT_ON lockmode) (lock, procs)
      | Some False \<Rightarrow>
          wakeup_loop me tag queue aheadRequests
            (ProcWakeup p PROC_WAIT_STATUS_OK (GrantLock lock p lockmode, procs)))"

definition ProcLockWakeup ::
  "nat \<Rightarrow> LOCKTAG \<Rightarrow> LOCK \<times> (nat \<Rightarrow> lock_proc) \<Rightarrow> (LOCK \<times> (nat \<Rightarrow> lock_proc)) option" where
  "ProcLockWakeup me tag s = wakeup_loop me tag (waitProcs (fst s)) 0 s"

text \<open>The lock is stored back, or removed when nobody requests it any more.\<close>

definition store_lock :: "LOCKTAG \<Rightarrow> LOCK option \<Rightarrow> (nat \<Rightarrow> lock_proc) \<Rightarrow> lock_state \<Rightarrow> lock_state" where
  "store_lock tag lock procs st =
     st\<lparr> lock_hash := (lock_hash st)(tag := lock), lock_procs := procs \<rparr>"

definition CleanUpLock :: "nat \<Rightarrow> LOCKTAG \<Rightarrow> LOCK \<Rightarrow> nat \<Rightarrow> bool \<Rightarrow> lock_state \<Rightarrow> lock_state option" where
  "CleanUpLock me tag lock p wakeupNeeded st =
     (let lock = (case find_proclock p lock of
                    None \<Rightarrow> lock
                  | Some pl \<Rightarrow>
                      if holdMask pl = 0
                      then lock\<lparr> procLocks := filter (\<lambda>pl. myProc pl \<noteq> p) (procLocks lock) \<rparr>
                      else lock) in
      if nRequested lock = 0 then Some (store_lock tag None (lock_procs st) st)
      else if wakeupNeeded
      then map_option (\<lambda>(lock, procs). store_lock tag (Some lock) procs st)
             (ProcLockWakeup me tag (lock, lock_procs st))
      else Some (store_lock tag (Some lock) (lock_procs st) st))"

text \<open>A process that has failed to get its lock leaves the queue.\<close>

definition RemoveFromWaitQueue :: "nat \<Rightarrow> nat \<Rightarrow> lock_state \<Rightarrow> lock_state option" where
  "RemoveFromWaitQueue me p st =
     (case waitLock (lock_procs st p) of
        None \<Rightarrow> None
      | Some tag \<Rightarrow>
          (case lock_hash st tag of
             None \<Rightarrow> None
           | Some lock \<Rightarrow>
               let lockmode = waitLockMode (lock_procs st p);
                   lock = lock\<lparr> waitProcs := remove1 p (waitProcs lock),
                                nRequested := nRequested lock - 1,
                                requested := (requested lock)[lockmode := requested lock ! lockmode - 1] \<rparr>;
                   lock = (if granted lock ! lockmode = requested lock ! lockmode
                           then lock\<lparr> waitMask := waitMask lock AND LOCKBIT_OFF lockmode \<rparr> else lock);
                   procs = update_lock_proc p
                     (\<lambda>proc. proc\<lparr> waitLock := None, waitStatus := PROC_WAIT_STATUS_ERROR \<rparr>) (lock_procs st)
               in CleanUpLock me tag lock p True (st\<lparr> lock_procs := procs \<rparr>)))"

end
