(* ===== verification/Lock_Acquire.thy ===== *)
theory Lock_Acquire
  imports Lock_Table
begin

unbundle bit_operations_syntax

text \<open>
  Acquiring a lock from the shared table, with the place in the wait queue that \<open>ProcSleep\<close> chooses,
  and releasing locks (\<^verbatim>\<open>src/backend/storage/lmgr/lock.c\<close>, \<^verbatim>\<open>src/backend/storage/lmgr/proc.c\<close>); the lock
  groups of parallel workers.
\<close>

section \<open>Entering the table\<close>

datatype acquire_result =
    Lock_Granted | Lock_Not_Available | Lock_Waiting | Lock_Deadlock | Lock_No_Memory | Lock_Already_Held

definition new_lock :: LOCK where
  "new_lock = \<lparr> grantMask = 0, waitMask = 0, procLocks = [], waitProcs = [],
     requested = replicate MAX_LOCKMODES 0, nRequested = 0, granted = replicate MAX_LOCKMODES 0, nGranted = 0 \<rparr>"

text \<open>
  \<open>lock_memory\<close> and \<open>proclock_memory\<close> tell whether the hash tables have room for new entries. The
  result is the lock, when the entries exist, and the state; an error has counted the request.
\<close>

definition SetupLockInTable ::
  "bool \<Rightarrow> bool \<Rightarrow> nat \<Rightarrow> LOCKTAG \<Rightarrow> LOCKMODE \<Rightarrow> lock_state \<Rightarrow> (acquire_result + LOCK) \<times> lock_state" where
  "SetupLockInTable lock_memory proclock_memory p tag lockmode st =
     (case (case lock_hash st tag of
              Some lock \<Rightarrow> Some lock
            | None \<Rightarrow> if lock_memory then Some new_lock else None) of
        None \<Rightarrow> (Inl Lock_No_Memory, st)
      | Some lock \<Rightarrow>
          (case (case find_proclock p lock of
                   Some pl \<Rightarrow> Some lock
                 | None \<Rightarrow>
                     if proclock_memory
                     then Some (lock\<lparr> procLocks := procLocks lock @
                            [\<lparr> myProc = p, groupLeader = leader_of (lock_procs st) p, holdMask = 0, releaseMask = 0 \<rparr>] \<rparr>)
                     else None) of
             None \<Rightarrow>
               (Inl Lock_No_Memory,
                if nRequested lock = 0 then store_lock tag None (lock_procs st) st
                else store_lock tag (Some lock) (lock_procs st) st)
           | Some lock \<Rightarrow>
               let lock = lock\<lparr> nRequested := nRequested lock + 1,
                                requested := (requested lock)[lockmode := requested lock ! lockmode + 1] \<rparr>;
                   st = store_lock tag (Some lock) (lock_procs st) st
               in (if \<exists>pl \<in> set (procLocks lock). myProc pl = p \<and> holdMask pl AND LOCKBIT_ON lockmode \<noteq> 0
                   then (Inl Lock_Already_Held, st)
                   else (Inr lock, st))))"

section \<open>Joining the wait queue\<close>

definition group_held_locks :: "(nat \<Rightarrow> lock_proc) \<Rightarrow> nat \<Rightarrow> LOCK \<Rightarrow> LOCKMASK" where
  "group_held_locks procs me lock =
     (case lockGroupLeader (procs me) of
        None \<Rightarrow> heldLocks (procs me)
      | Some leader \<Rightarrow>
          fold (\<lambda>pl mask. if groupLeader pl = leader then mask OR holdMask pl else mask) (procLocks lock)
            (heldLocks (procs me)))"

datatype sleep_choice = Sleep_Here | Sleep_Deadlock | Sleep_Grant

text \<open>The scan for the place in the queue: the number of waiters before it, and what to do there.\<close>

fun sleep_scan ::
  "nat \<Rightarrow> (nat \<Rightarrow> lock_proc) \<Rightarrow> LOCKTAG \<Rightarrow> LOCKMODE \<Rightarrow> LOCK \<Rightarrow> PROCLOCK \<Rightarrow> LOCKMASK \<Rightarrow>
   nat list \<Rightarrow> nat \<Rightarrow> LOCKMASK \<Rightarrow> (nat \<times> sleep_choice) option" where
  "sleep_scan me procs tag lockmode lock proclock myHeldLocks [] i aheadRequests = Some (i, Sleep_Here)"
| "sleep_scan me procs tag lockmode lock proclock myHeldLocks (p # queue) i aheadRequests =
     (if lockGroupLeader (procs me) \<noteq> None \<and> lockGroupLeader (procs me) = lockGroupLeader (procs p)
      then sleep_scan me procs tag lockmode lock proclock myHeldLocks queue (i + 1) aheadRequests
      else if conflictTab (waitLockMode (procs p)) AND myHeldLocks \<noteq> 0
      then
        if conflictTab lockmode AND heldLocks (procs p) \<noteq> 0 then Some (i, Sleep_Deadlock)
        else if conflictTab lockmode AND aheadRequests = 0
        then (case LockCheckConflicts me procs tag lockmode lock proclock of
                None \<Rightarrow> None
              | Some True \<Rightarrow> Some (i, Sleep_Here)
              | Some False \<Rightarrow> Some (i, Sleep_Grant))
        else Some (i, Sleep_Here)
      else sleep_scan me procs tag lockmode lock proclock myHeldLocks queue (i + 1)
             (aheadRequests OR LOCKBIT_ON (waitLockMode (procs p))))"

text \<open>\<open>ProcSleep\<close> up to the point where the process is linked and waits, or has the lock, or gives up.\<close>

definition ProcSleep ::
  "nat \<Rightarrow> LOCKTAG \<Rightarrow> LOCKMODE \<Rightarrow> LOCK \<Rightarrow> PROCLOCK \<Rightarrow> lock_state \<Rightarrow> (acquire_result \<times> lock_state) option" where
  "ProcSleep me tag lockmode lock proclock st =
     (let procs = lock_procs st; myHeldLocks = group_held_locks procs me lock in
      case (if myHeldLocks \<noteq> 0 \<and> waitProcs lock \<noteq> []
            then sleep_scan me procs tag lockmode lock proclock myHeldLocks (waitProcs lock) 0 0
            else Some (length (waitProcs lock), Sleep_Here)) of
        None \<Rightarrow> None
      | Some (i, Sleep_Grant) \<Rightarrow>
          Some (Lock_Granted, store_lock tag (Some (GrantLock lock me lockmode)) procs st)
      | Some (i, choice) \<Rightarrow>
          let lock = lock\<lparr> waitProcs := take i (waitProcs lock) @ me # drop i (waitProcs lock),
                           waitMask := waitMask lock OR LOCKBIT_ON lockmode \<rparr>;
              procs = update_lock_proc me
                (\<lambda>proc. proc\<lparr> waitLock := Some tag, waitLockMode := lockmode,
                              waitStatus := PROC_WAIT_STATUS_WAITING \<rparr>) procs;
              st = store_lock tag (Some lock) procs st
          in if choice = Sleep_Deadlock
             then map_option (Pair Lock_Deadlock) (RemoveFromWaitQueue me me st)
             else Some (Lock_Waiting, st))"

section \<open>Acquiring and releasing\<close>

text \<open>The part of \<open>LockAcquireExtended\<close> that works on the shared table; \<open>None\<close> is a PANIC.\<close>

definition LockAcquire ::
  "bool \<Rightarrow> bool \<Rightarrow> nat \<Rightarrow> LOCKTAG \<Rightarrow> LOCKMODE \<Rightarrow> bool \<Rightarrow> lock_state \<Rightarrow> (acquire_result \<times> lock_state) option" where
  "LockAcquire lock_memory proclock_memory me tag lockmode dontWait st =
     (case SetupLockInTable lock_memory proclock_memory me tag lockmode st of
        (Inl failure, st) \<Rightarrow> Some (failure, st)
      | (Inr lock, st) \<Rightarrow>
          (case find_proclock me lock of
             None \<Rightarrow> None
           | Some proclock \<Rightarrow>
               (case (if conflictTab lockmode AND waitMask lock \<noteq> 0 then Some True
                      else LockCheckConflicts me (lock_procs st) tag lockmode lock proclock) of
                  None \<Rightarrow> None
                | Some False \<Rightarrow>
                    Some (Lock_Granted, store_lock tag (Some (GrantLock lock me lockmode)) (lock_procs st) st)
                | Some True \<Rightarrow>
                    if dontWait
                    then
                      let lock = (if holdMask proclock = 0
                                  then lock\<lparr> procLocks := filter (\<lambda>pl. myProc pl \<noteq> me) (procLocks lock) \<rparr>
                                  else lock);
                          lock = lock\<lparr> nRequested := nRequested lock - 1,
                                       requested := (requested lock)[lockmode := requested lock ! lockmode - 1] \<rparr>
                      in Some (Lock_Not_Available, store_lock tag (Some lock) (lock_procs st) st)
                    else
                      ProcSleep me tag lockmode lock proclock
                        (st\<lparr> lock_procs :=
                           update_lock_proc me (\<lambda>proc. proc\<lparr> heldLocks := holdMask proclock \<rparr>) (lock_procs st) \<rparr>))))"

text \<open>Releasing one mode: false when it is not held. \<open>None\<close> is an error.\<close>

definition LockRelease :: "nat \<Rightarrow> LOCKTAG \<Rightarrow> LOCKMODE \<Rightarrow> lock_state \<Rightarrow> (bool \<times> lock_state) option" where
  "LockRelease me tag lockmode st =
     (case lock_hash st tag of
        None \<Rightarrow> None
      | Some lock \<Rightarrow>
          (case find_proclock me lock of
             None \<Rightarrow> None
           | Some proclock \<Rightarrow>
               if holdMask proclock AND LOCKBIT_ON lockmode = 0 then Some (False, st)
               else let (wakeupNeeded, lock) = UnGrantLock lock lockmode me
                    in map_option (Pair True) (CleanUpLock me tag lock me wakeupNeeded st)))"

text \<open>
  One turn of the loop of \<open>LockReleaseAll\<close>, for one proclock of the backend: all locks, or those
  marked in \<open>releaseMask\<close>.
\<close>

definition release_marked :: "nat \<Rightarrow> LOCK \<Rightarrow> bool \<times> LOCK" where
  "release_marked me lock =
     fold (\<lambda>i (wakeupNeeded, lock).
       case find_proclock me lock of
         None \<Rightarrow> (wakeupNeeded, lock)
       | Some proclock \<Rightarrow>
           if releaseMask proclock AND LOCKBIT_ON i \<noteq> 0
           then let (needed, lock) = UnGrantLock lock i me in (wakeupNeeded \<or> needed, lock)
           else (wakeupNeeded, lock)) [1..<MaxLockMode + 1] (False, lock)"

definition LockReleaseAll_turn :: "nat \<Rightarrow> bool \<Rightarrow> LOCKTAG \<Rightarrow> lock_state \<Rightarrow> lock_state option" where
  "LockReleaseAll_turn me allLocks tag st =
     (case lock_hash st tag of
        None \<Rightarrow> None
      | Some lock \<Rightarrow>
          (case find_proclock me lock of
             None \<Rightarrow> None
           | Some proclock \<Rightarrow>
               let mask = (if allLocks then holdMask proclock else releaseMask proclock);
                   lock = update_proclock me (\<lambda>pl. pl\<lparr> releaseMask := mask \<rparr>) lock in
               if mask = 0 \<and> holdMask proclock \<noteq> 0 then Some (store_lock tag (Some lock) (lock_procs st) st)
               else
                 let (wakeupNeeded, lock) = release_marked me lock;
                     lock = update_proclock me (\<lambda>pl. pl\<lparr> releaseMask := 0 \<rparr>) lock
                 in CleanUpLock me tag lock me wakeupNeeded st))"

text \<open>The mark that the first loop of \<open>LockReleaseAll\<close> sets for a lock in the backend's local table.\<close>

definition mark_release :: "nat \<Rightarrow> LOCKTAG \<Rightarrow> LOCKMODE \<Rightarrow> lock_state \<Rightarrow> lock_state" where
  "mark_release me tag lockmode st =
     store_lock tag
       (map_option (update_proclock me (\<lambda>pl. pl\<lparr> releaseMask := releaseMask pl OR LOCKBIT_ON lockmode \<rparr>))
         (lock_hash st tag)) (lock_procs st) st"

text \<open>
  \<open>DeadLockCheck\<close> resolves a deadlock by putting the waiters of a lock in another order, and wakes up those
  that need not wait any more.
\<close>

definition reorder_waiters :: "nat \<Rightarrow> LOCKTAG \<Rightarrow> nat list \<Rightarrow> lock_state \<Rightarrow> lock_state option" where
  "reorder_waiters me tag procs st =
     (case lock_hash st tag of
        None \<Rightarrow> None
      | Some lock \<Rightarrow>
          map_option (\<lambda>(lock, lock_procs). store_lock tag (Some lock) lock_procs st)
            (ProcLockWakeup me tag (lock\<lparr> waitProcs := procs \<rparr>, lock_procs st)))"

section \<open>Lock groups\<close>

definition BecomeLockGroupLeader :: "nat \<Rightarrow> (nat \<Rightarrow> lock_proc) \<Rightarrow> nat \<Rightarrow> lock_proc" where
  "BecomeLockGroupLeader me procs =
     (if lockGroupLeader (procs me) = Some me then procs
      else update_lock_proc me
             (\<lambda>proc. proc\<lparr> lockGroupLeader := Some me, lockGroupMembers := me # lockGroupMembers proc \<rparr>) procs)"

definition BecomeLockGroupMember :: "nat \<Rightarrow> nat \<Rightarrow> int \<Rightarrow> (nat \<Rightarrow> lock_proc) \<Rightarrow> bool \<times> (nat \<Rightarrow> lock_proc)" where
  "BecomeLockGroupMember me leader pid procs =
     (if lock_pid (procs leader) = pid \<and> lockGroupLeader (procs leader) = Some leader
      then (True,
            update_lock_proc leader (\<lambda>proc. proc\<lparr> lockGroupMembers := lockGroupMembers proc @ [me] \<rparr>)
              (update_lock_proc me (\<lambda>proc. proc\<lparr> lockGroupLeader := Some leader \<rparr>) procs))
      else (False, procs))"

text \<open>
  The exit of a process (\<open>ProcKill\<close>): it leaves its group, and the slots that are returned to the free
  list are listed. A leader that exits before its group is returned by the last member.
\<close>

definition LeaveLockGroup :: "nat \<Rightarrow> (nat \<Rightarrow> lock_proc) \<Rightarrow> nat list \<times> (nat \<Rightarrow> lock_proc)" where
  "LeaveLockGroup me procs =
     (let (freed, procs) =
        (case lockGroupLeader (procs me) of
           None \<Rightarrow> ([], procs)
         | Some leader \<Rightarrow>
             let procs = update_lock_proc leader
                   (\<lambda>proc. proc\<lparr> lockGroupMembers := remove1 me (lockGroupMembers proc) \<rparr>) procs
             in if lockGroupMembers (procs leader) = []
                then (if leader \<noteq> me then [leader] else [],
                      update_lock_proc leader (\<lambda>proc. proc\<lparr> lockGroupLeader := None \<rparr>) procs)
                else ([], if leader \<noteq> me
                          then update_lock_proc me (\<lambda>proc. proc\<lparr> lockGroupLeader := None \<rparr>) procs
                          else procs))
      in (freed @ (if lockGroupLeader (procs me) = None then [me] else []), procs))"

text \<open>
  The slot of the last member of a group whose leader has exited is not returned: the member's own
  \<open>lockGroupLeader\<close> is cleared only where other members remain.
\<close>

lemma last_follower_not_freed:
  assumes "leader \<noteq> me" "lockGroupLeader (procs me) = Some leader" "lockGroupMembers (procs leader) = [me]"
  shows "fst (LeaveLockGroup me procs) = [leader]"
  using assms by (simp add: LeaveLockGroup_def update_lock_proc_def)

end
