(* ===== verification/Lock_Conflicts.thy ===== *)
theory Lock_Conflicts
  imports Lock_Acquire
begin

unbundle bit_operations_syntax

text \<open>
  Lock masks as sets of modes, and the test for conflicts: \<open>LockCheckConflicts\<close> counts, and is shown to
  find a conflict exactly when another holder, outside the group, has a mode that conflicts.
\<close>

section \<open>Masks\<close>

definition mode_ok :: "LOCKMODE \<Rightarrow> bool" where "mode_ok m \<longleftrightarrow> 1 \<le> m \<and> m \<le> MaxLockMode"

definition mode_mask :: "LOCKMASK \<Rightarrow> bool" where "mode_mask x \<longleftrightarrow> (\<forall>n. bit x n \<longrightarrow> mode_ok n)"

definition conflict :: "LOCKMODE \<Rightarrow> LOCKMODE \<Rightarrow> bool" where "conflict a b \<longleftrightarrow> bit (conflictTab a) b"

lemma mode_less: "mode_ok m \<Longrightarrow> m < 32" "mode_ok m \<Longrightarrow> m < MAX_LOCKMODES"
  by (auto simp: mode_ok_def MaxLockMode_def MAX_LOCKMODES_def)

lemma bit_lockbit [simp]:
  "m < 32 \<Longrightarrow> bit (LOCKBIT_ON m) n \<longleftrightarrow> n = m"
  "m < 32 \<Longrightarrow> bit (LOCKBIT_OFF m) n \<longleftrightarrow> n < 32 \<and> n \<noteq> m"
  by (auto simp: LOCKBIT_ON_def LOCKBIT_OFF_def bit_simps)

lemma and_nonzero_iff:
  fixes x y :: LOCKMASK
  shows "x AND y \<noteq> 0 \<longleftrightarrow> (\<exists>n. bit x n \<and> bit y n)"
proof -
  have "x AND y \<noteq> 0 \<longleftrightarrow> (\<exists>n. bit (x AND y) n)" by (metis bit_eqI bit_0_eq bot_apply bot_bool_def)
  then show ?thesis by (simp add: bit_and_iff)
qed

lemma and_zero_iff:
  fixes x y :: LOCKMASK
  shows "x AND y = 0 \<longleftrightarrow> (\<forall>n. bit x n \<longrightarrow> \<not> bit y n)"
  using and_nonzero_iff [of x y] by blast

lemma has_mode [simp]: "m < 32 \<Longrightarrow> x AND LOCKBIT_ON m = 0 \<longleftrightarrow> \<not> bit (x :: LOCKMASK) m"
  by (auto simp: and_zero_iff)

lemma bit_set_clear [simp]:
  fixes x :: LOCKMASK
  shows "m < 32 \<Longrightarrow> bit (x OR LOCKBIT_ON m) n \<longleftrightarrow> bit x n \<or> n = m"
    and "m < 32 \<Longrightarrow> bit (x AND LOCKBIT_OFF m) n \<longleftrightarrow> bit x n \<and> n \<noteq> m"
  by (auto simp: bit_or_iff bit_and_iff dest: bit_imp_le_length)

lemma mask_zero_iff: "(x :: LOCKMASK) = 0 \<longleftrightarrow> (\<forall>n. \<not> bit x n)"
  by (metis bit_eqI bit_0_eq bot_apply bot_bool_def)

lemma mode_mask_simps [simp]:
  "mode_mask 0" "mode_ok m \<Longrightarrow> mode_mask x \<Longrightarrow> mode_mask (x OR LOCKBIT_ON m)"
  "mode_ok m \<Longrightarrow> mode_mask x \<Longrightarrow> mode_mask (x AND LOCKBIT_OFF m)"
  by (auto simp: mode_mask_def mode_less)

lemma modes_set: "set [1..<MaxLockMode + 1] = {m. mode_ok m}" "distinct [1..<MaxLockMode + 1]"
  by (auto simp: mode_ok_def)

lemma conflict_table:
  "\<forall>a \<in> set [1..<9]. conflictTab a AND NOT 510 = 0 \<and>
     (\<forall>b \<in> set [1..<9]. bit (conflictTab a) b \<longleftrightarrow> bit (conflictTab b) a)"
  by code_simp

lemma modes_9: "mode_ok m \<longleftrightarrow> m \<in> set [1..<9]"
  by (auto simp: mode_ok_def MaxLockMode_def)

lemma conflict_mode:
  assumes "mode_ok a"
  shows "mode_mask (conflictTab a)"
proof -
  have "conflictTab a AND NOT 510 = 0" using conflict_table assms by (simp only: modes_9)
  then have zero: "\<not> bit (NOT 510 :: LOCKMASK) n" if "bit (conflictTab a) n" for n
    using that and_zero_iff by blast
  have ones: "bit (NOT 510 :: LOCKMASK) n" if "n < 32" "\<not> mode_ok n" for n
  proof -
    have all: "\<forall>n \<in> set [0..<32]. n \<in> set [1..<9] \<or> bit (NOT 510 :: LOCKMASK) n" by code_simp
    have "n \<in> set [0..<32]" using that(1) by simp
    from bspec [OF all this] show ?thesis using that(2) unfolding modes_9 by blast
  qed
  show ?thesis
    unfolding mode_mask_def
  proof (intro allI impI)
    fix n assume n: "bit (conflictTab a) n"
    then have "n < 32" using bit_imp_le_length [of "conflictTab a" n] by simp
    then show "mode_ok n" using zero [OF n] ones by blast
  qed
qed

lemma conflict_commute: "mode_ok a \<Longrightarrow> mode_ok b \<Longrightarrow> conflict a b \<longleftrightarrow> conflict b a"
  using conflict_table by (simp only: modes_9 conflict_def)

lemma conflict_mode_ok: "mode_ok a \<Longrightarrow> conflict a b \<Longrightarrow> mode_ok b"
  using conflict_mode by (auto simp: mode_mask_def conflict_def)

lemma conflict_mask_iff: "conflictTab a AND x \<noteq> 0 \<longleftrightarrow> (\<exists>b. conflict a b \<and> bit x b)"
  by (simp add: and_nonzero_iff conflict_def)

section \<open>Counting holders\<close>

definition count_hold :: "PROCLOCK list \<Rightarrow> LOCKMODE \<Rightarrow> nat" where
  "count_hold pls m = length (filter (\<lambda>pl. bit (holdMask pl) m) pls)"

lemma count_hold_simps [simp]:
  "count_hold [] m = 0"
  "count_hold (pl # pls) m = (if bit (holdMask pl) m then 1 else 0) + count_hold pls m"
  "count_hold (xs @ ys) m = count_hold xs m + count_hold ys m"
  by (simp_all add: count_hold_def)

lemma count_hold_pos: "0 < count_hold pls m \<longleftrightarrow> (\<exists>pl \<in> set pls. bit (holdMask pl) m)"
  by (auto simp: count_hold_def filter_empty_conv)

text \<open>The grant counts of a lock are those of its proclocks.\<close>

definition grants_ok :: "LOCK \<Rightarrow> bool" where
  "grants_ok lock \<longleftrightarrow>
     distinct (map myProc (procLocks lock)) \<and> length (granted lock) = MAX_LOCKMODES \<and>
     (\<forall>pl \<in> set (procLocks lock). mode_mask (holdMask pl)) \<and>
     (\<forall>m. mode_ok m \<longrightarrow> granted lock ! m = int (count_hold (procLocks lock) m)) \<and>
     (\<forall>m. bit (grantMask lock) m \<longleftrightarrow> (\<exists>pl \<in> set (procLocks lock). bit (holdMask pl) m))"

definition others :: "nat \<Rightarrow> LOCK \<Rightarrow> PROCLOCK list" where
  "others p lock = filter (\<lambda>pl. myProc pl \<noteq> p) (procLocks lock)"

lemma find_proclock_iff:
  "distinct (map myProc (procLocks lock)) \<Longrightarrow>
     find_proclock p lock = Some pl \<longleftrightarrow> pl \<in> set (procLocks lock) \<and> myProc pl = p"
proof -
  have "distinct (map myProc pls) \<Longrightarrow> find (\<lambda>pl. myProc pl = p) pls = Some pl \<longleftrightarrow> pl \<in> set pls \<and> myProc pl = p"
    for pls by (induction pls) (auto simp: rev_image_eqI)
  then show "distinct (map myProc (procLocks lock)) \<Longrightarrow>
      find_proclock p lock = Some pl \<longleftrightarrow> pl \<in> set (procLocks lock) \<and> myProc pl = p"
    by (simp add: find_proclock_def)
qed

lemma find_proclock_None: "find_proclock p lock = None \<longleftrightarrow> (\<forall>pl \<in> set (procLocks lock). myProc pl \<noteq> p)"
  by (auto simp: find_proclock_def find_None_iff)

lemma count_others:
  assumes "distinct (map myProc (procLocks lock))" "find_proclock p lock = Some pl"
  shows "count_hold (procLocks lock) m = (if bit (holdMask pl) m then 1 else 0) + count_hold (others p lock) m"
proof -
  have "distinct (map myProc pls) \<Longrightarrow> pl \<in> set pls \<Longrightarrow> myProc pl = p \<Longrightarrow>
      count_hold pls m = (if bit (holdMask pl) m then 1 else 0) + count_hold (filter (\<lambda>pl. myProc pl \<noteq> p) pls) m" for pls
  proof (induction pls)
    case (Cons x pls)
    show ?case
    proof (cases "x = pl")
      case True
      then have "filter (\<lambda>pl. myProc pl \<noteq> p) pls = pls" using Cons.prems True by (intro filter_True) (auto simp: image_iff)
      then show ?thesis using True Cons.prems(3) by simp
    next
      case False
      then have "myProc x \<noteq> p" using Cons.prems by force
      then show ?thesis using Cons False by simp
    qed
  qed simp
  then show ?thesis using assms find_proclock_iff by (auto simp: others_def)
qed

section \<open>The subtraction for a lock group\<close>

lemma subtract_modes_ok:
  assumes "distinct modes" "\<forall>i \<in> set modes. i < 32 \<and> i < length remaining"
    and "\<forall>i \<in> set modes. bit M i \<longrightarrow> 0 < remaining ! i"
  shows "\<exists>remaining'. subtract_modes M modes (remaining, t) = Some (remaining', t - int (length (filter (bit M) modes))) \<and>
    length remaining' = length remaining \<and>
    (\<forall>i < length remaining. remaining' ! i = remaining ! i - (if i \<in> set modes \<and> bit M i then 1 else 0))"
  using assms
proof (induction modes arbitrary: remaining t)
  case (Cons i modes)
  show ?case
  proof (cases "bit M i")
    case True
    let ?r = "remaining[i := remaining ! i - 1]"
    have "\<forall>j \<in> set modes. bit M j \<longrightarrow> 0 < ?r ! j" using Cons.prems by (auto simp: nth_list_update)
    then obtain r' where "subtract_modes M modes (?r, t - 1) = Some (r', t - 1 - int (length (filter (bit M) modes)))"
        "length r' = length remaining"
        "\<forall>j < length remaining. r' ! j = ?r ! j - (if j \<in> set modes \<and> bit M j then 1 else 0)"
      using Cons.IH [of ?r "t - 1"] Cons.prems by auto
    moreover have "i < 32" "\<not> remaining ! i \<le> 0" "i < length remaining" using Cons.prems True by auto
    ultimately show ?thesis using True Cons.prems(1) by (auto simp: nth_list_update algebra_simps)
  next
    case False
    then obtain r' where "subtract_modes M modes (remaining, t) = Some (r', t - int (length (filter (bit M) modes)))"
        "length r' = length remaining"
        "\<forall>j < length remaining. r' ! j = remaining ! j - (if j \<in> set modes \<and> bit M j then 1 else 0)"
      using Cons.IH [of remaining t] Cons.prems by auto
    moreover have "i < 32" using Cons.prems by simp
    ultimately show ?thesis using False by auto
  qed
qed simp

lemma sum_modes_zero:
  assumes "\<forall>i \<in> set modes. 0 \<le> f i"
  shows "sum_list (map f modes) = (0 :: int) \<longleftrightarrow> (\<forall>i \<in> set modes. f i = 0)"
  using assms sum_list_nonneg_eq_0_iff [of "map f modes"] by auto

text \<open>What is left of the conflicts when the modes of the proclocks \<open>pls\<close> are still counted.\<close>

definition left_ok :: "LOCKMODE \<Rightarrow> PROCLOCK list \<Rightarrow> int list \<Rightarrow> int \<Rightarrow> bool" where
  "left_ok a pls remaining t \<longleftrightarrow>
     length remaining = MaxLockMode + 1 \<and>
     (\<forall>i. mode_ok i \<longrightarrow> remaining ! i = (if conflict a i then int (count_hold pls i) else 0)) \<and>
     t = sum_list (map ((!) remaining) [1..<MaxLockMode + 1])"

lemma left_zero:
  assumes "left_ok a pls remaining t" "mode_ok a"
  shows "t = 0 \<longleftrightarrow> (\<forall>pl \<in> set pls. conflictTab a AND holdMask pl = 0)"
proof -
  have "t = 0 \<longleftrightarrow> (\<forall>i \<in> set [1..<MaxLockMode + 1]. remaining ! i = 0)"
    using assms(1) unfolding left_ok_def modes_set(1) [symmetric] by (subst sum_modes_zero [symmetric]) (auto simp: mode_ok_def)
  also have "\<dots> \<longleftrightarrow> (\<forall>i. conflict a i \<longrightarrow> count_hold pls i = 0)"
    using assms conflict_mode_ok unfolding left_ok_def modes_set(1) by auto
  also have "\<dots> \<longleftrightarrow> (\<forall>pl \<in> set pls. conflictTab a AND holdMask pl = 0)"
    by (auto simp: and_zero_iff conflict_def count_hold_def filter_empty_conv)
  finally show ?thesis .
qed

lemma left_subtract:
  assumes ok: "left_ok a (K @ pl # L) remaining t" "mode_ok a"
  shows "\<exists>remaining' t'. subtract_modes (holdMask pl AND conflictTab a) [1..<MaxLockMode + 1] (remaining, t) = Some (remaining', t') \<and>
    left_ok a (K @ L) remaining' t'"
proof -
  let ?M = "holdMask pl AND conflictTab a" and ?ms = "[1..<MaxLockMode + 1]"
  have M: "bit ?M i \<longleftrightarrow> bit (holdMask pl) i \<and> conflict a i" for i by (auto simp: bit_and_iff conflict_def)
  have len: "\<forall>i \<in> set ?ms. i < 32 \<and> i < length remaining" using ok(1) by (auto simp: left_ok_def MaxLockMode_def)
  have "\<forall>i \<in> set ?ms. bit ?M i \<longrightarrow> 0 < remaining ! i"
    using ok(1) unfolding modes_set(1) M by (auto simp: left_ok_def)
  then obtain r' where r: "subtract_modes ?M ?ms (remaining, t) = Some (r', t - int (length (filter (bit ?M) ?ms)))"
      "length r' = length remaining"
      "\<forall>i < length remaining. r' ! i = remaining ! i - (if i \<in> set ?ms \<and> bit ?M i then 1 else 0)"
    using subtract_modes_ok [OF modes_set(2) len] by blast
  have r_i: "r' ! i = remaining ! i - (if bit ?M i then 1 else 0)" if "i \<in> set ?ms" for i
    using spec [OF r(3), of i] bspec [OF len that] that by (simp del: upt_Suc)
  have "left_ok a (K @ L) r' (t - int (length (filter (bit ?M) ?ms)))"
    unfolding left_ok_def
  proof (intro conjI allI impI)
    show "length r' = MaxLockMode + 1" using r(2) ok(1) by (simp add: left_ok_def)
    show "r' ! i = (if conflict a i then int (count_hold (K @ L) i) else 0)" if "mode_ok i" for i
      using r_i [of i] that ok(1) unfolding modes_set(1) M by (auto simp: left_ok_def)
    have "sum_list (map ((!) r') ?ms) = sum_list (map (\<lambda>i. remaining ! i - (if bit ?M i then 1 else 0)) ?ms)"
      using r_i by (intro arg_cong [where f = sum_list] map_cong) auto
    also have "\<dots> = sum_list (map ((!) remaining) ?ms) - sum_list (map (\<lambda>i. if bit ?M i then 1 else 0) ?ms)"
      by (rule sum_list_subtractf)
    also have "sum_list (map (\<lambda>i. if bit ?M i then 1 else 0) ms) = int (length (filter (bit ?M) ms))" for ms
      by (induction ms) auto
    finally show "t - int (length (filter (bit ?M) ?ms)) = sum_list (map ((!) r') ?ms)"
      using ok(1) by (simp add: left_ok_def)
  qed
  then show ?thesis using r(1) by blast
qed

lemma group_conflicts_ok:
  assumes "left_ok a (K @ filter (\<lambda>pl. myProc pl \<noteq> p) L) remaining t" "mode_ok a" "t \<noteq> 0"
  shows "group_conflicts (conflictTab a) p leader L (remaining, t) =
    Some (\<exists>pl \<in> set K \<union> {pl \<in> set L. myProc pl \<noteq> p \<and> groupLeader pl \<noteq> leader}. conflictTab a AND holdMask pl \<noteq> 0)"
  using assms
proof (induction L arbitrary: K remaining t)
  case Nil
  then show ?case using left_zero [of a K remaining t] by auto
next
  case (Cons pl L)
  consider (own) "myProc pl = p"
    | (member) "myProc pl \<noteq> p" "groupLeader pl = leader" "conflictTab a AND holdMask pl \<noteq> 0"
    | (other) "myProc pl \<noteq> p" "groupLeader pl \<noteq> leader \<or> conflictTab a AND holdMask pl = 0" by blast
  then show ?case
  proof cases
    case own
    then have "left_ok a (K @ filter (\<lambda>pl. myProc pl \<noteq> p) L) remaining t" using Cons.prems(1) by simp
    note IH = Cons.IH [OF this Cons.prems(2,3)]
    have rhs: "{x \<in> set (pl # L). myProc x \<noteq> p \<and> groupLeader x \<noteq> leader} =
        {x \<in> set L. myProc x \<noteq> p \<and> groupLeader x \<noteq> leader}" using own by auto
    show ?thesis unfolding rhs using IH own by simp
  next
    case member
    have "left_ok a (K @ pl # filter (\<lambda>pl. myProc pl \<noteq> p) L) remaining t" using Cons.prems(1) member by simp
    from left_subtract [OF this Cons.prems(2)] obtain r' t' where
      r: "subtract_modes (holdMask pl AND conflictTab a) [1..<MaxLockMode + 1] (remaining, t) = Some (r', t')"
        "left_ok a (K @ filter (\<lambda>pl. myProc pl \<noteq> p) L) r' t'" by blast
    have step: "group_conflicts (conflictTab a) p leader (pl # L) (remaining, t) =
        (if t' = 0 then Some False else group_conflicts (conflictTab a) p leader L (r', t'))"
      using member r(1) by (simp add: and.commute del: upt_Suc)
    have rhs: "{x \<in> set (pl # L). myProc x \<noteq> p \<and> groupLeader x \<noteq> leader} =
        {x \<in> set L. myProc x \<noteq> p \<and> groupLeader x \<noteq> leader}" using member(2) by auto
    show ?thesis
    proof (cases "t' = 0")
      case True
      then have "\<forall>x \<in> set (K @ filter (\<lambda>pl. myProc pl \<noteq> p) L). conflictTab a AND holdMask x = 0"
        using left_zero [OF r(2) Cons.prems(2)] by simp
      then show ?thesis unfolding step rhs using True by auto
    next
      case False
      then show ?thesis unfolding step rhs using Cons.IH [OF r(2) Cons.prems(2)] by simp
    qed
  next
    case other
    have "left_ok a ((K @ [pl]) @ filter (\<lambda>pl. myProc pl \<noteq> p) L) remaining t" using Cons.prems(1) other(1) by simp
    from Cons.IH [OF this Cons.prems(2,3)] show ?thesis using other by (auto simp: and.commute)
  qed
qed

section \<open>The test\<close>

text \<open>A conflict with a lock that another process, outside the group of the proclock, holds.\<close>

definition blocked_by :: "LOCKTAG \<Rightarrow> LOCKMODE \<Rightarrow> nat \<Rightarrow> nat \<Rightarrow> PROCLOCK \<Rightarrow> bool" where
  "blocked_by tag a p leader other \<longleftrightarrow>
     myProc other \<noteq> p \<and> (locktag_type tag = LOCKTAG_RELATION_EXTEND \<or> groupLeader other \<noteq> leader) \<and>
     conflictTab a AND holdMask other \<noteq> 0"

lemma left_start:
  assumes ok: "grants_ok lock" "mode_ok a" "find_proclock p lock = Some pl"
  shows "left_ok a (others p lock) (conflicts_remaining a lock (holdMask pl))
    (sum_list (conflicts_remaining a lock (holdMask pl)))"
proof -
  let ?r = "conflicts_remaining a lock (holdMask pl)" and ?ms = "[1..<MaxLockMode + 1]"
  have len: "length ?r = MaxLockMode + 1" by (simp add: conflicts_remaining_def)
  have nth: "?r ! i = (if conflict a i then granted lock ! i - (if bit (holdMask pl) i then 1 else 0) else 0)"
    if "mode_ok i" for i
  proof -
    have "?ms ! (i - 1) = i" "i - 1 < length ?ms" "0 < i"
      using that by (auto simp: mode_ok_def nth_append)
    then have "?r ! i = (if conflictTab a AND LOCKBIT_ON i = 0 then 0
        else granted lock ! i - (if holdMask pl AND LOCKBIT_ON i \<noteq> 0 then 1 else 0))"
      unfolding conflicts_remaining_def by (cases i) (simp_all add: nth_append del: upt_Suc)
    then show ?thesis using mode_less(1) [OF that] by (simp add: conflict_def)
  qed
  have "?r = map ((!) ?r) [0..<MaxLockMode + 1]" unfolding len [symmetric] by (rule map_nth [symmetric])
  also have "[0..<MaxLockMode + 1] = 0 # ?ms" by (simp add: upt_conv_Cons del: upt_Suc)
  finally have "sum_list ?r = ?r ! 0 + sum_list (map ((!) ?r) ?ms)" by (metis list.simps(9) sum_list.Cons)
  moreover have "?r ! 0 = 0" by (simp add: conflicts_remaining_def)
  moreover have "granted lock ! i - (if bit (holdMask pl) i then 1 else 0) = int (count_hold (others p lock) i)"
    if "mode_ok i" for i
    using ok(1) that count_others [OF _ ok(3), of i] by (simp add: grants_ok_def)
  ultimately show ?thesis using len nth by (simp add: left_ok_def del: upt_Suc)
qed

theorem LockCheckConflicts_result:
  assumes ok: "grants_ok lock" "mode_ok a" "find_proclock p lock = Some pl"
    and alone: "groupLeader pl = me \<Longrightarrow> lockGroupLeader (procs me) = None \<Longrightarrow>
      \<forall>x \<in> set (others p lock). groupLeader x \<noteq> me"
  shows "LockCheckConflicts me procs tag a lock pl =
    Some (\<exists>x \<in> set (procLocks lock). blocked_by tag a p (groupLeader pl) x)"
proof (cases "conflictTab a AND grantMask lock = 0")
  case True
  then have "\<forall>x \<in> set (procLocks lock). conflictTab a AND holdMask x = 0"
    using ok(1) by (auto simp: grants_ok_def and_zero_iff)
  then show ?thesis using True by (simp add: LockCheckConflicts_def blocked_by_def)
next
  case False
  let ?r = "conflicts_remaining a lock (holdMask pl)"
  note left = left_start [OF ok]
  have p: "myProc pl = p" using ok find_proclock_iff by (auto simp: grants_ok_def)
  have test: "LockCheckConflicts me procs tag a lock pl =
      (if sum_list ?r = 0 then Some False
       else if groupLeader pl = me \<and> lockGroupLeader (procs me) = None then Some True
       else if locktag_type tag = LOCKTAG_RELATION_EXTEND then Some True
       else group_conflicts (conflictTab a) p (groupLeader pl) (procLocks lock) (?r, sum_list ?r))"
    using False p by (simp add: LockCheckConflicts_def Let_def)
  have zero: "sum_list ?r = 0 \<longleftrightarrow> (\<forall>x \<in> set (others p lock). conflictTab a AND holdMask x = 0)"
    by (rule left_zero [OF left ok(2)])
  show ?thesis
  proof (cases "sum_list ?r = 0")
    case True
    then show ?thesis unfolding test using zero by (auto simp: blocked_by_def others_def)
  next
    case nonzero: False
    then obtain x where x: "x \<in> set (others p lock)" "conflictTab a AND holdMask x \<noteq> 0" using zero by blast
    show ?thesis
    proof (cases "groupLeader pl = me \<and> lockGroupLeader (procs me) = None \<or> locktag_type tag = LOCKTAG_RELATION_EXTEND")
      case True
      then have "blocked_by tag a p (groupLeader pl) x" using x alone by (auto simp: blocked_by_def others_def)
      moreover have "x \<in> set (procLocks lock)" using x(1) by (simp add: others_def)
      ultimately show ?thesis unfolding test using nonzero True by auto
    next
      case False
      have "left_ok a ([] @ filter (\<lambda>pl. myProc pl \<noteq> p) (procLocks lock)) ?r (sum_list ?r)"
        using left by (simp add: others_def)
      from group_conflicts_ok [OF this ok(2) nonzero, of "groupLeader pl"]
      show ?thesis unfolding test using nonzero False by (auto simp: blocked_by_def)
    qed
  qed
qed

end
