(* ===== verification/Lock_Counts.thy ===== *)
theory Lock_Counts
  imports Lock_Conflicts "HOL-Library.Multiset"
begin

unbundle bit_operations_syntax

text \<open>
  The counters of a lock: \<open>counts_ok\<close> relates them to the proclocks and to the multiset of requests
  that are not granted. Each operation moves a request or a grant and keeps the counters right.
\<close>

section \<open>Updating one proclock\<close>

lemma proclocks_split:
  assumes "distinct (map myProc (procLocks lock))" "find_proclock p lock = Some pl"
  shows "set (procLocks lock) = insert pl (set (others p lock))" "pl \<notin> set (others p lock)"
  using assms find_proclock_iff [OF assms(1)] by (auto simp: others_def inj_on_def distinct_map)

lemma update_proclock_fields [simp]:
  "grantMask (update_proclock p f lock) = grantMask lock" "waitMask (update_proclock p f lock) = waitMask lock"
  "waitProcs (update_proclock p f lock) = waitProcs lock" "requested (update_proclock p f lock) = requested lock"
  "nRequested (update_proclock p f lock) = nRequested lock" "granted (update_proclock p f lock) = granted lock"
  "nGranted (update_proclock p f lock) = nGranted lock"
  by (simp_all add: update_proclock_def)

lemma update_proclock_others:
  assumes d: "distinct (map myProc (procLocks lock))" and pl: "find_proclock p lock = Some pl"
    and f: "\<And>x. myProc (f x) = myProc x"
  shows "map myProc (procLocks (update_proclock p f lock)) = map myProc (procLocks lock)"
    and "others p (update_proclock p f lock) = others p lock"
    and "find_proclock p (update_proclock p f lock) = Some (f pl)"
proof -
  show same: "map myProc (procLocks (update_proclock p f lock)) = map myProc (procLocks lock)"
    by (simp add: update_proclock_def f)
  show "others p (update_proclock p f lock) = others p lock"
    by (auto simp: others_def update_proclock_def filter_map f o_def intro!: map_idI)
  have "f pl \<in> set (procLocks (update_proclock p f lock))" "myProc (f pl) = p"
    using pl find_proclock_iff [OF d] by (auto simp: update_proclock_def f intro!: image_eqI [of _ _ pl])
  then show "find_proclock p (update_proclock p f lock) = Some (f pl)"
    using find_proclock_iff d same by metis
qed

section \<open>The counters\<close>

definition mode_sum :: "int list \<Rightarrow> int" where
  "mode_sum xs = sum_list (map ((!) xs) [1..<MaxLockMode + 1])"

lemma mode_sum_update:
  assumes "mode_ok m" "length xs = MAX_LOCKMODES"
  shows "mode_sum (xs[m := v]) = mode_sum xs - xs ! m + v"
proof -
  have "distinct ms \<Longrightarrow> m \<in> set ms \<Longrightarrow> sum_list (map ((!) (xs[m := v])) ms) = sum_list (map ((!) xs) ms) - xs ! m + v" for ms
  proof (induction ms)
    case (Cons i ms)
    show ?case
    proof (cases "i = m")
      case True
      then have "map ((!) (xs[m := v])) ms = map ((!) xs) ms" using Cons.prems
        by (intro map_cong refl) (metis distinct.simps(2) nth_list_update_neq)
      then have "sum_list (map ((!) (xs[m := v])) ms) = sum_list (map ((!) xs) ms)" by (rule arg_cong)
      then show ?thesis using True mode_less(2) [OF assms(1)] assms(2) by simp
    next
      case False
      then show ?thesis using Cons by simp
    qed
  qed simp
  then show ?thesis unfolding mode_sum_def using modes_set assms(1) by blast
qed

type_synonym requests = "(nat \<times> LOCKMODE) multiset"

definition counts_ok :: "(nat \<Rightarrow> nat) \<Rightarrow> requests \<Rightarrow> LOCK \<Rightarrow> bool" where
  "counts_ok leader R lock \<longleftrightarrow>
     grants_ok lock \<and> length (requested lock) = MAX_LOCKMODES \<and>
     (\<forall>m. mode_ok m \<longrightarrow> requested lock ! m = granted lock ! m + int (count (image_mset snd R) m)) \<and>
     nGranted lock = mode_sum (granted lock) \<and> nRequested lock = mode_sum (requested lock) \<and>
     (\<forall>r \<in># R. mode_ok (snd r) \<and> (\<exists>pl \<in> set (procLocks lock). myProc pl = fst r \<and> \<not> bit (holdMask pl) (snd r))) \<and>
     (\<forall>pl \<in> set (procLocks lock). groupLeader pl = leader (myProc pl))"

lemma counts_distinct: "counts_ok leader R lock \<Longrightarrow> distinct (map myProc (procLocks lock))"
  by (simp add: counts_ok_def grants_ok_def)

text \<open>No process has requested anything when the total is 0.\<close>

lemma nothing_requested:
  assumes "counts_ok leader R lock"
  shows "nRequested lock = 0 \<longleftrightarrow> R = {#} \<and> (\<forall>pl \<in> set (procLocks lock). holdMask pl = 0)"
    and "0 \<le> nRequested lock"
proof -
  have g: "granted lock ! m = int (count_hold (procLocks lock) m)"
      "requested lock ! m = int (count_hold (procLocks lock) m) + int (count (image_mset snd R) m)" if "mode_ok m" for m
    using assms that by (auto simp: counts_ok_def grants_ok_def)
  have nonneg: "\<forall>m \<in> set [1..<MaxLockMode + 1]. 0 \<le> requested lock ! m" unfolding modes_set(1) using g(2) by simp
  then have "0 \<le> mode_sum (requested lock)" unfolding mode_sum_def by (intro sum_list_nonneg) auto
  then show "0 \<le> nRequested lock" using assms by (simp add: counts_ok_def)
  have "nRequested lock = 0 \<longleftrightarrow> (\<forall>m. mode_ok m \<longrightarrow> requested lock ! m = 0)"
    using assms sum_modes_zero [OF nonneg] unfolding counts_ok_def mode_sum_def modes_set(1) by auto
  also have "\<dots> \<longleftrightarrow> (\<forall>m. mode_ok m \<longrightarrow> count_hold (procLocks lock) m = 0 \<and> count (image_mset snd R) m = 0)"
    using g(2) by auto
  also have "\<dots> \<longleftrightarrow> R = {#} \<and> (\<forall>pl \<in> set (procLocks lock). holdMask pl = 0)"
  proof (intro iffI conjI ballI)
    assume zero: "\<forall>m. mode_ok m \<longrightarrow> count_hold (procLocks lock) m = 0 \<and> count (image_mset snd R) m = 0"
    show "R = {#}"
    proof (rule ccontr)
      assume "R \<noteq> {#}"
      then obtain r where "r \<in># R" by blast
      moreover from this have "mode_ok (snd r)" using assms by (auto simp: counts_ok_def)
      ultimately have "snd r \<in># image_mset snd R" "count (image_mset snd R) (snd r) = 0" using zero by auto
      then show False by (simp add: not_in_iff [symmetric])
    qed
    fix pl assume pl: "pl \<in> set (procLocks lock)"
    show "holdMask pl = 0"
      unfolding mask_zero_iff
    proof (intro allI notI)
      fix n assume n: "bit (holdMask pl) n"
      then have "mode_ok n" using assms pl by (auto simp: counts_ok_def grants_ok_def mode_mask_def)
      then show False using zero n pl by (auto simp: count_hold_def filter_empty_conv)
    qed
  next
    assume empty: "R = {#} \<and> (\<forall>pl \<in> set (procLocks lock). holdMask pl = 0)"
    then have "count_hold (procLocks lock) m = 0" for m by (auto simp: count_hold_def filter_empty_conv)
    then show "\<forall>m. mode_ok m \<longrightarrow> count_hold (procLocks lock) m = 0 \<and> count (image_mset snd R) m = 0"
      using empty by simp
  qed
  finally show "nRequested lock = 0 \<longleftrightarrow> R = {#} \<and> (\<forall>pl \<in> set (procLocks lock). holdMask pl = 0)" .
qed

section \<open>The operations\<close>

lemma GrantLock_fields:
  "waitProcs (GrantLock lock p m) = waitProcs lock" "requested (GrantLock lock p m) = requested lock"
  "nRequested (GrantLock lock p m) = nRequested lock" "nGranted (GrantLock lock p m) = nGranted lock + 1"
  "granted (GrantLock lock p m) = (granted lock)[m := granted lock ! m + 1]"
  "grantMask (GrantLock lock p m) = grantMask lock OR LOCKBIT_ON m"
  "waitMask (GrantLock lock p m) = (if (granted lock)[m := granted lock ! m + 1] ! m = requested lock ! m
     then waitMask lock AND LOCKBIT_OFF m else waitMask lock)"
  "procLocks (GrantLock lock p m) =
     procLocks (update_proclock p (\<lambda>pl. pl\<lparr> holdMask := holdMask pl OR LOCKBIT_ON m \<rparr>) lock)"
  by (simp_all add: GrantLock_def Let_def) (simp_all add: update_proclock_def)

lemma UnGrantLock_fields:
  assumes "UnGrantLock lock m p = (wake, lock')"
  shows "waitProcs lock' = waitProcs lock" "requested lock' = (requested lock)[m := requested lock ! m - 1]"
    "nRequested lock' = nRequested lock - 1" "nGranted lock' = nGranted lock - 1"
    "granted lock' = (granted lock)[m := granted lock ! m - 1]"
    "grantMask lock' = (if (granted lock)[m := granted lock ! m - 1] ! m = 0
       then grantMask lock AND LOCKBIT_OFF m else grantMask lock)"
    "waitMask lock' = waitMask lock" "wake \<longleftrightarrow> conflictTab m AND waitMask lock \<noteq> 0"
    "procLocks lock' = procLocks (update_proclock p (\<lambda>pl. pl\<lparr> holdMask := holdMask pl AND LOCKBIT_OFF m \<rparr>) lock)"
  using assms
  by (cases "(granted lock)[m := granted lock ! m - 1] ! m = 0"; auto simp: UnGrantLock_def Let_def update_proclock_def)+

text \<open>A change of one holder's mask, with the counters adjusted.\<close>

lemma grants_ok_update:
  assumes ok: "grants_ok lock" and pl: "find_proclock p lock = Some pl" "mode_ok m"
    and f: "\<And>x. myProc (f x) = myProc x" and h: "mode_mask (holdMask (f pl))"
    and bits: "\<forall>i. i \<noteq> m \<longrightarrow> bit (holdMask (f pl)) i = bit (holdMask pl) i"
    and locks: "procLocks lock' = procLocks (update_proclock p f lock)"
    and granted: "granted lock' = (granted lock)[m := granted lock ! m +
        (if bit (holdMask (f pl)) m then 1 else 0) - (if bit (holdMask pl) m then 1 else 0)]"
    and mask: "\<forall>i. bit (grantMask lock') i \<longleftrightarrow> (if i = m then 0 < granted lock' ! m else bit (grantMask lock) i)"
  shows "grants_ok lock'"
proof -
  note d = ok [unfolded grants_ok_def, THEN conjunct1]
  note upd = update_proclock_others [OF d pl(1) f]
  have d': "distinct (map myProc (procLocks lock'))" using d upd(1) locks by simp
  have pl': "find_proclock p lock' = Some (f pl)" "others p lock' = others p lock"
    using upd(2,3) locks by (simp_all add: find_proclock_def others_def)
  note split = proclocks_split [OF d pl(1)] and split' = proclocks_split [OF d' pl'(1), unfolded pl'(2)]
  have count: "count_hold (procLocks lock') i = (if bit (holdMask (f pl)) i then 1 else 0) + count_hold (others p lock) i"
    "count_hold (procLocks lock) i = (if bit (holdMask pl) i then 1 else 0) + count_hold (others p lock) i" for i
    using count_others [OF d' pl'(1), of i] count_others [OF d pl(1), of i] pl'(2) by simp_all
  have old: "granted lock ! i = int (count_hold (procLocks lock) i)" if "mode_ok i" for i
    using ok that by (simp add: grants_ok_def)
  have len: "length (granted lock) = MAX_LOCKMODES" using ok by (simp add: grants_ok_def)
  have new: "granted lock' ! i = int (count_hold (procLocks lock') i)" if "mode_ok i" for i
    using old [OF that] count [of i] bits mode_less(2) [OF pl(2)] len by (cases "i = m") (auto simp: granted)
  have "bit (grantMask lock') i \<longleftrightarrow> (\<exists>x \<in> set (procLocks lock'). bit (holdMask x) i)" for i
  proof (cases "i = m")
    case True
    then show ?thesis using mask new [OF pl(2)] count_hold_pos [of "procLocks lock'" m] by simp
  next
    case False
    then show ?thesis using mask bits ok unfolding split' by (auto simp: grants_ok_def split)
  qed
  then show ?thesis
    using d' new len h ok unfolding grants_ok_def split' by (auto simp: granted split grants_ok_def)
qed

lemma grant_counts:
  assumes ok: "counts_ok leader (add_mset (p, m) R) lock" and p: "p \<notin># image_mset fst R"
  shows "counts_ok leader R (GrantLock lock p m)"
proof -
  let ?lock = "GrantLock lock p m" and ?f = "\<lambda>pl. pl\<lparr> holdMask := holdMask pl OR LOCKBIT_ON m \<rparr>"
  note d = counts_distinct [OF ok]
  have g: "grants_ok lock" and m: "mode_ok m" using ok by (auto simp: counts_ok_def)
  have "\<exists>pl \<in> set (procLocks lock). myProc pl = p \<and> \<not> bit (holdMask pl) m" using ok by (simp add: counts_ok_def)
  then obtain pl where pl: "find_proclock p lock = Some pl" "\<not> bit (holdMask pl) m" "pl \<in> set (procLocks lock)"
    using find_proclock_iff [OF d] by auto
  note less = mode_less [OF m]
  have hold: "mode_mask (holdMask pl)" using g pl(3) by (simp add: grants_ok_def)
  have len: "length (granted lock) = MAX_LOCKMODES" "length (requested lock) = MAX_LOCKMODES"
    using ok by (simp_all add: counts_ok_def grants_ok_def)
  have nonneg: "0 \<le> granted lock ! m" using g m by (simp add: grants_ok_def)
  have g': "grants_ok ?lock"
    using g pl(1) m by (rule grants_ok_update [where f = ?f])
      (use less len pl(2) hold m nonneg in \<open>auto simp: GrantLock_fields\<close>)
  have upd: "find_proclock p ?lock = Some (?f pl)" "others p ?lock = others p lock"
    using update_proclock_others(2,3) [OF d pl(1), of ?f] by (simp_all add: find_proclock_def others_def GrantLock_fields)
  have d': "distinct (map myProc (procLocks ?lock))" using g' by (simp add: grants_ok_def)
  note split = proclocks_split(1) [OF d pl(1)] and split' = proclocks_split(1) [OF d' upd(1), unfolded upd(2)]
  have R: "mode_ok (snd r) \<and> (\<exists>x \<in> set (procLocks ?lock). myProc x = fst r \<and> \<not> bit (holdMask x) (snd r))" if r: "r \<in># R" for r
  proof -
    obtain x where x: "x \<in> set (procLocks lock)" "myProc x = fst r" "\<not> bit (holdMask x) (snd r)" "mode_ok (snd r)"
      using ok r by (auto simp: counts_ok_def)
    have "fst r \<noteq> p" using p r by auto
    then have "x \<in> set (others p lock)" using x by (auto simp: others_def)
    then show ?thesis using x unfolding split' by auto
  qed
  have "requested ?lock ! i = granted ?lock ! i + int (count (image_mset snd R) i)" if "mode_ok i" for i
    using ok that len less by (cases "i = m") (auto simp: counts_ok_def GrantLock_fields)
  moreover have "nGranted ?lock = mode_sum (granted ?lock)"
    using ok by (simp add: counts_ok_def GrantLock_fields mode_sum_update [OF m len(1)])
  moreover have "\<forall>x \<in> set (procLocks ?lock). groupLeader x = leader (myProc x)"
    using ok unfolding split' by (auto simp: counts_ok_def split)
  ultimately show ?thesis
    using g' R ok unfolding counts_ok_def by (simp add: GrantLock_fields)
qed

lemma ungrant_counts:
  assumes ok: "counts_ok leader R lock" and pl: "find_proclock p lock = Some pl" "mode_ok m" "bit (holdMask pl) m"
    and u: "UnGrantLock lock m p = (wake, lock')"
  shows "counts_ok leader R lock'"
    and "find_proclock p lock' = Some (pl\<lparr> holdMask := holdMask pl AND LOCKBIT_OFF m \<rparr>)"
    and "others p lock' = others p lock"
proof -
  let ?f = "\<lambda>pl. pl\<lparr> holdMask := holdMask pl AND LOCKBIT_OFF m \<rparr>"
  note d = counts_distinct [OF ok] and fields = UnGrantLock_fields [OF u] and less = mode_less [OF pl(2)]
  have g: "grants_ok lock" using ok by (auto simp: counts_ok_def)
  have mem: "pl \<in> set (procLocks lock)" using pl(1) find_proclock_iff [OF d] by auto
  have hold: "mode_mask (holdMask pl)" using g mem by (simp add: grants_ok_def)
  have len: "length (granted lock) = MAX_LOCKMODES" "length (requested lock) = MAX_LOCKMODES"
    using ok by (simp_all add: counts_ok_def grants_ok_def)
  have pos: "0 < granted lock ! m" using g pl(2,3) mem count_hold_pos by (auto simp: grants_ok_def)
  have masked: "bit (grantMask lock) m" using g mem pl(3) by (auto simp: grants_ok_def)
  have g': "grants_ok lock'"
    using g pl(1,2) by (rule grants_ok_update [where f = ?f])
      (use less len pl hold pos fields masked in auto)
  show upd: "find_proclock p lock' = Some (?f pl)" "others p lock' = others p lock"
    using update_proclock_others(2,3) [OF d pl(1), of ?f] by (simp_all add: find_proclock_def others_def fields)
  have d': "distinct (map myProc (procLocks lock'))" using g' by (simp add: grants_ok_def)
  note split = proclocks_split(1) [OF d pl(1)] and split' = proclocks_split(1) [OF d' upd(1), unfolded upd(2)]
  have R: "mode_ok (snd r) \<and> (\<exists>x \<in> set (procLocks lock'). myProc x = fst r \<and> \<not> bit (holdMask x) (snd r))" if r: "r \<in># R" for r
  proof -
    obtain x where x: "x \<in> set (procLocks lock)" "myProc x = fst r" "\<not> bit (holdMask x) (snd r)" "mode_ok (snd r)"
      using ok r by (auto simp: counts_ok_def)
    then consider "x = pl" | "x \<in> set (others p lock)" unfolding split by blast
    then show ?thesis using x less unfolding split' by cases auto
  qed
  have "requested lock' ! i = granted lock' ! i + int (count (image_mset snd R) i)" if "mode_ok i" for i
    using ok that len less by (cases "i = m") (auto simp: counts_ok_def fields)
  moreover have "nGranted lock' = mode_sum (granted lock')" "nRequested lock' = mode_sum (requested lock')"
    using ok by (simp_all add: counts_ok_def fields mode_sum_update [OF pl(2) len(1)] mode_sum_update [OF pl(2) len(2)])
  moreover have "\<forall>x \<in> set (procLocks lock'). groupLeader x = leader (myProc x)"
    using ok unfolding split' by (auto simp: counts_ok_def split)
  ultimately show "counts_ok leader R lock'"
    using g' R len unfolding counts_ok_def by (simp add: fields)
qed

lemma counts_same:
  assumes "procLocks lock' = procLocks lock" "grantMask lock' = grantMask lock" "requested lock' = requested lock"
    "nRequested lock' = nRequested lock" "granted lock' = granted lock" "nGranted lock' = nGranted lock"
  shows "counts_ok leader R lock' = counts_ok leader R lock"
  using assms by (simp add: counts_ok_def grants_ok_def)

lemma add_request:
  assumes ok: "counts_ok leader R lock" and m: "mode_ok m"
    and pl: "find_proclock p lock = Some pl" "\<not> bit (holdMask pl) m"
  shows "counts_ok leader (add_mset (p, m) R)
    (lock\<lparr> nRequested := nRequested lock + 1, requested := (requested lock)[m := requested lock ! m + 1] \<rparr>)"
proof -
  have len: "length (requested lock) = MAX_LOCKMODES" using ok by (simp add: counts_ok_def)
  have "pl \<in> set (procLocks lock)" "myProc pl = p" using pl(1) find_proclock_iff [OF counts_distinct [OF ok]] by auto
  moreover have "(requested lock)[m := requested lock ! m + 1] ! i = granted lock ! i + int (count (image_mset snd (add_mset (p, m) R)) i)"
    if "mode_ok i" for i
    using ok that len mode_less(2) [OF m] by (cases "i = m") (auto simp: counts_ok_def)
  ultimately show ?thesis
    using ok m pl(2) len unfolding counts_ok_def by (auto simp: mode_sum_update grants_ok_def)
qed

lemma drop_request:
  assumes ok: "counts_ok leader (add_mset (p, m) R) lock"
  shows "counts_ok leader R
    (lock\<lparr> nRequested := nRequested lock - 1, requested := (requested lock)[m := requested lock ! m - 1] \<rparr>)"
proof -
  have len: "length (requested lock) = MAX_LOCKMODES" and m: "mode_ok m" using ok by (simp_all add: counts_ok_def)
  have "(requested lock)[m := requested lock ! m - 1] ! i = granted lock ! i + int (count (image_mset snd R) i)"
    if "mode_ok i" for i
    using ok that len mode_less(2) [OF m] by (cases "i = m") (auto simp: counts_ok_def)
  then show ?thesis using ok m len unfolding counts_ok_def by (simp add: mode_sum_update grants_ok_def)
qed

lemma count_hold_zero: "holdMask pl = 0 \<Longrightarrow> bit (holdMask pl) m = False" by simp

lemma add_proclock:
  assumes ok: "counts_ok leader R lock" and p: "find_proclock p lock = None"
    and pl: "pl = \<lparr> myProc = p, groupLeader = leader p, holdMask = 0, releaseMask = r \<rparr>"
  shows "counts_ok leader R (lock\<lparr> procLocks := procLocks lock @ [pl] \<rparr>)"
    and "find_proclock p (lock\<lparr> procLocks := procLocks lock @ [pl] \<rparr>) = Some pl"
proof -
  have p': "\<forall>x \<in> set (procLocks lock). myProc x \<noteq> p" using p by (simp add: find_proclock_None)
  then have "p \<notin> myProc ` set (procLocks lock)" by auto
  then show ok': "counts_ok leader R (lock\<lparr> procLocks := procLocks lock @ [pl] \<rparr>)"
    using ok unfolding counts_ok_def grants_ok_def by (auto simp: pl)
  show "find_proclock p (lock\<lparr> procLocks := procLocks lock @ [pl] \<rparr>) = Some pl"
    using find_proclock_iff [OF counts_distinct [OF ok']] by (simp add: pl)
qed

lemma drop_proclock:
  assumes ok: "counts_ok leader R lock" and pl: "find_proclock p lock = Some pl" "holdMask pl = 0"
    and p: "p \<notin># image_mset fst R"
  shows "counts_ok leader R (lock\<lparr> procLocks := others p lock \<rparr>)"
proof -
  note d = counts_distinct [OF ok]
  note split = proclocks_split(1) [OF d pl(1)]
  have count: "count_hold (procLocks lock) m = count_hold (others p lock) m" for m
    using count_others [OF d pl(1), of m] pl(2) by simp
  have sub: "set (others p lock) \<subseteq> set (procLocks lock)" by (auto simp: others_def)
  have "grants_ok (lock\<lparr> procLocks := others p lock \<rparr>)"
    using ok count pl(2) unfolding counts_ok_def grants_ok_def
    by (auto simp: split) (auto simp: others_def distinct_map_filter)
  moreover have "\<exists>x \<in> set (others p lock). myProc x = fst r \<and> \<not> bit (holdMask x) (snd r)" if r: "r \<in># R" for r
  proof -
    obtain x where x: "x \<in> set (procLocks lock)" "myProc x = fst r" "\<not> bit (holdMask x) (snd r)"
      using ok r by (auto simp: counts_ok_def)
    have "fst r \<noteq> p" using p r by auto
    then show ?thesis using x by (auto simp: others_def)
  qed
  ultimately show ?thesis using ok sub unfolding counts_ok_def by auto
qed

end
