(* ===== verification/Lock_Inv.thy ===== *)
theory Lock_Inv
  imports Lock_Counts
begin

unbundle bit_operations_syntax

text \<open>
  The invariants of a lock: \<open>lock_ok\<close> (counters, masks and queue agree), \<open>compatible\<close> (no two holders
  conflict) and \<open>all_wait\<close> (every waiter has something to wait for), with the lemmas on granting and on
  waking up waiters.
\<close>

section \<open>Invariants\<close>

definition reqs_of :: "(nat \<Rightarrow> lock_proc) \<Rightarrow> nat list \<Rightarrow> requests" where
  "reqs_of procs ps = mset (map (\<lambda>p. (p, waitLockMode (procs p))) ps)"

text \<open>A process that takes locks is not in a group, or is a member of a group with a leader.\<close>

definition attached :: "(nat \<Rightarrow> lock_proc) \<Rightarrow> nat \<Rightarrow> bool" where
  "attached procs p \<longleftrightarrow>
     (case lockGroupLeader (procs p) of
        None \<Rightarrow> True
      | Some leader \<Rightarrow> lockGroupLeader (procs leader) = Some leader \<and> p \<in> set (lockGroupMembers (procs leader)))"

definition queue_ok :: "(nat \<Rightarrow> lock_proc) \<Rightarrow> LOCKTAG \<Rightarrow> LOCK \<Rightarrow> bool" where
  "queue_ok procs tag lock \<longleftrightarrow>
     distinct (waitProcs lock) \<and>
     (\<forall>m. bit (waitMask lock) m \<longleftrightarrow> (\<exists>p \<in> set (waitProcs lock). waitLockMode (procs p) = m)) \<and>
     (\<forall>p \<in> set (waitProcs lock). waitLock (procs p) = Some tag)"

definition lock_ok :: "(nat \<Rightarrow> lock_proc) \<Rightarrow> LOCKTAG \<Rightarrow> LOCK \<Rightarrow> bool" where
  "lock_ok procs tag lock \<longleftrightarrow>
     counts_ok (leader_of procs) (reqs_of procs (waitProcs lock)) lock \<and> queue_ok procs tag lock \<and>
     (\<forall>pl \<in> set (procLocks lock). attached procs (myProc pl))"

definition no_idle :: "nat set \<Rightarrow> LOCK \<Rightarrow> bool" where
  "no_idle P lock \<longleftrightarrow> (\<forall>pl \<in> set (procLocks lock). holdMask pl = 0 \<longrightarrow> myProc pl \<in> P)"

definition compatible :: "LOCKTAG \<Rightarrow> LOCK \<Rightarrow> bool" where
  "compatible tag lock \<longleftrightarrow>
     (\<forall>a \<in> set (procLocks lock). \<forall>b \<in> set (procLocks lock). \<forall>m. bit (holdMask a) m \<longrightarrow>
        \<not> blocked_by tag m (myProc a) (groupLeader a) b)"

definition waits :: "(nat \<Rightarrow> lock_proc) \<Rightarrow> LOCKTAG \<Rightarrow> LOCK \<Rightarrow> nat list \<Rightarrow> nat \<Rightarrow> bool" where
  "waits procs tag lock ahead p \<longleftrightarrow>
     (\<exists>q \<in> set ahead. conflict (waitLockMode (procs p)) (waitLockMode (procs q))) \<or>
     (\<exists>x \<in> set (procLocks lock). blocked_by tag (waitLockMode (procs p)) p (leader_of procs p) x)"

definition queue_waits :: "(nat \<Rightarrow> lock_proc) \<Rightarrow> LOCKTAG \<Rightarrow> LOCK \<Rightarrow> nat list \<Rightarrow> bool" where
  "queue_waits procs tag lock queue \<longleftrightarrow>
     (\<forall>pre p post. queue = pre @ p # post \<longrightarrow> waits procs tag lock pre p)"

abbreviation all_wait :: "(nat \<Rightarrow> lock_proc) \<Rightarrow> LOCKTAG \<Rightarrow> LOCK \<Rightarrow> bool" where
  "all_wait procs tag lock \<equiv> queue_waits procs tag lock (waitProcs lock)"

lemma queue_waits_Nil [simp]: "queue_waits procs tag lock []"
  by (simp add: queue_waits_def)

lemma queue_waits_snoc:
  "queue_waits procs tag lock (queue @ [p]) \<longleftrightarrow> queue_waits procs tag lock queue \<and> waits procs tag lock queue p"
proof
  assume all: "queue_waits procs tag lock (queue @ [p])"
  have "waits procs tag lock pre q" if "queue = pre @ q # post" for pre q post
    using all [unfolded queue_waits_def, rule_format, of pre q "post @ [p]"] that by simp
  moreover have "waits procs tag lock queue p"
    using all [unfolded queue_waits_def, rule_format, of queue p "[]"] by simp
  ultimately show "queue_waits procs tag lock queue \<and> waits procs tag lock queue p" by (simp add: queue_waits_def)
next
  assume all: "queue_waits procs tag lock queue \<and> waits procs tag lock queue p"
  have "waits procs tag lock pre q" if eq: "queue @ [p] = pre @ q # post" for pre q post
  proof (cases post rule: rev_cases)
    case Nil
    then show ?thesis using eq all by simp
  next
    case (snoc ys y)
    then have "queue = pre @ q # ys" using eq by (metis append_Cons append_assoc butlast_snoc)
    then show ?thesis using all by (simp add: queue_waits_def)
  qed
  then show "queue_waits procs tag lock (queue @ [p])" by (simp add: queue_waits_def)
qed

lemma reqs_of_simps [simp]:
  "reqs_of procs [] = {#}"
  "reqs_of procs (p # ps) = add_mset (p, waitLockMode (procs p)) (reqs_of procs ps)"
  "reqs_of procs (ps @ qs) = reqs_of procs ps + reqs_of procs qs"
  by (simp_all add: reqs_of_def)

lemma reqs_of_fst [simp]: "image_mset fst (reqs_of procs ps) = mset ps"
  by (induction ps) simp_all

lemma reqs_of_count: "0 < count (image_mset snd (reqs_of procs ps)) m \<longleftrightarrow> (\<exists>p \<in> set ps. waitLockMode (procs p) = m)"
  by (induction ps) auto

lemma reqs_of_mem: "r \<in># reqs_of procs ps \<longleftrightarrow> fst r \<in> set ps \<and> snd r = waitLockMode (procs (fst r))"
  by (cases r) (auto simp: reqs_of_def)

lemma reqs_of_cong:
  "(\<And>p. p \<in> set ps \<Longrightarrow> waitLockMode (procs' p) = waitLockMode (procs p)) \<Longrightarrow> reqs_of procs' ps = reqs_of procs ps"
  by (induction ps) simp_all

section \<open>Reading\<close>

lemma waiter_proclock:
  assumes ok: "lock_ok procs tag lock" and p: "p \<in> set (waitProcs lock)"
  shows "mode_ok (waitLockMode (procs p))" "waitLock (procs p) = Some tag"
    and "\<exists>pl. find_proclock p lock = Some pl \<and> \<not> bit (holdMask pl) (waitLockMode (procs p)) \<and>
      groupLeader pl = leader_of procs p"
proof -
  have c: "counts_ok (leader_of procs) (reqs_of procs (waitProcs lock)) lock" using ok by (simp add: lock_ok_def)
  have "(p, waitLockMode (procs p)) \<in># reqs_of procs (waitProcs lock)" using p by (simp add: reqs_of_mem)
  then obtain pl where pl: "mode_ok (waitLockMode (procs p))" "pl \<in> set (procLocks lock)" "myProc pl = p"
      "\<not> bit (holdMask pl) (waitLockMode (procs p))"
    using c unfolding counts_ok_def by (metis fst_conv snd_conv)
  then have "groupLeader pl = leader_of procs p" using c unfolding counts_ok_def by blast
  with pl show "mode_ok (waitLockMode (procs p))"
    "\<exists>pl. find_proclock p lock = Some pl \<and> \<not> bit (holdMask pl) (waitLockMode (procs p)) \<and> groupLeader pl = leader_of procs p"
    using find_proclock_iff [OF counts_distinct [OF c]] by blast+
  show "waitLock (procs p) = Some tag" using ok p by (simp add: lock_ok_def queue_ok_def)
qed

text \<open>The test never fails on a lock whose counters are right.\<close>

lemma check_conflicts:
  assumes att: "\<forall>x \<in> set (procLocks lock). attached procs (myProc x)" and c: "counts_ok (leader_of procs) R lock" and a: "mode_ok a"
    and pl: "find_proclock p lock = Some pl"
  shows "LockCheckConflicts me procs tag a lock pl =
    Some (\<exists>x \<in> set (procLocks lock). blocked_by tag a p (leader_of procs p) x)"
proof -
  note d = counts_distinct [OF c]
  have leaders: "groupLeader x = leader_of procs (myProc x)" "attached procs (myProc x)" if "x \<in> set (procLocks lock)" for x
    using c att that by (auto simp: counts_ok_def)
  have mem: "pl \<in> set (procLocks lock)" "myProc pl = p" using pl find_proclock_iff [OF d] by auto
  have "groupLeader x \<noteq> me" if me: "groupLeader pl = me" "lockGroupLeader (procs me) = None" and x: "x \<in> set (others p lock)" for x
  proof
    assume eq: "groupLeader x = me"
    have x': "x \<in> set (procLocks lock)" "myProc x \<noteq> p" using x by (auto simp: others_def)
    have "myProc y = me" if "y \<in> set (procLocks lock)" "groupLeader y = me" for y
      using leaders [OF that(1)] that(2) me(2) by (auto simp: leader_of_def attached_def split: option.splits)
    then show False using x' eq mem me(1) by metis
  qed
  then show ?thesis
    using LockCheckConflicts_result [of lock a p pl me procs tag] c a pl leaders(1) [OF mem(1)] mem(2)
    by (simp add: counts_ok_def)
qed

section \<open>Granting\<close>

lemma grant_compatible:
  assumes c: "counts_ok leader R lock" and pl: "find_proclock p lock = Some pl" "mode_ok m"
    and comp: "compatible tag lock" and free: "\<not> (\<exists>x \<in> set (procLocks lock). blocked_by tag m p (groupLeader pl) x)"
  shows "compatible tag (GrantLock lock p m)"
proof -
  let ?f = "\<lambda>pl. pl\<lparr> holdMask := holdMask pl OR LOCKBIT_ON m \<rparr>"
  note d = counts_distinct [OF c] and less = mode_less(1) [OF pl(2)]
  have p: "myProc pl = p" using pl find_proclock_iff [OF d] by auto
  have set: "set (procLocks (GrantLock lock p m)) = insert (?f pl) (set (others p lock))"
    unfolding GrantLock_fields
    using proclocks_split(1) [of "update_proclock p ?f lock" p "?f pl"] update_proclock_others [OF d pl(1), of ?f] d by simp
  note split = proclocks_split(1) [OF d pl(1)]
  have modes: "mode_ok i" if "bit (holdMask x) i" "x \<in> set (procLocks lock)" for x i
    using c that by (auto simp: counts_ok_def grants_ok_def mode_mask_def)
  have old: "\<not> blocked_by tag i (myProc a) (groupLeader a) b"
    if "a \<in> set (procLocks lock)" "b \<in> set (procLocks lock)" "bit (holdMask a) i" for a b i
    using comp that by (auto simp: compatible_def)
  have new_holder: "\<not> blocked_by tag i p (groupLeader pl) b"
    if b: "b \<in> set (others p lock)" and i: "bit (holdMask (?f pl)) i" for b i
    using i free old [of pl b i] b less p by (auto simp: split)
  have against_new: "\<not> blocked_by tag i (myProc a) (groupLeader a) (?f pl)"
    if a: "a \<in> set (others p lock)" and i: "bit (holdMask a) i" for a i
  proof
    assume "blocked_by tag i (myProc a) (groupLeader a) (?f pl)"
    then have b: "locktag_type tag = LOCKTAG_RELATION_EXTEND \<or> groupLeader pl \<noteq> groupLeader a"
        "\<exists>n. conflict i n \<and> (bit (holdMask pl) n \<or> n = m)" "p \<noteq> myProc a"
      using less p by (auto simp: blocked_by_def conflict_mask_iff)
    have "\<not> blocked_by tag i (myProc a) (groupLeader a) pl" using old [of a pl i] a i by (auto simp: split)
    then have "conflict i m" using b p by (auto simp: blocked_by_def conflict_mask_iff)
    then have "conflict m i" using conflict_commute pl(2) modes [OF i] a by (auto simp: split)
    then have "blocked_by tag m p (groupLeader pl) a" using b(1,3) i by (auto simp: blocked_by_def conflict_mask_iff)
    then show False using free a by (auto simp: split)
  qed
  have self: "\<not> blocked_by tag i p l (?f pl)" for i l using p by (simp add: blocked_by_def)
  show ?thesis
    unfolding compatible_def set
    using new_holder against_new self old p by (auto simp: split)
qed

text \<open>Holders only gain modes.\<close>

definition held_le :: "LOCK \<Rightarrow> LOCK \<Rightarrow> bool" where
  "held_le lock lock' \<longleftrightarrow>
     (\<forall>x \<in> set (procLocks lock). \<exists>y \<in> set (procLocks lock'). myProc y = myProc x \<and> groupLeader y = groupLeader x \<and>
        (\<forall>i. bit (holdMask x) i \<longrightarrow> bit (holdMask y) i))"

lemma held_le_refl [simp]: "held_le lock lock" by (auto simp: held_le_def)

lemma held_le_trans: "held_le a b \<Longrightarrow> held_le b c \<Longrightarrow> held_le a c"
  unfolding held_le_def by (metis (no_types, lifting))

lemma held_le_blocked:
  "held_le lock lock' \<Longrightarrow> \<exists>x \<in> set (procLocks lock). blocked_by tag m p l x \<Longrightarrow>
     \<exists>x \<in> set (procLocks lock'). blocked_by tag m p l x"
  unfolding held_le_def blocked_by_def conflict_mask_iff by (metis (no_types, lifting))

lemma compatible_held_le:
  assumes "held_le lock' lock" "compatible tag lock"
  shows "compatible tag lock'"
  unfolding compatible_def
proof (intro ballI allI impI notI)
  fix a b m assume a: "a \<in> set (procLocks lock')" "b \<in> set (procLocks lock')" "bit (holdMask a) m"
    and block: "blocked_by tag m (myProc a) (groupLeader a) b"
  obtain a' where a': "a' \<in> set (procLocks lock)" "myProc a' = myProc a" "groupLeader a' = groupLeader a" "bit (holdMask a') m"
    using assms(1) a unfolding held_le_def by metis
  have "\<exists>x \<in> set (procLocks lock). blocked_by tag m (myProc a) (groupLeader a) x"
    by (rule held_le_blocked [OF assms(1)]) (use a(2) block in blast)
  then show False using assms(2) a' unfolding compatible_def by metis
qed

lemma grant_held_le: "mode_ok m \<Longrightarrow> held_le lock (GrantLock lock p m)"
  unfolding held_le_def
proof
  let ?f = "\<lambda>x. if myProc x = p then x\<lparr> holdMask := holdMask x OR LOCKBIT_ON m \<rparr> else x"
  fix x assume m: "mode_ok m" and x: "x \<in> set (procLocks lock)"
  have "?f x \<in> set (procLocks (GrantLock lock p m))" using x by (auto simp: GrantLock_fields update_proclock_def)
  moreover have "myProc (?f x) = myProc x \<and> groupLeader (?f x) = groupLeader x \<and>
      (\<forall>i. bit (holdMask x) i \<longrightarrow> bit (holdMask (?f x)) i)" using mode_less(1) [OF m] by simp
  ultimately show "\<exists>y \<in> set (procLocks (GrantLock lock p m)). myProc y = myProc x \<and> groupLeader y = groupLeader x \<and>
      (\<forall>i. bit (holdMask x) i \<longrightarrow> bit (holdMask y) i)" by blast
qed

end
