(* ===== verification/Lock_Wakeup.thy ===== *)
theory Lock_Wakeup
  imports Lock_Inv
begin

unbundle bit_operations_syntax

text \<open>
  Waking up: \<open>ProcLockWakeup\<close> grants to the waiters it can and leaves a queue in which every waiter has
  something to wait for, whatever the order of the queue when it starts.
\<close>

section \<open>Processes\<close>

text \<open>Nothing that a lock depends on, apart from the waiting, has changed.\<close>

definition same_groups :: "(nat \<Rightarrow> lock_proc) \<Rightarrow> (nat \<Rightarrow> lock_proc) \<Rightarrow> bool" where
  "same_groups procs procs' \<longleftrightarrow>
     (\<forall>p. lockGroupLeader (procs' p) = lockGroupLeader (procs p) \<and> lockGroupMembers (procs' p) = lockGroupMembers (procs p))"

lemma same_groupsD:
  assumes "same_groups procs procs'"
  shows "leader_of procs' = leader_of procs" "attached procs' = attached procs"
proof -
  have g: "lockGroupLeader (procs' p) = lockGroupLeader (procs p)"
    "lockGroupMembers (procs' p) = lockGroupMembers (procs p)" for p
    using assms by (simp_all add: same_groups_def)
  show "leader_of procs' = leader_of procs" by (rule ext) (simp add: leader_of_def g)
  show "attached procs' = attached procs" by (rule ext) (auto simp: attached_def g split: option.split)
qed

definition wake_procs :: "nat set \<Rightarrow> (nat \<Rightarrow> lock_proc) \<Rightarrow> nat \<Rightarrow> lock_proc" where
  "wake_procs W procs =
     (\<lambda>p. if p \<in> W then (procs p)\<lparr> waitLock := None, waitStatus := PROC_WAIT_STATUS_OK \<rparr> else procs p)"

lemma wake_procs_simps [simp]:
  "wake_procs {} procs = procs"
  "waitLockMode (wake_procs W procs p) = waitLockMode (procs p)"
  "lockGroupLeader (wake_procs W procs p) = lockGroupLeader (procs p)"
  "lockGroupMembers (wake_procs W procs p) = lockGroupMembers (procs p)"
  "heldLocks (wake_procs W procs p) = heldLocks (procs p)"
  "waitLock (wake_procs W procs p) = (if p \<in> W then None else waitLock (procs p))"
  "wake_procs V (wake_procs W procs) = wake_procs (V \<union> W) procs"
  by (auto simp: wake_procs_def)

lemma wake_same_groups [simp]: "same_groups procs (wake_procs W procs)"
  by (simp add: same_groups_def)

lemma ProcWakeup_wakes:
  "ProcWakeup p PROC_WAIT_STATUS_OK (lock, procs) = (lock\<lparr> waitProcs := remove1 p (waitProcs lock) \<rparr>, wake_procs {p} procs)"
  by (auto simp: ProcWakeup_def wake_procs_def update_lock_proc_def)

lemma waits_same:
  assumes "same_groups procs procs'" "\<forall>q \<in> insert p (set ahead). waitLockMode (procs' q) = waitLockMode (procs q)"
    and "held_le lock lock'" "waits procs tag lock ahead p"
  shows "waits procs' tag lock' ahead p"
  using assms held_le_blocked [OF assms(3), of tag "waitLockMode (procs p)" p "leader_of procs p"]
  by (auto simp: waits_def same_groupsD(1) [OF assms(1)])

lemma queue_waits_same:
  assumes "same_groups procs procs'" "\<forall>q \<in> set queue. waitLockMode (procs' q) = waitLockMode (procs q)"
    and "held_le lock lock'" "queue_waits procs tag lock queue"
  shows "queue_waits procs' tag lock' queue"
  unfolding queue_waits_def
proof (intro allI impI)
  fix pre p post assume eq: "queue = pre @ p # post"
  show "waits procs' tag lock' pre p"
    by (rule waits_same [OF assms(1) _ assms(3)]) (use assms(2,4) eq in \<open>auto simp: queue_waits_def\<close>)
qed

section \<open>One waiter\<close>

text \<open>
  The waiters are those of \<open>queue\<close>; the mask has in addition the bit of the mode that is granted when
  the process has waited (\<open>linked\<close>).
\<close>

lemma grant_lock_ok:
  assumes c: "counts_ok (leader_of procs) (add_mset (p, m) (reqs_of procs queue)) lock"
    and d: "p \<notin> set queue" "distinct queue" and waiting: "\<forall>q \<in> set queue. waitLock (procs q) = Some tag"
    and mask: "\<forall>i. bit (waitMask lock) i \<longleftrightarrow> (\<exists>q \<in> set queue. waitLockMode (procs q) = i) \<or> linked \<and> i = m"
    and att: "\<forall>x \<in> set (procLocks lock). attached procs (myProc x)"
    and lock': "lock' = (GrantLock lock p m)\<lparr> waitProcs := queue \<rparr>"
  shows "lock_ok procs tag lock'"
proof -
  let ?R = "reqs_of procs queue"
  have m: "mode_ok m" using c by (simp add: counts_ok_def)
  have c': "counts_ok (leader_of procs) ?R (GrantLock lock p m)"
    by (rule grant_counts [OF c]) (use d in simp)
  have final: "counts_ok (leader_of procs) ?R lock'"
    using c' counts_same [of lock' "GrantLock lock p m"] by (simp add: lock')
  have "requested lock ! m = granted (GrantLock lock p m) ! m + int (count (image_mset snd ?R) m)"
    using c' m unfolding counts_ok_def GrantLock_fields(2) by blast
  then have same: "granted (GrantLock lock p m) ! m = requested lock ! m \<longleftrightarrow>
      \<not> (\<exists>q \<in> set queue. waitLockMode (procs q) = m)"
    unfolding reqs_of_count [symmetric] by linarith
  have new: "waitMask lock' = (if \<not> (\<exists>q \<in> set queue. waitLockMode (procs q) = m)
      then waitMask lock AND LOCKBIT_OFF m else waitMask lock)"
    unfolding same [symmetric] by (simp add: lock' GrantLock_fields)
  have mask': "bit (waitMask lock') i \<longleftrightarrow> (\<exists>q \<in> set queue. waitLockMode (procs q) = i)" for i
    unfolding new using mask mode_less(1) [OF m] by auto
  have att': "attached procs (myProc x)" if "x \<in> set (procLocks lock')" for x
    using att that by (auto simp: lock' GrantLock_fields update_proclock_def split: if_splits)
  show ?thesis using final mask' d waiting att' unfolding lock_ok_def queue_ok_def by (auto simp: lock')
qed

lemma grant_waiter:
  assumes ok: "lock_ok procs tag lock" and queue: "waitProcs lock = skipped @ p # rest"
    and lock': "lock' = (GrantLock lock p (waitLockMode (procs p)))\<lparr> waitProcs := skipped @ rest \<rparr>"
  shows "lock_ok (wake_procs {p} procs) tag lock'"
proof -
  let ?m = "waitLockMode (procs p)" and ?procs = "wake_procs {p} procs"
  have d: "p \<notin> set (skipped @ rest)" "distinct (skipped @ rest)" using ok queue by (auto simp: lock_ok_def queue_ok_def)
  have R: "reqs_of ?procs (skipped @ rest) = reqs_of procs (skipped @ rest)" by (rule reqs_of_cong) simp
  note g = same_groupsD [OF wake_same_groups [of procs "{p}"]]
  have "counts_ok (leader_of ?procs) (add_mset (p, ?m) (reqs_of ?procs (skipped @ rest))) lock"
    using ok queue unfolding R g by (simp add: lock_ok_def)
  moreover have "\<forall>i. bit (waitMask lock) i \<longleftrightarrow> (\<exists>q \<in> set (skipped @ rest). waitLockMode (?procs q) = i) \<or> True \<and> i = ?m"
    using ok queue by (auto simp: lock_ok_def queue_ok_def)
  moreover have "\<forall>q \<in> set (skipped @ rest). waitLock (?procs q) = Some tag"
    using ok queue d by (auto simp: lock_ok_def queue_ok_def)
  moreover have "\<forall>x \<in> set (procLocks lock). attached ?procs (myProc x)" using ok by (simp add: lock_ok_def g)
  ultimately show ?thesis using d lock' by (intro grant_lock_ok)
qed

lemma grant_no_idle:
  assumes "no_idle (insert p P) lock" "mode_ok m"
  shows "no_idle P (GrantLock lock p m)"
proof -
  have "holdMask x OR LOCKBIT_ON m \<noteq> 0" for x :: PROCLOCK
    using bit_set_clear(1) [OF mode_less(1) [OF assms(2)], of "holdMask x" m] by (metis bit_0_eq bot_apply bot_bool_def)
  then show ?thesis using assms(1) by (auto simp: no_idle_def GrantLock_fields update_proclock_def)
qed

section \<open>The loop\<close>

lemma wakeup_loop_ok:
  assumes "lock_ok procs tag lock" "compatible tag lock" "no_idle (set (waitProcs lock)) lock"
    and "waitProcs lock = skipped @ queue" "queue_waits procs tag lock skipped"
    and "\<forall>n. bit ahead n \<longleftrightarrow> (\<exists>q \<in> set skipped. waitLockMode (procs q) = n)"
  shows "\<exists>W lock'. wakeup_loop me tag queue ahead (lock, procs) = Some (lock', wake_procs W procs) \<and>
    W \<subseteq> set queue \<and> waitProcs lock' = filter (\<lambda>q. q \<notin> W) (waitProcs lock) \<and>
    lock_ok (wake_procs W procs) tag lock' \<and> compatible tag lock' \<and> no_idle (set (waitProcs lock')) lock' \<and>
    all_wait (wake_procs W procs) tag lock' \<and> nRequested lock' = nRequested lock \<and> held_le lock lock'"
  using assms
proof (induction queue arbitrary: skipped ahead lock procs)
  case Nil
  then show ?case by (intro exI [of _ "{}"] exI [of _ lock]) simp
next
  case (Cons p queue)
  note ok = Cons.prems(1) and q = Cons.prems(4)
  let ?m = "waitLockMode (procs p)"
  let ?blocked = "\<exists>x \<in> set (procLocks lock). blocked_by tag ?m p (leader_of procs p) x"
  have c: "counts_ok (leader_of procs) (reqs_of procs (waitProcs lock)) lock" using ok by (simp add: lock_ok_def)
  have att: "\<forall>x \<in> set (procLocks lock). attached procs (myProc x)" using ok by (simp add: lock_ok_def)
  have p: "p \<in> set (waitProcs lock)" using q by simp
  obtain pl where pl: "find_proclock p lock = Some pl" "groupLeader pl = leader_of procs p"
    using waiter_proclock(3) [OF ok p] by blast
  have m: "mode_ok ?m" by (rule waiter_proclock(1) [OF ok p])
  have ahead: "conflictTab ?m AND ahead \<noteq> 0 \<longleftrightarrow> (\<exists>q \<in> set skipped. conflict ?m (waitLockMode (procs q)))"
    using Cons.prems(6) by (auto simp: conflict_mask_iff)
  have check: "(if conflictTab ?m AND ahead = 0 then Option.bind (find_proclock p lock) (LockCheckConflicts me procs tag ?m lock)
      else Some True) = Some (waits procs tag lock skipped p)"
    using check_conflicts [OF att c m pl(1), of me] pl(1) ahead by (auto simp: waits_def)
  show ?case
  proof (cases "waits procs tag lock skipped p")
    case True
    have mask: "\<forall>n. bit (ahead OR LOCKBIT_ON ?m) n \<longleftrightarrow> (\<exists>q \<in> set (skipped @ [p]). waitLockMode (procs q) = n)"
      using Cons.prems(6) mode_less(1) [OF m] by auto
    have queue: "queue_waits procs tag lock (skipped @ [p])" using Cons.prems(5) True by (simp add: queue_waits_snoc)
    have "waitProcs lock = (skipped @ [p]) @ queue" using q by simp
    from Cons.IH [OF ok Cons.prems(2,3) this queue mask] obtain W lock' where
      W: "wakeup_loop me tag queue (ahead OR LOCKBIT_ON ?m) (lock, procs) = Some (lock', wake_procs W procs)" "W \<subseteq> set queue"
        "waitProcs lock' = filter (\<lambda>q. q \<notin> W) (waitProcs lock) \<and>
         lock_ok (wake_procs W procs) tag lock' \<and> compatible tag lock' \<and> no_idle (set (waitProcs lock')) lock' \<and>
         all_wait (wake_procs W procs) tag lock' \<and> nRequested lock' = nRequested lock \<and> held_le lock lock'"
      by blast
    have "wakeup_loop me tag (p # queue) ahead (lock, procs) = Some (lock', wake_procs W procs)"
      using check True W(1) by (simp add: Let_def)
    moreover have "W \<subseteq> set (p # queue)" using W(2) by auto
    ultimately show ?thesis using W(3) by blast
  next
    case False
    let ?lock = "(GrantLock lock p ?m)\<lparr> waitProcs := skipped @ queue \<rparr>" and ?procs = "wake_procs {p} procs"
    have d: "p \<notin> set skipped" "p \<notin> set queue" using ok q by (auto simp: lock_ok_def queue_ok_def)
    have ok': "lock_ok ?procs tag ?lock" by (rule grant_waiter [OF ok q refl])
    have "\<not> ?blocked" using False by (auto simp: waits_def)
    then have "compatible tag (GrantLock lock p ?m)"
      using grant_compatible [OF c pl(1) m Cons.prems(2)] pl(2) by simp
    then have comp: "compatible tag ?lock" by (simp add: compatible_def)
    have "no_idle (insert p (set (skipped @ queue))) lock" using Cons.prems(3) q by simp
    from grant_no_idle [OF this m] have idle: "no_idle (set (waitProcs ?lock)) ?lock" by (simp add: no_idle_def)
    have held: "held_le lock ?lock" using grant_held_le [OF m, of lock p] by (simp add: held_le_def)
    have queue: "queue_waits ?procs tag ?lock skipped"
      by (rule queue_waits_same [OF wake_same_groups _ held Cons.prems(5)]) simp
    have mask: "\<forall>n. bit ahead n \<longleftrightarrow> (\<exists>q \<in> set skipped. waitLockMode (?procs q) = n)" using Cons.prems(6) by simp
    have q': "waitProcs ?lock = skipped @ queue" by simp
    have step: "wakeup_loop me tag (p # queue) ahead (lock, procs) = wakeup_loop me tag queue ahead (?lock, ?procs)"
      using check False d by (simp add: Let_def ProcWakeup_wakes GrantLock_fields q remove1_append)
    from Cons.IH [OF ok' comp idle q' queue mask] obtain W lock' where
      W: "wakeup_loop me tag queue ahead (?lock, ?procs) = Some (lock', wake_procs W ?procs)" "W \<subseteq> set queue"
        "waitProcs lock' = filter (\<lambda>q. q \<notin> W) (waitProcs ?lock)"
        "lock_ok (wake_procs W ?procs) tag lock' \<and> compatible tag lock' \<and> no_idle (set (waitProcs lock')) lock' \<and>
         all_wait (wake_procs W ?procs) tag lock'" "nRequested lock' = nRequested ?lock" "held_le ?lock lock'"
      by blast
    have "filter (\<lambda>q. q \<notin> insert p W) xs = filter (\<lambda>q. q \<notin> W) xs" if "p \<notin> set xs" for xs
      using that by (intro filter_cong) auto
    note keep = this [OF d(1)] this [OF d(2)]
    have "filter (\<lambda>q. q \<notin> insert p W) (waitProcs lock) =
        filter (\<lambda>q. q \<notin> insert p W) skipped @ filter (\<lambda>q. q \<notin> insert p W) queue" by (simp add: q)
    then have "waitProcs lock' = filter (\<lambda>q. q \<notin> insert p W) (waitProcs lock)"
      unfolding keep using W(3) by simp
    moreover have "nRequested lock' = nRequested lock" using W(5) by (simp add: GrantLock_fields)
    moreover have "held_le lock lock'" by (rule held_le_trans [OF held W(6)])
    moreover have "wake_procs W ?procs = wake_procs (insert p W) procs" by simp
    moreover have "insert p W \<subseteq> set (p # queue)" using W(2) by auto
    ultimately show ?thesis using step W(1,4) by (intro exI [of _ "insert p W"] exI [of _ lock']) simp
  qed
qed

lemma ProcLockWakeup_ok:
  assumes "lock_ok procs tag lock" "compatible tag lock" "no_idle (set (waitProcs lock)) lock"
  shows "\<exists>W lock'. ProcLockWakeup me tag (lock, procs) = Some (lock', wake_procs W procs) \<and>
    W \<subseteq> set (waitProcs lock) \<and> waitProcs lock' = filter (\<lambda>q. q \<notin> W) (waitProcs lock) \<and>
    lock_ok (wake_procs W procs) tag lock' \<and> compatible tag lock' \<and> no_idle (set (waitProcs lock')) lock' \<and>
    all_wait (wake_procs W procs) tag lock' \<and> nRequested lock' = nRequested lock \<and> held_le lock lock'"
proof -
  have ahead: "\<forall>n. bit (0 :: LOCKMASK) n \<longleftrightarrow> (\<exists>q \<in> set []. waitLockMode (procs q) = n)" by simp
  have q: "waitProcs lock = [] @ waitProcs lock" by simp
  show ?thesis
    using wakeup_loop_ok [OF assms q queue_waits_Nil ahead, of me] by (simp only: ProcLockWakeup_def fst_conv)
qed

end
