(* ===== verification/Lock_Entry.thy ===== *)
theory Lock_Entry
  imports Lock_Wakeup
begin

unbundle bit_operations_syntax

text \<open>
  What holds of every lock in the table (\<open>entry_ok\<close>), and that releasing, cleaning up and leaving the wait
  queue keep it.
\<close>

section \<open>A lock in the table\<close>

text \<open>The modes marked for release are held.\<close>

definition marks_ok :: "LOCK \<Rightarrow> bool" where
  "marks_ok lock \<longleftrightarrow> (\<forall>x \<in> set (procLocks lock). \<forall>i. bit (releaseMask x) i \<longrightarrow> bit (holdMask x) i)"

definition base_ok :: "nat set \<Rightarrow> (nat \<Rightarrow> lock_proc) \<Rightarrow> LOCKTAG \<Rightarrow> LOCK \<Rightarrow> bool" where
  "base_ok idle procs tag lock \<longleftrightarrow> lock_ok procs tag lock \<and> no_idle (idle \<union> set (waitProcs lock)) lock \<and> compatible tag lock"

definition entry_ok :: "(nat \<Rightarrow> lock_proc) \<Rightarrow> LOCKTAG \<Rightarrow> LOCK \<Rightarrow> bool" where
  "entry_ok procs tag lock \<longleftrightarrow>
     base_ok {} procs tag lock \<and> all_wait procs tag lock \<and> marks_ok lock \<and> 0 < nRequested lock"

lemma marks_grant: "marks_ok lock \<Longrightarrow> marks_ok (GrantLock lock p m)"
  by (auto simp: marks_ok_def GrantLock_fields update_proclock_def bit_or_iff)

lemma wakeup_marks:
  "wakeup_loop me tag queue ahead s = Some s' \<Longrightarrow> marks_ok (fst s) \<Longrightarrow> marks_ok (fst s')"
proof (induction queue arbitrary: ahead s)
  case (Cons p queue)
  obtain lock procs where s: "s = (lock, procs)" by force
  have "marks_ok ((GrantLock lock p m)\<lparr> waitProcs := q \<rparr>)" for m q
    using marks_grant [of lock p m] Cons.prems(2) by (simp add: s marks_ok_def)
  then show ?case using Cons.IH Cons.prems
    by (auto simp: s Let_def ProcWakeup_wakes split: option.splits bool.splits if_splits)
qed simp

lemma wakeup_entry:
  assumes "base_ok {} procs tag lock" "marks_ok lock" "0 < nRequested lock"
  shows "\<exists>W lock'. ProcLockWakeup me tag (lock, procs) = Some (lock', wake_procs W procs) \<and>
    W \<subseteq> set (waitProcs lock) \<and> waitProcs lock' = filter (\<lambda>q. q \<notin> W) (waitProcs lock) \<and>
    entry_ok (wake_procs W procs) tag lock'"
proof -
  have b: "lock_ok procs tag lock" "compatible tag lock" "no_idle (set (waitProcs lock)) lock"
    using assms(1) by (simp_all add: base_ok_def)
  from ProcLockWakeup_ok [OF b, of me] obtain W lock' where
    W: "ProcLockWakeup me tag (lock, procs) = Some (lock', wake_procs W procs)" "W \<subseteq> set (waitProcs lock)"
      "waitProcs lock' = filter (\<lambda>q. q \<notin> W) (waitProcs lock)" "nRequested lock' = nRequested lock"
      "lock_ok (wake_procs W procs) tag lock'" "compatible tag lock'" "no_idle (set (waitProcs lock')) lock'"
      "all_wait (wake_procs W procs) tag lock'" by blast
  moreover have "marks_ok lock'"
    using wakeup_marks [of me tag "waitProcs lock" 0 "(lock, procs)"] W(1) assms(2) by (simp add: ProcLockWakeup_def)
  ultimately show ?thesis using assms(3) by (auto simp: entry_ok_def base_ok_def)
qed

section \<open>Cleaning up\<close>

lemma drop_proclock_base:
  assumes ok: "base_ok {p} procs tag lock" and p: "p \<notin> set (waitProcs lock)"
    and pl: "find_proclock p lock = Some pl" "holdMask pl = 0"
  shows "base_ok {} procs tag (lock\<lparr> procLocks := others p lock \<rparr>)"
proof -
  have c: "counts_ok (leader_of procs) (reqs_of procs (waitProcs lock)) lock" and q: "queue_ok procs tag lock"
    and att: "\<forall>x \<in> set (procLocks lock). attached procs (myProc x)"
    using ok by (simp_all add: base_ok_def lock_ok_def)
  have sub: "set (others p lock) \<subseteq> set (procLocks lock)" by (auto simp: others_def)
  have "counts_ok (leader_of procs) (reqs_of procs (waitProcs lock)) (lock\<lparr> procLocks := others p lock \<rparr>)"
    by (rule drop_proclock [OF c pl]) (simp add: p)
  moreover have "queue_ok procs tag (lock\<lparr> procLocks := others p lock \<rparr>)" using q by (simp add: queue_ok_def)
  moreover have "compatible tag (lock\<lparr> procLocks := others p lock \<rparr>)"
    using ok sub by (auto simp: base_ok_def compatible_def)
  moreover have "no_idle (set (waitProcs lock)) (lock\<lparr> procLocks := others p lock \<rparr>)"
    using ok by (auto simp: base_ok_def no_idle_def others_def)
  ultimately show ?thesis using att sub by (auto simp: base_ok_def lock_ok_def)
qed

lemma idle_not_blocking: "holdMask x = 0 \<Longrightarrow> \<not> blocked_by tag m p l x" by (simp add: blocked_by_def)

lemma drop_proclock_waits:
  assumes "distinct (map myProc (procLocks lock))" "find_proclock p lock = Some pl" "holdMask pl = 0"
    and "queue_waits procs tag lock queue"
  shows "queue_waits procs tag (lock\<lparr> procLocks := others p lock \<rparr>) queue"
proof -
  have "set (procLocks lock) = insert pl (set (others p lock))" by (rule proclocks_split(1) [OF assms(1,2)])
  then have "waits procs tag (lock\<lparr> procLocks := others p lock \<rparr>) ahead q = waits procs tag lock ahead q" for ahead q
    using idle_not_blocking [OF assms(3)] by (simp add: waits_def)
  then show ?thesis using assms(4) by (simp add: queue_waits_def)
qed

lemma nothing_left:
  assumes ok: "base_ok {} procs tag lock" and zero: "nRequested lock = 0"
  shows "procLocks lock = []" "waitProcs lock = []"
proof -
  have c: "counts_ok (leader_of procs) (reqs_of procs (waitProcs lock)) lock" using ok by (simp add: base_ok_def lock_ok_def)
  have "reqs_of procs (waitProcs lock) = {#}" "\<forall>x \<in> set (procLocks lock). holdMask x = 0"
    using nothing_requested(1) [OF c] zero by blast+
  then show "waitProcs lock = []" by (metis mset_zero_iff reqs_of_fst image_mset_empty)
  then show "procLocks lock = []"
    using ok \<open>\<forall>x \<in> set (procLocks lock). holdMask x = 0\<close> by (cases "procLocks lock") (auto simp: base_ok_def no_idle_def)
qed

text \<open>The outcome for the table: the lock is gone with its last request, or it is right again.\<close>

definition cleaned :: "(nat \<Rightarrow> lock_proc) \<Rightarrow> LOCKTAG \<Rightarrow> nat list \<Rightarrow> nat set \<Rightarrow> LOCK option \<Rightarrow> bool" where
  "cleaned procs tag queue W entry \<longleftrightarrow> W \<subseteq> set queue \<and>
     (case entry of
        None \<Rightarrow> queue = []
      | Some lock \<Rightarrow> entry_ok (wake_procs W procs) tag lock \<and> waitProcs lock = filter (\<lambda>q. q \<notin> W) queue)"

lemma CleanUpLock_ok:
  assumes ok: "base_ok {p} (lock_procs st) tag lock" and p: "p \<notin> set (waitProcs lock)" and marks: "marks_ok lock"
    and wake: "wakeupNeeded \<or> all_wait (lock_procs st) tag lock"
  shows "\<exists>W entry. CleanUpLock me tag lock p wakeupNeeded st =
      Some (store_lock tag entry (wake_procs W (lock_procs st)) st) \<and>
    cleaned (lock_procs st) tag (waitProcs lock) W entry"
proof -
  let ?procs = "lock_procs st"
  define lock1 where "lock1 = (case find_proclock p lock of None \<Rightarrow> lock
    | Some pl \<Rightarrow> if holdMask pl = 0 then lock\<lparr> procLocks := filter (\<lambda>pl. myProc pl \<noteq> p) (procLocks lock) \<rparr> else lock)"
  have c: "counts_ok (leader_of ?procs) (reqs_of ?procs (waitProcs lock)) lock" using ok by (simp add: base_ok_def lock_ok_def)
  note d = counts_distinct [OF c]
  have one: "base_ok {} ?procs tag lock1 \<and> marks_ok lock1 \<and> waitProcs lock1 = waitProcs lock \<and>
      (all_wait ?procs tag lock \<longrightarrow> queue_waits ?procs tag lock1 (waitProcs lock))"
  proof (cases "\<exists>pl. find_proclock p lock = Some pl \<and> holdMask pl = 0")
    case True
    then obtain pl where pl: "find_proclock p lock = Some pl" "holdMask pl = 0" by blast
    then have l: "lock1 = lock\<lparr> procLocks := others p lock \<rparr>" by (simp add: lock1_def others_def)
    show ?thesis
      using drop_proclock_base [OF ok p pl] drop_proclock_waits [OF d pl] marks
      by (auto simp: l marks_ok_def others_def)
  next
    case False
    then have l: "lock1 = lock" by (auto simp: lock1_def split: option.split)
    have "holdMask x \<noteq> 0" if "x \<in> set (procLocks lock)" "myProc x = p" for x
      using False that find_proclock_iff [OF d] by blast
    then have "no_idle (set (waitProcs lock)) lock" using ok by (auto simp: base_ok_def no_idle_def)
    then show ?thesis using ok marks by (simp add: l base_ok_def)
  qed
  have code: "CleanUpLock me tag lock p wakeupNeeded st =
      (if nRequested lock1 = 0 then Some (store_lock tag None ?procs st)
       else if wakeupNeeded
       then map_option (\<lambda>(lock, procs). store_lock tag (Some lock) procs st) (ProcLockWakeup me tag (lock1, ?procs))
       else Some (store_lock tag (Some lock1) ?procs st))"
    by (simp add: CleanUpLock_def lock1_def Let_def)
  show ?thesis
  proof (cases "nRequested lock1 = 0")
    case True
    then have "waitProcs lock = []" using nothing_left [of ?procs tag lock1] one by simp
    then show ?thesis unfolding code using True
      by (intro exI [of _ "{}"] exI [of _ None]) (simp add: cleaned_def)
  next
    case nonzero: False
    have "counts_ok (leader_of ?procs) (reqs_of ?procs (waitProcs lock1)) lock1"
      using one unfolding base_ok_def lock_ok_def by blast
    from nothing_requested(2) [OF this] nonzero have pos: "0 < nRequested lock1" by simp
    show ?thesis
    proof (cases wakeupNeeded)
      case True
      from wakeup_entry [of ?procs tag lock1 me] one pos obtain W lock' where
        "ProcLockWakeup me tag (lock1, ?procs) = Some (lock', wake_procs W ?procs)" "W \<subseteq> set (waitProcs lock)"
        "waitProcs lock' = filter (\<lambda>q. q \<notin> W) (waitProcs lock)" "entry_ok (wake_procs W ?procs) tag lock'" by auto
      then show ?thesis unfolding code using nonzero True
        by (intro exI [of _ W] exI [of _ "Some lock'"]) (simp add: cleaned_def)
    next
      case False
      then have "entry_ok ?procs tag lock1" using one wake pos by (simp add: entry_ok_def)
      then show ?thesis unfolding code using nonzero False one
        by (intro exI [of _ "{}"] exI [of _ "Some lock1"]) (simp add: cleaned_def)
    qed
  qed
qed

end
