(* ===== verification/Lock_Release.thy ===== *)
theory Lock_Release
  imports Lock_Entry
begin

unbundle bit_operations_syntax

text \<open>
  The invariant of the whole table, \<open>table_ok\<close>, and that it is kept by the operations that give locks
  back: releasing a mode, releasing all of a backend, leaving the wait queue, waking the waiters of a
  reordered queue.
\<close>

section \<open>The table\<close>

definition table_ok :: "lock_state \<Rightarrow> bool" where
  "table_ok st \<longleftrightarrow>
     (\<forall>tag lock. lock_hash st tag = Some lock \<longrightarrow> entry_ok (lock_procs st) tag lock) \<and>
     (\<forall>p tag. waitLock (lock_procs st p) = Some tag \<longrightarrow>
        (\<exists>lock. lock_hash st tag = Some lock \<and> p \<in> set (waitProcs lock)))"

text \<open>What a lock needs from the processes.\<close>

definition same_for :: "LOCK \<Rightarrow> (nat \<Rightarrow> lock_proc) \<Rightarrow> (nat \<Rightarrow> lock_proc) \<Rightarrow> bool" where
  "same_for lock procs procs' \<longleftrightarrow>
     (\<forall>x \<in> set (procLocks lock). leader_of procs' (myProc x) = leader_of procs (myProc x) \<and> attached procs' (myProc x)) \<and>
     (\<forall>q \<in> set (waitProcs lock). waitLock (procs' q) = waitLock (procs q) \<and> waitLockMode (procs' q) = waitLockMode (procs q))"

lemma base_ok_same:
  assumes ok: "base_ok idle procs tag lock" and same: "same_for lock procs procs'"
  shows "base_ok idle procs' tag lock"
proof -
  have "reqs_of procs' (waitProcs lock) = reqs_of procs (waitProcs lock)"
    using same by (intro reqs_of_cong) (simp add: same_for_def)
  then have "counts_ok (leader_of procs') (reqs_of procs' (waitProcs lock)) lock"
    using ok same by (simp add: base_ok_def lock_ok_def counts_ok_def same_for_def)
  moreover have "queue_ok procs' tag lock" using ok same by (simp add: base_ok_def lock_ok_def queue_ok_def same_for_def)
  ultimately show ?thesis using ok same by (auto simp: base_ok_def lock_ok_def same_for_def)
qed

lemma entry_ok_same:
  assumes ok: "entry_ok procs tag lock" and same: "same_for lock procs procs'"
  shows "entry_ok procs' tag lock"
proof -
  have lock: "lock_ok procs tag lock" using ok by (simp add: entry_ok_def base_ok_def)
  have leader: "leader_of procs' q = leader_of procs q" if q: "q \<in> set (waitProcs lock)" for q
  proof -
    obtain pl where "find_proclock q lock = Some pl" using waiter_proclock(3) [OF lock q] by blast
    then have "pl \<in> set (procLocks lock)" "myProc pl = q"
      using find_proclock_iff [OF counts_distinct] lock by (auto simp: lock_ok_def)
    then show ?thesis using same by (auto simp: same_for_def)
  qed
  have "waits procs' tag lock pre q" if eq: "waitProcs lock = pre @ q # post" for pre q post
  proof -
    have "waits procs tag lock pre q" using ok eq by (simp add: entry_ok_def queue_waits_def)
    moreover have "waitLockMode (procs' r) = waitLockMode (procs r)" if "r \<in> set (waitProcs lock)" for r
      using same that by (simp add: same_for_def)
    ultimately show ?thesis using leader [of q] eq by (auto simp: waits_def)
  qed
  then show ?thesis using ok base_ok_same [OF _ same] by (simp add: entry_ok_def queue_waits_def)
qed

text \<open>A change that concerns only the waiters of one lock.\<close>

definition only_at :: "LOCKTAG \<Rightarrow> (nat \<Rightarrow> lock_proc) \<Rightarrow> (nat \<Rightarrow> lock_proc) \<Rightarrow> bool" where
  "only_at tag procs procs' \<longleftrightarrow> same_groups procs procs' \<and>
     (\<forall>q tag'. tag' \<noteq> tag \<longrightarrow>
        (waitLock (procs' q) = Some tag' \<longleftrightarrow> waitLock (procs q) = Some tag') \<and>
        (waitLock (procs q) = Some tag' \<longrightarrow> waitLockMode (procs' q) = waitLockMode (procs q)))"

lemma only_at_refl [simp]: "only_at tag procs procs" by (simp add: only_at_def same_groups_def)

lemma only_at_trans: "only_at tag a b \<Longrightarrow> only_at tag b c \<Longrightarrow> only_at tag a c"
  by (simp add: only_at_def same_groups_def)

lemma only_at_wake:
  assumes "\<forall>q \<in> W. waitLock (procs q) = Some tag"
  shows "only_at tag procs (wake_procs W procs)"
  using assms by (auto simp: only_at_def)

lemma store_lock_simps [simp]:
  "lock_hash (store_lock tag entry procs st) = (lock_hash st)(tag := entry)"
  "lock_procs (store_lock tag entry procs st) = procs"
  "store_lock tag entry procs (st\<lparr> lock_procs := procs' \<rparr>) = store_lock tag entry procs st"
  "store_lock tag entry procs (store_lock tag entry' procs' st) = store_lock tag entry procs st"
  by (simp_all add: store_lock_def)

lemma store_ok:
  assumes ok: "table_ok st" and at: "only_at tag (lock_procs st) procs"
    and new: "\<And>lock. entry = Some lock \<Longrightarrow> entry_ok procs tag lock"
    and waiting: "\<And>q. waitLock (procs q) = Some tag \<Longrightarrow> \<exists>lock. entry = Some lock \<and> q \<in> set (waitProcs lock)"
  shows "table_ok (store_lock tag entry procs st)"
proof -
  have other: "entry_ok procs tag' lock" if "lock_hash st tag' = Some lock" "tag' \<noteq> tag" for tag' lock
  proof -
    have e: "entry_ok (lock_procs st) tag' lock" using ok that by (simp add: table_ok_def)
    then have l: "lock_ok (lock_procs st) tag' lock" by (simp add: entry_ok_def base_ok_def)
    have g: "leader_of procs = leader_of (lock_procs st)" "attached procs = attached (lock_procs st)"
      using at same_groupsD [of "lock_procs st" procs] by (simp_all add: only_at_def)
    have "same_for lock (lock_procs st) procs"
      using l at that(2) unfolding same_for_def g by (auto simp: only_at_def lock_ok_def queue_ok_def)
    then show ?thesis by (rule entry_ok_same [OF e])
  qed
  have "\<exists>lock. ((lock_hash st)(tag := entry)) tag' = Some lock \<and> q \<in> set (waitProcs lock)"
    if "waitLock (procs q) = Some tag'" for q tag'
  proof (cases "tag' = tag")
    case True
    then show ?thesis using waiting that by simp
  next
    case False
    then have "waitLock (lock_procs st q) = Some tag'" using at that by (simp add: only_at_def)
    then show ?thesis using ok False by (simp add: table_ok_def)
  qed
  then show ?thesis using other new unfolding table_ok_def by (simp split: if_splits)
qed

lemma cleaned_table:
  assumes ok: "table_ok st" and at: "only_at tag (lock_procs st) procs"
    and waiting: "\<And>q. waitLock (procs q) = Some tag \<longleftrightarrow> q \<in> set queue" and clean: "cleaned procs tag queue W entry"
  shows "table_ok (store_lock tag entry (wake_procs W procs) st)"
proof (rule store_ok [OF ok])
  have "only_at tag procs (wake_procs W procs)" using clean waiting by (intro only_at_wake) (auto simp: cleaned_def)
  with at show "only_at tag (lock_procs st) (wake_procs W procs)" by (rule only_at_trans)
  show "entry_ok (wake_procs W procs) tag lock" if "entry = Some lock" for lock using clean that by (simp add: cleaned_def)
  show "\<exists>lock. entry = Some lock \<and> q \<in> set (waitProcs lock)" if "waitLock (wake_procs W procs q) = Some tag" for q
    using clean that waiting [of q] by (cases entry) (auto simp: cleaned_def split: if_splits)
qed

lemma table_entry:
  assumes "table_ok st" "lock_hash st tag = Some lock"
  shows "entry_ok (lock_procs st) tag lock" "waitLock (lock_procs st q) = Some tag \<longleftrightarrow> q \<in> set (waitProcs lock)"
proof -
  show e: "entry_ok (lock_procs st) tag lock" using assms by (simp add: table_ok_def)
  have "\<exists>lock. lock_hash st tag = Some lock \<and> q \<in> set (waitProcs lock)" if "waitLock (lock_procs st q) = Some tag"
    using assms(1) that unfolding table_ok_def by blast
  then show "waitLock (lock_procs st q) = Some tag \<longleftrightarrow> q \<in> set (waitProcs lock)"
    using assms(2) e by (auto simp: entry_ok_def base_ok_def lock_ok_def queue_ok_def)
qed

lemma entry_parts:
  assumes "entry_ok procs tag lock"
  shows "base_ok idle procs tag lock" "lock_ok procs tag lock" "compatible tag lock"
    "counts_ok (leader_of procs) (reqs_of procs (waitProcs lock)) lock"
    "queue_ok procs tag lock" "all_wait procs tag lock" "marks_ok lock"
  using assms by (auto simp: entry_ok_def base_ok_def lock_ok_def no_idle_def)

section \<open>Releasing a mode\<close>

lemma ungrant_base:
  assumes ok: "base_ok {p} procs tag lock" and pl: "find_proclock p lock = Some pl" "mode_ok m" "bit (holdMask pl) m"
    and p: "p \<notin> set (waitProcs lock)" and u: "UnGrantLock lock m p = (wake, lock')"
  shows "base_ok {p} procs tag lock'"
    and "all_wait procs tag lock \<Longrightarrow> wake \<or> all_wait procs tag lock'"
proof -
  let ?pl = "pl\<lparr> holdMask := holdMask pl AND LOCKBIT_OFF m \<rparr>"
  have c: "counts_ok (leader_of procs) (reqs_of procs (waitProcs lock)) lock" and q: "queue_ok procs tag lock"
    and att: "\<forall>x \<in> set (procLocks lock). attached procs (myProc x)" and idle: "no_idle ({p} \<union> set (waitProcs lock)) lock"
    and comp: "compatible tag lock"
    using ok by (simp_all add: base_ok_def lock_ok_def)
  note fields = UnGrantLock_fields [OF u] and less = mode_less(1) [OF pl(2)]
  note counts = ungrant_counts [OF c pl u]
  note d = counts_distinct [OF c] and d' = counts_distinct [OF counts(1)]
  note split = proclocks_split(1) [OF d pl(1)] and split' = proclocks_split(1) [OF d' counts(2), unfolded counts(3)]
  have mypl: "myProc pl = p" using pl(1) find_proclock_iff [OF d] by blast
  have "lock_ok procs tag lock'"
    using counts(1) q att split split' by (auto simp: lock_ok_def queue_ok_def fields)
  moreover have "no_idle ({p} \<union> set (waitProcs lock')) lock'"
    using idle mypl by (auto simp: no_idle_def split split' fields(1))
  moreover have "held_le lock' lock" using mypl less by (auto simp: held_le_def split split')
  then have "compatible tag lock'" using comp by (rule compatible_held_le)
  ultimately show "base_ok {p} procs tag lock'" by (simp add: base_ok_def)
  show "wake \<or> all_wait procs tag lock'" if all: "all_wait procs tag lock"
  proof (cases wake)
    case False
    have quiet: "\<not> conflict m i" if "bit (waitMask lock) i" for i
      using False that fields(8) conflict_mask_iff by blast
    have "waits procs tag lock' pre r" if eq: "waitProcs lock = pre @ r # post" for pre r post
    proof -
      have r: "r \<in> set (waitProcs lock)" using eq by simp
      have l: "lock_ok procs tag lock" using ok by (simp add: base_ok_def)
      have rm: "mode_ok (waitLockMode (procs r))" by (rule waiter_proclock(1) [OF l r])
      have "bit (waitMask lock) (waitLockMode (procs r))" using q r by (auto simp: queue_ok_def)
      then have free: "\<not> conflict (waitLockMode (procs r)) m" using quiet conflict_commute [OF rm pl(2)] by blast
      have "blocked_by tag (waitLockMode (procs r)) r g ?pl" if "blocked_by tag (waitLockMode (procs r)) r g pl" for g
        using that free less by (auto simp: blocked_by_def conflict_mask_iff)
      moreover have "waits procs tag lock pre r" using all eq by (simp add: queue_waits_def)
      ultimately show ?thesis by (auto simp: waits_def split split')
    qed
    then show ?thesis by (simp add: queue_waits_def fields)
  qed simp
qed

text \<open>The backend releases a lock that it holds, while it does not wait and is not releasing the same mode in bulk.\<close>

theorem LockRelease_ok:
  assumes ok: "table_ok st" and free: "waitLock (lock_procs st me) = None" and m: "mode_ok m"
    and lock: "lock_hash st tag = Some lock" and pl: "find_proclock me lock = Some pl" "\<not> bit (releaseMask pl) m"
  shows "\<exists>st'. LockRelease me tag m st = Some (bit (holdMask pl) m, st') \<and> table_ok st'"
proof (cases "bit (holdMask pl) m")
  case False
  then show ?thesis using ok lock pl(1) mode_less(1) [OF m] by (simp add: LockRelease_def)
next
  case held: True
  note e = entry_parts [OF table_entry(1) [OF ok lock]] and waiting = table_entry(2) [OF ok lock]
  have p: "me \<notin> set (waitProcs lock)" using free waiting [of me] by auto
  obtain wake lock' where u: "UnGrantLock lock m me = (wake, lock')" by force
  note base = ungrant_base [OF e(1) pl(1) m held p u] and fields = UnGrantLock_fields [OF u]
  have "\<not> bit (releaseMask x) m" if "x \<in> set (procLocks lock)" "myProc x = me" for x
  proof -
    have "find_proclock me lock = Some x" using that find_proclock_iff [OF counts_distinct [OF e(4)]] by blast
    then show ?thesis using pl by simp
  qed
  then have marks: "marks_ok lock'"
    using e(7) mode_less(1) [OF m] by (auto simp: marks_ok_def fields update_proclock_def)
  have "wake \<or> all_wait (lock_procs st) tag lock'" by (rule base(2) [OF e(6)])
  from CleanUpLock_ok [OF base(1) _ marks this, of me] p obtain W entry where
    c: "CleanUpLock me tag lock' me wake st = Some (store_lock tag entry (wake_procs W (lock_procs st)) st)"
      "cleaned (lock_procs st) tag (waitProcs lock') W entry" by (auto simp: fields)
  have "table_ok (store_lock tag entry (wake_procs W (lock_procs st)) st)"
    by (rule cleaned_table [OF ok only_at_refl _ c(2)]) (simp add: waiting fields)
  then show ?thesis using c(1) lock pl(1) held u mode_less(1) [OF m] by (simp add: LockRelease_def)
qed

end
