(* ===== verification/Lock_Release_All.thy ===== *)
theory Lock_Release_All
  imports Lock_Release
begin

unbundle bit_operations_syntax

text \<open>
  The invariant of the table under the release of all of a backend's modes on a lock, a process leaving
  the wait queue, and the wakeup after the deadlock detector has reordered the waiters.
\<close>

section \<open>Marks\<close>

text \<open>The marks for release matter to nothing else.\<close>

lemma marks_irrelevant:
  fixes lock g
  defines "lock' \<equiv> lock\<lparr> procLocks := map (\<lambda>x. x\<lparr> releaseMask := g x \<rparr>) (procLocks lock) \<rparr>"
  shows "base_ok idle procs tag lock \<Longrightarrow> base_ok idle procs tag lock'"
    and "queue_waits procs tag lock' queue \<longleftrightarrow> queue_waits procs tag lock queue"
proof -
  have count: "count_hold (map (\<lambda>x. x\<lparr> releaseMask := g x \<rparr>) pls) m = count_hold pls m" for pls m
    by (induction pls) simp_all
  have block: "blocked_by tag m p l (x\<lparr> releaseMask := r \<rparr>) = blocked_by tag m p l x" for m p l x r
    by (simp add: blocked_by_def)
  show "base_ok idle procs tag lock'" if "base_ok idle procs tag lock"
  proof -
    have "lock_ok procs tag lock'"
      using that by (simp add: base_ok_def lock_ok_def counts_ok_def grants_ok_def queue_ok_def lock'_def o_def count)
    moreover have "held_le lock' lock" by (simp add: held_le_def lock'_def) blast
    then have "compatible tag lock'" by (rule compatible_held_le) (use that in \<open>simp add: base_ok_def\<close>)
    ultimately show ?thesis using that by (simp add: base_ok_def no_idle_def lock'_def)
  qed
  show "queue_waits procs tag lock' queue \<longleftrightarrow> queue_waits procs tag lock queue"
    by (simp add: queue_waits_def waits_def lock'_def block)
qed

lemma update_marks:
  "update_proclock p (\<lambda>x. x\<lparr> releaseMask := r x \<rparr>) lock =
     lock\<lparr> procLocks := map (\<lambda>x. x\<lparr> releaseMask := if myProc x = p then r x else releaseMask x \<rparr>) (procLocks lock) \<rparr>"
  by (auto simp: update_proclock_def)

lemma store_marks:
  assumes ok: "table_ok st" and lock: "lock_hash st tag = Some lock"
    and held: "\<And>x i. x \<in> set (procLocks lock) \<Longrightarrow> myProc x = p \<Longrightarrow> bit (r x) i \<Longrightarrow> bit (holdMask x) i"
  shows "table_ok (store_lock tag (Some (update_proclock p (\<lambda>x. x\<lparr> releaseMask := r x \<rparr>) lock)) (lock_procs st) st)"
proof (rule store_ok [OF ok only_at_refl])
  note e = entry_parts [OF table_entry(1) [OF ok lock]]
  have "entry_ok (lock_procs st) tag (update_proclock p (\<lambda>x. x\<lparr> releaseMask := r x \<rparr>) lock)"
    using marks_irrelevant [where lock = lock and g = "\<lambda>x. if myProc x = p then r x else releaseMask x"] e held
      table_entry(1) [OF ok lock]
    unfolding update_marks entry_ok_def by (auto simp: marks_ok_def)
  then show "entry_ok (lock_procs st) tag lock'"
    if "Some (update_proclock p (\<lambda>x. x\<lparr> releaseMask := r x \<rparr>) lock) = Some lock'" for lock' using that by simp
qed (use table_entry(2) [OF ok lock] in simp)

section \<open>Releasing all\<close>

definition release_turn :: "nat \<Rightarrow> LOCKMODE \<Rightarrow> bool \<times> LOCK \<Rightarrow> bool \<times> LOCK" where
  "release_turn me i =
     (\<lambda>(wakeupNeeded, lock).
       case find_proclock me lock of
         None \<Rightarrow> (wakeupNeeded, lock)
       | Some proclock \<Rightarrow>
           if releaseMask proclock AND LOCKBIT_ON i \<noteq> 0
           then let (needed, lock) = UnGrantLock lock i me in (wakeupNeeded \<or> needed, lock)
           else (wakeupNeeded, lock))"

lemma release_marked_turns: "release_marked me lock = fold (release_turn me) [1..<MaxLockMode + 1] (False, lock)"
  unfolding release_marked_def release_turn_def by (rule refl)

lemma release_fold:
  assumes "base_ok {p} procs tag lock" "p \<notin> set (waitProcs lock)" "find_proclock p lock = Some pl"
    and "distinct ms" "\<forall>i \<in> set ms. mode_ok i \<and> (bit (releaseMask pl) i \<longrightarrow> bit (holdMask pl) i)"
    and "wake \<or> all_wait procs tag lock"
  shows "\<exists>wake' lock'. fold (release_turn p) ms (wake, lock) = (wake', lock') \<and>
    base_ok {p} procs tag lock' \<and> waitProcs lock' = waitProcs lock \<and> (wake' \<or> queue_waits procs tag lock' (waitProcs lock)) \<and>
    others p lock' = others p lock"
  using assms
proof (induction ms arbitrary: lock pl wake)
  case (Cons i ms)
  have i: "mode_ok i" using Cons.prems by simp
  show ?case
  proof (cases "bit (releaseMask pl) i")
    case True
    then have held: "bit (holdMask pl) i" using Cons.prems by simp
    obtain needed lock1 where u: "UnGrantLock lock i p = (needed, lock1)" by force
    have c: "counts_ok (leader_of procs) (reqs_of procs (waitProcs lock)) lock"
      using Cons.prems(1) by (simp add: base_ok_def lock_ok_def)
    note base = ungrant_base [OF Cons.prems(1,3) i held Cons.prems(2) u]
      and counts = ungrant_counts [OF c Cons.prems(3) i held u] and fields = UnGrantLock_fields [OF u]
    have p: "p \<notin> set (waitProcs lock1)" using Cons.prems(2) by (simp add: fields)
    have marked: "\<forall>j \<in> set ms. mode_ok j \<and> (bit (releaseMask (pl\<lparr> holdMask := holdMask pl AND LOCKBIT_OFF i \<rparr>)) j \<longrightarrow>
        bit (holdMask (pl\<lparr> holdMask := holdMask pl AND LOCKBIT_OFF i \<rparr>)) j)"
      using Cons.prems(4,5) mode_less(1) [OF i] by auto
    have wake: "(wake \<or> needed) \<or> all_wait procs tag lock1"
      using Cons.prems(6) base(2) fields(1) held_le_refl
      by (cases wake) auto
    have "distinct ms" using Cons.prems(4) by simp
    from Cons.IH [OF base(1) p counts(2) this marked wake]
    show ?thesis using True u Cons.prems(3) mode_less(1) [OF i] counts(3) fields(1) by (simp add: release_turn_def)
  next
    case False
    then have "release_turn p i (wake, lock) = (wake, lock)"
      using Cons.prems(3) mode_less(1) [OF i] by (simp add: release_turn_def)
    then show ?thesis using Cons.IH [OF Cons.prems(1-3) _ _ Cons.prems(6)] Cons.prems(4,5) by simp
  qed
qed auto

theorem LockReleaseAll_turn_ok:
  assumes ok: "table_ok st" and free: "waitLock (lock_procs st me) = None"
    and lock: "lock_hash st tag = Some lock" and pl: "find_proclock me lock = Some pl"
  shows "\<exists>st'. LockReleaseAll_turn me allLocks tag st = Some st' \<and> table_ok st'"
proof -
  let ?procs = "lock_procs st" and ?mask = "if allLocks then holdMask pl else releaseMask pl"
  let ?lock1 = "update_proclock me (\<lambda>x. x\<lparr> releaseMask := ?mask \<rparr>) lock"
  note e = entry_parts [OF table_entry(1) [OF ok lock]] and waiting = table_entry(2) [OF ok lock]
  note d = counts_distinct [OF e(4)]
  have own: "x = pl" if "x \<in> set (procLocks lock)" "myProc x = me" for x
  proof -
    have "find_proclock me lock = Some x" using that find_proclock_iff [OF d] by blast
    then show ?thesis using pl by simp
  qed
  have mem: "pl \<in> set (procLocks lock)" "myProc pl = me" using pl find_proclock_iff [OF d] by auto
  have marked: "bit ?mask i \<Longrightarrow> bit (holdMask pl) i" for i
    using e(7) mem(1) by (auto simp: marks_ok_def split: if_splits)
  show ?thesis
  proof (cases "?mask = 0 \<and> holdMask pl \<noteq> 0")
    case True
    have "table_ok (store_lock tag (Some ?lock1) ?procs st)"
      by (rule store_marks [OF ok lock]) (use own marked in blast)
    then show ?thesis using True lock pl by (simp add: LockReleaseAll_turn_def Let_def)
  next
    case False
    note irr = marks_irrelevant [where lock = lock and g = "\<lambda>x. if myProc x = me then ?mask else releaseMask x", folded update_marks]
    have p: "me \<notin> set (waitProcs lock)" using free waiting [of me] by auto
    have find1: "find_proclock me ?lock1 = Some (pl\<lparr> releaseMask := ?mask \<rparr>)"
      using update_proclock_others(3) [OF d pl, of "\<lambda>x. x\<lparr> releaseMask := ?mask \<rparr>"] by simp
    have base1: "base_ok {me} ?procs tag ?lock1" by (rule irr(1) [OF e(1)])
    have p1: "me \<notin> set (waitProcs ?lock1)" using p by simp
    have marks1: "\<forall>i \<in> set [1..<MaxLockMode + 1]. mode_ok i \<and>
        (bit (releaseMask (pl\<lparr> releaseMask := ?mask \<rparr>)) i \<longrightarrow> bit (holdMask (pl\<lparr> releaseMask := ?mask \<rparr>)) i)"
      unfolding modes_set(1) using marked by simp
    have wait1: "False \<or> all_wait ?procs tag ?lock1" using irr(2) e(6) by simp
    from release_fold [OF base1 p1 find1 modes_set(2) marks1 wait1]
    obtain wake lock2 where r: "release_marked me ?lock1 = (wake, lock2)" "base_ok {me} ?procs tag lock2"
        "waitProcs lock2 = waitProcs lock" "wake \<or> queue_waits ?procs tag lock2 (waitProcs lock)"
        "others me lock2 = others me ?lock1"
      unfolding release_marked_turns by auto
    let ?lock3 = "update_proclock me (\<lambda>x. x\<lparr> releaseMask := 0 \<rparr>) lock2"
    note irr2 = marks_irrelevant [where lock = lock2 and g = "\<lambda>x. if myProc x = me then 0 else releaseMask x", folded update_marks]
    have base3: "base_ok {me} ?procs tag ?lock3" by (rule irr2(1) [OF r(2)])
    have wait3: "wake \<or> all_wait ?procs tag ?lock3" using irr2(2) r(3,4) by simp
    have others: "others me lock2 = others me lock"
      using update_proclock_others(2) [OF d pl, of "\<lambda>x. x\<lparr> releaseMask := ?mask \<rparr>"] r(5) by simp
    have "x \<in> set (procLocks lock)" if "x \<in> set (procLocks lock2)" "myProc x \<noteq> me" for x
    proof -
      have "x \<in> set (others me lock)" using that unfolding others [symmetric] by (simp add: others_def)
      then show ?thesis by (simp add: others_def)
    qed
    then have marks3: "marks_ok ?lock3" using e(7) by (auto simp: marks_ok_def update_proclock_def)
    have p3: "me \<notin> set (waitProcs ?lock3)" using p r(3) by simp
    from CleanUpLock_ok [OF base3 p3 marks3 wait3, of me] obtain W entry where
      c: "CleanUpLock me tag ?lock3 me wake st = Some (store_lock tag entry (wake_procs W ?procs) st)"
        "cleaned ?procs tag (waitProcs ?lock3) W entry" by blast
    have "table_ok (store_lock tag entry (wake_procs W ?procs) st)"
      by (rule cleaned_table [OF ok only_at_refl _ c(2)]) (simp add: waiting r(3))
    then show ?thesis using False lock pl c(1) r(1) by (cases allLocks) (auto simp: LockReleaseAll_turn_def Let_def)
  qed
qed

end
