(* ===== verification/Lock_Queue.thy ===== *)
theory Lock_Queue
  imports Lock_Release_All
begin

unbundle bit_operations_syntax

text \<open>
  The invariant of the table when a process leaves a wait queue, when the deadlock detector reorders a
  queue, and when lock groups change.
\<close>

section \<open>Leaving the queue\<close>

lemma reqs_of_mset: "mset ps = mset qs \<Longrightarrow> reqs_of procs ps = reqs_of procs qs"
  by (simp add: reqs_of_def)

definition stop_waiting :: "nat \<Rightarrow> (nat \<Rightarrow> lock_proc) \<Rightarrow> nat \<Rightarrow> lock_proc" where
  "stop_waiting p procs =
     update_lock_proc p (\<lambda>proc. proc\<lparr> waitLock := None, waitStatus := PROC_WAIT_STATUS_ERROR \<rparr>) procs"

lemma stop_waiting_simps [simp]:
  "waitLockMode (stop_waiting p procs q) = waitLockMode (procs q)"
  "lockGroupLeader (stop_waiting p procs q) = lockGroupLeader (procs q)"
  "lockGroupMembers (stop_waiting p procs q) = lockGroupMembers (procs q)"
  "waitLock (stop_waiting p procs q) = (if q = p then None else waitLock (procs q))"
  by (simp_all add: stop_waiting_def update_lock_proc_def)

definition dequeue_request :: "nat \<Rightarrow> LOCKMODE \<Rightarrow> LOCK \<Rightarrow> LOCK" where
  "dequeue_request p lockmode lock =
     (let lock = lock\<lparr> waitProcs := remove1 p (waitProcs lock), nRequested := nRequested lock - 1,
                       requested := (requested lock)[lockmode := requested lock ! lockmode - 1] \<rparr>
      in if granted lock ! lockmode = requested lock ! lockmode
         then lock\<lparr> waitMask := waitMask lock AND LOCKBIT_OFF lockmode \<rparr> else lock)"

lemma RemoveFromWaitQueue_split:
  "waitLock (lock_procs st p) = Some tag \<Longrightarrow> lock_hash st tag = Some lock \<Longrightarrow>
     RemoveFromWaitQueue me p st =
       CleanUpLock me tag (dequeue_request p (waitLockMode (lock_procs st p)) lock) p True
         (st\<lparr> lock_procs := stop_waiting p (lock_procs st) \<rparr>)"
  by (simp add: RemoveFromWaitQueue_def dequeue_request_def stop_waiting_def Let_def)

lemma dequeue_base:
  assumes ok: "base_ok {} procs tag lock" and p: "p \<in> set (waitProcs lock)" and m: "m = waitLockMode (procs p)"
  shows "base_ok {p} (stop_waiting p procs) tag (dequeue_request p m lock)"
    and "waitProcs (dequeue_request p m lock) = remove1 p (waitProcs lock)"
    and "procLocks (dequeue_request p m lock) = procLocks lock"
proof -
  let ?lock = "dequeue_request p m lock" and ?Q = "remove1 p (waitProcs lock)" and ?procs = "stop_waiting p procs"
  let ?lock1 = "lock\<lparr> nRequested := nRequested lock - 1, requested := (requested lock)[m := requested lock ! m - 1] \<rparr>"
  have c: "counts_ok (leader_of procs) (reqs_of procs (waitProcs lock)) lock" and q: "queue_ok procs tag lock"
    and att: "\<forall>x \<in> set (procLocks lock). attached procs (myProc x)"
    using ok by (simp_all add: base_ok_def lock_ok_def)
  have d: "distinct (waitProcs lock)" using q by (simp add: queue_ok_def)
  have Q: "set ?Q = set (waitProcs lock) - {p}" using d by simp
  have "mset (waitProcs lock) = mset (p # ?Q)" using p by simp
  from reqs_of_mset [OF this, of procs] have R: "reqs_of procs (waitProcs lock) = add_mset (p, m) (reqs_of procs ?Q)"
    by (simp add: m)
  have c1: "counts_ok (leader_of procs) (reqs_of procs ?Q) ?lock1" by (rule drop_request) (use c R in simp)
  show fields: "waitProcs ?lock = ?Q" "procLocks ?lock = procLocks lock"
    by (simp_all add: dequeue_request_def Let_def)
  have c2: "counts_ok (leader_of procs) (reqs_of procs ?Q) ?lock"
    using c1 counts_same [of ?lock ?lock1] by (simp add: dequeue_request_def Let_def)
  have same: "leader_of ?procs = leader_of procs" "attached ?procs = attached procs"
    using same_groupsD [of procs ?procs] by (simp_all add: same_groups_def)
  have R': "reqs_of ?procs ?Q = reqs_of procs ?Q" by (rule reqs_of_cong) simp
  have mode: "mode_ok m" using c R by (simp add: counts_ok_def)
  have "requested ?lock ! m = granted ?lock ! m + int (count (image_mset snd (reqs_of procs ?Q)) m)"
    using c2 mode unfolding counts_ok_def by blast
  then have same_m: "granted ?lock ! m = requested ?lock ! m \<longleftrightarrow> \<not> (\<exists>q \<in> set ?Q. waitLockMode (procs q) = m)"
    unfolding reqs_of_count [symmetric] by linarith
  have "waitMask ?lock = (if granted ?lock ! m = requested ?lock ! m then waitMask lock AND LOCKBIT_OFF m else waitMask lock)"
    by (simp add: dequeue_request_def Let_def)
  then have mask: "waitMask ?lock = (if \<not> (\<exists>q \<in> set ?Q. waitLockMode (procs q) = m)
      then waitMask lock AND LOCKBIT_OFF m else waitMask lock)"
    unfolding same_m .
  have "bit (waitMask ?lock) i \<longleftrightarrow> (\<exists>q \<in> set ?Q. waitLockMode (procs q) = i)" for i
    unfolding mask Q using q p mode_less(1) [OF mode] by (auto simp: queue_ok_def m)
  then have "queue_ok ?procs tag ?lock" using q d unfolding queue_ok_def fields by (auto simp: Q)
  moreover have "counts_ok (leader_of ?procs) (reqs_of ?procs (waitProcs ?lock)) ?lock" using c2 by (simp add: same fields R')
  moreover have "no_idle ({p} \<union> set (waitProcs ?lock)) ?lock"
    using ok unfolding fields Q by (auto simp: base_ok_def no_idle_def fields)
  moreover have "compatible tag ?lock" using ok by (simp add: base_ok_def compatible_def fields)
  ultimately show "base_ok {p} ?procs tag ?lock" using att by (simp add: base_ok_def lock_ok_def same fields)
qed

text \<open>The lock that the process waits for may be out of order: the waiters are woken in any case.\<close>

lemma RemoveFromWaitQueue_store:
  assumes ok: "table_ok st" and at: "only_at tag (lock_procs st) procs"
    and base: "base_ok {} procs tag lock" and marks: "marks_ok lock"
    and waiting: "\<And>q. waitLock (procs q) = Some tag \<longleftrightarrow> q \<in> set (waitProcs lock)" and p: "p \<in> set (waitProcs lock)"
  shows "\<exists>st'. RemoveFromWaitQueue me p (store_lock tag (Some lock) procs st) = Some st' \<and> table_ok st' \<and>
    waitLock (lock_procs st' p) = None"
proof -
  let ?st = "store_lock tag (Some lock) procs st" and ?procs = "stop_waiting p procs"
  let ?lock = "dequeue_request p (waitLockMode (procs p)) lock"
  note deq = dequeue_base [OF base p refl]
  have d: "distinct (waitProcs lock)" using base by (simp add: base_ok_def lock_ok_def queue_ok_def)
  have code: "RemoveFromWaitQueue me p ?st = CleanUpLock me tag ?lock p True (?st\<lparr> lock_procs := ?procs \<rparr>)"
    using RemoveFromWaitQueue_split [of ?st p tag lock me] waiting p by simp
  have "p \<notin> set (waitProcs ?lock)" "marks_ok ?lock" using d marks by (simp_all add: deq marks_ok_def)
  from CleanUpLock_ok [of p "?st\<lparr> lock_procs := ?procs \<rparr>" tag ?lock True me] this deq(1) obtain W entry where
    c: "CleanUpLock me tag ?lock p True (?st\<lparr> lock_procs := ?procs \<rparr>) =
        Some (store_lock tag entry (wake_procs W ?procs) (?st\<lparr> lock_procs := ?procs \<rparr>))"
      "cleaned ?procs tag (remove1 p (waitProcs lock)) W entry" by (auto simp: deq(2))
  have "only_at tag procs ?procs"
    using p waiting [of p] unfolding only_at_def by (auto simp: same_groups_def)
  with at have at': "only_at tag (lock_procs st) ?procs" by (rule only_at_trans)
  have "table_ok (store_lock tag entry (wake_procs W ?procs) st)"
    by (rule cleaned_table [OF ok at' _ c(2)]) (use d waiting in auto)
  then show ?thesis using code c(1) by simp
qed

lemma stored [simp]: "lock_hash st tag = entry \<Longrightarrow> store_lock tag entry (lock_procs st) st = st"
  by (auto simp: store_lock_def)

theorem RemoveFromWaitQueue_ok:
  assumes ok: "table_ok st" and p: "waitLock (lock_procs st p) = Some tag"
  shows "\<exists>st'. RemoveFromWaitQueue me p st = Some st' \<and> table_ok st' \<and> waitLock (lock_procs st' p) = None"
proof -
  obtain lock where lock: "lock_hash st tag = Some lock" "p \<in> set (waitProcs lock)"
    using ok p unfolding table_ok_def by blast
  note e = entry_parts [OF table_entry(1) [OF ok lock(1)]]
  show ?thesis
    using RemoveFromWaitQueue_store [OF ok only_at_refl e(1) e(7) table_entry(2) [OF ok lock(1)] lock(2), of me] lock(1)
    by simp
qed

section \<open>Reordering\<close>

theorem reorder_waiters_ok:
  assumes ok: "table_ok st" and lock: "lock_hash st tag = Some lock" and perm: "mset queue = mset (waitProcs lock)"
  shows "\<exists>st'. reorder_waiters me tag queue st = Some st' \<and> table_ok st'"
proof -
  let ?lock = "lock\<lparr> waitProcs := queue \<rparr>" and ?procs = "lock_procs st"
  note e = entry_parts [OF table_entry(1) [OF ok lock]]
  have set: "set queue = set (waitProcs lock)" "distinct queue \<longleftrightarrow> distinct (waitProcs lock)"
    using perm by (metis set_mset_mset, metis mset_eq_imp_distinct_iff)
  have "counts_ok (leader_of ?procs) (reqs_of ?procs queue) ?lock"
    using e(4) counts_same [of ?lock lock] by (simp add: reqs_of_mset [OF perm])
  then have base: "base_ok {} ?procs tag ?lock"
    using e(1) [of "{}"] set by (simp add: base_ok_def lock_ok_def queue_ok_def no_idle_def compatible_def)
  have "marks_ok ?lock" "0 < nRequested ?lock"
    using table_entry(1) [OF ok lock] by (simp_all add: entry_ok_def marks_ok_def)
  from wakeup_entry [OF base this, of me] obtain W lock' where
    w: "ProcLockWakeup me tag (?lock, ?procs) = Some (lock', wake_procs W ?procs)" "W \<subseteq> set queue"
      "waitProcs lock' = filter (\<lambda>q. q \<notin> W) queue" "entry_ok (wake_procs W ?procs) tag lock'" by auto
  have clean: "cleaned ?procs tag queue W (Some lock')" using w by (simp add: cleaned_def)
  have "table_ok (store_lock tag (Some lock') (wake_procs W ?procs) st)"
    by (rule cleaned_table [OF ok only_at_refl _ clean]) (simp add: set table_entry(2) [OF ok lock])
  then show ?thesis using lock w(1) by (simp add: reorder_waiters_def)
qed

text \<open>Marking held modes.\<close>

theorem mark_release_ok:
  assumes ok: "table_ok st" and lock: "lock_hash st tag = Some lock" and m: "mode_ok m"
    and held: "find_proclock me lock = Some pl" "bit (holdMask pl) m"
  shows "table_ok (mark_release me tag m st)"
proof -
  note e = entry_parts [OF table_entry(1) [OF ok lock]]
  have "bit (holdMask x) i" if "x \<in> set (procLocks lock)" "myProc x = me" "bit (releaseMask x OR LOCKBIT_ON m) i" for x i
  proof -
    have "find_proclock me lock = Some x" using that find_proclock_iff [OF counts_distinct [OF e(4)]] by blast
    then have "x = pl" using held by simp
    then show ?thesis using that e(7) held mode_less(1) [OF m] by (auto simp: marks_ok_def)
  qed
  from store_marks [OF ok lock this, where r = "\<lambda>x. releaseMask x OR LOCKBIT_ON m"] show ?thesis
    by (simp add: mark_release_def lock)
qed

section \<open>Groups\<close>

text \<open>A process may change its group while it has no entry in the table.\<close>

definition uses :: "lock_state \<Rightarrow> nat \<Rightarrow> bool" where
  "uses st p \<longleftrightarrow> (\<exists>tag lock. lock_hash st tag = Some lock \<and> find_proclock p lock \<noteq> None)"

lemma group_change:
  assumes ok: "table_ok st"
    and same: "\<And>p. uses st p \<Longrightarrow> leader_of procs p = leader_of (lock_procs st) p"
      "\<And>p. uses st p \<Longrightarrow> attached (lock_procs st) p \<Longrightarrow> attached procs p"
    and wait: "\<And>q. waitLock (procs q) = waitLock (lock_procs st q)" "\<And>q. waitLockMode (procs q) = waitLockMode (lock_procs st q)"
  shows "table_ok (st\<lparr> lock_procs := procs \<rparr>)"
proof -
  have "entry_ok procs tag lock" if lock: "lock_hash st tag = Some lock" for tag lock
  proof -
    have e: "entry_ok (lock_procs st) tag lock" by (rule table_entry(1) [OF ok lock])
    have "uses st (myProc x)" if "x \<in> set (procLocks lock)" for x
      using lock that unfolding uses_def find_proclock_None by blast
    then have "same_for lock (lock_procs st) procs"
      using same wait entry_parts(2) [OF e] by (auto simp: same_for_def lock_ok_def)
    then show ?thesis by (rule entry_ok_same [OF e])
  qed
  then show ?thesis using ok wait unfolding table_ok_def by simp
qed

theorem BecomeLockGroupLeader_ok:
  assumes ok: "table_ok st" and me: "lockGroupLeader (lock_procs st me) \<in> {None, Some me}"
  shows "table_ok (st\<lparr> lock_procs := BecomeLockGroupLeader me (lock_procs st) \<rparr>)"
  by (rule group_change [OF ok])
    (use me in \<open>auto simp: BecomeLockGroupLeader_def update_lock_proc_def leader_of_def attached_def split: option.splits\<close>)

theorem BecomeLockGroupMember_ok:
  assumes ok: "table_ok st" and me: "\<not> uses st me" "lockGroupLeader (lock_procs st me) = None" "leader \<noteq> me"
  shows "table_ok (st\<lparr> lock_procs := snd (BecomeLockGroupMember me leader pid (lock_procs st)) \<rparr>)"
  by (rule group_change [OF ok])
    (use me in \<open>auto simp: BecomeLockGroupMember_def update_lock_proc_def leader_of_def attached_def split: option.splits\<close>)

lemma last_member: "remove1 p xs = [] \<Longrightarrow> q \<in> set xs \<Longrightarrow> q = p"
  by (cases xs) (auto split: if_splits)

theorem LeaveLockGroup_ok:
  assumes ok: "table_ok st" and me: "\<not> uses st me" "attached (lock_procs st) me"
  shows "table_ok (st\<lparr> lock_procs := snd (LeaveLockGroup me (lock_procs st)) \<rparr>)"
  by (rule group_change [OF ok])
    (use me in \<open>auto simp: LeaveLockGroup_def Let_def update_lock_proc_def leader_of_def attached_def
       dest: last_member split: option.splits\<close>)

end
