(* ===== verification/Lock_Sleep.thy ===== *)
theory Lock_Sleep
  imports Lock_Queue
begin

unbundle bit_operations_syntax

text \<open>
  The invariant of the table under \<open>LockAcquire\<close>: the lock is granted when nothing stands against it, and
  else the process takes a place in the queue at which it has something to wait for.
\<close>

section \<open>A request that is counted\<close>

definition pending :: "nat \<Rightarrow> LOCKMODE \<Rightarrow> (nat \<Rightarrow> lock_proc) \<Rightarrow> LOCKTAG \<Rightarrow> LOCK \<Rightarrow> bool" where
  "pending me m procs tag lock \<longleftrightarrow>
     counts_ok (leader_of procs) (add_mset (me, m) (reqs_of procs (waitProcs lock))) lock \<and> queue_ok procs tag lock \<and>
     (\<forall>x \<in> set (procLocks lock). attached procs (myProc x)) \<and> no_idle (insert me (set (waitProcs lock))) lock \<and>
     compatible tag lock \<and> all_wait procs tag lock \<and> marks_ok lock \<and> 0 < nRequested lock \<and> me \<notin> set (waitProcs lock)"

lemma new_lock_base:
  "base_ok {} procs tag new_lock" "all_wait procs tag new_lock" "marks_ok new_lock" "nRequested new_lock = 0"
  "waitProcs new_lock = []" "find_proclock p new_lock = None"
proof -
  have "replicate MAX_LOCKMODES (0 :: int) ! m = 0" if "mode_ok m" for m using mode_less(2) [OF that] by simp
  moreover have "mode_sum (replicate MAX_LOCKMODES 0) = 0" by code_simp
  ultimately show "base_ok {} procs tag new_lock"
    by (simp add: base_ok_def lock_ok_def counts_ok_def grants_ok_def queue_ok_def no_idle_def compatible_def new_lock_def)
qed (simp_all add: new_lock_def marks_ok_def find_proclock_def)

definition with_proclock :: "nat \<Rightarrow> nat \<Rightarrow> LOCK \<Rightarrow> LOCK" where
  "with_proclock p leader lock =
     (case find_proclock p lock of
        Some pl \<Rightarrow> lock
      | None \<Rightarrow> lock\<lparr> procLocks := procLocks lock @
                   [\<lparr> myProc = p, groupLeader = leader, holdMask = 0, releaseMask = 0 \<rparr>] \<rparr>)"

definition with_request :: "LOCKMODE \<Rightarrow> LOCK \<Rightarrow> LOCK" where
  "with_request m lock = lock\<lparr> nRequested := nRequested lock + 1, requested := (requested lock)[m := requested lock ! m + 1] \<rparr>"

lemma with_proclock_ok:
  assumes ok: "base_ok {} procs tag lock" "all_wait procs tag lock" "marks_ok lock" and me: "attached procs me"
  shows "base_ok {me} procs tag (with_proclock me (leader_of procs me) lock)"
    and "all_wait procs tag (with_proclock me (leader_of procs me) lock)"
    and "marks_ok (with_proclock me (leader_of procs me) lock)"
proof -
  let ?lock = "with_proclock me (leader_of procs me) lock"
  have c: "counts_ok (leader_of procs) (reqs_of procs (waitProcs lock)) lock" using ok by (simp add: base_ok_def lock_ok_def)
  have "base_ok {me} procs tag ?lock \<and> all_wait procs tag ?lock \<and> marks_ok ?lock"
  proof (cases "find_proclock me lock")
    case None
    have l: "?lock = lock\<lparr> procLocks := procLocks lock @
        [\<lparr> myProc = me, groupLeader = leader_of procs me, holdMask = 0, releaseMask = 0 \<rparr>] \<rparr>"
      using None by (simp add: with_proclock_def)
    have c': "counts_ok (leader_of procs) (reqs_of procs (waitProcs lock)) ?lock"
      unfolding l by (rule add_proclock(1) [OF c None refl])
    have "held_le lock ?lock" by (auto simp: held_le_def l)
    then have wait: "all_wait procs tag ?lock"
      using queue_waits_same [of procs procs "waitProcs lock" lock ?lock tag] ok(2) by (simp add: same_groups_def l)
    have lock: "lock_ok procs tag ?lock" using c' ok(1) me by (auto simp: base_ok_def lock_ok_def queue_ok_def l)
    have "no_idle ({me} \<union> set (waitProcs ?lock)) ?lock" using ok(1) by (auto simp: base_ok_def no_idle_def l)
    moreover have "compatible tag ?lock" using ok(1) by (auto simp: base_ok_def compatible_def l blocked_by_def)
    ultimately show ?thesis using lock wait ok(3) by (auto simp: base_ok_def marks_ok_def l)
  next
    case (Some pl)
    then have "?lock = lock" by (simp add: with_proclock_def)
    then show ?thesis using ok by (auto simp: base_ok_def no_idle_def)
  qed
  then show "base_ok {me} procs tag ?lock" "all_wait procs tag ?lock" "marks_ok ?lock" by blast+
qed

lemma find_with_proclock:
  assumes "base_ok {} procs tag lock" "\<And>pl. find_proclock me lock = Some pl \<Longrightarrow> \<not> bit (holdMask pl) m"
  shows "\<exists>pl. find_proclock me (with_proclock me (leader_of procs me) lock) = Some pl \<and> \<not> bit (holdMask pl) m"
proof (cases "find_proclock me lock")
  case None
  have c: "counts_ok (leader_of procs) (reqs_of procs (waitProcs lock)) lock" using assms by (simp add: base_ok_def lock_ok_def)
  show ?thesis using add_proclock(2) [OF c None refl] by (simp add: with_proclock_def None)
qed (use assms(2) in \<open>simp add: with_proclock_def\<close>)

lemma pending_request:
  assumes base: "base_ok {me} procs tag lock" and wait: "all_wait procs tag lock" and marks: "marks_ok lock"
    and m: "mode_ok m" and pl: "find_proclock me lock = Some pl" "\<not> bit (holdMask pl) m" and me: "me \<notin> set (waitProcs lock)"
  shows "pending me m procs tag (with_request m lock)" "find_proclock me (with_request m lock) = Some pl"
proof -
  let ?lock = "with_request m lock"
  have c: "counts_ok (leader_of procs) (reqs_of procs (waitProcs lock)) lock" using base by (simp add: base_ok_def lock_ok_def)
  have "counts_ok (leader_of procs) (add_mset (me, m) (reqs_of procs (waitProcs lock))) ?lock"
    unfolding with_request_def by (rule add_request [OF c m pl])
  moreover have "all_wait procs tag ?lock"
    using queue_waits_same [of procs procs "waitProcs lock" lock ?lock tag] wait
    by (simp add: same_groups_def held_le_def with_request_def) blast
  moreover have "0 < nRequested ?lock" using nothing_requested(2) [OF c] by (simp add: with_request_def)
  ultimately show "pending me m procs tag ?lock"
    using base marks me
    by (simp add: pending_def base_ok_def lock_ok_def queue_ok_def no_idle_def compatible_def marks_ok_def with_request_def)
  show "find_proclock me ?lock = Some pl" using pl(1) by (simp add: find_proclock_def with_request_def)
qed

section \<open>Granting at once\<close>

lemma pending_check:
  assumes ok: "pending me m procs tag lock" and pl: "find_proclock me lock = Some pl"
    and same: "same_groups procs procs'"
  shows "LockCheckConflicts me procs' tag m lock pl =
    Some (\<exists>x \<in> set (procLocks lock). blocked_by tag m me (leader_of procs me) x)"
proof -
  note g = same_groupsD [OF same]
  have "\<forall>x \<in> set (procLocks lock). attached procs' (myProc x)" using ok by (simp add: pending_def g)
  moreover have "counts_ok (leader_of procs') (add_mset (me, m) (reqs_of procs (waitProcs lock))) lock"
    using ok by (simp add: pending_def g)
  moreover have "mode_ok m" using ok by (simp add: pending_def counts_ok_def)
  ultimately show ?thesis using check_conflicts [OF _ _ _ pl, of procs' _ m me tag] by (simp add: g)
qed

lemma pending_grant:
  assumes ok: "pending me m procs tag lock"
    and free: "\<not> (\<exists>x \<in> set (procLocks lock). blocked_by tag m me (leader_of procs me) x)"
  shows "entry_ok procs tag (GrantLock lock me m)"
proof -
  let ?lock = "GrantLock lock me m" and ?Q = "waitProcs lock"
  have c: "counts_ok (leader_of procs) (add_mset (me, m) (reqs_of procs ?Q)) lock" and q: "queue_ok procs tag lock"
    and att: "\<forall>x \<in> set (procLocks lock). attached procs (myProc x)" and me: "me \<notin> set ?Q"
    using ok by (simp_all add: pending_def)
  have m: "mode_ok m" using c by (simp add: counts_ok_def)
  have "\<exists>pl \<in> set (procLocks lock). myProc pl = me" using c by (auto simp: counts_ok_def)
  then obtain pl where pl: "find_proclock me lock = Some pl" "groupLeader pl = leader_of procs me"
    using find_proclock_iff [OF counts_distinct [OF c]] c by (metis counts_ok_def)
  have "?lock\<lparr> waitProcs := ?Q \<rparr> = ?lock" by (cases ?lock) (metis GrantLock_fields(1) LOCK.select_convs(4) LOCK.update_convs(4))
  then have lock: "lock_ok procs tag ?lock"
    using grant_lock_ok [OF c me, of tag False] q att by (simp add: queue_ok_def)
  have "compatible tag ?lock"
    using grant_compatible [OF c pl(1) m] ok free pl(2) by (simp add: pending_def)
  moreover have "no_idle (set ?Q) ?lock" by (rule grant_no_idle [OF _ m]) (use ok in \<open>simp add: pending_def\<close>)
  moreover have "queue_waits procs tag ?lock ?Q"
    by (rule queue_waits_same [of procs procs _ lock])
      (use ok grant_held_le [OF m] in \<open>simp_all add: pending_def same_groups_def\<close>)
  ultimately show ?thesis
    using lock ok marks_grant [of lock me m] by (simp add: entry_ok_def base_ok_def pending_def GrantLock_fields)
qed

section \<open>Taking a place in the queue\<close>

text \<open>The process as a waiter.\<close>

definition starts_waiting :: "nat \<Rightarrow> LOCKTAG \<Rightarrow> LOCKMODE \<Rightarrow> (nat \<Rightarrow> lock_proc) \<Rightarrow> (nat \<Rightarrow> lock_proc) \<Rightarrow> bool" where
  "starts_waiting me tag m procs procs' \<longleftrightarrow>
     same_groups procs procs' \<and> waitLock (procs' me) = Some tag \<and> waitLockMode (procs' me) = m \<and>
     (\<forall>q. q \<noteq> me \<longrightarrow> waitLock (procs' q) = waitLock (procs q) \<and> waitLockMode (procs' q) = waitLockMode (procs q))"

definition linked :: "nat \<Rightarrow> nat \<Rightarrow> LOCKMODE \<Rightarrow> LOCK \<Rightarrow> LOCK" where
  "linked i me m lock =
     lock\<lparr> waitProcs := take i (waitProcs lock) @ me # drop i (waitProcs lock), waitMask := waitMask lock OR LOCKBIT_ON m \<rparr>"

lemma linked_simps [simp]:
  "set (waitProcs (linked i me m lock)) = insert me (set (waitProcs lock))"
  "procLocks (linked i me m lock) = procLocks lock" "nRequested (linked i me m lock) = nRequested lock"
  "mset (waitProcs (linked i me m lock)) = add_mset me (mset (waitProcs lock))"
proof -
  have q: "mset (take i q) + mset (drop i q) = mset q" for q :: "nat list" by (metis append_take_drop_id mset_append)
  then show m: "mset (waitProcs (linked i me m lock)) = add_mset me (mset (waitProcs lock))"
    by (simp add: linked_def q)
  show "set (waitProcs (linked i me m lock)) = insert me (set (waitProcs lock))"
    using arg_cong [OF m, of set_mset] by simp
qed (simp_all add: linked_def)

lemma link_base:
  assumes ok: "pending me m procs tag lock" and start: "starts_waiting me tag m procs procs'"
  shows "base_ok {} procs' tag (linked i me m lock)" "marks_ok (linked i me m lock)"
proof -
  let ?lock = "linked i me m lock" and ?Q = "waitProcs lock"
  have c: "counts_ok (leader_of procs) (add_mset (me, m) (reqs_of procs ?Q)) lock" and q: "queue_ok procs tag lock"
    and me: "me \<notin> set ?Q" using ok by (simp_all add: pending_def)
  note g = same_groupsD [of procs procs']
  have m: "mode_ok m" using c by (simp add: counts_ok_def)
  have "reqs_of procs' ?Q = reqs_of procs ?Q" by (rule reqs_of_cong) (use start me in \<open>auto simp: starts_waiting_def\<close>)
  then have "reqs_of procs' (me # ?Q) = add_mset (me, m) (reqs_of procs ?Q)" using start by (simp add: starts_waiting_def)
  then have R: "reqs_of procs' (waitProcs ?lock) = add_mset (me, m) (reqs_of procs ?Q)"
    using reqs_of_mset [of "waitProcs ?lock" "me # ?Q" procs'] by simp
  have "counts_ok (leader_of procs') (reqs_of procs' (waitProcs ?lock)) ?lock"
    unfolding R using c counts_same [of ?lock lock] g start by (simp add: starts_waiting_def linked_def)
  moreover have "distinct (waitProcs ?lock)"
    using mset_eq_imp_distinct_iff [of "waitProcs ?lock" "me # ?Q"] q me by (simp add: queue_ok_def)
  moreover have "bit (waitMask ?lock) n \<longleftrightarrow> (\<exists>r \<in> set (waitProcs ?lock). waitLockMode (procs' r) = n)" for n
  proof -
    have "waitMask ?lock = waitMask lock OR LOCKBIT_ON m" by (simp add: linked_def)
    moreover have "(\<exists>r \<in> set ?Q. waitLockMode (procs' r) = n) \<longleftrightarrow> (\<exists>r \<in> set ?Q. waitLockMode (procs r) = n)"
      using start me unfolding starts_waiting_def by metis
    ultimately show ?thesis using q start mode_less(1) [OF m] by (auto simp: queue_ok_def starts_waiting_def)
  qed
  moreover have "\<forall>r \<in> set (waitProcs ?lock). waitLock (procs' r) = Some tag"
    using q start unfolding starts_waiting_def queue_ok_def linked_simps by (metis insert_iff)
  moreover have "attached procs' = attached procs" using g start by (simp add: starts_waiting_def)
  ultimately show "base_ok {} procs' tag ?lock"
    using ok by (simp add: base_ok_def lock_ok_def queue_ok_def pending_def no_idle_def compatible_def)
  show "marks_ok ?lock" using ok by (simp add: pending_def marks_ok_def)
qed

lemma link_waits:
  assumes ok: "pending me m procs tag lock" and start: "starts_waiting me tag m procs procs'"
    and reason: "(\<exists>x \<in> set (procLocks lock). blocked_by tag m me (leader_of procs me) x) \<or>
      (\<exists>q \<in> set (take i (waitProcs lock)). conflict m (waitLockMode (procs q)))"
  shows "all_wait procs' tag (linked i me m lock)"
proof -
  let ?Q = "waitProcs lock" and ?lock = "linked i me m lock"
  have me: "me \<notin> set ?Q" and all: "queue_waits procs tag lock ?Q" using ok by (simp_all add: pending_def)
  have g: "leader_of procs' = leader_of procs" and s: "same_groups procs procs'"
    using start same_groupsD by (simp_all add: starts_waiting_def)
  have mode: "waitLockMode (procs' q) = waitLockMode (procs q)" if "q \<in> set ?Q" for q
    using start me that unfolding starts_waiting_def by metis
  have waits: "waits procs' tag ?lock ahead q" if "waits procs tag lock pre q" "insert q (set pre) \<subseteq> set ?Q" "set pre \<subseteq> set ahead"
    for ahead pre q
  proof -
    have "waits procs' tag lock pre q"
      by (rule waits_same [OF s _ held_le_refl that(1)]) (use that(2) mode in blast)
    then show ?thesis using that(3) by (auto simp: waits_def)
  qed
  have mine: "waits procs' tag ?lock (take i ?Q) me"
    using reason start mode set_take_subset [of i ?Q] by (auto simp: waits_def g starts_waiting_def) (metis in_mono)
  show ?thesis
    unfolding queue_waits_def
  proof (intro allI impI)
    fix pre q post assume eq: "waitProcs ?lock = pre @ q # post"
    then have eq: "take i ?Q @ me # drop i ?Q = pre @ q # post" by (simp add: linked_def)
    consider (before) us where "take i ?Q = pre @ q # us"
      | (here) "pre = take i ?Q" "q = me" | (behind) us where "pre = take i ?Q @ me # us" "drop i ?Q = us @ q # post"
      using eq by (auto simp: append_eq_append_conv2 Cons_eq_append_conv append_eq_Cons_conv)
    then show "waits procs' tag ?lock pre q"
    proof cases
      case before
      then have Q: "?Q = pre @ q # (us @ drop i ?Q)" by (metis append_Cons append_assoc append_take_drop_id)
      have w: "waits procs tag lock pre q" using all Q unfolding queue_waits_def by blast
      have sub: "insert q (set pre) \<subseteq> set ?Q" by (subst Q) auto
      show ?thesis by (rule waits [OF w sub]) simp
    next
      case here
      then show ?thesis using mine by simp
    next
      case behind
      then have Q: "?Q = (take i ?Q @ us) @ q # post" by (metis append_assoc append_take_drop_id)
      have w: "waits procs tag lock (take i ?Q @ us) q" using all Q unfolding queue_waits_def by blast
      have sub: "insert q (set (take i ?Q @ us)) \<subseteq> set ?Q" by (subst (2) Q) auto
      show ?thesis by (rule waits [OF w sub]) (use behind(1) in auto)
    qed
  qed
qed

end
