(* ===== verification/Lock_Acquire_Ok.thy ===== *)
theory Lock_Acquire_Ok
  imports Lock_Sleep
begin

unbundle bit_operations_syntax

text \<open>
  \<open>LockAcquire\<close> keeps the invariant of the table, and never stops with a PANIC.
\<close>

section \<open>The place in the queue\<close>

lemma sleep_scan_ok:
  assumes check: "LockCheckConflicts me procs tag m lock pl = Some blocked"
    and modes: "\<forall>q \<in> set (pre @ queue). mode_ok (waitLockMode (procs q))"
    and ahead: "\<forall>n. bit ahead n \<longrightarrow> (\<exists>q \<in> set pre. waitLockMode (procs q) = n)"
  shows "\<exists>i choice. sleep_scan me procs tag m lock pl held queue (length pre) ahead = Some (i, choice) \<and>
    i \<le> length (pre @ queue) \<and> (choice = Sleep_Grant \<longrightarrow> \<not> blocked) \<and>
    (choice = Sleep_Here \<longrightarrow> i = length (pre @ queue) \<or> blocked \<or>
       (\<exists>q \<in> set (take i (pre @ queue)). conflict m (waitLockMode (procs q))))"
  using modes ahead
proof (induction queue arbitrary: pre ahead)
  case Nil
  then show ?case by simp
next
  case (Cons p queue)
  have m: "mode_ok (waitLockMode (procs p))" using Cons.prems by simp
  have step: "(pre @ [p]) @ queue = pre @ p # queue" "length (pre @ [p]) = length pre + 1" by simp_all
  have IH: "\<exists>i choice. sleep_scan me procs tag m lock pl held queue (length pre + 1) ahead' = Some (i, choice) \<and>
      i \<le> length (pre @ p # queue) \<and> (choice = Sleep_Grant \<longrightarrow> \<not> blocked) \<and>
      (choice = Sleep_Here \<longrightarrow> i = length (pre @ p # queue) \<or> blocked \<or>
         (\<exists>q \<in> set (take i (pre @ p # queue)). conflict m (waitLockMode (procs q))))"
    if "\<forall>n. bit ahead' n \<longrightarrow> (\<exists>q \<in> set (pre @ [p]). waitLockMode (procs q) = n)" for ahead'
    using Cons.IH [of "pre @ [p]" ahead'] Cons.prems(1) that unfolding step by blast
  have here: "conflictTab m AND ahead \<noteq> 0 \<Longrightarrow>
      \<exists>q \<in> set (take (length pre) (pre @ p # queue)). conflict m (waitLockMode (procs q))"
    using Cons.prems(2) by (auto simp: conflict_mask_iff)
  consider (group) "lockGroupLeader (procs me) \<noteq> None \<and> lockGroupLeader (procs me) = lockGroupLeader (procs p)"
    | (stop) "\<not> (lockGroupLeader (procs me) \<noteq> None \<and> lockGroupLeader (procs me) = lockGroupLeader (procs p))"
        "conflictTab (waitLockMode (procs p)) AND held \<noteq> 0"
    | (go) "\<not> (lockGroupLeader (procs me) \<noteq> None \<and> lockGroupLeader (procs me) = lockGroupLeader (procs p))"
        "conflictTab (waitLockMode (procs p)) AND held = 0" by blast
  then show ?case
  proof cases
    case group
    then show ?thesis using IH [of ahead] Cons.prems(2) by auto
  next
    case stop
    let ?rest = "if conflictTab m AND ahead = 0 then (if blocked then Sleep_Here else Sleep_Grant) else Sleep_Here"
    have "sleep_scan me procs tag m lock pl held (p # queue) (length pre) ahead =
        Some (length pre, if conflictTab m AND heldLocks (procs p) \<noteq> 0 then Sleep_Deadlock else ?rest)"
      using stop check by (auto split: bool.split)
    then show ?thesis using here by (cases blocked) auto
  next
    case go
    have "\<forall>n. bit (ahead OR LOCKBIT_ON (waitLockMode (procs p))) n \<longrightarrow> (\<exists>q \<in> set (pre @ [p]). waitLockMode (procs q) = n)"
      using Cons.prems(2) mode_less(1) [OF m] by auto
    from IH [OF this] show ?thesis using go by auto
  qed
qed

section \<open>Sleeping\<close>

definition count_holds :: "nat \<Rightarrow> LOCKMASK \<Rightarrow> (nat \<Rightarrow> lock_proc) \<Rightarrow> nat \<Rightarrow> lock_proc" where
  "count_holds me held procs = update_lock_proc me (\<lambda>proc. proc\<lparr> heldLocks := held \<rparr>) procs"

lemma count_holds_simps [simp]:
  "waitLockMode (count_holds p held procs q) = waitLockMode (procs q)"
  "lockGroupLeader (count_holds p held procs q) = lockGroupLeader (procs q)"
  "lockGroupMembers (count_holds p held procs q) = lockGroupMembers (procs q)"
  "waitLock (count_holds p held procs q) = waitLock (procs q)"
  by (simp_all add: count_holds_def update_lock_proc_def)

lemma count_holds_same: "same_groups procs (count_holds p held procs)" by (simp add: same_groups_def)

lemma entry_same_groups:
  assumes "entry_ok procs tag lock" "same_groups procs procs'"
    "\<And>q. waitLock (procs' q) = waitLock (procs q)" "\<And>q. waitLockMode (procs' q) = waitLockMode (procs q)"
  shows "entry_ok procs' tag lock"
proof (rule entry_ok_same [OF assms(1)])
  show "same_for lock procs procs'"
    using assms(3,4) same_groupsD [OF assms(2)] entry_parts(2) [OF assms(1)] by (simp add: same_for_def lock_ok_def)
qed

text \<open>
  An answer for each outcome; \<open>contended\<close> tells whether a holder or a waiter stands against the request.
\<close>

definition table_lock :: "lock_state \<Rightarrow> LOCKTAG \<Rightarrow> LOCK" where
  "table_lock st tag = (case lock_hash st tag of None \<Rightarrow> new_lock | Some lock \<Rightarrow> lock)"

definition holds_mode :: "LOCK \<Rightarrow> nat \<Rightarrow> LOCKMODE \<Rightarrow> bool" where
  "holds_mode lock p m \<longleftrightarrow> (\<exists>pl \<in> set (procLocks lock). myProc pl = p \<and> holdMask pl AND LOCKBIT_ON m \<noteq> 0)"

definition contended :: "lock_state \<Rightarrow> LOCKTAG \<Rightarrow> nat \<Rightarrow> LOCKMODE \<Rightarrow> bool" where
  "contended st tag p m \<longleftrightarrow>
     (\<exists>x \<in> set (procLocks (table_lock st tag)). blocked_by tag m p (leader_of (lock_procs st) p) x) \<or>
     (\<exists>q \<in> set (waitProcs (table_lock st tag)). conflict m (waitLockMode (lock_procs st q)))"

definition answers :: "lock_state \<Rightarrow> LOCKTAG \<Rightarrow> nat \<Rightarrow> LOCKMODE \<Rightarrow> bool \<Rightarrow> bool \<Rightarrow> acquire_result \<Rightarrow> lock_state \<Rightarrow> bool" where
  "answers st tag me m memory dontWait r st' \<longleftrightarrow>
     waitLock (lock_procs st' me) = (if r = Lock_Waiting then Some tag else None) \<and>
     (r = Lock_Granted \<longrightarrow> holds_mode (table_lock st' tag) me m \<and> (dontWait \<longrightarrow> \<not> contended st tag me m)) \<and>
     (r = Lock_Not_Available \<longrightarrow> contended st tag me m \<and> dontWait \<and> st' = st) \<and>
     (r = Lock_Waiting \<or> r = Lock_Deadlock \<longrightarrow> contended st tag me m \<and> \<not> dontWait) \<and>
     (r = Lock_No_Memory \<longrightarrow> \<not> memory \<and> st' = st) \<and> r \<noteq> Lock_Already_Held"

definition acquired ::
  "lock_state \<Rightarrow> LOCKTAG \<Rightarrow> nat \<Rightarrow> LOCKMODE \<Rightarrow> bool \<Rightarrow> bool \<Rightarrow> (acquire_result \<times> lock_state) option \<Rightarrow> bool" where
  "acquired st tag me m memory dontWait result \<longleftrightarrow>
     (\<exists>r st'. result = Some (r, st') \<and> table_ok st' \<and> answers st tag me m memory dontWait r st')"

lemma acquired_Some [simp]:
  "acquired st tag me m memory dontWait (Some (r, st')) \<longleftrightarrow> table_ok st' \<and> answers st tag me m memory dontWait r st'"
  by (simp add: acquired_def)

lemma grant_holds:
  assumes "find_proclock p lock = Some pl" "mode_ok m"
  shows "holds_mode (GrantLock lock p m) p m"
proof -
  have "pl \<in> set (procLocks lock)" "myProc pl = p" using assms(1) by (auto simp: find_proclock_def find_Some_iff)
  then have "pl\<lparr> holdMask := holdMask pl OR LOCKBIT_ON m \<rparr> \<in> set (procLocks (GrantLock lock p m))"
    by (auto simp: GrantLock_fields update_proclock_def)
  then show ?thesis using \<open>myProc pl = p\<close> mode_less(1) [OF assms(2)] unfolding holds_mode_def
    by (intro bexI) (simp_all add: mask_zero_iff)
qed

lemma ProcSleep_ok:
  assumes ok: "table_ok st" and pending: "pending me m (lock_procs st) tag lock" and pl: "find_proclock me lock = Some pl"
    and waiting: "\<And>q. waitLock (lock_procs st q) = Some tag \<longleftrightarrow> q \<in> set (waitProcs lock)"
    and free: "waitLock (lock_procs st me) = None"
    and reason: "(\<exists>x \<in> set (procLocks lock). blocked_by tag m me (leader_of (lock_procs st) me) x) \<or>
      (\<exists>q \<in> set (waitProcs lock). conflict m (waitLockMode (lock_procs st q)))"
    and contended: "contended st tag me m" and dontWait: "\<not> dontWait"
  shows "acquired st tag me m memory dontWait (ProcSleep me tag m lock pl
    (store_lock tag (Some lock') (lock_procs st) st\<lparr> lock_procs := count_holds me held (lock_procs st) \<rparr>))"
proof -
  let ?procs = "count_holds me held (lock_procs st)"
  let ?st = "store_lock tag (Some lock') (lock_procs st) st\<lparr> lock_procs := ?procs \<rparr>"
  let ?blocked = "\<exists>x \<in> set (procLocks lock). blocked_by tag m me (leader_of (lock_procs st) me) x"
  let ?mine = "group_held_locks ?procs me lock" and ?Q = "waitProcs lock"
  define scan where "scan = (if ?mine \<noteq> 0 \<and> ?Q \<noteq> [] then sleep_scan me ?procs tag m lock pl ?mine ?Q 0 0
    else Some (length ?Q, Sleep_Here))"
  note same = count_holds_same [of "lock_procs st" me held]
  have check: "LockCheckConflicts me ?procs tag m lock pl = Some ?blocked"
    by (rule pending_check [OF pending pl same])
  have modes: "\<forall>q \<in> set ([] @ ?Q). mode_ok (waitLockMode (?procs q))"
  proof
    fix q assume "q \<in> set ([] @ ?Q)"
    then have "(q, waitLockMode (lock_procs st q)) \<in># add_mset (me, m) (reqs_of (lock_procs st) ?Q)" by (simp add: reqs_of_mem)
    then show "mode_ok (waitLockMode (?procs q))"
      using pending unfolding pending_def counts_ok_def by (metis count_holds_simps(1) snd_conv)
  qed
  have none: "\<forall>n. bit (0 :: LOCKMASK) n \<longrightarrow> (\<exists>q \<in> set []. waitLockMode (?procs q) = n)" by simp
  obtain i choice where scan: "scan = Some (i, choice)" "i \<le> length ?Q" "choice = Sleep_Grant \<longrightarrow> \<not> ?blocked"
      "choice = Sleep_Here \<longrightarrow> i = length ?Q \<or> ?blocked \<or> (\<exists>q \<in> set (take i ?Q). conflict m (waitLockMode (?procs q)))"
  proof (cases "?mine \<noteq> 0 \<and> ?Q \<noteq> []")
    case True
    then show ?thesis using that sleep_scan_ok [OF check modes none, of ?mine] by (auto simp: scan_def)
  next
    case False
    have "scan = Some (length ?Q, Sleep_Here)" unfolding scan_def if_not_P [OF False] by (rule refl)
    then show ?thesis using that by simp
  qed
  define procs' where "procs' = update_lock_proc me
    (\<lambda>proc. proc\<lparr> waitLock := Some tag, waitLockMode := m, waitStatus := PROC_WAIT_STATUS_WAITING \<rparr>) ?procs"
  have start: "starts_waiting me tag m (lock_procs st) procs'"
    by (simp add: starts_waiting_def same_groups_def procs'_def update_lock_proc_def)
  have code: "ProcSleep me tag m lock pl ?st =
      (case scan of None \<Rightarrow> None
       | Some (i, Sleep_Grant) \<Rightarrow> Some (Lock_Granted, store_lock tag (Some (GrantLock lock me m)) ?procs st)
       | Some (i, choice) \<Rightarrow>
           if choice = Sleep_Deadlock
           then map_option (Pair Lock_Deadlock) (RemoveFromWaitQueue me me (store_lock tag (Some (linked i me m lock)) procs' st))
           else Some (Lock_Waiting, store_lock tag (Some (linked i me m lock)) procs' st))"
    unfolding ProcSleep_def scan_def [symmetric] procs'_def
    by (simp add: Let_def linked_def scan_def split: option.split sleep_choice.split)
  have at: "only_at tag (lock_procs st) procs'"
    using start free unfolding only_at_def starts_waiting_def by (metis option.distinct(1) option.inject)
  have waiting': "waitLock (procs' q) = Some tag \<longleftrightarrow> q \<in> set (waitProcs (linked i me m lock))" for q
    using start waiting [of q] by (cases "q = me") (auto simp: starts_waiting_def)
  note link = link_base [OF pending start, of i]
  show ?thesis
  proof (cases choice)
    case Sleep_Grant
    have "entry_ok (lock_procs st) tag (GrantLock lock me m)" by (rule pending_grant [OF pending]) (use scan Sleep_Grant in blast)
    then have e: "entry_ok ?procs tag (GrantLock lock me m)" by (rule entry_same_groups [OF _ same]) simp_all
    have "table_ok (store_lock tag (Some (GrantLock lock me m)) ?procs st)"
      by (rule store_ok [OF ok]) (use e waiting same in \<open>auto simp: only_at_def GrantLock_fields\<close>)
    moreover have "holds_mode (GrantLock lock me m) me m"
      using grant_holds [OF pl] pending by (simp add: pending_def counts_ok_def)
    ultimately show ?thesis using code scan(1) Sleep_Grant free dontWait
      by (simp add: answers_def table_lock_def)
  next
    case Sleep_Deadlock
    from RemoveFromWaitQueue_store [OF ok at link waiting', of me me] obtain st' where
      "RemoveFromWaitQueue me me (store_lock tag (Some (linked i me m lock)) procs' st) = Some st'"
      "table_ok st'" "waitLock (lock_procs st' me) = None" by auto
    then show ?thesis using code scan(1) Sleep_Deadlock contended dontWait
      by (simp add: answers_def)
  next
    case Sleep_Here
    have "?blocked \<or> (\<exists>q \<in> set (take i ?Q). conflict m (waitLockMode (lock_procs st q)))"
      using scan(4) Sleep_Here reason by auto
    from link_waits [OF pending start this] have "entry_ok procs' tag (linked i me m lock)"
      using link pending by (simp add: entry_ok_def pending_def)
    then have "table_ok (store_lock tag (Some (linked i me m lock)) procs' st)"
      using waiting' by (intro store_ok [OF ok at]) auto
    then show ?thesis using code scan(1) Sleep_Here start contended dontWait
      by (simp add: answers_def starts_waiting_def)
  qed
qed

section \<open>Acquiring\<close>

lemma table_lock_ok:
  assumes "table_ok st"
  shows "base_ok {} (lock_procs st) tag (table_lock st tag)" "all_wait (lock_procs st) tag (table_lock st tag)"
    "marks_ok (table_lock st tag)" "waitLock (lock_procs st q) = Some tag \<longleftrightarrow> q \<in> set (waitProcs (table_lock st tag))"
proof -
  have "waitLock (lock_procs st q) \<noteq> Some tag" if none: "lock_hash st tag = None"
  proof
    assume "waitLock (lock_procs st q) = Some tag"
    then obtain lock where "lock_hash st tag = Some lock" using assms unfolding table_ok_def by blast
    then show False using none by simp
  qed
  then show "base_ok {} (lock_procs st) tag (table_lock st tag)" "all_wait (lock_procs st) tag (table_lock st tag)"
    "marks_ok (table_lock st tag)" "waitLock (lock_procs st q) = Some tag \<longleftrightarrow> q \<in> set (waitProcs (table_lock st tag))"
    using entry_parts [OF table_entry(1) [OF assms]] table_entry(2) [OF assms] new_lock_base
    by (auto simp: table_lock_def split: option.split)
qed

text \<open>What \<open>SetupLockInTable\<close> leaves when it finds room.\<close>

definition set_up :: "lock_state \<Rightarrow> LOCKTAG \<Rightarrow> nat \<Rightarrow> LOCKMODE \<Rightarrow> LOCK" where
  "set_up st tag me m = with_request m (with_proclock me (leader_of (lock_procs st) me) (table_lock st tag))"

lemma SetupLockInTable_split:
  "SetupLockInTable lock_memory proclock_memory me tag m st =
     (if lock_hash st tag = None \<and> \<not> lock_memory then (Inl Lock_No_Memory, st)
      else if find_proclock me (table_lock st tag) = None \<and> \<not> proclock_memory
      then (Inl Lock_No_Memory,
            store_lock tag (if nRequested (table_lock st tag) = 0 then None else Some (table_lock st tag)) (lock_procs st) st)
      else (if holds_mode (set_up st tag me m) me m then Inl Lock_Already_Held else Inr (set_up st tag me m),
            store_lock tag (Some (set_up st tag me m)) (lock_procs st) st))"
proof -
  have tl: "lock_hash st tag = None \<Longrightarrow> table_lock st tag = new_lock"
    "lock_hash st tag = Some lock \<Longrightarrow> table_lock st tag = lock" for lock
    by (simp_all add: table_lock_def)
  have one: "(case lock_hash st tag of Some lock \<Rightarrow> Some lock | None \<Rightarrow> if lock_memory then Some new_lock else None) =
      (if lock_hash st tag = None \<and> \<not> lock_memory then None else Some (table_lock st tag))"
    using tl by (cases "lock_hash st tag") simp_all
  have two: "(case find_proclock me lock of Some pl \<Rightarrow> Some lock
      | None \<Rightarrow> if proclock_memory
                then Some (lock\<lparr> procLocks := procLocks lock @
                  [\<lparr> myProc = me, groupLeader = leader, holdMask = 0, releaseMask = 0 \<rparr>] \<rparr>) else None) =
      (if find_proclock me lock = None \<and> \<not> proclock_memory then None else Some (with_proclock me leader lock))"
    for lock leader by (cases "find_proclock me lock") (simp_all add: with_proclock_def)
  show ?thesis
    unfolding SetupLockInTable_def one two
    by (cases "lock_hash st tag = None \<and> \<not> lock_memory";
        cases "find_proclock me (table_lock st tag) = None \<and> \<not> proclock_memory")
      (simp_all only: simp_thms if_True if_False option.case Let_def set_up_def with_request_def holds_mode_def
        split: if_split, blast+)
qed

lemma set_up_ok:
  assumes ok: "table_ok st" and me: "waitLock (lock_procs st me) = None" "attached (lock_procs st) me" and m: "mode_ok m"
    and idle: "\<not> holds_mode (table_lock st tag) me m"
  shows "pending me m (lock_procs st) tag (set_up st tag me m)"
    and "\<exists>pl. find_proclock me (set_up st tag me m) = Some pl" "\<not> holds_mode (set_up st tag me m) me m"
proof -
  let ?procs = "lock_procs st" and ?old = "table_lock st tag"
  let ?lock = "with_proclock me (leader_of ?procs me) ?old"
  note old = table_lock_ok [OF ok, where tag = tag]
  note new = with_proclock_ok [OF old(1-3) me(2)]
  have c: "distinct (map myProc (procLocks ?lock))" "distinct (map myProc (procLocks ?old))"
    using new(1) old(1) counts_distinct unfolding base_ok_def lock_ok_def by blast+
  have "\<not> bit (holdMask pl) m" if "find_proclock me ?old = Some pl" for pl
    using idle that mode_less(1) [OF m] unfolding find_proclock_iff [OF c(2)] holds_mode_def by simp
  from find_with_proclock [OF old(1) this] obtain pl where
    pl: "find_proclock me ?lock = Some pl" "\<not> bit (holdMask pl) m" by blast
  have "waitProcs ?lock = waitProcs ?old" by (simp add: with_proclock_def split: option.split)
  then have "me \<notin> set (waitProcs ?lock)" using old(4) [of me] me(1) by auto
  from pending_request [OF new m pl this] show pending: "pending me m ?procs tag (set_up st tag me m)"
    and found: "\<exists>pl. find_proclock me (set_up st tag me m) = Some pl" by (auto simp: set_up_def)
  have same: "procLocks (set_up st tag me m) = procLocks ?lock" by (simp add: set_up_def with_request_def)
  have "x = pl" if "x \<in> set (procLocks ?lock)" "myProc x = me" for x
  proof -
    have "find_proclock me ?lock = Some x" using that find_proclock_iff [OF c(1)] by blast
    then show ?thesis using pl(1) by simp
  qed
  then show "\<not> holds_mode (set_up st tag me m) me m"
    using pl(2) mode_less(1) [OF m] unfolding holds_mode_def same by auto
qed

lemma find_snoc: "\<forall>x \<in> set xs. myProc x \<noteq> p \<Longrightarrow> find (\<lambda>x. myProc x = p) (xs @ [y]) = (if myProc y = p then Some y else None)"
  by (induction xs) auto

text \<open>The request of a process that does not wait for it is undone without a trace.\<close>

lemma undo_request:
  assumes ok: "table_ok st" and me: "waitLock (lock_procs st me) = None" and m: "mode_ok m"
    and pl: "find_proclock me (set_up st tag me m) = Some pl"
    and dropped: "lock = (if holdMask pl = 0
      then (set_up st tag me m)\<lparr> procLocks := filter (\<lambda>x. myProc x \<noteq> me) (procLocks (set_up st tag me m)) \<rparr>
      else set_up st tag me m)"
  shows "lock\<lparr> nRequested := nRequested lock - 1, requested := (requested lock)[m := requested lock ! m - 1] \<rparr> = table_lock st tag"
proof -
  let ?old = "table_lock st tag"
  note old = table_lock_ok [OF ok, where tag = tag]
  have c: "counts_ok (leader_of (lock_procs st)) (reqs_of (lock_procs st) (waitProcs ?old)) ?old"
    using old(1) by (simp add: base_ok_def lock_ok_def)
  have len: "m < length (requested ?old)" using c mode_less(2) [OF m] by (simp add: counts_ok_def)
  have undo: "(with_request m old)\<lparr> procLocks := pls, nRequested := nRequested (with_request m old) - 1,
      requested := (requested (with_request m old))[m := requested (with_request m old) ! m - 1] \<rparr> = old\<lparr> procLocks := pls \<rparr>"
    if "m < length (requested old)" for old pls using that by (cases old) (simp add: with_request_def)
  have keep: "old\<lparr> procLocks := procLocks old \<rparr> = old" for old :: LOCK by (cases old) simp
  have me': "me \<notin> set (waitProcs ?old)" using old(4) [of me] me by auto
  have procs: "procLocks (set_up st tag me m) = procLocks (with_proclock me (leader_of (lock_procs st) me) ?old)"
    by (simp add: set_up_def with_request_def)
  show ?thesis
  proof (cases "find_proclock me ?old")
    case None
    have pls: "procLocks (set_up st tag me m) = procLocks ?old @
        [\<lparr> myProc = me, groupLeader = leader_of (lock_procs st) me, holdMask = 0, releaseMask = 0 \<rparr>]"
      using None by (simp add: procs with_proclock_def)
    have others: "\<forall>x \<in> set (procLocks ?old). myProc x \<noteq> me" using None by (simp add: find_proclock_None)
    have "find_proclock me (set_up st tag me m) =
        Some \<lparr> myProc = me, groupLeader = leader_of (lock_procs st) me, holdMask = 0, releaseMask = 0 \<rparr>"
      unfolding find_proclock_def pls using others by (simp add: find_snoc)
    then have "holdMask pl = 0" using pl by simp
    then have lock: "lock = (set_up st tag me m)\<lparr> procLocks := procLocks ?old \<rparr>"
      using dropped others by (simp add: pls)
    show ?thesis
      using None len unfolding lock by (cases ?old) (simp add: set_up_def with_request_def with_proclock_def)
  next
    case (Some x)
    have same: "set_up st tag me m = with_request m ?old" using Some by (simp add: set_up_def with_proclock_def)
    have "x = pl" using pl Some by (simp add: same find_proclock_def with_request_def)
    then have "pl \<in> set (procLocks ?old)" "myProc pl = me" using Some find_proclock_iff [OF counts_distinct [OF c]] by auto
    then have "holdMask pl \<noteq> 0" using old(1) me' by (auto simp: base_ok_def no_idle_def)
    then have lock: "lock = with_request m ?old" using dropped same by simp
    show ?thesis using len unfolding lock by (cases ?old) (simp add: with_request_def)
  qed
qed

lemma conflict_exists:
  assumes "lock_hash st tag = None"
  shows "\<not> ((\<exists>x \<in> set (procLocks (set_up st tag me m)). blocked_by tag m me l x) \<or> (\<exists>q \<in> set (waitProcs (set_up st tag me m)). P q))"
  using assms
  by (simp add: set_up_def with_request_def with_proclock_def table_lock_def new_lock_def find_proclock_def blocked_by_def)

lemma contended_set_up:
  "contended st tag me m \<longleftrightarrow>
     (\<exists>x \<in> set (procLocks (set_up st tag me m)). blocked_by tag m me (leader_of (lock_procs st) me) x) \<or>
     (\<exists>q \<in> set (waitProcs (set_up st tag me m)). conflict m (waitLockMode (lock_procs st q)))"
  by (simp add: contended_def set_up_def with_request_def with_proclock_def blocked_by_def split: option.split)

theorem LockAcquire_ok:
  assumes ok: "table_ok st" and me: "waitLock (lock_procs st me) = None" "attached (lock_procs st) me" and m: "mode_ok m"
    and idle: "\<not> holds_mode (table_lock st tag) me m"
  shows "acquired st tag me m (lock_memory \<and> proclock_memory) dontWait
    (LockAcquire lock_memory proclock_memory me tag m dontWait st)"
proof -
  let ?procs = "lock_procs st" and ?lock = "set_up st tag me m"
  note ready = set_up_ok [OF ok me m idle]
  have no_memory: "acquired st tag me m (lock_memory \<and> proclock_memory) dontWait (Some (Lock_No_Memory, st))"
    if "\<not> (lock_memory \<and> proclock_memory)" using ok me(1) that by (auto simp: acquired_def answers_def)
  have old: "(if nRequested (table_lock st tag) = 0 then None else Some (table_lock st tag)) = lock_hash st tag"
  proof (cases "lock_hash st tag")
    case (Some lock)
    then show ?thesis using table_entry(1) [OF ok Some] by (simp add: table_lock_def entry_ok_def)
  qed (simp add: table_lock_def new_lock_base)
  have room_found: "SetupLockInTable lock_memory proclock_memory me tag m st = (Inr ?lock, store_lock tag (Some ?lock) ?procs st)"
    if "\<not> (lock_hash st tag = None \<and> \<not> lock_memory)" "\<not> (find_proclock me (table_lock st tag) = None \<and> \<not> proclock_memory)"
    unfolding SetupLockInTable_split if_not_P [OF that(1)] if_not_P [OF that(2)] if_not_P [OF ready(3)] by (rule refl)
  consider (no_lock) "lock_hash st tag = None \<and> \<not> lock_memory"
    | (no_proclock) "\<not> (lock_hash st tag = None \<and> \<not> lock_memory)" "find_proclock me (table_lock st tag) = None \<and> \<not> proclock_memory"
    | (room) "SetupLockInTable lock_memory proclock_memory me tag m st = (Inr ?lock, store_lock tag (Some ?lock) ?procs st)"
    using room_found by blast
  then show ?thesis
  proof cases
    case no_lock
    then show ?thesis using no_memory by (simp add: LockAcquire_def SetupLockInTable_split)
  next
    case no_proclock
    then have "SetupLockInTable lock_memory proclock_memory me tag m st = (Inl Lock_No_Memory, st)"
      unfolding SetupLockInTable_split old by simp
    then show ?thesis using no_memory no_proclock by (simp add: LockAcquire_def)
  next
    case room
    obtain pl where pl: "find_proclock me ?lock = Some pl" using ready(2) by blast
    let ?blocked = "\<exists>x \<in> set (procLocks ?lock). blocked_by tag m me (leader_of ?procs me) x"
    let ?ahead = "\<exists>q \<in> set (waitProcs ?lock). conflict m (waitLockMode (?procs q))"
    have "conflictTab m AND waitMask ?lock \<noteq> 0 \<longleftrightarrow> ?ahead"
      using ready(1) by (auto simp: conflict_mask_iff pending_def queue_ok_def)
    moreover have "LockCheckConflicts me ?procs tag m ?lock pl = Some ?blocked"
      by (rule pending_check [OF ready(1) pl]) (simp add: same_groups_def)
    ultimately have test: "(if conflictTab m AND waitMask ?lock \<noteq> 0 then Some True else LockCheckConflicts me ?procs tag m ?lock pl) =
        Some (?blocked \<or> ?ahead)" by auto
    have waiting: "waitLock (?procs q) = Some tag \<longleftrightarrow> q \<in> set (waitProcs ?lock)" for q
      using table_lock_ok(4) [OF ok]
      by (simp add: set_up_def with_request_def with_proclock_def split: option.split)
    have contended: "contended st tag me m \<longleftrightarrow> ?blocked \<or> ?ahead" by (simp add: contended_set_up)
    show ?thesis
    proof (cases "?blocked \<or> ?ahead")
      case False
      then have "entry_ok ?procs tag (GrantLock ?lock me m)" by (intro pending_grant [OF ready(1)]) blast
      then have "table_ok (store_lock tag (Some (GrantLock ?lock me m)) ?procs st)"
        by (intro store_ok [OF ok]) (auto simp: GrantLock_fields waiting)
      moreover have "LockAcquire lock_memory proclock_memory me tag m dontWait st =
          Some (Lock_Granted, store_lock tag (Some (GrantLock ?lock me m)) ?procs st)"
        unfolding LockAcquire_def room prod.case sum.case pl option.case store_lock_simps test using False by simp
      moreover have "holds_mode (GrantLock ?lock me m) me m" by (rule grant_holds [OF pl m])
      ultimately show ?thesis using me(1) False contended
        by (simp add: answers_def table_lock_def)
    next
      case True
      define lock2 where "lock2 = (if holdMask pl = 0
        then ?lock\<lparr> procLocks := filter (\<lambda>x. myProc x \<noteq> me) (procLocks ?lock) \<rparr> else ?lock)"
      define lock3 where "lock3 = lock2\<lparr> nRequested := nRequested lock2 - 1,
        requested := (requested lock2)[m := requested lock2 ! m - 1] \<rparr>"
      have code: "LockAcquire lock_memory proclock_memory me tag m dontWait st =
          (if dontWait then Some (Lock_Not_Available, store_lock tag (Some lock3) ?procs st)
           else ProcSleep me tag m ?lock pl
             (store_lock tag (Some ?lock) ?procs st\<lparr> lock_procs := count_holds me (holdMask pl) ?procs \<rparr>))"
        unfolding LockAcquire_def room prod.case sum.case pl option.case store_lock_simps test lock3_def lock2_def count_holds_def
        using True by (simp add: Let_def)
      show ?thesis
      proof (cases dontWait)
        case dont: True
        have "lock3 = table_lock st tag" unfolding lock3_def by (rule undo_request [OF ok me(1) m pl]) (simp only: lock2_def)
        moreover have "lock_hash st tag \<noteq> None" using conflict_exists True by blast
        ultimately have "lock_hash st tag = Some lock3" by (auto simp: table_lock_def)
        then show ?thesis using code dont ok me(1) contended True
          by (simp add: answers_def)
      next
        case wait: False
        show ?thesis unfolding code if_not_P [OF wait]
          by (rule ProcSleep_ok [OF ok ready(1) pl waiting me(1) True _ wait]) (use contended True in blast)
      qed
    qed
  qed
qed

end
