(* ===== verification/Lock_Props.thy ===== *)
theory Lock_Props
  imports Lock_Acquire_Ok
begin

unbundle bit_operations_syntax

text \<open>
  The steps of the backends on the lock table and what they guarantee: holders never conflict, no waiter
  could have been granted its lock, the counters agree with the holders and waiters, and no operation stops.
\<close>

section \<open>Steps\<close>

text \<open>A process takes a step of its own while it does not sleep and has not left its group.\<close>

definition running :: "lock_state \<Rightarrow> nat \<Rightarrow> bool" where
  "running st p \<longleftrightarrow> waitLock (lock_procs st p) = None \<and> attached (lock_procs st) p"

inductive lock_step :: "lock_state \<Rightarrow> lock_state \<Rightarrow> bool" where
  acquire: "running st me \<Longrightarrow> mode_ok m \<Longrightarrow> \<not> holds_mode (table_lock st tag) me m \<Longrightarrow>
    LockAcquire lock_memory proclock_memory me tag m dontWait st = Some (r, st') \<Longrightarrow> lock_step st st'"
| release: "running st me \<Longrightarrow> mode_ok m \<Longrightarrow> lock_hash st tag = Some lock \<Longrightarrow> find_proclock me lock = Some pl \<Longrightarrow>
    \<not> bit (releaseMask pl) m \<Longrightarrow> LockRelease me tag m st = Some (released, st') \<Longrightarrow> lock_step st st'"
| mark: "running st me \<Longrightarrow> mode_ok m \<Longrightarrow> lock_hash st tag = Some lock \<Longrightarrow> find_proclock me lock = Some pl \<Longrightarrow>
    bit (holdMask pl) m \<Longrightarrow> lock_step st (mark_release me tag m st)"
| release_all: "running st me \<Longrightarrow> LockReleaseAll_turn me allLocks tag st = Some st' \<Longrightarrow> lock_step st st'"
| give_up: "waitLock (lock_procs st p) = Some tag \<Longrightarrow> RemoveFromWaitQueue me p st = Some st' \<Longrightarrow> lock_step st st'"
| reorder: "lock_hash st tag = Some lock \<Longrightarrow> mset queue = mset (waitProcs lock) \<Longrightarrow>
    reorder_waiters me tag queue st = Some st' \<Longrightarrow> lock_step st st'"
| lead: "lockGroupLeader (lock_procs st me) \<in> {None, Some me} \<Longrightarrow>
    lock_step st (st\<lparr> lock_procs := BecomeLockGroupLeader me (lock_procs st) \<rparr>)"
| join: "\<not> uses st me \<Longrightarrow> lockGroupLeader (lock_procs st me) = None \<Longrightarrow> leader \<noteq> me \<Longrightarrow>
    lock_step st (st\<lparr> lock_procs := snd (BecomeLockGroupMember me leader pid (lock_procs st)) \<rparr>)"
| leave: "running st me \<Longrightarrow> \<not> uses st me \<Longrightarrow> lock_step st (st\<lparr> lock_procs := snd (LeaveLockGroup me (lock_procs st)) \<rparr>)"

definition lock_start :: "lock_state \<Rightarrow> bool" where
  "lock_start st \<longleftrightarrow> (\<forall>tag. lock_hash st tag = None) \<and> (\<forall>p. waitLock (lock_procs st p) = None)"

inductive lock_reachable :: "lock_state \<Rightarrow> bool" where
  start: "lock_start st \<Longrightarrow> lock_reachable st"
| step: "lock_reachable st \<Longrightarrow> lock_step st st' \<Longrightarrow> lock_reachable st'"

lemma lock_step_ok: "lock_step st st' \<Longrightarrow> table_ok st \<Longrightarrow> table_ok st'"
proof (induction rule: lock_step.induct)
  case (acquire st me m tag lock_memory proclock_memory dontWait r st')
  then show ?case
    using LockAcquire_ok [of st me m tag lock_memory proclock_memory dontWait] by (auto simp: acquired_def running_def)
next
  case (release st me m tag lock pl released st')
  then show ?case using LockRelease_ok [of st me m tag lock pl] by (auto simp: running_def)
next
  case (release_all st me allLocks tag st')
  then obtain lock pl where "lock_hash st tag = Some lock" "find_proclock me lock = Some pl"
    by (auto simp: LockReleaseAll_turn_def split: option.splits)
  then show ?case using release_all LockReleaseAll_turn_ok [of st me tag lock pl allLocks] by (auto simp: running_def)
next
  case (give_up st p tag me st')
  then show ?case using RemoveFromWaitQueue_ok [of st p tag me] by auto
next
  case (reorder st tag lock queue me st')
  then show ?case using reorder_waiters_ok [of st tag lock queue me] by auto
next
  case (mark st me m tag lock pl)
  then show ?case by (intro mark_release_ok)
next
  case (lead st me)
  then show ?case by (intro BecomeLockGroupLeader_ok)
next
  case (join st me leader pid)
  then show ?case by (intro BecomeLockGroupMember_ok)
next
  case (leave st me)
  then show ?case by (intro LeaveLockGroup_ok) (simp_all add: running_def)
qed

lemma lock_reachable_ok: "lock_reachable st \<Longrightarrow> table_ok st"
proof (induction rule: lock_reachable.induct)
  case (start st)
  then show ?case by (simp add: lock_start_def table_ok_def)
next
  case (step st st')
  then show ?case by (blast intro: lock_step_ok)
qed

lemma modes_conflict: "mode_ok n \<Longrightarrow> DoLockModesConflict m n \<longleftrightarrow> conflict m n"
  by (simp add: DoLockModesConflict_def conflict_def mode_less(1))

lemma entry_modes:
  assumes "entry_ok procs tag lock" "x \<in> set (procLocks lock)"
  shows "bit (holdMask x) n \<Longrightarrow> mode_ok n" "groupLeader x = leader_of procs (myProc x)"
  using assms entry_parts(4) [OF assms(1)] by (auto simp: counts_ok_def grants_ok_def mode_mask_def)

section \<open>An example\<close>

definition example_tag :: LOCKTAG where
  "example_tag = \<lparr> locktag_field1 = 5, locktag_field2 = 16384, locktag_field3 = 0, locktag_field4 = 0,
     locktag_type = LOCKTAG_RELATION, locktag_lockmethodid = 1 \<rparr>"

definition example_start :: lock_state where
  "example_start = \<lparr> lock_hash = (\<lambda>_. None), lock_procs = (\<lambda>p. \<lparr> lockGroupLeader = None, lockGroupMembers = [], waitLock = None,
     waitLockMode = 0, heldLocks = 0, waitStatus = PROC_WAIT_STATUS_OK, is_autovacuum = False, lock_pid = int p \<rparr>) \<rparr>"

text \<open>Process 1 holds \<open>ShareLock\<close>; process 2 waits for \<open>RowExclusiveLock\<close>.\<close>

definition example_held :: lock_state where
  "example_held = snd (the (LockAcquire True True 1 example_tag ShareLock False example_start))"

definition example_waiting :: lock_state where
  "example_waiting = snd (the (LockAcquire True True 2 example_tag RowExclusiveLock False example_held))"

definition example_lock :: LOCK where "example_lock = the (lock_hash example_waiting example_tag)"

lemma example_acquires:
  "map_option fst (LockAcquire True True 1 example_tag ShareLock False example_start) = Some Lock_Granted"
  "map_option fst (LockAcquire True True 2 example_tag RowExclusiveLock False example_held) = Some Lock_Waiting"
  "\<not> holds_mode (table_lock example_start example_tag) 1 ShareLock"
  "\<not> holds_mode (table_lock example_held example_tag) 2 RowExclusiveLock"
  "waitLock (lock_procs example_held 2) = None" "lockGroupLeader (lock_procs example_held 2) = None"
  by code_simp+

lemma example_table:
  "map_option waitProcs (lock_hash example_waiting example_tag) = Some [2]"
  "map_option (map (\<lambda>x. (myProc x, groupLeader x, holdMask x))) (map_option procLocks (lock_hash example_waiting example_tag)) =
     Some [(1, 1, LOCKBIT_ON ShareLock), (2, 2, 0)]"
  "waitLockMode (lock_procs example_waiting 2) = RowExclusiveLock"
  by code_simp+

lemma example_reachable: "lock_reachable example_held" "lock_reachable example_waiting"
proof -
  have "lock_reachable example_start" by (rule lock_reachable.start) (simp add: lock_start_def example_start_def)
  moreover have "lock_step example_start example_held"
  proof (rule lock_step.acquire)
    show "running example_start 1" by (simp add: running_def attached_def example_start_def)
    show "mode_ok ShareLock" by code_simp
    show "\<not> holds_mode (table_lock example_start example_tag) 1 ShareLock" by (rule example_acquires(3))
    show "LockAcquire True True 1 example_tag ShareLock False example_start = Some (Lock_Granted, example_held)"
      using example_acquires(1) by (auto simp: example_held_def)
  qed
  ultimately show held: "lock_reachable example_held" by (rule lock_reachable.step)
  have "lock_step example_held example_waiting"
  proof (rule lock_step.acquire)
    show "running example_held 2" using example_acquires(5,6) by (simp add: running_def attached_def)
    show "mode_ok RowExclusiveLock" by code_simp
    show "\<not> holds_mode (table_lock example_held example_tag) 2 RowExclusiveLock" by (rule example_acquires(4))
    show "LockAcquire True True 2 example_tag RowExclusiveLock False example_held = Some (Lock_Waiting, example_waiting)"
      using example_acquires(2) by (auto simp: example_waiting_def)
  qed
  with held show "lock_reachable example_waiting" by (rule lock_reachable.step)
qed

lemma example_lock:
  "lock_hash example_waiting example_tag = Some example_lock" "waitProcs example_lock = [2]"
  "\<exists>pl \<in> set (procLocks example_lock). myProc pl = 1 \<and> groupLeader pl = 1 \<and> bit (holdMask pl) ShareLock"
  "\<exists>pl. find_proclock 2 example_lock = Some pl"
proof -
  show lock: "lock_hash example_waiting example_tag = Some example_lock"
    using example_table(1) by (auto simp: example_lock_def)
  show "waitProcs example_lock = [2]" using example_table(1) lock by simp
  have pls: "map (\<lambda>x. (myProc x, groupLeader x, holdMask x)) (procLocks example_lock) = [(1, 1, LOCKBIT_ON ShareLock), (2, 2, 0)]"
    using example_table(2) lock by simp
  then obtain a b where "procLocks example_lock = [a, b]" "myProc a = 1" "groupLeader a = 1" "holdMask a = LOCKBIT_ON ShareLock"
    "myProc b = 2" by auto
  then show "\<exists>pl \<in> set (procLocks example_lock). myProc pl = 1 \<and> groupLeader pl = 1 \<and> bit (holdMask pl) ShareLock"
    "\<exists>pl. find_proclock 2 example_lock = Some pl"
    by (auto simp: ShareLock_def find_proclock_def)
qed

section \<open>Properties\<close>

text \<open>
  C5: Two processes never hold conflicting modes of a lock at the same time, unless they belong to the same
  lock group (and even then not on a relation extension lock), in every state that acquiring, releasing,
  giving up, reordering by the deadlock detector and group changes can reach.
\<close>

theorem holders_never_conflict:
  assumes "lock_reachable st" "lock_hash st tag = Some lock"
    and "a \<in> set (procLocks lock)" "b \<in> set (procLocks lock)" "myProc a \<noteq> myProc b"
    and "locktag_type tag = LOCKTAG_RELATION_EXTEND \<or> leader_of (lock_procs st) (myProc a) \<noteq> leader_of (lock_procs st) (myProc b)"
    and "bit (holdMask a) m" "bit (holdMask b) n"
  shows "\<not> DoLockModesConflict m n"
proof -
  have e: "entry_ok (lock_procs st) tag lock" using lock_reachable_ok [OF assms(1)] assms(2) by (simp add: table_ok_def)
  have "\<not> blocked_by tag m (myProc a) (groupLeader a) b"
    using entry_parts(3) [OF e] assms(3,4,7) by (simp add: compatible_def)
  then have "\<not> conflict m n"
    using assms(5,6,8) entry_modes(2) [OF e assms(3)] entry_modes(2) [OF e assms(4)]
    by (auto simp: blocked_by_def conflict_mask_iff)
  then show ?thesis using modes_conflict [OF entry_modes(1) [OF e assms(4,8)]] by simp
qed

lemma holders_never_conflict_witness:
  "\<exists>a \<in> set (procLocks example_lock). \<exists>b \<in> set (procLocks example_lock). bit (holdMask a) ShareLock \<and>
     (\<forall>n. myProc b \<noteq> myProc a \<and> bit (holdMask b) n \<longrightarrow>
        leader_of (lock_procs example_waiting) (myProc a) \<noteq> leader_of (lock_procs example_waiting) (myProc b) \<longrightarrow>
        \<not> DoLockModesConflict ShareLock n)"
  using example_lock(3) holders_never_conflict [OF example_reachable(2) example_lock(1)] by metis

text \<open>
  C6: No wakeup is lost: a process that waits conflicts with the request of a process ahead of it in the
  queue, or with a mode that a process outside its group holds.
\<close>

theorem waiters_have_to_wait:
  assumes "lock_reachable st" "lock_hash st tag = Some lock" "waitProcs lock = ahead @ p # behind"
  shows "(\<exists>q \<in> set ahead. DoLockModesConflict (waitLockMode (lock_procs st p)) (waitLockMode (lock_procs st q))) \<or>
    (\<exists>x \<in> set (procLocks lock). \<exists>n. myProc x \<noteq> p \<and> bit (holdMask x) n \<and>
       (locktag_type tag = LOCKTAG_RELATION_EXTEND \<or>
          leader_of (lock_procs st) (myProc x) \<noteq> leader_of (lock_procs st) p) \<and>
       DoLockModesConflict (waitLockMode (lock_procs st p)) n)"
proof -
  have e: "entry_ok (lock_procs st) tag lock" using lock_reachable_ok [OF assms(1)] assms(2) by (simp add: table_ok_def)
  note l = entry_parts(2) [OF e]
  have modes: "mode_ok (waitLockMode (lock_procs st q))" if "q \<in> set (waitProcs lock)" for q
    by (rule waiter_proclock(1) [OF l that])
  have "waits (lock_procs st) tag lock ahead p" using entry_parts(6) [OF e] assms(3) by (simp add: queue_waits_def)
  then show ?thesis
    using modes assms(3) entry_modes [OF e]
    unfolding waits_def blocked_by_def conflict_mask_iff by (fastforce simp: modes_conflict)
qed

lemma waiters_have_to_wait_witness:
  "\<exists>x \<in> set (procLocks example_lock). \<exists>n. myProc x \<noteq> 2 \<and> bit (holdMask x) n \<and> DoLockModesConflict RowExclusiveLock n"
  using waiters_have_to_wait [OF example_reachable(2) example_lock(1), of "[]" 2 "[]"] example_lock(2) example_table(3) by auto

text \<open>
  C11: \<open>LockCheckConflicts\<close>, which works by counting, finds a conflict exactly when some process outside the
  group (any other process, for a relation extension lock) holds a conflicting mode, and never stops.
\<close>

theorem LockCheckConflicts_exact:
  assumes "lock_reachable st" "lock_hash st tag = Some lock" "find_proclock p lock = Some pl" "mode_ok m"
  shows "LockCheckConflicts me (lock_procs st) tag m lock pl =
    Some (\<exists>x \<in> set (procLocks lock). myProc x \<noteq> p \<and>
      (locktag_type tag = LOCKTAG_RELATION_EXTEND \<or> leader_of (lock_procs st) (myProc x) \<noteq> leader_of (lock_procs st) p) \<and>
      (\<exists>n. bit (holdMask x) n \<and> DoLockModesConflict m n))"
proof -
  have e: "entry_ok (lock_procs st) tag lock" using lock_reachable_ok [OF assms(1)] assms(2) by (simp add: table_ok_def)
  have att: "\<forall>x \<in> set (procLocks lock). attached (lock_procs st) (myProc x)" using entry_parts(2) [OF e] by (simp add: lock_ok_def)
  have "blocked_by tag m p (leader_of (lock_procs st) p) x \<longleftrightarrow> myProc x \<noteq> p \<and>
      (locktag_type tag = LOCKTAG_RELATION_EXTEND \<or> leader_of (lock_procs st) (myProc x) \<noteq> leader_of (lock_procs st) p) \<and>
      (\<exists>n. bit (holdMask x) n \<and> DoLockModesConflict m n)" if "x \<in> set (procLocks lock)" for x
    using entry_modes [OF e that] by (auto simp: blocked_by_def conflict_mask_iff modes_conflict)
  then show ?thesis using check_conflicts [OF att entry_parts(4) [OF e] assms(4,3), of me tag] by simp
qed

lemma LockCheckConflicts_exact_witness:
  "\<exists>pl. find_proclock 2 example_lock = Some pl \<and>
     (\<exists>blocked. LockCheckConflicts 2 (lock_procs example_waiting) example_tag AccessShareLock example_lock pl = Some blocked)"
proof -
  have "mode_ok AccessShareLock" by code_simp
  then show ?thesis using example_lock(4) LockCheckConflicts_exact [OF example_reachable(2) example_lock(1)] by blast
qed

text \<open>
  The counters of a lock are the numbers of its holders and of its holders and waiters, and the lock is in
  the table only while somebody requests it.
\<close>

theorem lock_counters_agree:
  assumes "lock_reachable st" "lock_hash st tag = Some lock" "mode_ok m"
  shows "granted lock ! m = int (length (filter (\<lambda>x. bit (holdMask x) m) (procLocks lock))) \<and>
    requested lock ! m = granted lock ! m + int (length (filter (\<lambda>p. waitLockMode (lock_procs st p) = m) (waitProcs lock))) \<and>
    0 < nRequested lock"
proof -
  have e: "entry_ok (lock_procs st) tag lock" using lock_reachable_ok [OF assms(1)] assms(2) by (simp add: table_ok_def)
  have "count (image_mset snd (reqs_of procs ps)) m = length (filter (\<lambda>p. waitLockMode (procs p) = m) ps)" for procs ps
    by (induction ps) auto
  then show ?thesis
    using e entry_parts(4) [OF e] assms(3) by (simp add: entry_ok_def counts_ok_def grants_ok_def count_hold_def)
qed

lemma lock_counters_agree_witness: "0 < nRequested example_lock"
proof -
  have "mode_ok ShareLock" by code_simp
  from lock_counters_agree [OF example_reachable(2) example_lock(1) this] show ?thesis by blast
qed



end
