(* ===== verification/Spec2Isabelle.thy ===== *)
theory Spec2Isabelle
  imports Visibility_Props Commit_Log_Props Sub_Trans_Props Xact_State Known_Assigned_Refine Proc_Props Block_Props
    Horizon_Props Horizon_Running Reorder_Props Lock_Props
begin

text \<open>
  A verification development for the transaction core of PostgreSQL 15.6, the C code of this
  repository. The sources are under \<^verbatim>\<open>src/postgresql-15.6/postgresql-15.6/src\<close>, the complete one of
  two copies; paths below are relative to it. This theory gathers the others and documents them.

  \<^bold>\<open>The parts and how they interact.\<close> Every transaction that writes has an xid. A backend asks for
  one (\<^verbatim>\<open>backend/access/transam/varsup.c\<close>), shows it in the shared process array
  (\<^verbatim>\<open>backend/storage/ipc/procarray.c\<close>), puts it into the headers of the tuples it inserts and
  deletes, and at its end records the outcome of itself and of its subtransactions in the commit
  log (\<^verbatim>\<open>clog.c\<close>, \<^verbatim>\<open>transam.c\<close>; the parents of subtransactions are in \<^verbatim>\<open>subtrans.c\<close>) before it leaves the
  array. A reader takes a snapshot of the array and judges each tuple by its header, the snapshot,
  the array and the two logs (\<^verbatim>\<open>backend/access/heap/heapam_visibility.c\<close>). VACUUM removes what no
  snapshot can see any more, by horizons computed from the array. On a standby, an array of
  known-assigned xids takes the place of the running processes. The block state machine
  (\<^verbatim>\<open>xact.c\<close>) decides when transactions and subtransactions start and end, and logical decoding
  replays the changes of a finished transaction in the order of the log (\<^verbatim>\<open>reorderbuffer.c\<close>). Beside
  visibility, transactions are kept apart by heavyweight locks, which they hold to their end
  (\<^verbatim>\<open>backend/storage/lmgr/lock.c\<close>, \<^verbatim>\<open>proc.c\<close>).

  \<^bold>\<open>Foundations.\<close>
  \<^item> \<open>Pg_Prelude\<close>: machine types, lemmas on words and lists, the shared collections of rules.
  \<^item> \<open>Xid_Arith\<close>: xids modulo \<open>2 ^ 32\<close> and full xids (\<^verbatim>\<open>transam.h\<close>, \<^verbatim>\<open>transam.c\<close>, \<^verbatim>\<open>xid.c\<close>). Comparison is by
    signed difference, so it orders only xids within half the space of each other; \<open>xid_window b\<close>
    is the half that starts at \<open>b\<close>, and most results assume that the xids in use lie in one such
    window, which the wraparound limits of the server ensure.
  \<^item> \<open>Bin_Search\<close>: the one binary search that several files contain, over any order (\<open>search_order\<close>).
  \<^item> \<open>Item_Pointer\<close>, \<open>Heap_Tuple\<close>, \<open>Combo_Cid\<close>: tuple identifiers, the visibility fields of the tuple
    header, and combo command ids (\<^verbatim>\<open>itemptr.c\<close>, \<^verbatim>\<open>htup_details.h\<close>, \<^verbatim>\<open>combocid.c\<close>).

  \<^bold>\<open>Tuple visibility.\<close>
  \<^item> \<open>Snapshot\<close>: snapshots, \<open>XidInMVCCSnapshot\<close> and the approximate horizons (\<^verbatim>\<open>snapmgr.c\<close>, \<^verbatim>\<open>procarray.c\<close>).
  \<^item> \<open>Visibility\<close>, \<open>Visibility_MVCC\<close>: all routines of \<^verbatim>\<open>heapam_visibility.c\<close>, with multixacts as far as they
    are consulted. They read the transaction system through a record of functions, and return the
    tuple with the hint bits they set; \<open>None\<close> is an error or an assertion.
  \<^item> \<open>Visibility_Spec\<close>: who sees a tuple, said without hint bits. \<open>Visibility_Correct\<close> and
    \<open>Visibility_Results\<close> prove each routine against it, over any transaction system that keeps the
    contract \<open>transaction_manager\<close>; \<open>Visibility_Props\<close> states the results and that hint bits stay right.

  \<^bold>\<open>The transaction logs.\<close>
  \<^item> \<open>Xid_Store\<close>: the interface of a log, a value for each xid. \<open>Commit_Log\<close>, \<open>Commit_Log_Props\<close>: statuses
    packed four to a byte, and the marking of a tree over several pages. \<open>Sub_Trans\<close>,
    \<open>Sub_Trans_Props\<close>: parents, the search for the topmost one, and the status queries with their cache.
    Pages are taken as resident.

  \<^bold>\<open>The process array.\<close>
  \<^item> \<open>Proc_Array\<close>, \<open>Proc_Array_Inv\<close>, \<open>Proc_Steps\<close>: the array, its mirrors, and the steps of the backends on it;
    \<open>mirror_ok\<close> is the invariant.
  \<^item> \<open>Known_Assigned\<close>, \<open>Known_Assigned_Props\<close>, \<open>Known_Assigned_Refine\<close>: the array of a standby, a
    refinement of a sorted list.
  \<^item> \<open>Proc_Snapshot\<close>, \<open>Backend_View\<close>, \<open>Snapshot_Props\<close>, \<open>Snapshot_Safe\<close>, \<open>Proc_Props\<close>: \<open>TransactionIdIsInProgress\<close> and
    \<open>GetSnapshotData\<close>. \<open>Backend_View\<close> shows that what a backend reads keeps the contract of
    \<open>transaction_manager\<close>, which joins the visibility results to this part.
  \<^item> \<open>Horizons\<close>, \<open>Horizons_Bounds\<close>: \<open>ComputeXidHorizons\<close>, the choice of the horizon for a relation,
    imported xmins and the record of running transactions. \<open>Horizon_Steps\<close> has the runs of the
    array between the computation of a horizon and its use; \<open>Horizon_Props\<close> and \<open>Horizon_Running\<close> have the
    properties. In \<open>horizon_step\<close> a prepared transaction joins with the xid of the process that
    prepared it, flags are set before an xid is assigned, and no snapshot is imported while a
    process is in logical decoding.

  \<^bold>\<open>Transaction blocks.\<close>
  \<^item> \<open>Xact_State\<close>: which xids are the backend's own. \<open>Xact_Block\<close>, \<open>Xact_Command\<close>: the stack of levels and
    the routines of \<^verbatim>\<open>xact.c\<close> that start, commit, abort and clean up a level, the commands that
    change block states and the routines that act on them. Calls into other modules that may raise
    an error consult the list \<open>faults\<close>, so a result for all lists holds wherever errors strike; when
    the list is used up no more errors are raised.
  \<^item> \<open>Xact_Session\<close>: transaction commands, query messages and the recovery after an error (\<^verbatim>\<open>utility.c\<close>,
    \<^verbatim>\<open>postgres.c\<close>); \<open>Xact_Exception\<close>: exception blocks (\<^verbatim>\<open>pl_exec.c\<close>).
  \<^item> \<open>Xact_Shape\<close>, \<open>Xact_Moves\<close>, \<open>Xact_Views\<close>, \<open>Xact_Views_Commands\<close>, \<open>Xact_Savepoints\<close>, \<open>Xact_Commands_Complete\<close>,
    \<open>Xact_Queries\<close>, \<open>Xact_Session_Props\<close>, \<open>Block_Props\<close>: the abstract specification is the view a client
    has (idle, in a block with savepoints, failed, ...); each command is proved to reach the view
    promised, and sessions are runs of these. The savepoints of one block are bounded by the
    counter of subtransaction ids, whose overflow is an error of the model too.

  \<^bold>\<open>Replay of changes.\<close>
  \<^item> \<open>Binary_Heap\<close>, \<open>Binary_Heap_Order\<close>: the heap of \<^verbatim>\<open>backend/lib/binaryheap.c\<close> over any comparator that is a
    total preorder (\<open>heap_order\<close>).
  \<^item> \<open>Reorder_Iter\<close>: spilling to files, restoring, and the iterator over a transaction and its
    subtransactions. \<open>Reorder_Restore\<close>: files and memory hold the same changes before and after.
    \<open>Reorder_Order\<close>, \<open>Reorder_Init\<close>: the iterator against the lists that remain; \<open>Reorder_Props\<close>: the
    results. The loop of the caller has a bound on its turns; one more than the number of changes
    is enough.

  \<^bold>\<open>Locks.\<close>
  \<^item> \<open>Lock_Table\<close>, \<open>Lock_Acquire\<close>: the shared table of heavyweight locks, the wait queues, lock groups; all
    modes of the standard conflict table. \<open>Lock_Conflicts\<close>: masks as sets of modes, and the counting
    test for conflicts. \<open>Lock_Counts\<close>: the counters against the multiset of requests.
  \<^item> \<open>Lock_Inv\<close>, \<open>Lock_Wakeup\<close>, \<open>Lock_Entry\<close>: the invariant of one lock (\<open>entry_ok\<close>), with the wakeup loop, which
    establishes from any order of the queue that every waiter has to wait. \<open>Lock_Release\<close>,
    \<open>Lock_Release_All\<close>, \<open>Lock_Queue\<close>, \<open>Lock_Sleep\<close>, \<open>Lock_Acquire_Ok\<close>: each operation keeps the invariant of the
    table (\<open>table_ok\<close>). \<open>Lock_Props\<close>: the steps of the backends and the results. The guards of \<open>lock_step\<close> are
    what the local table of a backend ensures: it asks for a mode only while it does not hold it,
    releases in bulk only modes it has marked, and changes its group only without locks.

  \<^bold>\<open>Conventions.\<close> Integers keep their width where wrap-around can matter (xids, full xids, command
  ids, offsets, flags); counts and array indexes that the code bounds are \<open>nat\<close> or \<open>int\<close>. Errors are
  values: \<open>Inl\<close> with the error and, where the code goes on from it, the state left behind; \<open>None\<close>
  where a routine cannot go on. A loop whose end depends on shared data (the chain of parents)
  has \<open>None\<close> for not ending, and is proved to end. A section that holds a lock is one step.

  \<^bold>\<open>Not modelled.\<close> Storage and I/O: buffers, write-ahead log, the replacement of log pages. Memory
  contexts, resource owners and callbacks of transactions. COMMIT and ROLLBACK PREPARED, the
  extended query protocol and parallel workers in the block state machine; a statement that does
  not parse acts as one that raises an error. The storage of multixact members, which is a
  parameter. Registering and exporting snapshots, and "snapshot too old". Of the lock manager, the
  local tables, the fast path, prepared transactions, sleeping and signalling, and the search for
  deadlocks, of which the step on a lock, any reordering of its queue, is a step of the model. The encoding of spilled changes and the rest of logical decoding. Heap and index access
  methods, the query processor, catalogs, data types and client programs, which are far larger than
  this core, and the web application, which is not C.
\<close>

end
